(* ===== verification/Go_Prelude.thy ===== *)
theory Go_Prelude
  imports
    Main
    "HOL-Library.Multiset"
    "HOL-Library.Sublist"
    "HOL-Library.Char_ord"
    "HOL-Library.List_Lexorder"
begin

text \<open>
  The prelude of the development: the names of the model's basic types, the collections of
  simplification rules the component theories fill, and the parts of the Go standard library
  that the modelled packages call (\<open>encoding/hex\<close>, \<open>fmt\<close>'s decimal verb, \<open>strings\<close>), each with the
  lemmas its callers rely on.

  A Go \<open>string\<close> and a Go \<open>[]byte\<close> are both lists of bytes; Isabelle's \<open>char\<close> is a byte, so both
  are \<open>char list\<close>.
\<close>

type_synonym bytes = "char list"
type_synonym txid = string
type_synonym block_hash = string
type_synonym unix_ns = int

named_theorems status_defs \<open>the status constants of package models\<close>

section \<open>Lists, options and maps\<close>

lemma distinct_last_append:
  "xs \<noteq> [] \<Longrightarrow> last xs = x \<Longrightarrow> x \<in> set xs"
  by (metis last_in_set)

lemma filter_partition:
  assumes "xs = A @ B" and "\<And>x. x \<in> set A \<Longrightarrow> P x" and "\<And>x. x \<in> set B \<Longrightarrow> \<not> P x"
  shows "filter P xs = A" and "filter (\<lambda>x. \<not> P x) xs = B"
  using assms by (simp_all add: filter_id_conv filter_empty_conv)

lemma drop_suffix: "suffix (drop n xs) xs"
  by (rule suffix_drop)

lemma nth_update_swap_mset:
  "i < length xs \<Longrightarrow> j < length xs \<Longrightarrow> mset (xs[i := xs ! j, j := xs ! i]) = mset xs"
  by (rule mset_swap)

section \<open>Hexadecimal text\<close>

text \<open>The digit table of \<open>encoding/hex\<close> (lower case).\<close>

definition hextable :: string where
  "hextable = ''0123456789abcdef''"

definition hexdigit :: "nat \<Rightarrow> char" where
  "hexdigit n = hextable ! n"

text \<open>The value of a hexadecimal digit: lower and upper case are accepted, as in Go.\<close>

definition fromHexChar :: "char \<Rightarrow> nat option" where
  "fromHexChar c =
     (let n = of_char c in
      if 48 \<le> n \<and> n \<le> 57 then Some (n - 48)
      else if 97 \<le> n \<and> n \<le> 102 then Some (n - 97 + 10)
      else if 65 \<le> n \<and> n \<le> 70 then Some (n - 65 + 10)
      else None)"

text \<open>\<open>hex.EncodeToString\<close> and \<open>hex.DecodeString\<close>; \<open>None\<close> is the error return.\<close>

fun hex_encode :: "bytes \<Rightarrow> string" where
  "hex_encode [] = []"
| "hex_encode (b # bs) =
     hexdigit (of_char b div 16) # hexdigit (of_char b mod 16) # hex_encode bs"

fun hex_decode :: "string \<Rightarrow> bytes option" where
  "hex_decode [] = Some []"
| "hex_decode [c] = None"
| "hex_decode (c # d # cs) =
     (case (fromHexChar c, fromHexChar d, hex_decode cs) of
        (Some a, Some b, Some bs) \<Rightarrow> Some (char_of (16 * a + b) # bs)
      | _ \<Rightarrow> None)"

lemma hexdigit_in: "n < 16 \<Longrightarrow> hexdigit n \<in> set hextable"
  unfolding hexdigit_def by (rule nth_mem) (simp add: hextable_def)

lemma fromHexChar_hexdigit [simp]:
  assumes "n < 16"
  shows "fromHexChar (hexdigit n) = Some n"
proof -
  have "list_all (\<lambda>n. fromHexChar (hexdigit n) = Some n) [0..<16]"
    by code_simp
  with assms show ?thesis by (simp add: list_all_iff del: upt_rec_numeral)
qed

lemma of_char_less_256: "of_char c < (256::nat)"
  by (metis nat_of_char_less_256)

lemma hex_roundtrip [simp]: "hex_decode (hex_encode bs) = Some bs"
proof (induction bs)
  case Nil
  then show ?case by simp
next
  case (Cons b bs)
  have lt: "of_char b div 16 < (16::nat)"
    using of_char_less_256 [of b] by linarith
  have "char_of (16 * (of_char b div 16) + of_char b mod 16 :: nat) = b"
    by simp
  with Cons.IH lt show ?case by simp
qed

lemma hex_encode_no_quote: "c \<in> set (hex_encode bs) \<Longrightarrow> c \<in> set hextable"
proof (induction bs)
  case (Cons b bs)
  have "of_char b div 16 < (16::nat)" and "of_char b mod 16 < (16::nat)"
    using of_char_less_256 [of b] by linarith+
  then have "hexdigit (of_char b div 16) \<in> set hextable" "hexdigit (of_char b mod 16) \<in> set hextable"
    by (blast intro: hexdigit_in)+
  with Cons show ?case by auto
qed simp

lemma length_hex_encode [simp]: "length (hex_encode bs) = 2 * length bs"
  by (induction bs) auto

section \<open>Decimal text\<close>

fun dec :: "nat \<Rightarrow> string" where
  "dec n = (if n < 10 then [hexdigit n] else dec (n div 10) @ [hexdigit (n mod 10)])"

declare dec.simps [simp del]

section \<open>Package strings\<close>

text \<open>\<open>strings.Contains\<close>, \<open>strings.HasPrefix\<close> and \<open>strings.ToLower\<close> (on ASCII letters).\<close>

fun str_contains :: "string \<Rightarrow> string \<Rightarrow> bool" where
  "str_contains [] sub \<longleftrightarrow> sub = []"
| "str_contains (c # s) sub \<longleftrightarrow> prefix sub (c # s) \<or> str_contains s sub"

definition lower_char :: "char \<Rightarrow> char" where
  "lower_char c = (if of_char c \<ge> (65 :: nat) \<and> of_char c \<le> (90 :: nat) then char_of (of_char c + 32 :: nat) else c)"

definition str_lower :: "string \<Rightarrow> string" where
  "str_lower s = map lower_char s"

lemma str_contains_sublist: "str_contains s sub \<longleftrightarrow> (\<exists>pre post. s = pre @ sub @ post)"
proof (induction s)
  case (Cons c s)
  show ?case
  proof
    assume "str_contains (c # s) sub"
    then consider "prefix sub (c # s)" | "str_contains s sub" by auto
    then show "\<exists>pre post. c # s = pre @ sub @ post"
    proof cases
      case 1
      then show ?thesis by (metis append_Nil prefixE)
    next
      case 2
      then show ?thesis using Cons.IH by (metis append_Cons)
    qed
  next
    assume "\<exists>pre post. c # s = pre @ sub @ post"
    then obtain pre post where eq: "c # s = pre @ sub @ post" by blast
    show "str_contains (c # s) sub"
    proof (cases pre)
      case Nil
      then have "prefix sub (c # s)" using eq by (simp add: prefix_def)
      then show ?thesis by simp
    next
      case (Cons a pre')
      then show ?thesis using eq \<open>str_contains s sub \<longleftrightarrow> _\<close> by auto
    qed
  qed
qed auto

end
