(* ===== verification/Models.thy ===== *)
theory Models
  imports Go_Prelude
begin

text \<open>
  Package \<open>models\<close> (src/models): the hexadecimal byte strings of the JSON surface
  (\<open>HexBytes\<close>), the transaction statuses and the status lattice that every store applies
  (\<open>IsTerminal\<close>, \<open>DisallowedPreviousStatuses\<close>, \<open>CanTransitionFrom\<close>), the bounded history of
  orphaned anchors (\<open>AppendOrphanedAnchor\<close>) and the callback messages of the merkle service.
\<close>

section \<open>HexBytes\<close>

text \<open>A nil slice is \<open>None\<close>. \<open>MarshalJSON\<close> never fails; \<open>UnmarshalJSON\<close> fails (\<open>None\<close>) where
  \<open>hex.DecodeString\<close> does.\<close>

type_synonym hex_bytes = "bytes option"

definition MarshalJSON :: "hex_bytes \<Rightarrow> bytes" where
  "MarshalJSON h =
     (case h of None \<Rightarrow> ''null''
      | Some bs \<Rightarrow> [CHR 0x22] @ hex_encode bs @ [CHR 0x22])"

definition UnmarshalJSON :: "bytes \<Rightarrow> hex_bytes option" where
  "UnmarshalJSON data =
     (if data = ''null'' then Some None
      else let data' = (if length data \<ge> 2 \<and> hd data = CHR 0x22 \<and> last data = CHR 0x22
                        then butlast (tl data) else data)
           in map_option Some (hex_decode data'))"

section \<open>Statuses\<close>

type_synonym status = string

definition StatusUnknown :: status where [status_defs]: "StatusUnknown = ''UNKNOWN''"
definition StatusReceived :: status where [status_defs]: "StatusReceived = ''RECEIVED''"
definition StatusSentToNetwork :: status where [status_defs]: "StatusSentToNetwork = ''SENT_TO_NETWORK''"
definition StatusAcceptedByNetwork :: status where [status_defs]: "StatusAcceptedByNetwork = ''ACCEPTED_BY_NETWORK''"
definition StatusSeenOnNetwork :: status where [status_defs]: "StatusSeenOnNetwork = ''SEEN_ON_NETWORK''"
definition StatusSeenMultipleNodes :: status where [status_defs]: "StatusSeenMultipleNodes = ''SEEN_MULTIPLE_NODES''"
definition StatusDoubleSpendAttempted :: status where [status_defs]: "StatusDoubleSpendAttempted = ''DOUBLE_SPEND_ATTEMPTED''"
definition StatusRejected :: status where [status_defs]: "StatusRejected = ''REJECTED''"
definition StatusPendingRetry :: status where [status_defs]: "StatusPendingRetry = ''PENDING_RETRY''"
definition StatusStumpProcessing :: status where [status_defs]: "StatusStumpProcessing = ''STUMP_PROCESSING''"
definition StatusMined :: status where [status_defs]: "StatusMined = ''MINED''"
definition StatusImmutable :: status where [status_defs]: "StatusImmutable = ''IMMUTABLE''"

definition AllStatuses :: "status list" where
  "AllStatuses =
     [StatusUnknown, StatusReceived, StatusSentToNetwork,
      StatusAcceptedByNetwork, StatusSeenOnNetwork, StatusSeenMultipleNodes,
      StatusDoubleSpendAttempted, StatusRejected, StatusPendingRetry,
      StatusStumpProcessing, StatusMined, StatusImmutable]"

definition terminalStatuses :: "status list" where
  "terminalStatuses = [StatusRejected, StatusDoubleSpendAttempted, StatusMined, StatusImmutable]"

definition IsTerminal :: "status \<Rightarrow> bool" where
  "IsTerminal s \<longleftrightarrow> s \<in> set terminalStatuses"

definition NonTerminalStatuses :: "status list" where
  "NonTerminalStatuses =
     [StatusReceived, StatusSentToNetwork, StatusAcceptedByNetwork,
      StatusSeenOnNetwork, StatusSeenMultipleNodes,
      StatusPendingRetry, StatusStumpProcessing]"

definition DisallowedPreviousStatuses :: "status \<Rightarrow> status list" where
  "DisallowedPreviousStatuses s =
     (if s = StatusUnknown \<or> s = StatusReceived then
        [StatusSentToNetwork, StatusAcceptedByNetwork,
         StatusSeenOnNetwork, StatusSeenMultipleNodes,
         StatusPendingRetry, StatusStumpProcessing,
         StatusRejected, StatusDoubleSpendAttempted,
         StatusMined, StatusImmutable]
      else if s = StatusSentToNetwork then
        [StatusSentToNetwork, StatusAcceptedByNetwork,
         StatusSeenOnNetwork, StatusSeenMultipleNodes,
         StatusRejected, StatusDoubleSpendAttempted,
         StatusMined, StatusImmutable]
      else if s = StatusAcceptedByNetwork then
        [StatusAcceptedByNetwork,
         StatusSeenOnNetwork, StatusSeenMultipleNodes,
         StatusDoubleSpendAttempted,
         StatusMined, StatusImmutable]
      else if s = StatusSeenOnNetwork then
        [StatusSeenOnNetwork, StatusSeenMultipleNodes,
         StatusPendingRetry,
         StatusDoubleSpendAttempted,
         StatusMined, StatusImmutable]
      else if s = StatusSeenMultipleNodes then
        [StatusSeenMultipleNodes,
         StatusPendingRetry,
         StatusDoubleSpendAttempted,
         StatusMined, StatusImmutable]
      else if s = StatusPendingRetry then
        [StatusSeenOnNetwork, StatusSeenMultipleNodes,
         StatusRejected, StatusDoubleSpendAttempted,
         StatusMined, StatusImmutable]
      else if s = StatusStumpProcessing then
        [StatusRejected, StatusDoubleSpendAttempted,
         StatusMined, StatusImmutable]
      else if s = StatusRejected then
        [StatusSeenOnNetwork, StatusSeenMultipleNodes,
         StatusMined, StatusImmutable]
      else if s = StatusDoubleSpendAttempted then [StatusMined, StatusImmutable]
      else if s = StatusMined then [StatusImmutable]
      else [])"

definition CanTransitionFrom :: "status \<Rightarrow> status \<Rightarrow> bool" where
  "CanTransitionFrom s prev \<longleftrightarrow>
     prev = [] \<or> prev = s \<or> prev \<notin> set (DisallowedPreviousStatuses s)"

section \<open>Orphaned anchors\<close>

record orphaned_anchor =
  oa_BlockHash :: block_hash
  oa_BlockHeight :: nat
  oa_OrphanedAt :: unix_ns
  oa_MerklePath :: hex_bytes

definition MaxOrphanedAnchors :: nat where
  "MaxOrphanedAnchors = 5"

definition AppendOrphanedAnchor ::
    "orphaned_anchor list \<Rightarrow> orphaned_anchor \<Rightarrow> orphaned_anchor list" where
  "AppendOrphanedAnchor history anchor =
     (if oa_BlockHash anchor = [] then history
      else if history \<noteq> [] \<and> oa_BlockHash (last history) = oa_BlockHash anchor then history
      else let history' = history @ [anchor]
           in if length history' > MaxOrphanedAnchors
              then drop (length history' - MaxOrphanedAnchors) history'
              else history')"

section \<open>Transaction rows and submissions\<close>

text \<open>A Go \<open>time.Time\<close> is its \<open>UnixNano\<close>, and the zero time, like a nil pointer to a time, is \<open>None\<close>.\<close>

record transaction_status =
  ts_TxID :: txid
  ts_Status :: status
  ts_StatusCode :: int
  ts_Timestamp :: "unix_ns option"
  ts_TxIDs :: "txid list"
  ts_BlockHash :: block_hash
  ts_BlockHeight :: nat
  ts_MerklePath :: bytes
  ts_ExtraInfo :: string
  ts_CompetingTxs :: "txid list"
  ts_RawTx :: bytes
  ts_RetryCount :: int
  ts_NextRetryAt :: "unix_ns option"
  ts_CreatedAt :: "unix_ns option"
  ts_OrphanedProofs :: "orphaned_anchor list"
  ts_MerkleRegisteredAt :: "unix_ns option"

definition empty_status :: transaction_status where
  "empty_status = \<lparr>ts_TxID = [], ts_Status = [], ts_StatusCode = 0, ts_Timestamp = None, ts_TxIDs = [],
     ts_BlockHash = [], ts_BlockHeight = 0, ts_MerklePath = [], ts_ExtraInfo = [], ts_CompetingTxs = [],
     ts_RawTx = [], ts_RetryCount = 0, ts_NextRetryAt = None, ts_CreatedAt = None, ts_OrphanedProofs = [],
     ts_MerkleRegisteredAt = None\<rparr>"

record submission =
  sb_SubmissionID :: string
  sb_TxID :: txid
  sb_CallbackURL :: string
  sb_CallbackToken :: string
  sb_FullStatusUpdates :: bool
  sb_LastDeliveredStatus :: status
  sb_RetryCount :: int
  sb_NextRetryAt :: "unix_ns option"
  sb_Attempts :: int
  sb_LastAttemptAt :: "unix_ns option"
  sb_LastResult :: string
  sb_CreatedAt :: "unix_ns option"

section \<open>Callback messages, STUMPs and block rows\<close>

record callback_message =
  cb_Type :: string
  cb_TxID :: txid
  cb_TxIDs :: "txid list"
  cb_BlockHash :: block_hash
  cb_SubtreeIndex :: int
  cb_Stump :: bytes
  cb_MerkleRoot :: string
  cb_SubtreeCount :: int
  cb_SubtreeHashes :: "string list"
  cb_CoinbaseBUMP :: bytes
  cb_ExpectedSubtreeIndices :: "int list"

definition ResolveSeenTxIDs :: "callback_message \<Rightarrow> txid list" where
  "ResolveSeenTxIDs msg =
     (if cb_TxIDs msg \<noteq> [] then cb_TxIDs msg else if cb_TxID msg \<noteq> [] then [cb_TxID msg] else [])"

record stump =
  st_BlockHash :: block_hash
  st_SubtreeIndex :: int
  st_StumpData :: bytes
  st_ContentHash :: string

text \<open>\<open>sha256\<close> is the digest function of the standard library, as a parameter.\<close>

definition StumpContentHash :: "(bytes \<Rightarrow> bytes) \<Rightarrow> bytes \<Rightarrow> string" where
  "StumpContentHash sha256 data = hex_encode (sha256 data)"

definition NewStump :: "(bytes \<Rightarrow> bytes) \<Rightarrow> block_hash \<Rightarrow> int \<Rightarrow> bytes \<Rightarrow> stump" where
  "NewStump sha256 blockHash subtreeIndex data =
     \<lparr>st_BlockHash = blockHash, st_SubtreeIndex = subtreeIndex, st_StumpData = data,
      st_ContentHash = StumpContentHash sha256 data\<rparr>"

definition EnsureContentHash :: "(bytes \<Rightarrow> bytes) \<Rightarrow> stump \<Rightarrow> string \<times> stump" where
  "EnsureContentHash sha256 s =
     (let s' = (if st_ContentHash s = [] then s\<lparr>st_ContentHash := StumpContentHash sha256 (st_StumpData s)\<rparr> else s)
      in (st_ContentHash s', s'))"

type_synonym block_status = string

definition BlockStatusActive :: block_status where "BlockStatusActive = ''active''"
definition BlockStatusOrphaned :: block_status where "BlockStatusOrphaned = ''orphaned''"
definition BlockStatusParked :: block_status where "BlockStatusParked = ''parked''"

lemma block_status_neqs [simp]:
  "BlockStatusActive \<noteq> BlockStatusOrphaned" "BlockStatusOrphaned \<noteq> BlockStatusActive"
  "BlockStatusActive \<noteq> BlockStatusParked" "BlockStatusParked \<noteq> BlockStatusActive"
  "BlockStatusOrphaned \<noteq> BlockStatusParked" "BlockStatusParked \<noteq> BlockStatusOrphaned"
  "BlockStatusActive \<noteq> []" "BlockStatusOrphaned \<noteq> []" "BlockStatusParked \<noteq> []"
  by (simp_all add: BlockStatusActive_def BlockStatusOrphaned_def BlockStatusParked_def)

record block_processing_status =
  bp_BlockHash :: block_hash
  bp_BlockHeight :: nat
  bp_HeaderSeenAt :: "unix_ns option"
  bp_ProcessedAt :: "unix_ns option"
  bp_BUMPBuiltAt :: "unix_ns option"
  bp_Status :: block_status
  bp_OrphanedAt :: "unix_ns option"
  bp_ReconciledAt :: "unix_ns option"

text \<open>The zero time is \<open>None\<close>.\<close>

definition OrphanGeneration :: "block_processing_status option \<Rightarrow> unix_ns option" where
  "OrphanGeneration b = (case b of None \<Rightarrow> None | Some r \<Rightarrow> bp_OrphanedAt r)"

section \<open>Facts about the status lattice\<close>

lemma CanTransitionFrom_refl [simp]: "CanTransitionFrom s s"
  by (simp add: CanTransitionFrom_def)

lemma CanTransitionFrom_Nil [simp]: "CanTransitionFrom s []"
  by (simp add: CanTransitionFrom_def)

lemma status_distinct: "distinct (AllStatuses @ [[]])"
  by code_simp

lemma status_distinct_rev: "distinct (rev (AllStatuses @ [[]]))"
  using status_distinct by (simp only: distinct_rev)

lemmas status_neqs [simp] =
  status_distinct [unfolded AllStatuses_def, simplified]
  status_distinct_rev [unfolded AllStatuses_def, simplified]

lemmas lattice_defs = CanTransitionFrom_def DisallowedPreviousStatuses_def

lemma AllStatuses_cases:
  assumes "s \<in> set AllStatuses"
  obtains "s = StatusUnknown" | "s = StatusReceived" | "s = StatusSentToNetwork"
    | "s = StatusAcceptedByNetwork" | "s = StatusSeenOnNetwork" | "s = StatusSeenMultipleNodes"
    | "s = StatusDoubleSpendAttempted" | "s = StatusRejected" | "s = StatusPendingRetry"
    | "s = StatusStumpProcessing" | "s = StatusMined" | "s = StatusImmutable"
  using assms by (auto simp: AllStatuses_def)

lemma IsTerminal_cases:
  assumes "IsTerminal s"
  obtains "s = StatusRejected" | "s = StatusDoubleSpendAttempted" | "s = StatusMined" | "s = StatusImmutable"
  using assms by (auto simp: IsTerminal_def terminalStatuses_def)

lemma mined_exits:
  assumes "s \<in> set AllStatuses"
  shows "CanTransitionFrom s StatusMined \<longleftrightarrow> s = StatusMined \<or> s = StatusImmutable"
  using assms by (cases rule: AllStatuses_cases) (simp_all add: lattice_defs)

lemma immutable_exits:
  assumes "s \<in> set AllStatuses"
  shows "CanTransitionFrom s StatusImmutable \<longleftrightarrow> s = StatusImmutable"
  using assms by (cases rule: AllStatuses_cases) (simp_all add: lattice_defs)

text \<open>The guarded write every store performs on a row's status: the requested status is
  stored when the lattice allows it and the row keeps its status otherwise.\<close>

definition guarded :: "status \<Rightarrow> status \<Rightarrow> status" where
  "guarded prev s = (if CanTransitionFrom s prev then s else prev)"

text \<open>A status lattice as the stores use it: a set of states that no guarded write leaves.\<close>

locale guarded_writes =
  fixes allowed :: "'s \<Rightarrow> 's \<Rightarrow> bool"  \<comment> \<open>\<open>allowed new prev\<close>\<close>
    and dom_ok :: "'s set"  \<comment> \<open>the statuses writers use\<close>
    and sink :: "'s set"
  assumes sink_closed: "prev \<in> sink \<Longrightarrow> s \<in> dom_ok \<Longrightarrow> allowed s prev \<Longrightarrow> s \<in> sink"
begin

lemma write_stays:
  "prev \<in> sink \<Longrightarrow> s \<in> dom_ok \<Longrightarrow> (if allowed s prev then s else prev) \<in> sink"
  by (simp add: sink_closed)

lemma writes_stay:
  "prev \<in> sink \<Longrightarrow> set ss \<subseteq> dom_ok \<Longrightarrow>
     foldl (\<lambda>p s. if allowed s p then s else p) prev ss \<in> sink"
  by (induction ss arbitrary: prev) (auto simp: sink_closed)

end

interpretation confirmed: guarded_writes CanTransitionFrom "set AllStatuses" "{StatusMined, StatusImmutable}"
  by unfold_locales (auto simp: mined_exits immutable_exits)

interpretation immutable: guarded_writes CanTransitionFrom "set AllStatuses" "{StatusImmutable}"
  by unfold_locales (auto simp: immutable_exits)

text \<open>
  The exact set of transitions the lattice allows out of a terminal status. MINED leaves
  only to IMMUTABLE and IMMUTABLE never; REJECTED and DOUBLE_SPEND_ATTEMPTED have further exits.
\<close>

theorem terminal_exits:
  assumes "s \<in> set AllStatuses" and "IsTerminal prev" and "s \<noteq> prev"
  shows "CanTransitionFrom s prev \<longleftrightarrow>
      (prev = StatusMined \<and> s = StatusImmutable) \<or>
      (prev = StatusRejected \<and>
         s \<in> {StatusAcceptedByNetwork, StatusSeenOnNetwork, StatusSeenMultipleNodes,
              StatusDoubleSpendAttempted, StatusMined, StatusImmutable}) \<or>
      (prev = StatusDoubleSpendAttempted \<and> s \<in> {StatusRejected, StatusMined, StatusImmutable})"
proof -
  from assms(2) show ?thesis
  proof (cases rule: IsTerminal_cases)
    case 1
    from assms(1) show ?thesis
      using assms(3) 1 by (cases rule: AllStatuses_cases) (simp_all add: lattice_defs)
  next
    case 2
    from assms(1) show ?thesis
      using assms(3) 2 by (cases rule: AllStatuses_cases) (simp_all add: lattice_defs)
  next
    case 3
    with mined_exits [OF assms(1)] assms(3) show ?thesis by simp
  next
    case 4
    with immutable_exits [OF assms(1)] assms(3) show ?thesis by simp
  qed
qed

theorem terminal_exits_witness:
  "CanTransitionFrom StatusSeenOnNetwork StatusRejected"
  by (subst terminal_exits) (auto simp: AllStatuses_def IsTerminal_def terminalStatuses_def)

text \<open>
  A transaction that is MINED or IMMUTABLE stays so under any sequence of guarded status
  writes, whatever statuses (of the defined ones) the writers ask for and in whatever order.
\<close>

theorem confirmed_stays:
  assumes "prev \<in> {StatusMined, StatusImmutable}" and "set ss \<subseteq> set AllStatuses"
  shows "foldl guarded prev ss \<in> {StatusMined, StatusImmutable}"
  using confirmed.writes_stay [OF assms] by (simp add: guarded_def [abs_def])

theorem confirmed_stays_witness:
  "foldl guarded StatusMined [StatusSeenOnNetwork, StatusRejected, StatusImmutable, StatusMined]
     \<in> {StatusMined, StatusImmutable}"
  by (rule confirmed_stays) (auto simp: AllStatuses_def)

section \<open>Facts about HexBytes\<close>

text \<open>
  Decoding the JSON encoding of a byte string gives the byte string back, a nil slice
  included.
\<close>

theorem hexbytes_roundtrip: "UnmarshalJSON (MarshalJSON h) = Some h"
  by (cases h) (auto simp: UnmarshalJSON_def MarshalJSON_def Let_def)

section \<open>Facts about the orphaned-anchor history\<close>

definition anchors_wf :: "orphaned_anchor list \<Rightarrow> bool" where
  "anchors_wf h \<longleftrightarrow> length h \<le> MaxOrphanedAnchors \<and>
     (\<forall>a \<in> set h. oa_BlockHash a \<noteq> []) \<and>
     (\<forall>i. Suc i < length h \<longrightarrow> oa_BlockHash (h ! i) \<noteq> oa_BlockHash (h ! Suc i))"

lemma anchors_wf_snoc:
  assumes "anchors_wf h" and "oa_BlockHash a \<noteq> []"
    and "h \<noteq> [] \<Longrightarrow> oa_BlockHash (last h) \<noteq> oa_BlockHash a"
  shows "(\<forall>x \<in> set (h @ [a]). oa_BlockHash x \<noteq> []) \<and>
     (\<forall>i. Suc i < length (h @ [a]) \<longrightarrow>
        oa_BlockHash ((h @ [a]) ! i) \<noteq> oa_BlockHash ((h @ [a]) ! Suc i))"
proof (intro conjI allI impI)
  show "\<forall>x \<in> set (h @ [a]). oa_BlockHash x \<noteq> []"
    using assms(1,2) by (auto simp: anchors_wf_def)
next
  fix i
  assume i: "Suc i < length (h @ [a])"
  show "oa_BlockHash ((h @ [a]) ! i) \<noteq> oa_BlockHash ((h @ [a]) ! Suc i)"
  proof (cases "Suc i < length h")
    case True
    with assms(1) show ?thesis by (simp add: anchors_wf_def nth_append)
  next
    case False
    with i have eq: "Suc i = length h" by simp
    then have "h \<noteq> []" by auto
    moreover from this eq have "h ! i = last h" by (metis diff_Suc_1 last_conv_nth)
    ultimately show ?thesis using assms(3) eq by (simp add: nth_append)
  qed
qed

text \<open>
  Appending to the orphaned-anchor history keeps it bounded by \<open>MaxOrphanedAnchors\<close> and free
  of empty and of consecutive equal block hashes; the new anchor's block is the last entry and
  everything else is a suffix of the old history.
\<close>

theorem AppendOrphanedAnchor_wf:
  assumes wf: "anchors_wf h" and ne: "oa_BlockHash a \<noteq> []"
  shows "anchors_wf (AppendOrphanedAnchor h a) \<and>
     AppendOrphanedAnchor h a \<noteq> [] \<and>
     oa_BlockHash (last (AppendOrphanedAnchor h a)) = oa_BlockHash a \<and>
     (AppendOrphanedAnchor h a = h \<or> suffix (AppendOrphanedAnchor h a) (h @ [a]))"
proof (cases "h \<noteq> [] \<and> oa_BlockHash (last h) = oa_BlockHash a")
  case True
  with wf ne show ?thesis by (simp add: AppendOrphanedAnchor_def)
next
  case False
  define k where "k = length (h @ [a]) - MaxOrphanedAnchors"
  have app: "AppendOrphanedAnchor h a = drop k (h @ [a])"
    using False ne by (auto simp: AppendOrphanedAnchor_def Let_def k_def)
  have k: "k < length (h @ [a])"
    using wf by (simp add: k_def MaxOrphanedAnchors_def)
  define g where "g = h @ [a]"
  have g: "\<forall>x \<in> set g. oa_BlockHash x \<noteq> []"
    "\<forall>i. Suc i < length g \<longrightarrow> oa_BlockHash (g ! i) \<noteq> oa_BlockHash (g ! Suc i)"
    using anchors_wf_snoc [OF wf ne] False by (auto simp: g_def)
  have "anchors_wf (drop k g)"
    using g k by (auto simp: anchors_wf_def g_def [symmetric] k_def MaxOrphanedAnchors_def
        dest: in_set_dropD)
  then have "anchors_wf (drop k (h @ [a]))" by (simp only: g_def)
  moreover have "suffix (drop k (h @ [a])) (h @ [a])" by (rule suffix_drop)
  moreover have "last (drop k (h @ [a])) = a" using k by (simp add: last_drop del: drop_append)
  ultimately show ?thesis
    using k unfolding app by (auto simp del: drop_append suffix_snoc)
qed

theorem AppendOrphanedAnchor_wf_witness:
  "anchors_wf (AppendOrphanedAnchor []
     \<lparr>oa_BlockHash = ''b'', oa_BlockHeight = 1, oa_OrphanedAt = 2, oa_MerklePath = None\<rparr>)"
  using AppendOrphanedAnchor_wf
    [of "[]" "\<lparr>oa_BlockHash = ''b'', oa_BlockHeight = 1, oa_OrphanedAt = 2, oa_MerklePath = None\<rparr>"]
  by (simp add: anchors_wf_def)

end
