(* ===== verification/Chunking.thy ===== *)
theory Chunking
  imports Go_Prelude
begin

text \<open>
  Slicing of a broadcast batch into chunks (src/services/propagation/chunking.go). The
  concurrent writers of \<open>broadcastInChunks\<close> share one results slice without a lock, so the spans
  have to be disjoint, non-empty and cover the batch.
\<close>

type_synonym chunkSpan = "nat \<times> nat"

definition spanFull :: "nat \<Rightarrow> nat \<Rightarrow> nat \<Rightarrow> int \<Rightarrow> int \<Rightarrow> bool" where
  "spanFull cnt bytes nxt maxCount maxBytes \<longleftrightarrow>
     (maxCount > 0 \<and> int cnt \<ge> maxCount) \<or> (maxBytes > 0 \<and> int (bytes + nxt) > maxBytes)"

primrec rawTxsBytes :: "bytes list \<Rightarrow> nat" where
  "rawTxsBytes [] = 0"
| "rawTxsBytes (tx # txs) = length tx + rawTxsBytes txs"

text \<open>The \<open>range\<close> loop at index \<open>i\<close>: \<open>spans\<close> so far, the open span's \<open>start\<close> and byte count.\<close>

fun plan_loop :: "int \<Rightarrow> int \<Rightarrow> nat \<Rightarrow> bytes list \<Rightarrow> chunkSpan list \<times> nat \<times> nat \<Rightarrow> chunkSpan list \<times> nat \<times> nat" where
  "plan_loop maxCount maxBytes i [] st = st"
| "plan_loop maxCount maxBytes i (tx # txs) (spans, start, bytes) =
     (let n = length tx;
          cnt = i - start;
          (spans, start, bytes) =
            (if cnt > 0 \<and> spanFull cnt bytes n maxCount maxBytes
             then (spans @ [(start, i)], i, 0) else (spans, start, bytes))
      in plan_loop maxCount maxBytes (i + 1) txs (spans, start, bytes + n))"

definition planChunks :: "bytes list \<Rightarrow> int \<Rightarrow> int \<Rightarrow> chunkSpan list" where
  "planChunks rawTxs maxCount maxBytes =
     (if rawTxs = [] then []
      else let (spans, start, bytes) = plan_loop maxCount maxBytes 0 rawTxs ([], 0, 0)
           in spans @ [(start, length rawTxs)])"

text \<open>\<open>xs[start:end]\<close>\<close>

definition span_of :: "'a list \<Rightarrow> chunkSpan \<Rightarrow> 'a list" where
  "span_of xs s = take (snd s - fst s) (drop (fst s) xs)"

text \<open>Spans that are non-empty and contiguous from \<open>a\<close> to \<open>b\<close>.\<close>

fun tiles :: "nat \<Rightarrow> chunkSpan list \<Rightarrow> nat \<Rightarrow> bool" where
  "tiles a [] b \<longleftrightarrow> a = b"
| "tiles a ((s, e) # r) b \<longleftrightarrow> s = a \<and> s < e \<and> tiles e r b"

definition span_ok :: "bytes list \<Rightarrow> int \<Rightarrow> int \<Rightarrow> chunkSpan \<Rightarrow> bool" where
  "span_ok txs maxCount maxBytes s \<longleftrightarrow>
     (maxCount > 0 \<longrightarrow> int (snd s - fst s) \<le> maxCount) \<and>
     (maxBytes > 0 \<longrightarrow> snd s - fst s = 1 \<or> int (rawTxsBytes (span_of txs s)) \<le> maxBytes)"

lemma tiles_snoc: "tiles a (ss @ [(s, e)]) b \<longleftrightarrow> tiles a ss s \<and> s < e \<and> e = b"
  by (induction a ss s rule: tiles.induct) auto

lemma tiles_le: "tiles a ss b \<Longrightarrow> a \<le> b"
  by (induction a ss b rule: tiles.induct) auto

lemma span_of_app: "e \<le> length xs \<Longrightarrow> s \<le> e \<Longrightarrow> span_of (xs @ ys) (s, e) = span_of xs (s, e)"
  by (simp add: span_of_def)

lemma span_of_snoc: "s \<le> length xs \<Longrightarrow> span_of (xs @ [x]) (s, Suc (length xs)) = span_of xs (s, length xs) @ [x]"
  by (simp add: span_of_def Suc_diff_le)

lemma rawTxsBytes_append [simp]: "rawTxsBytes (a @ b) = rawTxsBytes a + rawTxsBytes b"
  by (induction a) auto

text \<open>
  The loop invariant after the transactions \<open>pre\<close>: closed spans tile up to \<open>start\<close>, and the open
  span holds \<open>bytes\<close> bytes and respects both caps.
\<close>

definition plan_inv :: "int \<Rightarrow> int \<Rightarrow> bytes list \<Rightarrow> chunkSpan list \<times> nat \<times> nat \<Rightarrow> bool" where
  "plan_inv maxCount maxBytes pre st \<longleftrightarrow>
     (case st of (spans, start, bytes) \<Rightarrow>
        tiles 0 spans start \<and> (\<forall>s\<in>set spans. snd s \<le> length pre \<and> fst s \<le> snd s \<and> span_ok pre maxCount maxBytes s) \<and>
        (if pre = [] then start = 0 else start < length pre) \<and>
        bytes = rawTxsBytes (span_of pre (start, length pre)) \<and>
        (pre \<noteq> [] \<longrightarrow> span_ok pre maxCount maxBytes (start, length pre)))"

lemma span_ok_app:
  "snd s \<le> length xs \<Longrightarrow> fst s \<le> snd s \<Longrightarrow> span_ok (xs @ ys) a b s = span_ok xs a b s"
  by (cases s) (simp add: span_ok_def span_of_app)

lemma plan_step:
  fixes tx :: bytes
  assumes "plan_inv mc mb pre (spans, start, bytes)"
  defines "cuts \<equiv> length pre - start > 0 \<and> spanFull (length pre - start) bytes (length tx) mc mb"
  shows "plan_inv mc mb (pre @ [tx])
    (if cuts then (spans @ [(start, length pre)], length pre, length tx) else (spans, start, bytes + length tx))"
proof (cases cuts)
  case True
  with assms show ?thesis
    by (auto simp: plan_inv_def tiles_snoc span_ok_app span_of_snoc span_ok_def [of _ _ _ "(length pre, _)"]
        split: if_splits) (auto simp: span_of_def)
next
  case False
  have st: "start \<le> length pre" using assms(1) by (auto simp: plan_inv_def split: if_splits)
  have "span_ok (pre @ [tx]) mc mb (start, Suc (length pre))"
    using False assms(1) st
    by (auto simp: cuts_def plan_inv_def span_ok_def span_of_snoc spanFull_def split: if_splits)
  then show ?thesis
    using False assms(1) st by (auto simp: plan_inv_def span_of_snoc span_ok_app split: if_splits)
qed

lemma plan_loop_inv:
  assumes "plan_inv mc mb pre (spans, start, bytes)"
  shows "plan_inv mc mb (pre @ txs) (plan_loop mc mb (length pre) txs (spans, start, bytes))"
  using assms
proof (induction txs arbitrary: pre spans start bytes)
  case (Cons tx txs)
  from Cons.IH [of "pre @ [tx]"] plan_step [OF Cons.prems, of tx] show ?case
    by (auto simp: Let_def split: if_splits)
qed simp

lemma planChunks_plan:
  "tiles 0 (planChunks txs maxCount maxBytes) (length txs) \<and>
   (\<forall>s \<in> set (planChunks txs maxCount maxBytes). span_ok txs maxCount maxBytes s)"
proof (cases "txs = []")
  case False
  obtain spans start bytes where pl: "plan_loop maxCount maxBytes 0 txs ([], 0, 0) = (spans, start, bytes)"
    by (metis prod_cases3)
  have "plan_inv maxCount maxBytes [] ([], 0, 0)"
    by (simp add: plan_inv_def span_of_def)
  from plan_loop_inv [OF this, of txs] pl False show ?thesis
    by (auto simp: plan_inv_def planChunks_def tiles_snoc)
qed (simp add: planChunks_def)

lemma tiles_concat:
  "tiles a ss b \<Longrightarrow> b \<le> length xs \<Longrightarrow> concat (map (span_of xs) ss) = span_of xs (a, b)"
proof (induction a ss b rule: tiles.induct)
  case (2 a s e r b)
  then have st: "s = a" "a < e" "tiles e r b" by auto
  from tiles_le [OF st(3)] have "e \<le> b" .
  then have "take (b - a) (drop a xs) = take (e - a) (drop a xs) @ take (b - e) (drop (e - a) (drop a xs))"
    using st(2) take_add [of "e - a" "b - e" "drop a xs"] by simp
  then show ?case using 2 st by (simp add: span_of_def)
qed (simp add: span_of_def)

text \<open>
  \<open>planChunks\<close> cuts a non-empty batch into contiguous, non-empty spans that tile
  \<open>[0, len)\<close>: each holds at most \<open>maxCount\<close> transactions, and at most \<open>maxBytes\<close> bytes unless it
  is a single oversized transaction; an empty batch has no span.
\<close>

theorem planChunks_correct:
  "tiles 0 (planChunks txs maxCount maxBytes) (length txs) \<and>
   (\<forall>s \<in> set (planChunks txs maxCount maxBytes). span_ok txs maxCount maxBytes s)"
  by (rule planChunks_plan)

theorem planChunks_correct_witness:
  "planChunks [''ab'', ''cde'', ''f''] 2 4 = [(0, 1), (1, 3)] \<and>
   list_all (span_ok [''ab'', ''cde'', ''f''] 2 4) (planChunks [''ab'', ''cde'', ''f''] 2 4)"
  using planChunks_correct [of "[''ab'', ''cde'', ''f'']" 2 4]
  by (simp add: planChunks_def spanFull_def Let_def)

end
