(* ===== verification/Go_Heap.thy ===== *)
theory Go_Heap
  imports Go_Prelude
begin

text \<open>
  The part of Go's \<open>container/heap\<close> that \<open>offsetMinHeap\<close> (src/services/propagation/offset_tracker.go)
  instantiates: \<open>up\<close>, \<open>down\<close>, \<open>Push\<close> and \<open>Pop\<close> over a slice of \<open>int64\<close> offsets with
  \<open>Less i j = h[i] < h[j]\<close>. The slice is a list, index reads are in range by the guards of the
  library code, and \<open>(j-1)/2\<close> at \<open>j = 0\<close> is \<open>0\<close> on both sides (Go truncates, \<open>nat\<close> stops at 0).
\<close>

section \<open>The sifting loops\<close>

definition heap_swap :: "'a list \<Rightarrow> nat \<Rightarrow> nat \<Rightarrow> 'a list" where
  "heap_swap h i j = h[i := h ! j, j := h ! i]"

function heap_up :: "int list \<Rightarrow> nat \<Rightarrow> int list" where
  "heap_up h j =
     (let i = (j - 1) div 2 in
      if i = j \<or> \<not> h ! j < h ! i then h else heap_up (heap_swap h i j) i)"
  by pat_completeness auto
termination
  by (relation "measure snd") auto

definition least_child :: "int list \<Rightarrow> nat \<Rightarrow> nat \<Rightarrow> nat" where
  "least_child h i n =
     (let j1 = 2 * i + 1 in if j1 + 1 < n \<and> h ! (j1 + 1) < h ! j1 then j1 + 1 else j1)"

function heap_down :: "int list \<Rightarrow> nat \<Rightarrow> nat \<Rightarrow> int list" where
  "heap_down h i n =
     (if 2 * i + 1 \<ge> n then h
      else let j = least_child h i n in
           if \<not> h ! j < h ! i then h else heap_down (heap_swap h i j) j n)"
  by pat_completeness auto
termination
  by (relation "measure (\<lambda>(h, i, n). n - i)") (auto simp: least_child_def Let_def split: if_splits)

declare heap_up.simps [simp del] heap_down.simps [simp del]

definition heap_Push :: "int list \<Rightarrow> int \<Rightarrow> int list" where
  "heap_Push h x = heap_up (h @ [x]) (length h)"

definition heap_Pop :: "int list \<Rightarrow> int \<times> int list" where
  "heap_Pop h =
     (let n = length h - 1; h' = heap_down (heap_swap h 0 n) 0 n
      in (h' ! n, take n h'))"

section \<open>The heap order\<close>

definition heap_parent :: "nat \<Rightarrow> nat" where
  "heap_parent k = (k - 1) div 2"

definition is_heap :: "int list \<Rightarrow> bool" where
  "is_heap h \<longleftrightarrow> (\<forall>k. 0 < k \<and> k < length h \<longrightarrow> h ! heap_parent k \<le> h ! k)"

lemma parent_less: "0 < k \<Longrightarrow> heap_parent k < k"
  by (simp add: heap_parent_def)

lemma parent_cases: "0 < k \<Longrightarrow> heap_parent k = i \<longleftrightarrow> k = 2 * i + 1 \<or> k = 2 * i + 2"
  by (auto simp: heap_parent_def)

lemma length_swap [simp]: "length (heap_swap h i j) = length h"
  by (simp add: heap_swap_def)

lemma mset_swap' [simp]: "i < length h \<Longrightarrow> j < length h \<Longrightarrow> mset (heap_swap h i j) = mset h"
  by (simp add: heap_swap_def mset_swap)

lemma nth_swap:
  "i < length h \<Longrightarrow> j < length h \<Longrightarrow> k < length h \<Longrightarrow>
     heap_swap h i j ! k = (if k = j then h ! i else if k = i then h ! j else h ! k)"
  by (auto simp: heap_swap_def nth_list_update)

lemma mset_heap_up [simp]: "j < length h \<Longrightarrow> mset (heap_up h j) = mset h"
proof (induction h j rule: heap_up.induct)
  case (1 h j)
  then show ?case
    by (subst heap_up.simps) (auto simp: Let_def)
qed

lemma length_heap_up [simp]: "j < length h \<Longrightarrow> length (heap_up h j) = length h"
  by (metis mset_heap_up size_mset)

lemma least_child_bounds:
  "\<not> 2 * i + 1 \<ge> n \<Longrightarrow> i < least_child h i n \<and> least_child h i n < n \<and> heap_parent (least_child h i n) = i"
  by (auto simp: least_child_def heap_parent_def Let_def)

lemma least_child_le:
  "0 < c \<Longrightarrow> c < n \<Longrightarrow> heap_parent c = i \<Longrightarrow> h ! least_child h i n \<le> h ! c"
  by (auto simp: least_child_def parent_cases Let_def)

lemma heap_down_leaf: "2 * i + 1 \<ge> n \<Longrightarrow> heap_down h i n = h"
  by (simp add: heap_down.simps)

lemma heap_down_stop: "\<not> h ! least_child h i n < h ! i \<Longrightarrow> heap_down h i n = h"
  by (simp add: heap_down.simps Let_def)

lemma heap_down_step:
  "\<not> 2 * i + 1 \<ge> n \<Longrightarrow> h ! least_child h i n < h ! i \<Longrightarrow>
     heap_down h i n = heap_down (heap_swap h i (least_child h i n)) (least_child h i n) n"
  by (simp add: heap_down.simps [of h i] Let_def)

lemma mset_heap_down [simp]: "i < length h \<Longrightarrow> n \<le> length h \<Longrightarrow> mset (heap_down h i n) = mset h"
proof (induction h i n rule: heap_down.induct)
  case (1 h i n)
  show ?case
  proof (cases "2 * i + 1 \<ge> n \<or> \<not> h ! least_child h i n < h ! i")
    case True
    then show ?thesis by (auto simp: heap_down_leaf heap_down_stop)
  next
    case False
    with 1 least_child_bounds [of n i h] show ?thesis by (simp add: heap_down_step)
  qed
qed

lemma length_heap_down [simp]: "i < length h \<Longrightarrow> n \<le> length h \<Longrightarrow> length (heap_down h i n) = length h"
  by (metis mset_heap_down size_mset)

text \<open>\<open>up\<close> repairs a heap whose only violation is between index \<open>j\<close> and its parent.\<close>

lemma is_heap_up:
  assumes "j < length h"
    and "\<And>k. 0 < k \<Longrightarrow> k < length h \<Longrightarrow> k \<noteq> j \<Longrightarrow> h ! heap_parent k \<le> h ! k"
    and "\<And>k. 0 < j \<Longrightarrow> 0 < k \<Longrightarrow> k < length h \<Longrightarrow> heap_parent k = j \<Longrightarrow> h ! heap_parent j \<le> h ! k"
  shows "is_heap (heap_up h j)"
  using assms
proof (induction h j rule: heap_up.induct)
  case (1 h j)
  define i where "i = (j - 1) div 2"
  have ip: "i = heap_parent j" by (simp add: i_def heap_parent_def)
  show ?case
  proof (cases "i = j \<or> \<not> h ! j < h ! i")
    case True
    then have "heap_up h j = h"
      by (subst heap_up.simps) (simp add: Let_def i_def)
    moreover have "is_heap h"
      unfolding is_heap_def
    proof (intro allI impI)
      fix k assume k: "0 < k \<and> k < length h"
      show "h ! heap_parent k \<le> h ! k"
      proof (cases "k = j")
        case True
        with k parent_less [of j] ip have "i \<noteq> j" by auto
        with \<open>i = j \<or> \<not> h ! j < h ! i\<close> True ip show ?thesis by auto
      next
        case False
        with k "1.prems"(2) show ?thesis by blast
      qed
    qed
    ultimately show ?thesis by simp
  next
    case False
    then have ne: "i \<noteq> j" and lt: "h ! j < h ! i" by auto
    then have j0: "0 < j" by (auto simp: i_def)
    with ip parent_less have ij: "i < j" by blast
    then have il: "i < length h" using "1.prems"(1) by simp
    have eq: "heap_up h j = heap_up (heap_swap h i j) i"
      using False by (subst heap_up.simps) (simp add: Let_def i_def)
    have "is_heap (heap_up (heap_swap h i j) i)"
    proof (rule "1.IH" [OF i_def])
      show "\<not> (i = j \<or> \<not> h ! j < h ! i)" by (rule False)
      show "i < length (heap_swap h i j)" using il by simp
    next
      fix k assume k: "0 < k" "k < length (heap_swap h i j)" "k \<noteq> i"
      then have pk: "heap_parent k < length h" using parent_less [of k] by simp
      show "heap_swap h i j ! heap_parent k \<le> heap_swap h i j ! k"
      proof (cases "k = j")
        case True
        then show ?thesis using il "1.prems"(1) lt ij ip by (simp add: nth_swap)
      next
        case kj: False
        show ?thesis
        proof (cases "heap_parent k = j")
          case True
          with "1.prems"(3) [OF j0 k(1)] k kj show ?thesis
            using il "1.prems"(1) ip pk by (simp add: nth_swap)
        next
          case False
          have "h ! heap_parent k \<le> h ! k" using "1.prems"(2) k kj by simp
          then show ?thesis
            using False kj k il "1.prems"(1) lt pk by (auto simp: nth_swap)
        qed
      qed
    next
      fix k assume k: "0 < i" "0 < k" "k < length (heap_swap h i j)" "heap_parent k = i"
      have pil: "heap_parent i < length h" "heap_parent i \<noteq> i" "heap_parent i \<noteq> j"
        using parent_less [OF k(1)] il ij by auto
      have pi: "h ! heap_parent i \<le> h ! i"
        using "1.prems"(2) [of i] k(1) il ne by simp
      have kne: "k \<noteq> i" using parent_less [OF k(2)] k(4) by auto
      show "heap_swap h i j ! heap_parent i \<le> heap_swap h i j ! k"
      proof (cases "k = j")
        case True
        then show ?thesis using pi pil il "1.prems"(1) by (simp add: nth_swap)
      next
        case False
        then have "h ! i \<le> h ! k" using "1.prems"(2) [of k] k by simp
        with pi False kne show ?thesis using pil il "1.prems"(1) k by (simp add: nth_swap)
      qed
    qed
    with eq show ?thesis by simp
  qed
qed

lemma is_heap_Push: "is_heap h \<Longrightarrow> is_heap (heap_Push h x)"
  unfolding heap_Push_def
proof (rule is_heap_up)
  assume "is_heap h"
  fix k assume k: "0 < k" "k < length (h @ [x])" "k \<noteq> length h"
  then have "k < length h" and "heap_parent k < length h" using parent_less [of k] by auto
  with \<open>is_heap h\<close> k show "(h @ [x]) ! heap_parent k \<le> (h @ [x]) ! k"
    by (simp add: is_heap_def nth_append)
next
  fix k assume "0 < k" "k < length (h @ [x])" "heap_parent k = length h"
  then show "(h @ [x]) ! heap_parent (length h) \<le> (h @ [x]) ! k"
    using parent_less [of k] by simp
qed simp

lemma mset_Push [simp]: "mset (heap_Push h x) = add_mset x (mset h)"
  by (simp add: heap_Push_def)

text \<open>\<open>down\<close> repairs the prefix of length \<open>n\<close> whose only violations are below index \<open>i\<close>, and leaves
  the rest of the slice alone.\<close>

lemma heap_down_beyond:
  "n \<le> length h \<Longrightarrow> i < length h \<Longrightarrow> n \<le> k \<Longrightarrow> k < length h \<Longrightarrow> i < n \<or> n = 0 \<Longrightarrow>
     heap_down h i n ! k = h ! k"
proof (induction h i n rule: heap_down.induct)
  case (1 h i n)
  show ?case
  proof (cases "2 * i + 1 \<ge> n")
    case True
    then show ?thesis by (simp add: heap_down_leaf)
  next
    case False
    define j where "j = least_child h i n"
    have jn: "j < n" and ij: "i < j" using least_child_bounds [OF False, of h] by (auto simp: j_def)
    show ?thesis
    proof (cases "h ! j < h ! i")
      case True
      have "heap_down h i n = heap_down (heap_swap h i j) j n"
        using False True by (simp add: heap_down_step j_def)
      moreover have "heap_down (heap_swap h i j) j n ! k = heap_swap h i j ! k"
        using "1.IH" [OF False j_def] True "1.prems" jn by simp
      moreover have "heap_swap h i j ! k = h ! k"
        using "1.prems" jn ij by (simp add: nth_swap)
      ultimately show ?thesis by simp
    next
      case nlt: False
      then show ?thesis by (simp add: heap_down_stop j_def)
    qed
  qed
qed

lemma heap_down_ordered:
  assumes "n \<le> length h" and "i < n"
    and "\<And>k. 0 < k \<Longrightarrow> k < n \<Longrightarrow> heap_parent k \<noteq> i \<Longrightarrow> h ! heap_parent k \<le> h ! k"
    and "\<And>k. 0 < i \<Longrightarrow> 0 < k \<Longrightarrow> k < n \<Longrightarrow> heap_parent k = i \<Longrightarrow> h ! heap_parent i \<le> h ! k"
    and "0 < k" and "k < n"
  shows "heap_down h i n ! heap_parent k \<le> heap_down h i n ! k"
  using assms
proof (induction h i n rule: heap_down.induct)
  case (1 h i n)
  have pk: "heap_parent k < n" using parent_less "1.prems"(5,6) less_trans by blast
  show ?case
  proof (cases "2 * i + 1 \<ge> n")
    case True
    then have "heap_parent k \<noteq> i" using "1.prems"(5,6) by (auto simp: parent_cases)
    with True "1.prems" show ?thesis by (simp add: heap_down_leaf)
  next
    case False
    define j where "j = least_child h i n"
    have jn: "j < n" and ij: "i < j" and pj: "heap_parent j = i"
      using least_child_bounds [OF False, of h] by (auto simp: j_def)
    have jmin: "h ! j \<le> h ! c" if "0 < c" "c < n" "heap_parent c = i" for c
      using that by (simp add: j_def least_child_le)
    show ?thesis
    proof (cases "h ! j < h ! i")
      case nlt: False
      have "heap_down h i n = h"
        using nlt by (simp add: heap_down_stop j_def)
      moreover have "h ! heap_parent k \<le> h ! k"
        using "1.prems"(3) [OF "1.prems"(5,6)] jmin [OF "1.prems"(5,6)] nlt by fastforce
      ultimately show ?thesis by simp
    next
      case True
      have eq: "heap_down h i n = heap_down (heap_swap h i j) j n"
        using False True by (simp add: heap_down_step j_def)
      have len: "i < length h" "j < length h" "n \<le> length h" using "1.prems"(1,2) jn by auto
      have nth: "heap_swap h i j ! c = (if c = j then h ! i else if c = i then h ! j else h ! c)"
        if "c < n" for c using that len by (simp add: nth_swap)
      have "heap_down (heap_swap h i j) j n ! heap_parent k \<le> heap_down (heap_swap h i j) j n ! k"
      proof (rule "1.IH" [OF False j_def])
        show "\<not> \<not> h ! j < h ! i" using True by simp
        show "n \<le> length (heap_swap h i j)" "j < n" "0 < k" "k < n"
          using len jn "1.prems"(5,6) by simp_all
      next
        fix c assume c: "0 < c" "c < n" "heap_parent c \<noteq> j"
        have pc: "heap_parent c < n" using parent_less [OF c(1)] c(2) by simp
        show "heap_swap h i j ! heap_parent c \<le> heap_swap h i j ! c"
        proof (cases "heap_parent c = i")
          case pci: True
          then have "c \<noteq> i" using parent_less [OF c(1)] by auto
          with pci jmin [OF c(1,2) pci] True ij "1.prems"(2) show ?thesis by (simp add: nth c)
        next
          case pci: False
          then have le: "h ! heap_parent c \<le> h ! c" using "1.prems"(3) c by blast
          have "c \<noteq> j" using pci pj by auto
          show ?thesis
          proof (cases "c = i")
            case ci: True
            then have "h ! heap_parent i \<le> h ! j" using "1.prems"(4) [of j] c(1) jn ij pj by simp
            then show ?thesis using ci c pci pc \<open>c \<noteq> j\<close> by (simp add: nth)
          next
            case False
            then show ?thesis using le c pci \<open>c \<noteq> j\<close> by (simp add: nth pc)
          qed
        qed
      next
        fix c assume c: "0 < j" "0 < c" "c < n" "heap_parent c = j"
        have "c \<noteq> j" "c \<noteq> i" using parent_less [OF c(2)] c(4) ij by auto
        moreover have "h ! j \<le> h ! c" using "1.prems"(3) [of c] c ij by simp
        moreover have "heap_parent c < n" using c(4) jn by simp
        ultimately show "heap_swap h i j ! heap_parent j \<le> heap_swap h i j ! c"
          using c(3) ij jn pj by (simp add: nth)
      qed
      with eq show ?thesis by simp
    qed
  qed
qed

lemma is_heap_min: "is_heap h \<Longrightarrow> k < length h \<Longrightarrow> h ! 0 \<le> h ! k"
proof (induction k rule: less_induct)
  case (less k)
  show ?case
  proof (cases "k = 0")
    case False
    then have "heap_parent k < k" using parent_less by simp
    then have "h ! 0 \<le> h ! heap_parent k" using less by simp
    also have "\<dots> \<le> h ! k" using less.prems False by (simp add: is_heap_def)
    finally show ?thesis .
  qed simp
qed

lemma heap_Pop_correct:
  assumes "is_heap h" and "h \<noteq> []" and "heap_Pop h = (x, h')"
  shows "x = h ! 0 \<and> add_mset x (mset h') = mset h \<and> is_heap h'"
proof -
  define n where "n = length h - 1"
  define g where "g = heap_down (heap_swap h 0 n) 0 n"
  have len: "length h = Suc n" using assms(2) by (simp add: n_def)
  have x: "x = g ! n" and h': "h' = take n g"
    using assms(3) by (auto simp: heap_Pop_def Let_def n_def g_def)
  have lg: "length g = Suc n" using len by (simp add: g_def)
  have gn: "g ! n = heap_swap h 0 n ! n"
    unfolding g_def by (rule heap_down_beyond) (use len in auto)
  then have x0: "x = h ! 0" using x len by (simp add: nth_swap)
  have "g = take n g @ [g ! n]"
    by (metis lg lessI order_refl take_Suc_conv_app_nth take_all)
  then have "mset g = add_mset x (mset h')"
    using x h' by (metis add_mset_add_single mset.simps(1,2) mset_append)
  moreover have "mset g = mset h" using len by (simp add: g_def)
  moreover have "is_heap h'"
    unfolding is_heap_def
  proof (intro allI impI)
    fix k assume k: "0 < k \<and> k < length h'"
    then have kn: "0 < k" "k < n" using lg h' by auto
    have pk: "heap_parent k < n" using parent_less [OF kn(1)] kn by simp
    have "g ! heap_parent k \<le> g ! k"
      unfolding g_def
    proof (rule heap_down_ordered)
      show "n \<le> length (heap_swap h 0 n)" "0 < n" "0 < k" "k < n" using len kn by auto
    next
      fix c assume c: "0 < c" "c < n" "heap_parent c \<noteq> 0"
      then have "heap_parent c < n" using parent_less [of c] by simp
      with c assms(1) len show "heap_swap h 0 n ! heap_parent c \<le> heap_swap h 0 n ! c"
        by (simp add: nth_swap is_heap_def)
    qed simp
    then show "h' ! heap_parent k \<le> h' ! k" using kn pk by (simp add: h')
  qed
  ultimately show ?thesis using x0 by simp
qed

lemma length_heap_Pop: "h \<noteq> [] \<Longrightarrow> length (snd (heap_Pop h)) = length h - 1"
  by (simp add: heap_Pop_def Let_def)

end
