(* ===== verification/Offset_Tracker.thy ===== *)
theory Offset_Tracker
  imports Go_Heap
begin

text \<open>
  The deferred-commit machinery of the propagation dispatcher
  (src/services/propagation/offset_tracker.go and mark_queue.go): a min-heap of in-flight Kafka
  offsets with lazy deletion, and the queue of consumed messages that are marked once the
  watermark passes them. The interface between the two, and between the tracker and the
  dispatcher, is the locale \<open>watermark\<close>.
\<close>

section \<open>The offset tracker\<close>

text \<open>\<open>map[int64]struct{}\<close> is a set of offsets.\<close>

record offset_tracker =
  ot_heap :: "int list"
  ot_done :: "int set"

definition newOffsetTracker :: offset_tracker where
  "newOffsetTracker = \<lparr>ot_heap = [], ot_done = {}\<rparr>"

definition ot_Add :: "offset_tracker \<Rightarrow> int \<Rightarrow> offset_tracker" where
  "ot_Add t off = t\<lparr>ot_heap := heap_Push (ot_heap t) off\<rparr>"

definition ot_Done :: "offset_tracker \<Rightarrow> int \<Rightarrow> offset_tracker" where
  "ot_Done t off = t\<lparr>ot_done := insert off (ot_done t)\<rparr>"

function cleanTop :: "offset_tracker \<Rightarrow> offset_tracker" where
  "cleanTop t =
     (if ot_heap t \<noteq> [] \<and> ot_heap t ! 0 \<in> ot_done t
      then cleanTop (t\<lparr>ot_heap := snd (heap_Pop (ot_heap t)),
                       ot_done := ot_done t - {ot_heap t ! 0}\<rparr>)
      else t)"
  by pat_completeness auto
termination
  by (relation "measure (\<lambda>t. length (ot_heap t))") (auto simp: length_heap_Pop)

declare cleanTop.simps [simp del]

text \<open>\<open>(0, false)\<close> is \<open>None\<close>. Both queries clean the heap top as a side effect.\<close>

definition LowestUnfinished :: "offset_tracker \<Rightarrow> int option \<times> offset_tracker" where
  "LowestUnfinished t =
     (let t' = cleanTop t
      in (if ot_heap t' = [] then None else Some (ot_heap t' ! 0), t'))"

definition ot_Empty :: "offset_tracker \<Rightarrow> bool \<times> offset_tracker" where
  "ot_Empty t = (let t' = cleanTop t in (ot_heap t' = [], t'))"

section \<open>The watermark interface\<close>

text \<open>
  What the dispatcher relies on: the tracker stands for a set of unfinished offsets, \<open>add\<close> of a
  fresh offset and \<open>finish\<close> change it as their names say, and \<open>lowest\<close> is its minimum.
  \<open>known\<close> are the offsets the tracker still has a record of; an offset may be added when it is
  not among them.
\<close>

locale watermark =
  fixes new :: 't
    and add :: "'t \<Rightarrow> int \<Rightarrow> 't"
    and finish :: "'t \<Rightarrow> int \<Rightarrow> 't"
    and lowest :: "'t \<Rightarrow> int option \<times> 't"
    and unfinished :: "'t \<Rightarrow> int set"
    and known :: "'t \<Rightarrow> int set"
    and inv :: "'t \<Rightarrow> bool"
  assumes inv_new: "inv new"
    and unfinished_new: "unfinished new = {}"
    and known_new: "known new = {}"
    and fin: "inv t \<Longrightarrow> finite (unfinished t)"
    and sub: "unfinished t \<subseteq> known t"
    and inv_add: "inv t \<Longrightarrow> x \<notin> known t \<Longrightarrow> inv (add t x)"
    and unfinished_add: "inv t \<Longrightarrow> x \<notin> known t \<Longrightarrow> unfinished (add t x) = insert x (unfinished t)"
    and known_add: "known (add t x) = insert x (known t)"
    and inv_finish: "inv t \<Longrightarrow> inv (finish t x)"
    and unfinished_finish: "unfinished (finish t x) = unfinished t - {x}"
    and known_finish: "known (finish t x) = insert x (known t)"
    and inv_lowest: "inv t \<Longrightarrow> inv (snd (lowest t))"
    and unfinished_lowest: "inv t \<Longrightarrow> unfinished (snd (lowest t)) = unfinished t"
    and known_lowest: "inv t \<Longrightarrow> known (snd (lowest t)) \<subseteq> known t"
    and lowest_Min: "inv t \<Longrightarrow> fst (lowest t) = (if unfinished t = {} then None else Some (Min (unfinished t)))"
begin

lemmas specs = inv_new unfinished_new known_new inv_add unfinished_add known_add
  inv_finish unfinished_finish known_finish inv_lowest unfinished_lowest

lemma below_watermark:
  "inv t \<Longrightarrow> x \<in> unfinished t \<Longrightarrow> \<exists>l. fst (lowest t) = Some l \<and> l \<le> x"
  by (auto simp: lowest_Min fin)

lemma markable_finished:
  "inv t \<Longrightarrow> (case fst (lowest t) of None \<Rightarrow> True | Some l \<Rightarrow> x < l) \<Longrightarrow> x \<notin> unfinished t"
  using below_watermark by fastforce

lemma pinned_not_markable:
  "inv t \<Longrightarrow> x \<in> unfinished t \<Longrightarrow> x \<le> y \<Longrightarrow>
     \<not> (case fst (lowest t) of None \<Rightarrow> True | Some l \<Rightarrow> y < l)"
  using below_watermark by fastforce

text \<open>Admitting an offset that is finished at once (a duplicate delivery) pins nothing.\<close>

lemma add_finish:
  "inv t \<Longrightarrow> x \<notin> known t \<Longrightarrow> unfinished (finish (add t x) x) = unfinished t"
  using sub by (auto simp: unfinished_finish unfinished_add)

end

definition ot_unfinished :: "offset_tracker \<Rightarrow> int set" where
  "ot_unfinished t = set (ot_heap t) - ot_done t"

definition ot_known :: "offset_tracker \<Rightarrow> int set" where
  "ot_known t = set (ot_heap t) \<union> ot_done t"

definition ot_inv :: "offset_tracker \<Rightarrow> bool" where
  "ot_inv t \<longleftrightarrow> is_heap (ot_heap t) \<and> distinct (ot_heap t)"

lemma set_heap_Push [simp]: "set (heap_Push h x) = insert x (set h)"
  by (metis mset_Push set_mset_add_mset_insert set_mset_mset)

lemma distinct_heap_Push: "distinct (heap_Push h x) \<longleftrightarrow> x \<notin> set h \<and> distinct h"
  by (metis distinct.simps(2) mset.simps(2) mset_Push mset_eq_imp_distinct_iff)

lemma cleanTop_step:
  assumes "ot_inv t" and "ot_heap t \<noteq> []"
  defines "x \<equiv> ot_heap t ! 0"
  defines "t' \<equiv> t\<lparr>ot_heap := snd (heap_Pop (ot_heap t)), ot_done := ot_done t - {x}\<rparr>"
  shows "ot_inv t'" and "set (ot_heap t') = set (ot_heap t) - {x}" and "x \<in> set (ot_heap t)"
proof -
  obtain y h' where pop: "heap_Pop (ot_heap t) = (y, h')" by fastforce
  from heap_Pop_correct [OF _ assms(2) pop] assms(1)
  have y: "y = x" and ms: "add_mset x (mset h') = mset (ot_heap t)" and hp: "is_heap h'"
    by (auto simp: ot_inv_def x_def)
  from assms(1) have "distinct (x # h')"
    by (metis ms mset.simps(2) mset_eq_imp_distinct_iff ot_inv_def)
  moreover from ms have "set (ot_heap t) = insert x (set h')"
    by (metis set_mset_add_mset_insert set_mset_mset)
  ultimately show "ot_inv t'" "set (ot_heap t') = set (ot_heap t) - {x}" "x \<in> set (ot_heap t)"
    using hp by (auto simp: t'_def pop ot_inv_def)
qed

lemma cleanTop_correct:
  assumes "ot_inv t"
  shows "ot_inv (cleanTop t) \<and> ot_unfinished (cleanTop t) = ot_unfinished t \<and>
    ot_known (cleanTop t) \<subseteq> ot_known t \<and>
    (ot_heap (cleanTop t) \<noteq> [] \<longrightarrow> ot_heap (cleanTop t) ! 0 \<in> ot_unfinished t)"
  using assms
proof (induction t rule: cleanTop.induct)
  case (1 t)
  show ?case
  proof (cases "ot_heap t \<noteq> [] \<and> ot_heap t ! 0 \<in> ot_done t")
    case False
    then show ?thesis
      using 1(2) by (subst (1 2 3 4 5) cleanTop.simps) (auto simp: ot_unfinished_def)
  next
    case True
    define x where "x = ot_heap t ! 0"
    define t' where "t' = t\<lparr>ot_heap := snd (heap_Pop (ot_heap t)), ot_done := ot_done t - {x}\<rparr>"
    have eq: "cleanTop t = cleanTop t'"
      using True by (subst cleanTop.simps) (simp add: t'_def x_def)
    note step = cleanTop_step [OF 1(2), folded x_def, folded t'_def]
    have "ot_unfinished t' = ot_unfinished t" and "ot_known t' \<subseteq> ot_known t"
      using step True by (auto simp: ot_unfinished_def ot_known_def t'_def x_def)
    moreover note 1(1) [OF True, folded x_def, folded t'_def]
    ultimately show ?thesis unfolding eq using step True by auto
  qed
qed

lemma lowest_is_Min:
  assumes "ot_inv t" and "x \<in> ot_unfinished t" and "x = ot_heap t ! 0" and "ot_heap t \<noteq> []"
  shows "Min (ot_unfinished t) = x"
proof (rule Min_eqI)
  fix y assume "y \<in> ot_unfinished t"
  then obtain k where "k < length (ot_heap t)" "y = ot_heap t ! k"
    by (auto simp: ot_unfinished_def in_set_conv_nth)
  with assms show "x \<le> y" by (simp add: ot_inv_def is_heap_min)
qed (use assms in \<open>auto simp: ot_unfinished_def\<close>)

interpretation ot: watermark newOffsetTracker ot_Add ot_Done LowestUnfinished
  ot_unfinished ot_known ot_inv
proof unfold_locales
  fix t x
  assume i: "ot_inv t"
  note c = cleanTop_correct [OF i]
  show "ot_inv (snd (LowestUnfinished t))"
    and "ot_unfinished (snd (LowestUnfinished t)) = ot_unfinished t"
    and "ot_known (snd (LowestUnfinished t)) \<subseteq> ot_known t"
    using c by (auto simp: LowestUnfinished_def Let_def)
  show "fst (LowestUnfinished t) = (if ot_unfinished t = {} then None else Some (Min (ot_unfinished t)))"
  proof (cases "ot_heap (cleanTop t) = []")
    case True
    with c show ?thesis by (auto simp: LowestUnfinished_def Let_def ot_unfinished_def)
  next
    case False
    with c lowest_is_Min [of "cleanTop t"] show ?thesis
      by (auto simp: LowestUnfinished_def Let_def)
  qed
  show "finite (ot_unfinished t)" by (simp add: ot_unfinished_def)
  show "ot_inv (ot_Done t x)" using i by (simp add: ot_inv_def ot_Done_def)
  assume "x \<notin> ot_known t"
  with i show "ot_inv (ot_Add t x)" and "ot_unfinished (ot_Add t x) = insert x (ot_unfinished t)"
    by (auto simp: ot_inv_def ot_Add_def is_heap_Push distinct_heap_Push ot_known_def ot_unfinished_def)
qed (auto simp: newOffsetTracker_def ot_inv_def is_heap_def ot_unfinished_def ot_known_def
    ot_Add_def ot_Done_def)

text \<open>
  \<open>LowestUnfinished\<close> returns the least offset that was added and not yet marked done, and
  reports none exactly when every added offset is done; cleaning the heap top changes neither
  the invariant nor the set of unfinished offsets.
\<close>

theorem LowestUnfinished_correct:
  assumes "ot_inv t"
  shows "fst (LowestUnfinished t) =
           (if ot_unfinished t = {} then None else Some (Min (ot_unfinished t))) \<and>
         ot_inv (snd (LowestUnfinished t)) \<and>
         ot_unfinished (snd (LowestUnfinished t)) = ot_unfinished t"
  by (simp add: assms ot.lowest_Min ot.inv_lowest ot.unfinished_lowest)

theorem LowestUnfinished_correct_witness:
  "fst (LowestUnfinished (ot_Done (ot_Add (ot_Add newOffsetTracker 7) 3) 3)) = Some 7"
proof -
  let ?t = "ot_Done (ot_Add (ot_Add newOffsetTracker 7) 3) 3"
  have i: "ot_inv ?t"
    by (simp add: ot.specs)
  have "ot_unfinished ?t = {7}"
    by (auto simp: ot.specs)
  with LowestUnfinished_correct [OF i] show ?thesis by simp
qed

end
