(* ===== verification/Mark_Queue.thy ===== *)
theory Mark_Queue
  imports Offset_Tracker
begin

text \<open>
  The queue of consumed Kafka messages awaiting the commit watermark
  (src/services/propagation/mark_queue.go). The queue is proved against any tracker that meets
  the \<open>watermark\<close> contract, then instantiated with the offset tracker.
\<close>

text \<open>The fields of \<open>kafka.Message\<close> the dispatcher reads.\<close>

record kafka_message =
  km_Offset :: int
  km_Value :: bytes

text \<open>
  A slot of the backing slice is \<open>None\<close> once it is set to nil for the garbage collector;
  \<open>Some\<close> is the message pointer.
\<close>

record mark_queue =
  mq_msgs :: "kafka_message option list"
  mq_head :: nat

definition newMarkQueue :: mark_queue where
  "newMarkQueue = \<lparr>mq_msgs = [], mq_head = 0\<rparr>"

definition mq_push :: "mark_queue \<Rightarrow> kafka_message \<Rightarrow> mark_queue" where
  "mq_push q m = q\<lparr>mq_msgs := mq_msgs q @ [Some m]\<rparr>"

definition mq_pending :: "mark_queue \<Rightarrow> int" where
  "mq_pending q = int (length (mq_msgs q)) - int (mq_head q)"

text \<open>
  The loop of \<open>advance\<close>: it returns the messages handed to \<open>claim.MarkMessage\<close>, in order.
  \<open>None\<close> is the nil dereference of \<open>msg.Offset\<close>.
\<close>

function mark_loop :: "int option \<Rightarrow> mark_queue \<Rightarrow> (kafka_message list \<times> mark_queue) option" where
  "mark_loop lowest q =
     (if mq_head q < length (mq_msgs q) then
        (case mq_msgs q ! mq_head q of
           None \<Rightarrow> None
         | Some msg \<Rightarrow>
             if (case lowest of None \<Rightarrow> False | Some l \<Rightarrow> km_Offset msg \<ge> l) then Some ([], q)
             else map_option (\<lambda>(ms, q'). (msg # ms, q'))
                    (mark_loop lowest (q\<lparr>mq_msgs := (mq_msgs q)[mq_head q := None],
                                         mq_head := mq_head q + 1\<rparr>)))
      else Some ([], q))"
  by pat_completeness auto
termination
  by (relation "measure (\<lambda>(_, q). length (mq_msgs q) - mq_head q)") auto

declare mark_loop.simps [simp del]

definition mq_compact :: "mark_queue \<Rightarrow> mark_queue" where
  "mq_compact q =
     (if mq_head q > 0 \<and> mq_head q \<ge> length (mq_msgs q) div 2
      then \<lparr>mq_msgs = drop (mq_head q) (mq_msgs q), mq_head = 0\<rparr> else q)"

text \<open>\<open>claim\<close> is false for a nil claim. The tracker is changed by \<open>LowestUnfinished\<close>.\<close>

definition advance_with ::
  "('t \<Rightarrow> int option \<times> 't) \<Rightarrow> bool \<Rightarrow> mark_queue \<Rightarrow> 't \<Rightarrow> (kafka_message list \<times> mark_queue \<times> 't) option" where
  "advance_with lowest claim q tracker =
     (if \<not> claim then Some ([], q, tracker)
      else let (low, tracker') = lowest tracker in
           map_option (\<lambda>(ms, q'). (ms, mq_compact q', tracker')) (mark_loop low q))"

definition mq_advance ::
  "bool \<Rightarrow> mark_queue \<Rightarrow> offset_tracker \<Rightarrow> (kafka_message list \<times> mark_queue \<times> offset_tracker) option" where
  "mq_advance = advance_with LowestUnfinished"

section \<open>The queue's contents and invariant\<close>

definition mq_contents :: "mark_queue \<Rightarrow> kafka_message list" where
  "mq_contents q = map the (drop (mq_head q) (mq_msgs q))"

definition mq_inv :: "mark_queue \<Rightarrow> bool" where
  "mq_inv q \<longleftrightarrow> mq_head q \<le> length (mq_msgs q) \<and> None \<notin> set (drop (mq_head q) (mq_msgs q))"

definition markable :: "int option \<Rightarrow> kafka_message \<Rightarrow> bool" where
  "markable low m \<longleftrightarrow> (case low of None \<Rightarrow> True | Some l \<Rightarrow> km_Offset m < l)"

lemma mq_new [simp]: "mq_inv newMarkQueue" "mq_contents newMarkQueue = []"
  by (simp_all add: newMarkQueue_def mq_inv_def mq_contents_def)

lemma mq_push [simp]:
  "mq_inv q \<Longrightarrow> mq_inv (mq_push q m)"
  "mq_inv q \<Longrightarrow> mq_contents (mq_push q m) = mq_contents q @ [m]"
  by (auto simp: mq_push_def mq_inv_def mq_contents_def)

lemma mq_pending_contents: "mq_inv q \<Longrightarrow> mq_pending q = int (length (mq_contents q))"
  by (simp add: mq_pending_def mq_inv_def mq_contents_def)

lemma mq_compact [simp]:
  "mq_inv q \<Longrightarrow> mq_inv (mq_compact q)" "mq_contents (mq_compact q) = mq_contents q"
  by (auto simp: mq_compact_def mq_inv_def mq_contents_def)

lemma mark_loop_spec:
  assumes "mq_inv q"
  shows "\<exists>q'. mark_loop low q = Some (takeWhile (markable low) (mq_contents q), q') \<and> mq_inv q' \<and>
              mq_contents q' = dropWhile (markable low) (mq_contents q)"
  using assms
proof (induction low q rule: mark_loop.induct)
  case (1 low q)
  show ?case
  proof (cases "mq_head q < length (mq_msgs q)")
    case False
    with 1(2) show ?thesis
      by (subst mark_loop.simps) (auto simp: mq_inv_def mq_contents_def)
  next
    case True
    then have dr: "drop (mq_head q) (mq_msgs q) = mq_msgs q ! mq_head q # drop (Suc (mq_head q)) (mq_msgs q)"
      by (simp add: Cons_nth_drop_Suc)
    with 1(2) obtain m where m: "mq_msgs q ! mq_head q = Some m"
      by (cases "mq_msgs q ! mq_head q") (auto simp: mq_inv_def)
    let ?q = "q\<lparr>mq_msgs := (mq_msgs q)[mq_head q := None], mq_head := mq_head q + 1\<rparr>"
    have c: "mq_contents q = m # mq_contents ?q" and i: "mq_inv ?q"
      using dr m 1(2) True by (auto simp: mq_contents_def mq_inv_def)
    show ?thesis
    proof (cases "markable low m")
      case False
      then show ?thesis using True m c 1(2)
        by (subst mark_loop.simps) (auto simp: markable_def split: option.splits)
    next
      case mk: True
      then have nb: "\<not> (case low of None \<Rightarrow> False | Some l \<Rightarrow> l \<le> km_Offset m)"
        by (auto simp: markable_def split: option.splits)
      from 1(1) [OF True m nb i] obtain q' where
        "mark_loop low ?q = Some (takeWhile (markable low) (mq_contents ?q), q')" "mq_inv q'"
        "mq_contents q' = dropWhile (markable low) (mq_contents ?q)" by blast
      moreover have "mark_loop low q = map_option (\<lambda>(ms, q'). (m # ms, q')) (mark_loop low ?q)"
        using True m nb by (subst mark_loop.simps) simp
      ultimately show ?thesis using mk c by simp
    qed
  qed
qed

section \<open>Marking against any watermark\<close>

context watermark
begin

lemma advance_spec:
  assumes "mq_inv q" and "inv t"
  obtains q' t' where
    "advance_with lowest True q t =
       Some (takeWhile (markable (fst (lowest t))) (mq_contents q), q', t')"
    "mq_inv q'" "inv t'" "unfinished t' = unfinished t" "known t' \<subseteq> known t"
    "mq_contents q' = dropWhile (markable (fst (lowest t))) (mq_contents q)"
proof -
  from mark_loop_spec [OF assms(1), of "fst (lowest t)"] obtain q' where
    "mark_loop (fst (lowest t)) q = Some (takeWhile (markable (fst (lowest t))) (mq_contents q), q')"
    "mq_inv q'" "mq_contents q' = dropWhile (markable (fst (lowest t))) (mq_contents q)" by blast
  with assms(2) show thesis
    by (intro that [of "mq_compact q'" "snd (lowest t)"])
       (simp_all add: advance_with_def inv_lowest unfinished_lowest known_lowest case_prod_beta)
qed

lemma markable_iff:
  "inv t \<Longrightarrow> markable (fst (lowest t)) m \<longleftrightarrow> (\<forall>x\<in>unfinished t. km_Offset m < x)"
  by (auto simp: markable_def lowest_Min fin)

lemma advance_contract:
  assumes "mq_inv q" and "inv t" and "advance_with lowest True q t = Some (marked, q', t')"
  shows "mq_contents q = marked @ mq_contents q' \<and>
         (\<forall>m\<in>set marked. \<forall>x\<in>unfinished t. km_Offset m < x) \<and>
         (sorted (map km_Offset (mq_contents q)) \<longrightarrow>
            (\<forall>m\<in>set (mq_contents q'). \<exists>x\<in>unfinished t. x \<le> km_Offset m))"
proof -
  let ?P = "markable (fst (lowest t))"
  obtain r t'' where "advance_with lowest True q t = Some (takeWhile ?P (mq_contents q), r, t'')"
    "mq_contents r = dropWhile ?P (mq_contents q)"
    by (rule advance_spec [OF assms(1,2)])
  with assms(3)
  have m: "marked = takeWhile ?P (mq_contents q)" and d: "mq_contents q' = dropWhile ?P (mq_contents q)"
    by simp_all
  have "\<exists>x\<in>unfinished t. x \<le> km_Offset m'"
    if so: "sorted (map km_Offset (mq_contents q))" and mem: "m' \<in> set (dropWhile ?P (mq_contents q))" for m'
  proof -
    from mem obtain h r where hr: "dropWhile ?P (mq_contents q) = h # r"
      by (cases "dropWhile ?P (mq_contents q)") auto
    then have "\<not> ?P h" by (simp add: dropWhile_eq_Cons_conv)
    then obtain x where x: "x \<in> unfinished t" "x \<le> km_Offset h"
      using markable_iff [OF assms(2)] by force
    have cs: "mq_contents q = takeWhile ?P (mq_contents q) @ dropWhile ?P (mq_contents q)"
      by simp
    have "sorted (map km_Offset (h # r))"
      using so by (subst (asm) cs) (simp add: hr sorted_append)
    with x show ?thesis using mem hr by fastforce
  qed
  moreover have "\<forall>m\<in>set marked. \<forall>x\<in>unfinished t. km_Offset m < x"
    using m markable_iff [OF assms(2)] by (auto dest: set_takeWhileD)
  ultimately show ?thesis using m d by simp
qed

end

text \<open>
  \<open>advance\<close> never dereferences a cleared slot and returns; the messages it hands to
  \<open>MarkMessage\<close> are a prefix of the queue, each strictly below every unfinished offset, the rest
  stay queued in order, and when the queue is in offset order it leaves nothing markable behind.
\<close>

theorem advance_correct:
  assumes "mq_inv q" and "ot_inv t"
  shows "\<exists>marked q' t'. mq_advance True q t = Some (marked, q', t') \<and> mq_inv q' \<and> ot_inv t' \<and>
           ot_unfinished t' = ot_unfinished t \<and> mq_contents q = marked @ mq_contents q' \<and>
           (\<forall>m\<in>set marked. \<forall>x\<in>ot_unfinished t. km_Offset m < x) \<and>
           (sorted (map km_Offset (mq_contents q)) \<longrightarrow>
              (\<forall>m\<in>set (mq_contents q'). \<exists>x\<in>ot_unfinished t. x \<le> km_Offset m))"
proof -
  obtain q' t' where
    adv: "advance_with LowestUnfinished True q t =
      Some (takeWhile (markable (fst (LowestUnfinished t))) (mq_contents q), q', t')"
    and keep: "mq_inv q'" "ot_inv t'" "ot_unfinished t' = ot_unfinished t"
    by (rule ot.advance_spec [OF assms])
  show ?thesis
    unfolding mq_advance_def
    by (rule exI, rule exI, rule exI, rule conjI [OF adv])
       (insert ot.advance_contract [OF assms adv] keep, intro conjI; elim conjE; assumption)
qed

theorem advance_correct_witness:
  "\<exists>q' t'. mq_advance True
     (mq_push (mq_push newMarkQueue \<lparr>km_Offset = 1, km_Value = []\<rparr>) \<lparr>km_Offset = 2, km_Value = []\<rparr>)
     (ot_Add newOffsetTracker 2) = Some ([\<lparr>km_Offset = 1, km_Value = []\<rparr>], q', t')"
proof -
  let ?q = "mq_push (mq_push newMarkQueue \<lparr>km_Offset = 1, km_Value = []\<rparr>) \<lparr>km_Offset = 2, km_Value = []\<rparr>"
  let ?t = "ot_Add newOffsetTracker 2"
  have q: "mq_inv ?q" and t: "ot_inv ?t" and u: "ot_unfinished ?t = {2}"
    by (simp_all add: ot.specs)
  from advance_correct [OF q t] obtain marked q' t' where
    a: "mq_advance True ?q ?t = Some (marked, q', t')"
    and c: "mq_contents ?q = marked @ mq_contents q'"
    and lt: "\<forall>m\<in>set marked. km_Offset m < 2" and rest: "\<forall>m\<in>set (mq_contents q'). 2 \<le> km_Offset m"
    by (auto simp: u)
  obtain r where r: "r = mq_contents q'" by simp
  have q_contents: "mq_contents ?q = [\<lparr>km_Offset = 1, km_Value = []\<rparr>, \<lparr>km_Offset = 2, km_Value = []\<rparr>]"
    by simp
  have "marked = [\<lparr>km_Offset = 1, km_Value = []\<rparr>]"
    using c lt rest unfolding r [symmetric]
    by (auto simp: q_contents Cons_eq_append_conv append_eq_Cons_conv)
  with a show ?thesis by blast
qed

end
