(* ===== verification/Dispatcher.thy ===== *)
theory Dispatcher
  imports Mark_Queue Models "HOL-Library.Finite_Map"
begin

text \<open>
  The dependency-aware dispatcher (src/services/propagation/dispatcher.go): admission, requeue
  and terminal events on the waiter graph, with the operations of \<open>runDispatcher\<close>'s locals as
  functions on one record. Go's unspecified order of \<open>range\<close> over a waiter set is the parameter
  \<open>ord\<close>: the order in which the children of a parent are visited. A parent's set is visited at
  most once per call, so \<open>ord\<close> may be any enumeration.
\<close>

section \<open>State\<close>

text \<open>\<open>spanCtx\<close>, the trace context, is not modelled.\<close>

record propagationMsg =
  pm_TXID :: txid
  pm_RawTx :: bytes
  pm_InputTXIDs :: "txid list"
  pm_retryCount :: int
  pm_merkleRetryCount :: int
  pm_merkleFailureReason :: string
  pm_retryReason :: string

type_synonym waiter_map = "(txid, txid fset) fmap"
type_synonym child_order = "txid \<Rightarrow> txid fset \<Rightarrow> txid list"

record dispatcher =
  inFlight :: "txid \<rightharpoonup> int"
  waiters :: waiter_map
  heldMsgs :: "txid \<rightharpoonup> propagationMsg"
  pendingMsgs :: "propagationMsg list"
  tracker :: offset_tracker

definition newDispatcher :: dispatcher where
  "newDispatcher = \<lparr>inFlight = Map.empty, waiters = fmempty, heldMsgs = Map.empty,
     pendingMsgs = [], tracker = newOffsetTracker\<rparr>"

datatype admitResult = Admitted | Held | Duplicate

text \<open>Exactly one of the three flags of \<open>admitResult\<close> is set.\<close>

type_synonym cascadedTx = "txid \<times> bytes"

section \<open>Operations\<close>

definition blocking :: "propagationMsg \<Rightarrow> (txid \<rightharpoonup> int) \<Rightarrow> txid list" where
  "blocking msg fl =
     filter (\<lambda>parent. parent \<noteq> [] \<and> parent \<noteq> pm_TXID msg \<and> fl parent \<noteq> None) (pm_InputTXIDs msg)"

definition register_waiter :: "txid \<Rightarrow> txid \<Rightarrow> waiter_map \<Rightarrow> waiter_map" where
  "register_waiter child parent w =
     fmupd parent (finsert child (case fmlookup w parent of None \<Rightarrow> {||} | Some S \<Rightarrow> S)) w"

definition hold :: "propagationMsg \<Rightarrow> txid list \<Rightarrow> 'a dispatcher_scheme \<Rightarrow> 'a dispatcher_scheme" where
  "hold msg bl d = d\<lparr>waiters := fold (register_waiter (pm_TXID msg)) bl (waiters d),
                     heldMsgs := (heldMsgs d)(pm_TXID msg \<mapsto> msg)\<rparr>"

definition handleAdmit ::
  "propagationMsg \<Rightarrow> int \<Rightarrow> 'a dispatcher_scheme \<Rightarrow> admitResult \<times> 'a dispatcher_scheme" where
  "handleAdmit msg offset d =
     (if inFlight d (pm_TXID msg) \<noteq> None
      then (Duplicate, d\<lparr>tracker := ot_Done (ot_Add (tracker d) offset) offset\<rparr>)
      else let bl = blocking msg (inFlight d);
               d = d\<lparr>inFlight := (inFlight d)(pm_TXID msg \<mapsto> offset), tracker := ot_Add (tracker d) offset\<rparr>
           in if bl \<noteq> [] then (Held, hold msg bl d)
              else (Admitted, d\<lparr>pendingMsgs := pendingMsgs d @ [msg]\<rparr>))"

definition handleRequeue :: "propagationMsg \<Rightarrow> 'a dispatcher_scheme \<Rightarrow> 'a dispatcher_scheme" where
  "handleRequeue msg d =
     (if inFlight d (pm_TXID msg) = None then d
      else let bl = blocking msg (inFlight d)
           in if bl \<noteq> [] then hold msg bl d else d\<lparr>pendingMsgs := pendingMsgs d @ [msg]\<rparr>)"

definition canRelease :: "txid \<Rightarrow> (txid \<rightharpoonup> int) \<Rightarrow> (txid \<rightharpoonup> propagationMsg) \<Rightarrow> propagationMsg option" where
  "canRelease child fl held =
     (case held child of
        None \<Rightarrow> None
      | Some msg \<Rightarrow>
          if list_ex (\<lambda>parent. parent \<noteq> [] \<and> parent \<noteq> child \<and> fl parent \<noteq> None) (pm_InputTXIDs msg)
          then None else Some msg)"

definition unwait :: "txid \<Rightarrow> txid \<Rightarrow> txid \<Rightarrow> waiter_map \<Rightarrow> waiter_map" where
  "unwait child skipParent otherParent w =
     (if otherParent = [] \<or> otherParent = child \<or> otherParent = skipParent then w
      else case fmlookup w otherParent of
             None \<Rightarrow> w
           | Some S \<Rightarrow> let S' = S |-| {|child|}
                       in if S' = {||} then fmdrop otherParent w else fmupd otherParent S' w)"

definition cleanupWaiterEntries ::
  "txid \<Rightarrow> txid \<Rightarrow> (txid \<rightharpoonup> propagationMsg) \<Rightarrow> waiter_map \<Rightarrow> waiter_map" where
  "cleanupWaiterEntries child skipParent held w =
     (case held child of
        None \<Rightarrow> w
      | Some msg \<Rightarrow> fold (unwait child skipParent) (pm_InputTXIDs msg) w)"

definition release_child :: "txid \<Rightarrow> txid \<Rightarrow> 'a dispatcher_scheme \<Rightarrow> 'a dispatcher_scheme" where
  "release_child parent child d =
     (case canRelease child (inFlight d) (heldMsgs d) of
        None \<Rightarrow> d
      | Some msg \<Rightarrow>
          d\<lparr>waiters := cleanupWaiterEntries child parent (heldMsgs d) (waiters d),
            heldMsgs := (heldMsgs d)(child := None),
            pendingMsgs := pendingMsgs d @ [msg]\<rparr>)"

definition releaseWaiters :: "child_order \<Rightarrow> txid \<Rightarrow> 'a dispatcher_scheme \<Rightarrow> 'a dispatcher_scheme" where
  "releaseWaiters ord parent d =
     (case fmlookup (waiters d) parent of
        None \<Rightarrow> d
      | Some children \<Rightarrow>
          fold (release_child parent) (ord parent children) (d\<lparr>waiters := fmdrop parent (waiters d)\<rparr>))"

text \<open>Mark the offset of a transaction done and take it out of the in-flight set.\<close>

definition finish_tx :: "txid \<Rightarrow> 'a dispatcher_scheme \<Rightarrow> 'a dispatcher_scheme" where
  "finish_tx t d =
     (case inFlight d t of
        Some offset \<Rightarrow> d\<lparr>tracker := ot_Done (tracker d) offset, inFlight := (inFlight d)(t := None)\<rparr>
      | None \<Rightarrow> d)"

definition cascade_child :: "txid \<Rightarrow> txid \<Rightarrow> 'a dispatcher_scheme \<times> cascadedTx list \<times> txid list
    \<Rightarrow> 'a dispatcher_scheme \<times> cascadedTx list \<times> txid list" where
  "cascade_child parent child = (\<lambda>(d, cascaded, queue).
     let d = d\<lparr>waiters := cleanupWaiterEntries child parent (heldMsgs d) (waiters d)\<rparr>;
         rawTx = (case heldMsgs d child of None \<Rightarrow> [] | Some m \<Rightarrow> pm_RawTx m);
         d = finish_tx child (d\<lparr>heldMsgs := (heldMsgs d)(child := None)\<rparr>)
     in (d, cascaded @ [(child, rawTx)], queue @ [child]))"


definition wait_set :: "waiter_map \<Rightarrow> txid \<Rightarrow> txid set" where
  "wait_set w p = (case fmlookup w p of None \<Rightarrow> {} | Some S \<Rightarrow> fset S)"

lemma fmdom_unwait: "fmdom (unwait c s p w) |\<subseteq>| fmdom w"
  by (auto simp: unwait_def Let_def fmdomI split: option.splits)

lemma fmdom_cleanup: "fmdom (cleanupWaiterEntries c s held w) |\<subseteq>| fmdom w"
proof -
  have "fmdom (fold (unwait c s) ps w) |\<subseteq>| fmdom w" for ps
    by (induction ps arbitrary: w) (simp_all, rule order_trans, assumption, rule fmdom_unwait)
  then show ?thesis by (auto simp: cleanupWaiterEntries_def split: option.splits)
qed

lemma finish_tx_sel [simp]:
  "waiters (finish_tx t d) = waiters d" "heldMsgs (finish_tx t d) = heldMsgs d"
  "pendingMsgs (finish_tx t d) = pendingMsgs d" "dispatcher.more (finish_tx t d) = dispatcher.more d"
  "inFlight (finish_tx t d) = (inFlight d)(t := None)"
  by (auto simp: finish_tx_def split: option.splits)

lemma cascade_child_dom:
  "fmdom (waiters (fst (cascade_child p c x))) |\<subseteq>| fmdom (waiters (fst x))"
  by (cases x) (simp add: cascade_child_def Let_def fmdom_cleanup)

lemma cascade_fold_dom:
  "fmdom (waiters (fst (fold (cascade_child p) cs x))) |\<subseteq>| fmdom (waiters (fst x))"
  by (induction cs arbitrary: x) (simp_all, rule order_trans, assumption, rule cascade_child_dom)

lemma cascade_fold_less:
  assumes "fmlookup (waiters d) p = Some S"
  shows "fcard (fmdom (waiters (fst (fold (cascade_child p) cs (d\<lparr>waiters := fmdrop p (waiters d)\<rparr>, x)))))
         < fcard (fmdom (waiters d))"
proof (rule pfsubset_fcard_mono)
  have "fmdom (waiters (fst (fold (cascade_child p) cs (d\<lparr>waiters := fmdrop p (waiters d)\<rparr>, x))))
     |\<subseteq>| fmdom (fmdrop p (waiters d))"
    using cascade_fold_dom [of p cs "(d\<lparr>waiters := fmdrop p (waiters d)\<rparr>, x)"] by simp
  moreover have "fmdom (fmdrop p (waiters d)) |\<subset>| fmdom (waiters d)"
    using fmdomI [OF assms] by (auto simp: fmdom_drop)
  ultimately show "fmdom (waiters (fst (fold (cascade_child p) cs (d\<lparr>waiters := fmdrop p (waiters d)\<rparr>, x))))
     |\<subset>| fmdom (waiters d)" by (rule order_le_less_trans)
qed

function cascade_loop :: "child_order \<Rightarrow> 'a dispatcher_scheme \<times> cascadedTx list \<times> txid list
    \<Rightarrow> cascadedTx list \<times> 'a dispatcher_scheme" where
  "cascade_loop ord (d, cascaded, []) = (cascaded, d)"
| "cascade_loop ord (d, cascaded, parent # queue) =
     (case fmlookup (waiters d) parent of
        None \<Rightarrow> cascade_loop ord (d, cascaded, queue)
      | Some children \<Rightarrow>
          cascade_loop ord (fold (cascade_child parent) (ord parent children)
            (d\<lparr>waiters := fmdrop parent (waiters d)\<rparr>, cascaded, queue)))"
  by pat_completeness auto
termination
  by (relation "(\<lambda>(_, d, _, _). fcard (fmdom (waiters d))) <*mlex*> measure (\<lambda>(_, _, _, q). length q)")
     (auto intro: mlex_less mlex_leq wf_mlex simp: cascade_fold_less case_prod_beta)

definition cascadeReject :: "child_order \<Rightarrow> txid \<Rightarrow> 'a dispatcher_scheme \<Rightarrow> cascadedTx list \<times> 'a dispatcher_scheme" where
  "cascadeReject ord t d = cascade_loop ord (d, [], [t])"

definition handleTerminal ::
  "child_order \<Rightarrow> txid \<Rightarrow> status \<Rightarrow> 'a dispatcher_scheme \<Rightarrow> cascadedTx list \<times> 'a dispatcher_scheme" where
  "handleTerminal ord t st d =
     (if st = StatusAcceptedByNetwork then ([], releaseWaiters ord t (finish_tx t d))
      else if st = StatusRejected \<or> st = StatusPendingRetry then cascadeReject ord t (finish_tx t d)
      else ([], d))"

section \<open>The waiter graph\<close>

lemma wait_register [simp]:
  "wait_set (register_waiter c p w) q = (if q = p then insert c (wait_set w q) else wait_set w q)"
  by (auto simp: wait_set_def register_waiter_def split: option.splits)

lemma wait_registers [simp]:
  "wait_set (fold (register_waiter c) ps w) q = (if q \<in> set ps then insert c (wait_set w q) else wait_set w q)"
  by (induction ps arbitrary: w) auto

lemma wait_unwait [simp]:
  "wait_set (unwait c s p w) q =
     wait_set w q - (if q = p \<and> p \<noteq> [] \<and> p \<noteq> c \<and> p \<noteq> s then {c} else {})"
  by (auto simp: wait_set_def unwait_def Let_def split: option.splits)

lemma wait_unwaits:
  "wait_set (fold (unwait c s) ps w) q =
     wait_set w q - (if q \<in> set ps \<and> q \<noteq> [] \<and> q \<noteq> c \<and> q \<noteq> s then {c} else {})"
  by (induction ps arbitrary: w) auto

lemma wait_drop [simp]: "wait_set (fmdrop p w) q = (if q = p then {} else wait_set w q)"
  by (auto simp: wait_set_def)

text \<open>The parents a message can be registered on.\<close>

definition inputs_of :: "txid \<Rightarrow> propagationMsg \<Rightarrow> txid set" where
  "inputs_of c m = {p \<in> set (pm_InputTXIDs m). p \<noteq> [] \<and> p \<noteq> c}"

lemma wait_cleanup:
  "wait_set (cleanupWaiterEntries c s held w) q =
     wait_set w q - (case held c of None \<Rightarrow> {} | Some m \<Rightarrow> if q \<in> inputs_of c m - {s} then {c} else {})"
  by (auto simp: cleanupWaiterEntries_def wait_unwaits inputs_of_def split: option.splits)

end
