(* ===== verification/Dispatcher_Graph.thy ===== *)
theory Dispatcher_Graph
  imports Dispatcher
begin

text \<open>
  What a terminal event does to the waiter graph: a rejected (or parked) transaction takes exactly
  its registered descendants with it, an accepted one releases exactly the children with no other
  parent in flight. Both are proved for every enumeration order of Go's map ranges.
\<close>

definition enumerates :: "child_order \<Rightarrow> bool" where
  "enumerates ord \<longleftrightarrow> (\<forall>p S. distinct (ord p S) \<and> set (ord p S) = fset S)"

definition descendants :: "waiter_map \<Rightarrow> txid \<Rightarrow> txid set" where
  "descendants w t = {c. (t, c) \<in> {(p, c). c \<in> wait_set w p}\<^sup>+}"

text \<open>Every waiter entry belongs to a held message that names the parent among its inputs.\<close>

definition graph_ok :: "'a dispatcher_scheme \<Rightarrow> bool" where
  "graph_ok d \<longleftrightarrow>
     (\<forall>p c. c \<in> wait_set (waiters d) p \<longrightarrow> (\<exists>m. heldMsgs d c = Some m \<and> p \<in> inputs_of c m))"

definition held_raw :: "'a dispatcher_scheme \<Rightarrow> txid \<Rightarrow> bytes" where
  "held_raw d c = (case heldMsgs d c of None \<Rightarrow> [] | Some m \<Rightarrow> pm_RawTx m)"

lemma graph_okD: "graph_ok d \<Longrightarrow> c \<in> wait_set (waiters d) p \<Longrightarrow> \<exists>m. heldMsgs d c = Some m \<and> p \<in> inputs_of c m"
  by (auto simp: graph_ok_def)

lemma graph_ok_new [simp]: "graph_ok newDispatcher"
  by (simp add: graph_ok_def newDispatcher_def wait_set_def)

lemma finish_graph [simp]: "graph_ok (finish_tx t d) = graph_ok d"
  by (simp add: graph_ok_def)

text \<open>Removing a held child from the graph, as both walks do once its parent's set is dropped.\<close>

lemma cleanup_exact:
  assumes "graph_ok d" and "wait_set (waiters d) p = {}"
  shows "wait_set (cleanupWaiterEntries c p (heldMsgs d) (waiters d)) x = wait_set (waiters d) x - {c}"
  using graph_okD [OF assms(1), of c x] assms(2)
  by (auto simp: wait_cleanup split: option.splits if_splits)

lemma graph_ok_remove:
  assumes "graph_ok d" and "\<And>x. wait_set w x = wait_set (waiters d) x - {c}"
    and "waiters d' = w" and "heldMsgs d' = (heldMsgs d)(c := None)"
  shows "graph_ok d'"
  using assms by (auto simp: graph_ok_def)

section \<open>Cascades\<close>

lemma cascade_child_spec:
  assumes "graph_ok d" and "wait_set (waiters d) p = {}"
    and "cascade_child p c (d, cs, q) = (d', cs', q')"
  shows "graph_ok d' \<and> (\<forall>x. wait_set (waiters d') x = wait_set (waiters d) x - {c}) \<and>
         heldMsgs d' = (heldMsgs d)(c := None) \<and> inFlight d' = (inFlight d)(c := None) \<and>
         pendingMsgs d' = pendingMsgs d \<and> dispatcher.more d' = dispatcher.more d \<and>
         cs' = cs @ [(c, held_raw d c)] \<and> q' = q @ [c]"
proof -
  note w = cleanup_exact [OF assms(1,2), of c]
  from assms(3) have "waiters d' = cleanupWaiterEntries c p (heldMsgs d) (waiters d)"
    and h: "heldMsgs d' = (heldMsgs d)(c := None)"
    by (auto simp: cascade_child_def Let_def)
  with w show ?thesis using assms(3) graph_ok_remove [OF assms(1) w _ h]
    by (auto simp: cascade_child_def Let_def held_raw_def)
qed

lemma cascade_fold_spec:
  assumes "graph_ok d" and "wait_set (waiters d) p = {}" and "distinct L"
    and "fold (cascade_child p) L (d, cs, q) = (d', cs', q')"
  shows "graph_ok d' \<and> (\<forall>x. wait_set (waiters d') x = wait_set (waiters d) x - set L) \<and>
         heldMsgs d' = heldMsgs d |` (- set L) \<and> inFlight d' = inFlight d |` (- set L) \<and>
         pendingMsgs d' = pendingMsgs d \<and> dispatcher.more d' = dispatcher.more d \<and>
         cs' = cs @ map (\<lambda>c. (c, held_raw d c)) L \<and> q' = q @ L"
  using assms
proof (induction L arbitrary: d cs q)
  case (Cons c L)
  obtain d1 cs1 q1 where one: "cascade_child p c (d, cs, q) = (d1, cs1, q1)" by (metis prod_cases3)
  note s = cascade_child_spec [OF Cons.prems(1,2) one]
  from s Cons.prems(2-4) one have w1: "wait_set (waiters d1) p = {}" and g1: "graph_ok d1"
    and dL: "distinct L" and f1: "fold (cascade_child p) L (d1, cs1, q1) = (d', cs', q')" by simp_all
  note ih = Cons.IH [OF g1 w1 dL f1]
  have "map (\<lambda>c. (c, held_raw d1 c)) L = map (\<lambda>c. (c, held_raw d c)) L"
    using s Cons.prems(3) by (auto simp: held_raw_def)
  moreover have "heldMsgs d' = heldMsgs d |` (- set (c # L))" "inFlight d' = inFlight d |` (- set (c # L))"
    using s ih by (simp_all add: restrict_map_def fun_eq_iff)
  moreover have "\<forall>x. wait_set (waiters d') x = wait_set (waiters d) x - set (c # L)"
    using s ih by auto
  ultimately show ?case using s ih by simp
qed (auto simp: restrict_map_def)

definition names :: "cascadedTx list \<Rightarrow> txid set" where
  "names cs = set (map fst cs)"

lemma names_simps [simp]: "names [] = {}" "names (cs @ map (\<lambda>c. (c, f c)) L) = names cs \<union> set L"
  by (auto simp: names_def image_image)

text \<open>The state of the walk from \<open>t\<close> in \<open>d0\<close> after cascading \<open>cs\<close>, with \<open>q\<close> still queued.\<close>

definition cascade_inv :: "txid \<Rightarrow> 'a dispatcher_scheme \<Rightarrow> txid set \<Rightarrow> 'a dispatcher_scheme \<times> cascadedTx list \<times> txid list \<Rightarrow> bool" where
  "cascade_inv t d0 C st \<longleftrightarrow>
     (case st of (d, cs, q) \<Rightarrow>
        graph_ok d \<and> (\<forall>x. wait_set (waiters d) x = wait_set (waiters d0) x - C) \<and>
        heldMsgs d = heldMsgs d0 |` (- C) \<and> inFlight d = inFlight d0 |` (- C) \<and>
        pendingMsgs d = pendingMsgs d0 \<and> dispatcher.more d = dispatcher.more d0 \<and>
        names cs = C \<and> distinct (map fst cs) \<and> (\<forall>x \<in> set cs. snd x = held_raw d0 (fst x)) \<and>
        C \<subseteq> descendants (waiters d0) t \<and> set q \<subseteq> insert t C \<and>
        (\<forall>p \<in> insert t C. p \<in> set q \<or> wait_set (waiters d0) p \<subseteq> C))"

lemma descendants_step:
  "p = t \<or> p \<in> descendants w t \<Longrightarrow> c \<in> wait_set w p \<Longrightarrow> c \<in> descendants w t"
  by (auto simp: descendants_def intro: trancl_into_trancl)

lemma descendants_least:
  assumes "\<And>p c. p \<in> insert t C \<Longrightarrow> c \<in> wait_set w p \<Longrightarrow> c \<in> C"
  shows "descendants w t \<subseteq> C"
proof
  fix c assume "c \<in> descendants w t"
  then have "(t, c) \<in> {(p, c). c \<in> wait_set w p}\<^sup>+" by (simp add: descendants_def)
  then show "c \<in> C" by (induction rule: trancl_induct) (use assms in auto)
qed

lemma cascade_inv_skip:
  assumes "cascade_inv t d0 C (d, cs, p # q)" and "wait_set (waiters d) p = {}"
  shows "cascade_inv t d0 C (d, cs, q)"
proof -
  from assms have "wait_set (waiters d0) p \<subseteq> C"
    by (auto simp: cascade_inv_def)
  with assms(1) show ?thesis unfolding cascade_inv_def by auto
qed

lemma cascade_inv_visit:
  assumes inv: "cascade_inv t d0 C (d, cs, p # q)" and L: "distinct L" "set L = wait_set (waiters d) p"
    and f: "fold (cascade_child p) L (d\<lparr>waiters := fmdrop p (waiters d)\<rparr>, cs, q) = (d', cs', q')"
  shows "cascade_inv t d0 (C \<union> set L) (d', cs', q')"
proof -
  let ?d = "d\<lparr>waiters := fmdrop p (waiters d)\<rparr>"
  have g: "graph_ok ?d" using inv by (auto simp: cascade_inv_def graph_ok_def)
  have w: "wait_set (waiters d) x = wait_set (waiters d0) x - C" for x
    using inv by (simp add: cascade_inv_def)
  note s = cascade_fold_spec [OF g _ L(1) f, simplified]
  have raw: "held_raw ?d c = held_raw d0 c" if "c \<in> set L" for c
    using inv that L(2) w by (auto simp: cascade_inv_def held_raw_def)
  have p: "p = t \<or> p \<in> descendants (waiters d0) t"
    using inv by (auto simp: cascade_inv_def)
  have D: "set L \<subseteq> descendants (waiters d0) t"
    using descendants_step [OF p] L(2) w by auto
  have fs: "map fst cs' = map fst cs @ L" using s by (simp add: comp_def)
  then have "names cs' = C \<union> set L" and "distinct (map fst cs')"
    using inv L w by (auto simp: cascade_inv_def names_def)
  moreover have "heldMsgs d' = heldMsgs d0 |` (- (C \<union> set L))" "inFlight d' = inFlight d0 |` (- (C \<union> set L))"
    using s inv by (simp_all add: cascade_inv_def)
  moreover have "\<forall>x \<in> set cs'. snd x = held_raw d0 (fst x)"
    using s inv raw by (auto simp: cascade_inv_def)
  moreover have "\<forall>x. wait_set (waiters d') x = wait_set (waiters d0) x - (C \<union> set L)"
    using s w L(2) by auto
  moreover have "\<forall>x \<in> insert t (C \<union> set L). x \<in> set q' \<or> wait_set (waiters d0) x \<subseteq> C \<union> set L"
  proof
    fix x assume "x \<in> insert t (C \<union> set L)"
    then consider "x \<in> set L" | "x = p" | "x \<in> set q" | "wait_set (waiters d0) x \<subseteq> C"
      using inv by (auto simp: cascade_inv_def)
    then show "x \<in> set q' \<or> wait_set (waiters d0) x \<subseteq> C \<union> set L"
      by cases (use s L(2) w in auto)
  qed
  moreover have "C \<subseteq> descendants (waiters d0) t" "set q \<subseteq> insert t C"
    "pendingMsgs d = pendingMsgs d0" "dispatcher.more d = dispatcher.more d0"
    using inv by (auto simp: cascade_inv_def)
  ultimately show ?thesis using s D by (auto simp: cascade_inv_def)
qed

lemma cascade_loop_spec:
  assumes "enumerates ord" and "cascade_inv t d0 C st" and "cascade_loop ord st = (cs', d')"
  shows "\<exists>C'. cascade_inv t d0 C' (d', cs', [])"
  using assms
proof (induction ord st arbitrary: C rule: cascade_loop.induct)
  case (2 ord d cs p q)
  show ?case
  proof (cases "fmlookup (waiters d) p")
    case None
    then have "wait_set (waiters d) p = {}" by (simp add: wait_set_def)
    from 2(1) [OF None 2(3) cascade_inv_skip [OF 2(4) this]] 2(5) None show ?thesis by simp
  next
    case (Some S)
    obtain d1 cs1 q1 where f: "fold (cascade_child p) (ord p S) (d\<lparr>waiters := fmdrop p (waiters d)\<rparr>, cs, q) = (d1, cs1, q1)"
      by (metis prod_cases3)
    from 2(3) Some have "distinct (ord p S)" "set (ord p S) = wait_set (waiters d) p"
      by (simp_all add: enumerates_def wait_set_def)
    from cascade_inv_visit [OF 2(4) this f] 2(2) [OF Some 2(3)] 2(5) Some f show ?thesis by simp
  qed
qed auto

lemma cascadeReject_spec:
  assumes "enumerates ord" and "graph_ok d" and "cascadeReject ord t d = (cs, d')"
  shows "cascade_inv t d (descendants (waiters d) t) (d', cs, [])"
proof -
  have "cascade_inv t d {} (d, [], [t])"
    using assms(2) by (simp add: cascade_inv_def restrict_map_def)
  from cascade_loop_spec [OF assms(1) this] assms(3) obtain C where
    C: "cascade_inv t d C (d', cs, [])" by (auto simp: cascadeReject_def)
  then have "descendants (waiters d) t \<subseteq> C"
    by (intro descendants_least) (auto simp: cascade_inv_def)
  with C have "C = descendants (waiters d) t" by (auto simp: cascade_inv_def)
  with C show ?thesis by simp
qed

section \<open>Releases\<close>

lemma canRelease_iff:
  "canRelease c fl held = Some m \<longleftrightarrow> held c = Some m \<and> inputs_of c m \<inter> dom fl = {}"
  by (auto simp: canRelease_def inputs_of_def list_ex_iff split: option.splits)

definition ready :: "'a dispatcher_scheme \<Rightarrow> txid \<Rightarrow> bool" where
  "ready d c \<longleftrightarrow> canRelease c (inFlight d) (heldMsgs d) \<noteq> None"

lemma release_fold_spec:
  assumes "graph_ok d" and "wait_set (waiters d) p = {}" and "distinct L"
    and "fold (release_child p) L d = d'"
  shows "graph_ok d' \<and> (\<forall>x. wait_set (waiters d') x = wait_set (waiters d) x - {c \<in> set L. ready d c}) \<and>
         heldMsgs d' = heldMsgs d |` (- {c \<in> set L. ready d c}) \<and> inFlight d' = inFlight d \<and>
         pendingMsgs d' = pendingMsgs d @ map (the \<circ> heldMsgs d) (filter (ready d) L) \<and>
         tracker d' = tracker d \<and> dispatcher.more d' = dispatcher.more d"
  using assms
proof (induction L arbitrary: d)
  case (Cons c L)
  define d1 where "d1 = release_child p c d"
  have f1: "fold (release_child p) L d1 = d'" using Cons.prems(4) by (simp add: d1_def)
  show ?case
  proof (cases "ready d c")
    case False
    then have "d1 = d" by (simp add: d1_def release_child_def ready_def)
    moreover from False have "{x \<in> set (c # L). ready d x} = {x \<in> set L. ready d x}" by auto
    ultimately show ?thesis
      using Cons.IH [of d] Cons.prems(1-3) f1 False by simp
  next
    case True
    then obtain m where m: "heldMsgs d c = Some m" "canRelease c (inFlight d) (heldMsgs d) = Some m"
      by (auto simp: ready_def canRelease_iff)
    note w = cleanup_exact [OF Cons.prems(1,2), of c]
    have d1: "waiters d1 = cleanupWaiterEntries c p (heldMsgs d) (waiters d)"
      "heldMsgs d1 = (heldMsgs d)(c := None)" "inFlight d1 = inFlight d" "tracker d1 = tracker d"
      "pendingMsgs d1 = pendingMsgs d @ [m]" "dispatcher.more d1 = dispatcher.more d"
      by (simp_all add: d1_def release_child_def m)
    have rd: "ready d1 x = ready d x" if "x \<in> set L" for x
      using that Cons.prems(3) d1 by (auto simp: ready_def canRelease_def)
    have "graph_ok d1" by (rule graph_ok_remove [OF Cons.prems(1) w d1(1,2)])
    moreover have "wait_set (waiters d1) p = {}" using w d1(1) Cons.prems(2) by simp
    ultimately have ih: "graph_ok d'" "\<forall>x. wait_set (waiters d') x = wait_set (waiters d1) x - {c \<in> set L. ready d1 c}"
      "heldMsgs d' = heldMsgs d1 |` (- {c \<in> set L. ready d1 c})" "inFlight d' = inFlight d1"
      "pendingMsgs d' = pendingMsgs d1 @ map (the \<circ> heldMsgs d1) (filter (ready d1) L)"
      "tracker d' = tracker d1" "dispatcher.more d' = dispatcher.more d1"
      using Cons.IH [OF _ _ _ f1] Cons.prems(3) by simp_all
    have R: "{x \<in> set (c # L). ready d x} = insert c {x \<in> set L. ready d1 x}"
      using True rd by auto
    have "filter (ready d1) L = filter (ready d) L"
      by (rule filter_cong) (simp_all add: rd)
    then have "map (the \<circ> heldMsgs d1) (filter (ready d1) L) = map (the \<circ> heldMsgs d) (filter (ready d) L)"
      using d1(2) Cons.prems(3) by auto
    moreover have "heldMsgs d' = heldMsgs d |` (- insert c {x \<in> set L. ready d1 x})"
      using ih(3) d1(2) by (simp add: restrict_map_def fun_eq_iff)
    moreover have "\<forall>x. wait_set (waiters d') x = wait_set (waiters d) x - insert c {x \<in> set L. ready d1 x}"
      using ih(2) d1(1) w by auto
    ultimately show ?thesis
      unfolding R using ih d1 True m(1) by simp
  qed
qed (auto simp: restrict_map_def)

text \<open>The children of \<open>t\<close> that have no other parent in flight once \<open>t\<close> is accepted.\<close>

definition releasable :: "'a dispatcher_scheme \<Rightarrow> txid \<Rightarrow> txid set" where
  "releasable d t = {c \<in> wait_set (waiters d) t. ready d c}"

lemma releaseWaiters_spec:
  assumes "enumerates ord" and "graph_ok d"
  shows "\<exists>L. distinct L \<and> set L = releasable d t \<and>
    (let d' = releaseWaiters ord t d in
       graph_ok d' \<and> inFlight d' = inFlight d \<and> tracker d' = tracker d \<and>
       heldMsgs d' = heldMsgs d |` (- set L) \<and>
       (\<forall>x. wait_set (waiters d') x = (if x = t then {} else wait_set (waiters d) x - set L)) \<and>
       pendingMsgs d' = pendingMsgs d @ map (the \<circ> heldMsgs d) L \<and>
       dispatcher.more d' = dispatcher.more d)"
proof (cases "fmlookup (waiters d) t")
  case None
  then show ?thesis
    by (intro exI [of _ "[]"])
       (use assms(2) in \<open>auto simp: releaseWaiters_def releasable_def wait_set_def restrict_map_def\<close>)
next
  case (Some S)
  let ?d = "d\<lparr>waiters := fmdrop t (waiters d)\<rparr>"
  from assms(1) Some have L: "distinct (ord t S)" "set (ord t S) = wait_set (waiters d) t"
    by (simp_all add: enumerates_def wait_set_def)
  have g: "graph_ok ?d" using assms(2) by (auto simp: graph_ok_def)
  have r: "ready ?d = ready d" by (simp add: ready_def fun_eq_iff)
  note f = release_fold_spec [OF g _ L(1) refl, simplified, unfolded r]
  have "set (filter (ready d) (ord t S)) = releasable d t"
    using L(2) by (auto simp: releasable_def)
  then show ?thesis
    by (intro exI [of _ "filter (ready d) (ord t S)"])
       (use f L in \<open>auto simp: releaseWaiters_def Some Let_def\<close>)
qed

section \<open>Admission\<close>

lemma blocking_inputs: "set (blocking msg fl) = inputs_of (pm_TXID msg) msg \<inter> dom fl"
  by (auto simp: blocking_def inputs_of_def)

lemma hold_graph:
  assumes "graph_ok d" and "heldMsgs d (pm_TXID msg) = None" and "set bl \<subseteq> inputs_of (pm_TXID msg) msg"
  shows "graph_ok (hold msg bl d)"
proof -
  have "c \<noteq> pm_TXID msg" if "c \<in> wait_set (waiters d) p" for c p
    using graph_okD [OF assms(1) that] assms(2) by auto
  then show ?thesis using assms by (fastforce simp: graph_ok_def hold_def split: if_splits)
qed

lemma graph_ok_pending [simp]: "graph_ok (d\<lparr>pendingMsgs := ms\<rparr>) = graph_ok d"
  by (simp add: graph_ok_def)

lemma admit_sel:
  "inFlight (snd (handleAdmit msg off d)) =
     (if inFlight d (pm_TXID msg) = None then (inFlight d)(pm_TXID msg \<mapsto> off) else inFlight d)"
  "heldMsgs (snd (handleAdmit msg off d)) =
     (if inFlight d (pm_TXID msg) = None \<and> blocking msg (inFlight d) \<noteq> []
      then (heldMsgs d)(pm_TXID msg \<mapsto> msg) else heldMsgs d)"
  "pendingMsgs (snd (handleAdmit msg off d)) =
     (if inFlight d (pm_TXID msg) = None \<and> blocking msg (inFlight d) = []
      then pendingMsgs d @ [msg] else pendingMsgs d)"
  "wait_set (waiters (snd (handleAdmit msg off d))) p =
     (if inFlight d (pm_TXID msg) = None \<and> p \<in> set (blocking msg (inFlight d))
      then insert (pm_TXID msg) (wait_set (waiters d) p) else wait_set (waiters d) p)"
  by (auto simp: handleAdmit_def Let_def hold_def)

lemma requeue_sel:
  "inFlight (handleRequeue msg d) = inFlight d" "tracker (handleRequeue msg d) = tracker d"
  "heldMsgs (handleRequeue msg d) =
     (if inFlight d (pm_TXID msg) \<noteq> None \<and> blocking msg (inFlight d) \<noteq> []
      then (heldMsgs d)(pm_TXID msg \<mapsto> msg) else heldMsgs d)"
  "pendingMsgs (handleRequeue msg d) =
     (if inFlight d (pm_TXID msg) \<noteq> None \<and> blocking msg (inFlight d) = []
      then pendingMsgs d @ [msg] else pendingMsgs d)"
  "wait_set (waiters (handleRequeue msg d)) p =
     (if inFlight d (pm_TXID msg) \<noteq> None \<and> p \<in> set (blocking msg (inFlight d))
      then insert (pm_TXID msg) (wait_set (waiters d) p) else wait_set (waiters d) p)"
  by (auto simp: handleRequeue_def Let_def hold_def)

lemma handleAdmit_graph:
  assumes "graph_ok d" and "dom (heldMsgs d) \<subseteq> dom (inFlight d)"
  shows "graph_ok (snd (handleAdmit msg off d))"
proof -
  have "graph_ok (hold msg (blocking msg (inFlight d))
      (d\<lparr>inFlight := (inFlight d)(pm_TXID msg \<mapsto> off), tracker := ot_Add (tracker d) off\<rparr>))"
    if "inFlight d (pm_TXID msg) = None"
    by (rule hold_graph) (use that assms in \<open>auto simp: blocking_inputs graph_ok_def domIff\<close>)
  then show ?thesis using assms(1) by (auto simp: handleAdmit_def Let_def graph_ok_def)
qed

lemma handleRequeue_graph:
  "graph_ok d \<Longrightarrow> heldMsgs d (pm_TXID msg) = None \<Longrightarrow> graph_ok (handleRequeue msg d)"
  by (auto simp: handleRequeue_def Let_def blocking_inputs intro: hold_graph)

section \<open>Terminal events\<close>

text \<open>An enumeration in txid order, as one instance of the unspecified map order.\<close>

definition key_order :: child_order where
  "key_order p S = sorted_list_of_fset S"

lemma key_order [simp]: "enumerates key_order"
  by (simp add: enumerates_def key_order_def sorted_list_of_fset.rep_eq)

text \<open>A three-step chain: \<open>B\<close> spends \<open>A\<close>, \<open>C\<close> spends \<open>B\<close>.\<close>

definition sample_msg :: "txid \<Rightarrow> txid list \<Rightarrow> propagationMsg" where
  "sample_msg t ins = \<lparr>pm_TXID = t, pm_RawTx = t @ ''raw'', pm_InputTXIDs = ins, pm_retryCount = 0,
     pm_merkleRetryCount = 0, pm_merkleFailureReason = [], pm_retryReason = []\<rparr>"

definition sample_chain :: dispatcher where
  "sample_chain = snd (handleAdmit (sample_msg ''C'' [''B'']) 3 (snd (handleAdmit (sample_msg ''B'' [''A'']) 2
     (snd (handleAdmit (sample_msg ''A'' []) 1 newDispatcher)))))"

lemma sample_chain_simps:
  "waiters sample_chain = fmupd ''B'' {|''C''|} (fmupd ''A'' {|''B''|} fmempty)"
  "heldMsgs sample_chain = [''B'' \<mapsto> sample_msg ''B'' [''A''], ''C'' \<mapsto> sample_msg ''C'' [''B'']]"
  "inFlight sample_chain = [''A'' \<mapsto> 1, ''B'' \<mapsto> 2, ''C'' \<mapsto> 3]"
  by (simp_all add: sample_chain_def sample_msg_def handleAdmit_def newDispatcher_def blocking_def
      hold_def register_waiter_def Let_def)

lemma sample_chain_graph: "graph_ok sample_chain"
  by (auto simp: graph_ok_def sample_chain_simps wait_set_def inputs_of_def sample_msg_def split: if_splits)

lemma sample_chain_descendants: "descendants (waiters sample_chain) ''A'' = {''B'', ''C''}"
proof (intro equalityI descendants_least)
  have "''B'' \<in> descendants (waiters sample_chain) ''A''"
    by (rule descendants_step [where p = "''A''"]) (simp_all add: sample_chain_simps wait_set_def)
  moreover from this have "''C'' \<in> descendants (waiters sample_chain) ''A''"
    by (intro descendants_step [where p = "''B''"]) (simp_all add: sample_chain_simps wait_set_def)
  ultimately show "{''B'', ''C''} \<subseteq> descendants (waiters sample_chain) ''A''" by simp
qed (auto simp: sample_chain_simps wait_set_def split: if_splits)

text \<open>
  C6. Cascade: a REJECTED or PENDING\_RETRY event for \<open>t\<close> takes out of flight exactly \<open>t\<close> and its
  descendants in the waiter graph. Each descendant is reported once, with the raw bytes of its
  held message; it leaves \<open>heldMsgs\<close> and every waiter set, and nothing else changes.
\<close>

theorem cascade_exact:
  assumes "enumerates ord" and "graph_ok d" and "st = StatusRejected \<or> st = StatusPendingRetry"
    and "handleTerminal ord t st d = (cascaded, d')"
  shows "let D = descendants (waiters d) t in
     distinct (map fst cascaded) \<and> set cascaded = (\<lambda>c. (c, held_raw d c)) ` D \<and>
     inFlight d' = inFlight d |` (- insert t D) \<and> heldMsgs d' = heldMsgs d |` (- D) \<and>
     pendingMsgs d' = pendingMsgs d \<and>
     (\<forall>p. wait_set (waiters d') p = (if p = t \<or> p \<in> D then {} else wait_set (waiters d) p - D)) \<and>
     graph_ok d'"
proof -
  let ?D = "descendants (waiters d) t"
  from assms(3,4) have "cascadeReject ord t (finish_tx t d) = (cascaded, d')"
    by (auto simp: handleTerminal_def)
  from cascadeReject_spec [OF assms(1) _ this] assms(2)
  have c: "cascade_inv t (finish_tx t d) ?D (d', cascaded, [])" by simp
  have raw: "held_raw (finish_tx t d) = held_raw d" by (simp add: held_raw_def fun_eq_iff)
  from c have n: "fst ` set cascaded = ?D" and sn: "\<forall>x \<in> set cascaded. snd x = held_raw d (fst x)"
    by (auto simp: cascade_inv_def names_def raw)
  then have "set cascaded = (\<lambda>c. (c, held_raw d c)) ` ?D"
    unfolding n [symmetric] image_image by (force simp: image_iff)
  moreover have "inFlight d' = inFlight d |` (- insert t ?D)"
    using c by (auto simp: cascade_inv_def restrict_map_def)
  moreover have "wait_set (waiters d) p \<subseteq> ?D" if "p = t \<or> p \<in> ?D" for p
    using descendants_step [OF that] by auto
  ultimately show ?thesis using c by (auto simp: cascade_inv_def Let_def)
qed

theorem cascade_exact_witness:
  "set (fst (handleTerminal key_order ''A'' StatusRejected sample_chain)) = {(''B'', ''Braw''), (''C'', ''Craw'')} \<and>
   inFlight (snd (handleTerminal key_order ''A'' StatusRejected sample_chain)) = Map.empty"
proof -
  have raw: "held_raw sample_chain ''B'' = ''Braw''" "held_raw sample_chain ''C'' = ''Craw''"
    by (simp_all add: held_raw_def sample_chain_simps sample_msg_def)
  have "inFlight sample_chain |` (- {''A'', ''B'', ''C''}) = Map.empty"
    by (auto simp: sample_chain_simps restrict_map_def)
  with cascade_exact [OF key_order sample_chain_graph disjI1 [OF refl] prod.collapse [symmetric], of "''A''"]
  show ?thesis by (simp add: sample_chain_descendants Let_def raw)
qed

text \<open>
  C26. Release: an ACCEPTED\_BY\_NETWORK event for \<open>t\<close> moves exactly those of its registered children
  that have no other input in flight from \<open>heldMsgs\<close> to the end of \<open>pendingMsgs\<close>, each once; only
  \<open>t\<close> leaves the in-flight set and nothing is cascaded.
\<close>

theorem release_exact:
  assumes "enumerates ord" and "graph_ok d"
    and "handleTerminal ord t StatusAcceptedByNetwork d = (cascaded, d')"
  shows "cascaded = [] \<and> inFlight d' = (inFlight d)(t := None) \<and> graph_ok d' \<and>
    (\<exists>L. distinct L \<and>
       set L = {c \<in> wait_set (waiters d) t. \<exists>m. heldMsgs d c = Some m \<and> inputs_of c m \<inter> dom (inFlight d) \<subseteq> {t}} \<and>
       pendingMsgs d' = pendingMsgs d @ map (the \<circ> heldMsgs d) L \<and>
       heldMsgs d' = heldMsgs d |` (- set L) \<and>
       (\<forall>x. wait_set (waiters d') x = (if x = t then {} else wait_set (waiters d) x - set L)))"
proof -
  have r: "releasable (finish_tx t d) t =
    {c \<in> wait_set (waiters d) t. \<exists>m. heldMsgs d c = Some m \<and> inputs_of c m \<inter> dom (inFlight d) \<subseteq> {t}}"
    by (auto simp: releasable_def ready_def canRelease_iff split: if_splits)
  from assms(3) have e: "cascaded = []" "d' = releaseWaiters ord t (finish_tx t d)"
    by (auto simp: handleTerminal_def)
  from assms(2) have "graph_ok (finish_tx t d)" by simp
  from releaseWaiters_spec [OF assms(1) this, of t, unfolded r Let_def finish_tx_sel]
  show ?thesis
    unfolding e by (elim exE conjE, intro conjI exI) (rule refl | assumption)+
qed

theorem release_exact_witness:
  "map pm_TXID (pendingMsgs (snd (handleTerminal key_order ''A'' StatusAcceptedByNetwork sample_chain))) = [''A'', ''B'']"
proof -
  note r = release_exact [OF key_order sample_chain_graph prod.collapse [symmetric], of "''A''"]
  then obtain L where L: "distinct L"
    "set L = {c \<in> wait_set (waiters sample_chain) ''A''.
       \<exists>m. heldMsgs sample_chain c = Some m \<and> inputs_of c m \<inter> dom (inFlight sample_chain) \<subseteq> {''A''}}"
    "pendingMsgs (snd (handleTerminal key_order ''A'' StatusAcceptedByNetwork sample_chain)) =
       pendingMsgs sample_chain @ map (the \<circ> heldMsgs sample_chain) L"
    by (elim conjE exE) (rule that)
  have "wait_set (waiters sample_chain) ''A'' = {''B''}"
    and "heldMsgs sample_chain ''B'' = Some (sample_msg ''B'' [''A''])"
    by (simp_all add: sample_chain_simps wait_set_def)
  moreover have "inputs_of ''B'' (sample_msg ''B'' [''A'']) = {''A''}"
    by (auto simp: inputs_of_def sample_msg_def)
  ultimately have "set L = {''B''}" unfolding L(2) by auto
  with L(1) have "L = [''B'']"
    by (cases L; cases "tl L") auto
  moreover have "pendingMsgs sample_chain = [sample_msg ''A'' []]"
    by (simp add: sample_chain_def sample_msg_def handleAdmit_def newDispatcher_def blocking_def hold_def Let_def)
  ultimately show ?thesis using L(3) by (simp add: sample_chain_simps sample_msg_def)
qed

end
