(* ===== verification/Dispatcher_Loop.thy ===== *)
theory Dispatcher_Loop
  imports Dispatcher_Graph
begin

text \<open>
  The select loop of \<open>runDispatcher\<close> (src/services/propagation/dispatcher.go) as one step per
  selected case, its reachable states, and the commit watermark: the offsets the loop marks
  relative to the offsets of the transactions in flight. JSON decoding of the message value is
  the parameter \<open>Unmarshal\<close>; depth gauges and trace spans are left out.
\<close>

section \<open>The loop\<close>

record dispatch_loop = dispatcher +
  marks :: mark_queue

definition new_loop :: dispatch_loop where
  "new_loop = dispatcher.extend newDispatcher \<lparr>marks = newMarkQueue\<rparr>"

text \<open>\<open>FlushTick\<close> carries whether a \<open>processBatchSem\<close> slot is free.\<close>

datatype loop_event =
    CtxDone
  | ClaimClosed
  | ClaimMessage kafka_message
  | AdmitRequest propagationMsg int
  | RequeueRequest propagationMsg
  | TerminalEvent txid status
  | DrainRequest
  | FlushTick bool

record loop_output =
  out_marked :: "kafka_message list"
  out_admit :: "admitResult option"
  out_cascaded :: "cascadedTx list"
  out_batch :: "propagationMsg list option"
  out_exit :: bool

definition quiet :: loop_output where
  "quiet = \<lparr>out_marked = [], out_admit = None, out_cascaded = [], out_batch = None, out_exit = False\<rparr>"

definition has_room :: "int \<Rightarrow> 'a dispatcher_scheme \<Rightarrow> bool" where
  "has_room maxPending l \<longleftrightarrow> maxPending \<le> 0 \<or> int (length (pendingMsgs l)) < maxPending"

text \<open>The nil-channel guards of the select; \<open>claim\<close> is false in test mode.\<close>

fun enabled :: "bool \<Rightarrow> int \<Rightarrow> loop_event \<Rightarrow> dispatch_loop \<Rightarrow> bool" where
  "enabled claim maxPending ClaimClosed l = (claim \<and> has_room maxPending l)"
| "enabled claim maxPending (ClaimMessage m) l = (claim \<and> has_room maxPending l)"
| "enabled claim maxPending (AdmitRequest m off) l = has_room maxPending l"
| "enabled claim maxPending (FlushTick slot) l = claim"
| "enabled claim maxPending _ l = True"

definition advance_marks :: "bool \<Rightarrow> dispatch_loop \<Rightarrow> (kafka_message list \<times> dispatch_loop) option" where
  "advance_marks claim l =
     map_option (\<lambda>(ms, q, t). (ms, l\<lparr>marks := q, tracker := t\<rparr>)) (mq_advance claim (marks l) (tracker l))"

text \<open>One iteration; \<open>None\<close> is a panic in \<open>advance\<close>.\<close>

fun loop_step :: "(bytes \<Rightarrow> propagationMsg option) \<Rightarrow> child_order \<Rightarrow> bool \<Rightarrow> loop_event \<Rightarrow> dispatch_loop
    \<Rightarrow> (loop_output \<times> dispatch_loop) option" where
  "loop_step Unmarshal ord claim CtxDone l =
     map_option (\<lambda>(ms, l'). (quiet\<lparr>out_marked := ms, out_exit := True\<rparr>, l')) (advance_marks claim l)"
| "loop_step Unmarshal ord claim ClaimClosed l =
     map_option (\<lambda>(ms, l'). (quiet\<lparr>out_marked := ms, out_exit := True\<rparr>, l')) (advance_marks claim l)"
| "loop_step Unmarshal ord claim (ClaimMessage msg) l =
     (case Unmarshal (km_Value msg) of
        None \<Rightarrow> Some (quiet\<lparr>out_marked := [msg]\<rparr>, l)
      | Some propMsg \<Rightarrow>
          if pm_RawTx propMsg = [] then Some (quiet\<lparr>out_marked := [msg]\<rparr>, l)
          else let (res, l') = handleAdmit propMsg (km_Offset msg) l
               in Some (quiet, l'\<lparr>marks := mq_push (marks l') msg\<rparr>))"
| "loop_step Unmarshal ord claim (AdmitRequest msg offset) l =
     (let (res, l') = handleAdmit msg offset l in Some (quiet\<lparr>out_admit := Some res\<rparr>, l'))"
| "loop_step Unmarshal ord claim (RequeueRequest msg) l = Some (quiet, handleRequeue msg l)"
| "loop_step Unmarshal ord claim (TerminalEvent t st) l =
     (let (cascaded, l') = handleTerminal ord t st l in Some (quiet\<lparr>out_cascaded := cascaded\<rparr>, l'))"
| "loop_step Unmarshal ord claim DrainRequest l =
     Some (quiet\<lparr>out_batch := Some (pendingMsgs l)\<rparr>, l\<lparr>pendingMsgs := []\<rparr>)"
| "loop_step Unmarshal ord claim (FlushTick slot) l =
     map_option (\<lambda>(ms, l').
         if pendingMsgs l' = [] \<or> \<not> slot then (quiet\<lparr>out_marked := ms\<rparr>, l')
         else (quiet\<lparr>out_marked := ms, out_batch := Some (pendingMsgs l')\<rparr>, l'\<lparr>pendingMsgs := []\<rparr>))
       (advance_marks claim l)"

text \<open>
  A claim delivers a partition in offset order: each message's offset is above the highest one
  delivered before it.
\<close>

fun delivers :: "loop_event \<Rightarrow> int \<Rightarrow> int \<Rightarrow> bool" where
  "delivers (ClaimMessage m) hi hi' \<longleftrightarrow> hi < km_Offset m \<and> hi' = km_Offset m"
| "delivers (AdmitRequest m off) hi hi' \<longleftrightarrow> hi < off \<and> hi' = off"
| "delivers _ hi hi' \<longleftrightarrow> hi' = hi"

inductive loop_reach :: "(bytes \<Rightarrow> propagationMsg option) \<Rightarrow> bool \<Rightarrow> int \<Rightarrow> int \<Rightarrow> dispatch_loop \<Rightarrow> bool"
  for Unmarshal claim maxPending where
  start: "loop_reach Unmarshal claim maxPending hi new_loop"
| step: "\<lbrakk>loop_reach Unmarshal claim maxPending hi l; enabled claim maxPending ev l; delivers ev hi hi';
    enumerates ord; loop_step Unmarshal ord claim ev l = Some (out, l'); \<not> out_exit out\<rbrakk>
    \<Longrightarrow> loop_reach Unmarshal claim maxPending hi' l'"

section \<open>In-flight offsets are the unfinished offsets\<close>

definition tracks :: "int \<Rightarrow> 'a dispatcher_scheme \<Rightarrow> bool" where
  "tracks hi d \<longleftrightarrow> ot_inv (tracker d) \<and> ot_unfinished (tracker d) = ran (inFlight d) \<and>
     inj_on (inFlight d) (dom (inFlight d)) \<and> (\<forall>x \<in> ot_known (tracker d). x \<le> hi)"

lemma tracks_cong:
  "tracks hi d \<Longrightarrow> tracker d' = tracker d \<Longrightarrow> inFlight d' = inFlight d \<Longrightarrow> tracks hi d'"
  by (simp add: tracks_def)

lemma tracks_offset_le: "tracks hi d \<Longrightarrow> inFlight d t = Some off \<Longrightarrow> off \<le> hi"
  using ot.sub by (force simp: tracks_def ran_def)

lemma tracks_finish:
  assumes "tracks hi d"
  shows "tracks hi (finish_tx t d)"
proof (cases "inFlight d t")
  case None
  with assms show ?thesis by (simp add: finish_tx_def)
next
  case (Some off)
  from assms have inj: "inj_on (inFlight d) (dom (inFlight d))" by (simp add: tracks_def)
  have "ran ((inFlight d)(t := None)) = ran (inFlight d) - {off}"
    using Some inj by (auto simp: ran_def inj_on_def dom_def) (metis option.inject)
  moreover have "inj_on ((inFlight d)(t := None)) (dom ((inFlight d)(t := None)))"
    using inj by (auto simp: inj_on_def dom_def)
  moreover have "off \<in> ot_known (tracker d)"
    using assms Some ot.sub [of "tracker d"] by (auto simp: tracks_def ran_def)
  ultimately show ?thesis
    using assms Some by (simp add: tracks_def finish_tx_def ot.specs)
qed

lemma tracks_admit:
  assumes "tracks hi d" and "hi < off"
  shows "tracks off (snd (handleAdmit msg off d))"
proof -
  have new: "off \<notin> ot_known (tracker d)" using assms by (auto simp: tracks_def)
  have le: "\<forall>x \<in> insert off (ot_known (tracker d)). x \<le> off" using assms by (force simp: tracks_def)
  have i: "ot_inv (tracker d)" using assms(1) by (simp add: tracks_def)
  have "off \<notin> ran (inFlight d)"
    using tracks_offset_le [OF assms(1)] assms(2) by (force simp: ran_def)
  then have nr: "ran (inFlight d) - {off} = ran (inFlight d)" by simp
  show ?thesis
  proof (cases "inFlight d (pm_TXID msg)")
    case (Some o1)
    then show ?thesis using assms(1) new le i
      by (simp add: handleAdmit_def tracks_def ot.specs nr)
  next
    case None
    have "inj_on ((inFlight d)(pm_TXID msg \<mapsto> off)) (dom ((inFlight d)(pm_TXID msg \<mapsto> off)))"
      using assms None tracks_offset_le [OF assms(1)] by (fastforce simp: tracks_def inj_on_def dom_def)
    moreover have "ran ((inFlight d)(pm_TXID msg \<mapsto> off)) = insert off (ran (inFlight d))"
      using None by simp
    ultimately show ?thesis using None assms(1) new le i
      by (simp add: handleAdmit_def Let_def hold_def tracks_def ot.specs)
  qed
qed

lemma tracks_requeue [simp]: "tracks hi (handleRequeue msg d) = tracks hi d"
  by (simp add: handleRequeue_def hold_def tracks_def Let_def)

lemma release_frame:
  "inFlight (releaseWaiters ord t d) = inFlight d \<and> tracker (releaseWaiters ord t d) = tracker d \<and>
   dispatcher.more (releaseWaiters ord t d) = dispatcher.more d"
proof -
  have "inFlight (fold (release_child t) L d) = inFlight d \<and> tracker (fold (release_child t) L d) = tracker d \<and>
    dispatcher.more (fold (release_child t) L d) = dispatcher.more d" for L and d :: "'a dispatcher_scheme"
    by (induction L arbitrary: d) (auto simp: release_child_def split: option.splits)
  then show ?thesis by (auto simp: releaseWaiters_def split: option.splits)
qed

text \<open>What every cascade step keeps, whatever the waiter graph.\<close>

definition frame :: "int \<Rightarrow> 'a dispatcher_scheme \<Rightarrow> 'a dispatcher_scheme \<Rightarrow> bool" where
  "frame hi d0 d \<longleftrightarrow> tracks hi d \<and> dispatcher.more d = dispatcher.more d0"

lemma frame_child: "frame hi d0 (fst x) \<Longrightarrow> frame hi d0 (fst (cascade_child p c x))"
  by (cases x) (auto simp: frame_def cascade_child_def Let_def intro!: tracks_finish intro: tracks_cong)

lemma frame_fold: "frame hi d0 (fst x) \<Longrightarrow> frame hi d0 (fst (fold (cascade_child p) L x))"
  by (induction L arbitrary: x) (simp_all add: frame_child)

lemma frame_cascade: "frame hi d0 (fst st) \<Longrightarrow> frame hi d0 (snd (cascade_loop ord st))"
proof (induction ord st rule: cascade_loop.induct)
  case (2 ord d cs p q)
  have "frame hi d0 (fst (fold (cascade_child p) L (d\<lparr>waiters := w\<rparr>, cs, q)))" for L w
    by (rule frame_fold) (use 2(3) in \<open>simp add: frame_def tracks_def\<close>)
  then show ?case using 2 by (simp split: option.splits)
qed simp

lemma tracks_terminal:
  assumes "tracks hi d"
  shows "frame hi d (snd (handleTerminal ord t st d))"
proof -
  have f: "frame hi d (finish_tx t d)" using tracks_finish [OF assms] by (simp add: frame_def)
  then have "frame hi d (releaseWaiters ord t (finish_tx t d))"
    using release_frame [of ord t "finish_tx t d"] by (auto simp: frame_def intro: tracks_cong)
  moreover have "frame hi d (snd (cascadeReject ord t (finish_tx t d)))"
    unfolding cascadeReject_def by (rule frame_cascade) (simp add: f)
  moreover have "frame hi d d" using assms by (simp add: frame_def)
  ultimately show ?thesis by (simp add: handleTerminal_def)
qed

section \<open>The loop invariant\<close>

definition loop_inv :: "int \<Rightarrow> dispatch_loop \<Rightarrow> bool" where
  "loop_inv hi l \<longleftrightarrow> tracks hi l \<and> mq_inv (marks l) \<and>
     sorted (map km_Offset (mq_contents (marks l))) \<and> (\<forall>m \<in> set (mq_contents (marks l)). km_Offset m \<le> hi)"

lemma more_marks: "dispatcher.more l = dispatcher.more l' \<Longrightarrow> marks l = marks l'"
  by (cases l; cases l') simp

lemma marks_admit [simp]: "marks (snd (handleAdmit msg off l)) = marks l"
  by (simp add: handleAdmit_def hold_def Let_def)

lemma marks_requeue [simp]: "marks (handleRequeue msg l) = marks l"
  by (simp add: handleRequeue_def hold_def Let_def)

lemma loop_inv_new: "loop_inv hi new_loop"
  by (simp add: loop_inv_def tracks_def new_loop_def newDispatcher_def dispatcher.defs ot.specs)

lemma tracks_mono: "tracks hi d \<Longrightarrow> hi \<le> hi' \<Longrightarrow> tracks hi' d"
  by (force simp: tracks_def)

text \<open>Exactly the queued messages below every in-flight offset are marked.\<close>

lemma advance_marks_spec:
  assumes "loop_inv hi l"
  shows "\<exists>l'. advance_marks True l =
       Some (filter (\<lambda>m. \<forall>x \<in> ran (inFlight l). km_Offset m < x) (mq_contents (marks l)), l') \<and>
     loop_inv hi l' \<and> inFlight l' = inFlight l \<and> pendingMsgs l' = pendingMsgs l \<and>
     heldMsgs l' = heldMsgs l \<and> waiters l' = waiters l \<and>
     mq_contents (marks l') = filter (\<lambda>m. \<exists>x \<in> ran (inFlight l). x \<le> km_Offset m) (mq_contents (marks l))"
proof -
  let ?P = "\<lambda>m. \<forall>x \<in> ran (inFlight l). km_Offset m < x"
  from assms have q: "mq_inv (marks l)" and t: "ot_inv (tracker l)" and so: "sorted (map km_Offset (mq_contents (marks l)))"
    and u: "ot_unfinished (tracker l) = ran (inFlight l)"
    by (auto simp: loop_inv_def tracks_def)
  obtain q' t' where adv: "advance_with LowestUnfinished True (marks l) (tracker l) =
      Some (takeWhile (markable (fst (LowestUnfinished (tracker l)))) (mq_contents (marks l)), q', t')"
    and k: "mq_inv q'" "ot_inv t'" "ot_unfinished t' = ot_unfinished (tracker l)" "ot_known t' \<subseteq> ot_known (tracker l)"
    by (rule ot.advance_spec [OF q t])
  note c = ot.advance_contract [OF q t adv, unfolded u]
  have neg: "(\<lambda>m. \<exists>x \<in> ran (inFlight l). x \<le> km_Offset m) = (\<lambda>m. \<not> ?P m)"
    by (auto simp: not_less)
  have nB: "\<not> ?P m" if "m \<in> set (mq_contents q')" for m
    using c so that by (auto simp: not_less)
  note fp = filter_partition [of _ _ _ ?P, OF conjunct1 [OF c] _ nB, folded neg]
  have "filter ?P (mq_contents (marks l)) = takeWhile (markable (fst (LowestUnfinished (tracker l)))) (mq_contents (marks l))"
    by (rule fp(1)) (use c in blast)
  moreover have rest: "filter (\<lambda>m. \<exists>x \<in> ran (inFlight l). x \<le> km_Offset m) (mq_contents (marks l)) = mq_contents q'"
    by (rule fp(2)) (use c in blast)
  moreover have "loop_inv hi (l\<lparr>marks := q', tracker := t'\<rparr>)"
    using assms k u unfolding loop_inv_def tracks_def
    by (auto simp flip: rest simp: sorted_filter)
  ultimately show ?thesis
    by (simp add: advance_marks_def mq_advance_def adv)
qed

lemma loop_inv_cong:
  "loop_inv hi l \<Longrightarrow> tracks hi l' \<Longrightarrow> marks l' = marks l \<Longrightarrow> loop_inv hi l'"
  by (simp add: loop_inv_def)

lemma loop_inv_advance:
  assumes "loop_inv hi l" and "advance_marks claim l = Some (ms, l')"
  shows "loop_inv hi l'"
proof (cases claim)
  case True
  with advance_marks_spec [OF assms(1)] assms(2) show ?thesis by force
next
  case False
  with assms show ?thesis by (simp add: advance_marks_def mq_advance_def advance_with_def)
qed

lemma loop_inv_admit:
  assumes "loop_inv hi l" and "hi < off"
  shows "loop_inv off (snd (handleAdmit msg off l))"
  using tracks_admit [OF _ assms(2), of l msg] assms by (force simp: loop_inv_def)

lemma loop_inv_push:
  assumes "loop_inv hi l" and "hi < km_Offset m"
  shows "loop_inv (km_Offset m) (snd (handleAdmit msg (km_Offset m) l)
    \<lparr>marks := mq_push (marks (snd (handleAdmit msg (km_Offset m) l))) m\<rparr>)"
proof -
  from assms have "sorted (map km_Offset (mq_contents (marks l) @ [m]))"
    by (force simp: loop_inv_def sorted_append)
  with loop_inv_admit [OF assms, of msg] assms show ?thesis
    by (auto simp: loop_inv_def tracks_def)
qed

lemma loop_inv_step:
  assumes "loop_inv hi l" and "delivers ev hi hi'" and "loop_step Unmarshal ord claim ev l = Some (out, l')"
  shows "loop_inv hi' l'"
proof (cases ev)
  case (ClaimMessage m)
  have "loop_inv (km_Offset m) l" if "hi < km_Offset m"
    using assms(1) that tracks_mono [of hi l "km_Offset m"] by (force simp: loop_inv_def)
  then show ?thesis using assms ClaimMessage loop_inv_push [OF assms(1), of m]
    by (auto simp: Let_def case_prod_beta split: option.splits if_splits)
next
  case (AdmitRequest m off)
  then show ?thesis using assms loop_inv_admit [OF assms(1)] by (auto simp: case_prod_beta)
next
  case (TerminalEvent t st)
  then have l': "l' = snd (handleTerminal ord t st l)" and hi: "hi' = hi"
    using assms(2,3) by (auto simp: case_prod_beta)
  from assms(1) have "frame hi l l'"
    unfolding l' by (intro tracks_terminal) (simp add: loop_inv_def)
  then show ?thesis
    using assms(1) loop_inv_cong more_marks unfolding frame_def hi by blast
next
  case (FlushTick slot)
  have "loop_inv hi (x\<lparr>pendingMsgs := []\<rparr>) = loop_inv hi x" for x
    by (simp add: loop_inv_def tracks_def)
  then show ?thesis using assms FlushTick by (auto split: if_splits dest: loop_inv_advance)
next
  case DrainRequest
  then show ?thesis using assms by (auto simp: loop_inv_def tracks_def)
next
  case (RequeueRequest m)
  then show ?thesis using assms by (auto simp: loop_inv_def)
qed (use assms in \<open>auto dest: loop_inv_advance\<close>)

lemma reach_inv: "loop_reach Unmarshal claim maxPending hi l \<Longrightarrow> loop_inv hi l"
  by (induction rule: loop_reach.induct) (auto intro: loop_inv_new loop_inv_step)

section \<open>Properties\<close>


definition sample_decode :: "bytes \<Rightarrow> propagationMsg option" where
  "sample_decode v = (if v = [] then None else Some (sample_msg v []))"

definition sample_loop :: dispatch_loop where
  "sample_loop = snd (the (loop_step sample_decode key_order True
     (ClaimMessage \<lparr>km_Offset = 5, km_Value = ''A''\<rparr>) new_loop))"

lemma reach_sample: "loop_reach sample_decode True 0 5 sample_loop"
  by (rule loop_reach.step [OF loop_reach.start [of _ _ _ 0], where
        ev = "ClaimMessage \<lparr>km_Offset = 5, km_Value = ''A''\<rparr>" and ord = key_order and out = quiet])
     (simp_all add: has_room_def sample_decode_def sample_msg_def case_prod_beta quiet_def sample_loop_def)

lemma sample_loop_simps:
  "inFlight sample_loop = [''A'' \<mapsto> 5]"
  "mq_contents (marks sample_loop) = [\<lparr>km_Offset = 5, km_Value = ''A''\<rparr>]"
  by (simp_all add: sample_loop_def sample_decode_def sample_msg_def case_prod_beta handleAdmit_def new_loop_def
      newDispatcher_def dispatcher.defs blocking_def Let_def)


text \<open>
  C35. A message that does not decode, or has no raw bytes, is marked at once, whatever is in flight:
  in every reachable state its offset is above every offset in flight, so marking it commits the
  partition past transactions that are not finished.
\<close>

theorem malformed_marks_past_inflight:
  assumes "loop_reach Unmarshal True maxPending hi l" and "hi < km_Offset m"
    and "case Unmarshal (km_Value m) of None \<Rightarrow> True | Some pm \<Rightarrow> pm_RawTx pm = []"
    and "inFlight l t = Some off"
  shows "loop_step Unmarshal ord True (ClaimMessage m) l = Some (quiet\<lparr>out_marked := [m]\<rparr>, l) \<and> off < km_Offset m"
proof -
  from reach_inv [OF assms(1)] assms(4) have "off \<le> hi"
    by (auto simp: loop_inv_def intro: tracks_offset_le)
  with assms(2,3) show ?thesis by (auto split: option.splits)
qed

theorem malformed_marks_past_inflight_witness:
  "loop_step sample_decode key_order True (ClaimMessage \<lparr>km_Offset = 6, km_Value = []\<rparr>) sample_loop
     = Some (quiet\<lparr>out_marked := [\<lparr>km_Offset = 6, km_Value = []\<rparr>]\<rparr>, sample_loop) \<and> (5::int) < 6"
  using malformed_marks_past_inflight [OF reach_sample, of "\<lparr>km_Offset = 6, km_Value = []\<rparr>" "''A''" 5 key_order]
  by (simp add: sample_decode_def sample_loop_simps)

end
