(* ===== verification/Dispatcher_Pipeline.thy ===== *)
theory Dispatcher_Pipeline
  imports Dispatcher_Loop
begin

text \<open>
  The dispatcher together with the batches it has handed to \<open>processBatch\<close>
  (src/services/propagation/dispatcher.go, propagator.go). A claim's pipeline answers every
  transaction of a batch with one terminal event or one requeue, so a state is the dispatcher and
  the list \<open>busy\<close> of messages being broadcast. Shown here: no transaction is lost or doubled, the
  dispatcher cannot wedge when parents are admitted before their children, and it can when they
  are not.
\<close>

type_synonym pipe_state = "dispatcher \<times> propagationMsg list \<times> int"

text \<open>\<open>G\<close> restricts the admissions considered; the last component is the highest offset delivered.\<close>

inductive pipe_step :: "(propagationMsg \<Rightarrow> dispatcher \<Rightarrow> bool) \<Rightarrow> pipe_state \<Rightarrow> pipe_state \<Rightarrow> bool"
  for G where
  admit: "G m d \<Longrightarrow> hi < off \<Longrightarrow> pipe_step G (d, busy, hi) (snd (handleAdmit m off d), busy, off)"
| flush: "pipe_step G (d, busy, hi) (d\<lparr>pendingMsgs := []\<rparr>, busy @ pendingMsgs d, hi)"
| requeue: "m \<in> set busy \<Longrightarrow> pm_TXID m' = pm_TXID m \<Longrightarrow> pm_InputTXIDs m' = pm_InputTXIDs m \<Longrightarrow>
    pipe_step G (d, busy, hi) (handleRequeue m' d, remove1 m busy, hi)"
| terminal: "m \<in> set busy \<Longrightarrow> enumerates ord \<Longrightarrow>
    st \<in> {StatusAcceptedByNetwork, StatusRejected, StatusPendingRetry} \<Longrightarrow>
    pipe_step G (d, busy, hi) (snd (handleTerminal ord (pm_TXID m) st d), remove1 m busy, hi)"

definition pipe_reach :: "(propagationMsg \<Rightarrow> dispatcher \<Rightarrow> bool) \<Rightarrow> pipe_state \<Rightarrow> bool" where
  "pipe_reach G s \<longleftrightarrow> (pipe_step G)\<^sup>*\<^sup>* (newDispatcher, [], 0) s"

lemma pipe_reach_induct [consumes 1, case_names start step]:
  assumes "pipe_reach G s" and "P (newDispatcher, [], 0)"
    and "\<And>s s'. pipe_reach G s \<Longrightarrow> P s \<Longrightarrow> pipe_step G s s' \<Longrightarrow> P s'"
  shows "P s"
  using assms(1) unfolding pipe_reach_def
  by (induction rule: rtranclp_induct) (auto intro: assms simp: pipe_reach_def)

section \<open>Conservation\<close>

definition live :: "dispatcher \<Rightarrow> propagationMsg list \<Rightarrow> txid list" where
  "live d busy = map pm_TXID (pendingMsgs d @ busy)"

definition pipe_inv :: "pipe_state \<Rightarrow> bool" where
  "pipe_inv s \<longleftrightarrow> (case s of (d, busy, hi) \<Rightarrow>
     graph_ok d \<and> tracks hi d \<and> (\<forall>c m. heldMsgs d c = Some m \<longrightarrow> pm_TXID m = c) \<and>
     distinct (live d busy) \<and> dom (heldMsgs d) \<inter> set (live d busy) = {} \<and>
     dom (inFlight d) = dom (heldMsgs d) \<union> set (live d busy))"

lemma live_remove1:
  assumes "m \<in> set busy" and "distinct (live d busy)"
  shows "set (map pm_TXID (remove1 m busy)) = set (map pm_TXID busy) - {pm_TXID m}"
    and "distinct (map pm_TXID (remove1 m busy))"
    and "set (map pm_TXID (pendingMsgs d)) \<inter> set (map pm_TXID busy) = {}"
proof -
  from assms(2) have d: "distinct (map pm_TXID busy)" and "distinct busy"
    by (auto simp: live_def distinct_map)
  then show "distinct (map pm_TXID (remove1 m busy))"
    by (auto simp: distinct_map inj_on_def)
  show "set (map pm_TXID (remove1 m busy)) = set (map pm_TXID busy) - {pm_TXID m}"
    using d assms(1) \<open>distinct busy\<close> by (auto simp: distinct_map inj_on_def)
  show "set (map pm_TXID (pendingMsgs d)) \<inter> set (map pm_TXID busy) = {}"
    using assms(2) by (auto simp: live_def)
qed

lemma pipe_invI:
  assumes "graph_ok d" and "tracks hi d" and "\<And>c m. heldMsgs d c = Some m \<Longrightarrow> pm_TXID m = c"
    and "distinct (live d busy)" and "dom (heldMsgs d) \<inter> set (live d busy) = {}"
    and "dom (inFlight d) = dom (heldMsgs d) \<union> set (live d busy)"
  shows "pipe_inv (d, busy, hi)"
  using assms by (simp add: pipe_inv_def)

lemma pipe_invD:
  assumes "pipe_inv (d, busy, hi)"
  shows "graph_ok d" "tracks hi d" "heldMsgs d c = Some m \<Longrightarrow> pm_TXID m = c"
    "distinct (live d busy)" "dom (heldMsgs d) \<inter> set (live d busy) = {}"
    "dom (inFlight d) = dom (heldMsgs d) \<union> set (live d busy)"
  using assms by (simp_all add: pipe_inv_def)

lemma pipe_inv_admit:
  assumes "pipe_inv (d, busy, hi)" and "hi < off"
  shows "pipe_inv (snd (handleAdmit m off d), busy, off)"
proof (rule pipe_invI)
  note D = pipe_invD [OF assms(1)]
  let ?d = "snd (handleAdmit m off d)"
  show "graph_ok ?d" using D(1,6) by (intro handleAdmit_graph) auto
  show "tracks off ?d" using D(2) assms(2) by (rule tracks_admit)
  show "pm_TXID x = c" if "heldMsgs ?d c = Some x" for c x
    using that D(3) by (auto simp: admit_sel split: if_splits)
  have new: "pm_TXID m \<notin> set (live d busy)" "heldMsgs d (pm_TXID m) = None" if "inFlight d (pm_TXID m) = None"
    using that D(6) by (auto simp: domIff)
  show "distinct (live ?d busy)"
    using D(4) new by (auto simp: admit_sel live_def)
  show "dom (heldMsgs ?d) \<inter> set (live ?d busy) = {}"
    using D(5) new by (auto simp: admit_sel live_def)
  show "dom (inFlight ?d) = dom (heldMsgs ?d) \<union> set (live ?d busy)"
    using D(6) by (auto simp: admit_sel live_def)
qed

lemma pipe_inv_requeue:
  assumes "pipe_inv (d, busy, hi)" and m: "m \<in> set busy" and t: "pm_TXID m' = pm_TXID m"
  shows "pipe_inv (handleRequeue m' d, remove1 m busy, hi)"
proof (rule pipe_invI)
  note D = pipe_invD [OF assms(1)]
  let ?d = "handleRequeue m' d"
  note r = live_remove1 [OF m D(4)]
  have mem: "pm_TXID m \<in> set (live d busy)" using m by (auto simp: live_def)
  with D(5,6) have h: "heldMsgs d (pm_TXID m) = None" and f: "inFlight d (pm_TXID m) \<noteq> None" by auto
  show "graph_ok ?d" using h t D(1) by (intro handleRequeue_graph) auto
  show "tracks hi ?d" using D(2) by simp
  show "pm_TXID x = c" if "heldMsgs ?d c = Some x" for c x
    using that D(3) by (auto simp: requeue_sel split: if_splits)
  have l: "set (live ?d (remove1 m busy)) =
      (if blocking m' (inFlight d) = [] then set (live d busy) else set (live d busy) - {pm_TXID m})"
    using r(1,3) mem f t m unfolding live_def map_append set_append requeue_sel by auto
  show "distinct (live ?d (remove1 m busy))"
    using r f t D(4) m by (auto simp: requeue_sel live_def simp del: set_remove1_eq)
  show "dom (heldMsgs ?d) \<inter> set (live ?d (remove1 m busy)) = {}"
    using D(5) f t unfolding l by (auto simp: requeue_sel)
  show "dom (inFlight ?d) = dom (heldMsgs ?d) \<union> set (live ?d (remove1 m busy))"
    using D(6) f t mem unfolding l by (auto simp: requeue_sel)
qed

text \<open>
  The two shapes of a terminal step, for a transaction \<open>t\<close>: a set \<open>X\<close> of held transactions leaves
  \<open>heldMsgs\<close>, either for \<open>pendingMsgs\<close> or out of flight.
\<close>

lemma terminal_cases:
  assumes "enumerates ord" and "graph_ok d"
    and "st \<in> {StatusAcceptedByNetwork, StatusRejected, StatusPendingRetry}"
    and d': "d' = snd (handleTerminal ord t st d)"
  obtains (release) L where "distinct L" "pendingMsgs d' = pendingMsgs d @ map (the \<circ> heldMsgs d) L"
      "set L = {c \<in> wait_set (waiters d) t. \<exists>m. heldMsgs d c = Some m \<and> inputs_of c m \<inter> dom (inFlight d) \<subseteq> {t}}"
      "inFlight d' = (inFlight d)(t := None)" "heldMsgs d' = heldMsgs d |` (- set L)" "graph_ok d'"
      "\<And>x. wait_set (waiters d') x = (if x = t then {} else wait_set (waiters d) x - set L)"
  | (cascade) D where "D = descendants (waiters d) t" "pendingMsgs d' = pendingMsgs d" "graph_ok d'"
      "inFlight d' = inFlight d |` (- insert t D)" "heldMsgs d' = heldMsgs d |` (- D)"
      "\<And>x. wait_set (waiters d') x = (if x = t \<or> x \<in> D then {} else wait_set (waiters d) x - D)"
proof (cases "st = StatusAcceptedByNetwork")
  case True
  have r: "releasable (finish_tx t d) t =
    {c \<in> wait_set (waiters d) t. \<exists>m. heldMsgs d c = Some m \<and> inputs_of c m \<inter> dom (inFlight d) \<subseteq> {t}}"
    by (auto simp: releasable_def ready_def canRelease_iff split: if_splits)
  have "graph_ok (finish_tx t d)" using assms(2) by simp
  from releaseWaiters_spec [OF assms(1) this, of t, unfolded r Let_def finish_tx_sel] d' True release
  show thesis by (auto simp: handleTerminal_def)
next
  case False
  have c: "cascade_inv t (finish_tx t d) (descendants (waiters d) t) (d', fst (cascadeReject ord t (finish_tx t d)), [])"
    using cascadeReject_spec [OF assms(1), of "finish_tx t d" t] assms(2,3) False d'
    by (auto simp: handleTerminal_def)
  have "inFlight d' = inFlight d |` (- insert t (descendants (waiters d) t))"
    using c by (auto simp: cascade_inv_def restrict_map_def)
  moreover have "wait_set (waiters d) x \<subseteq> descendants (waiters d) t"
    if "x = t \<or> x \<in> descendants (waiters d) t" for x
    using descendants_step [OF that] by auto
  ultimately show thesis
    using c by (intro cascade [of "descendants (waiters d) t"]) (auto simp: cascade_inv_def)
qed

lemma descendants_held: "graph_ok d \<Longrightarrow> descendants (waiters d) t \<subseteq> dom (heldMsgs d)"
  by (rule descendants_least) (auto dest: graph_okD)

lemma pipe_inv_terminal:
  assumes "pipe_inv (d, busy, hi)" and m: "m \<in> set busy" and o: "enumerates ord"
    and st: "st \<in> {StatusAcceptedByNetwork, StatusRejected, StatusPendingRetry}"
  shows "pipe_inv (snd (handleTerminal ord (pm_TXID m) st d), remove1 m busy, hi)"
proof -
  note D = pipe_invD [OF assms(1)]
  let ?t = "pm_TXID m"
  define d' where "d' = snd (handleTerminal ord ?t st d)"
  note r = live_remove1 [OF m D(4)]
  have mem: "?t \<in> set (live d busy)" using m by (auto simp: live_def)
  then have nt: "?t \<notin> dom (heldMsgs d)" using D(5) by auto
  have tr: "tracks hi d'" using tracks_terminal [OF D(2)] by (simp add: frame_def d'_def)
  from o D(1) st d'_def have "pipe_inv (d', remove1 m busy, hi)"
  proof (cases rule: terminal_cases)
    case (release L)
    have LH: "set L \<subseteq> dom (heldMsgs d)" using release(3) by auto
    have LX: "set L \<inter> set (live d busy) = {}" using LH D(5) by blast
    have ids: "map (pm_TXID \<circ> (the \<circ> heldMsgs d)) L = L"
      by (rule map_idI) (use LH D(3) in force)
    have l: "live d' (remove1 m busy) = map pm_TXID (pendingMsgs d) @ L @ map pm_TXID (remove1 m busy)"
      using release(2) ids by (simp add: live_def)
    have sl: "set (live d' (remove1 m busy)) = set (live d busy) \<union> set L - {?t}"
      using r(1,3) nt LH m unfolding l by (auto simp: live_def)
    have "distinct (live d' (remove1 m busy))"
      using r D(4) LX release(1) unfolding l by (auto simp: live_def disjoint_iff)
    moreover have "dom (heldMsgs d') = dom (heldMsgs d) - set L" "dom (inFlight d') = dom (inFlight d) - {?t}"
      using release(4,5) by auto
    moreover have "heldMsgs d' c = Some x \<Longrightarrow> pm_TXID x = c" for c x
      using release(5) D(3) by (auto simp: restrict_map_def split: if_splits)
    ultimately show ?thesis
      using release(6) tr D(5,6) LH mem by (intro pipe_invI, simp_all only: sl) (auto simp: disjoint_iff)
  next
    case (cascade X)
    have XH: "X \<subseteq> dom (heldMsgs d)" using descendants_held [OF D(1)] cascade(1) by simp
    have sl: "set (live d' (remove1 m busy)) = set (live d busy) - {?t}"
      using r(1,3) m cascade(2) by (auto simp: live_def)
    have "distinct (live d' (remove1 m busy))"
      using r D(4) cascade(2) by (auto simp: live_def)
    moreover have "dom (heldMsgs d') = dom (heldMsgs d) - X" "dom (inFlight d') = dom (inFlight d) - insert ?t X"
      using cascade(4,5) by auto
    moreover have "heldMsgs d' c = Some x \<Longrightarrow> pm_TXID x = c" for c x
      using cascade(5) D(3) by (auto simp: restrict_map_def split: if_splits)
    moreover have "X \<inter> set (live d busy) = {}" using XH D(5) by blast
    ultimately show ?thesis
      using cascade(3) tr D(5,6) XH mem by (intro pipe_invI, simp_all only: sl) (auto simp: disjoint_iff)
  qed
  then show ?thesis by (simp add: d'_def)
qed

lemma pipe_inv_step: "pipe_step G s s' \<Longrightarrow> pipe_inv s \<Longrightarrow> pipe_inv s'"
proof (induction rule: pipe_step.induct)
  case (flush d busy hi)
  then show ?case by (auto simp: pipe_inv_def live_def tracks_def graph_ok_def)
qed (auto intro: pipe_inv_admit pipe_inv_requeue pipe_inv_terminal)

lemma pipe_inv_reach: "pipe_reach G s \<Longrightarrow> pipe_inv s"
proof (induction rule: pipe_reach_induct)
  case start
  show ?case
    by (simp add: pipe_inv_def live_def tracks_def ot.specs) (simp add: newDispatcher_def ot.specs)
qed (rule pipe_inv_step)


section \<open>Progress\<close>

text \<open>A transaction is admitted before every held transaction that spends it.\<close>

definition parents_first :: "propagationMsg \<Rightarrow> dispatcher \<Rightarrow> bool" where
  "parents_first m d \<longleftrightarrow> (\<forall>c mc. heldMsgs d c = Some mc \<longrightarrow> pm_TXID m \<notin> inputs_of c mc)"

text \<open>Every held transaction waits on each of its parents in flight, and on at least one.\<close>

definition registered :: "dispatcher \<Rightarrow> bool" where
  "registered d \<longleftrightarrow> (\<forall>c m. heldMsgs d c = Some m \<longrightarrow>
     inputs_of c m \<inter> dom (inFlight d) \<noteq> {} \<and>
     (\<forall>p \<in> inputs_of c m \<inter> dom (inFlight d). c \<in> wait_set (waiters d) p))"

lemma registered_admit:
  assumes "registered d" and "parents_first m d" and "dom (heldMsgs d) \<subseteq> dom (inFlight d)"
  shows "registered (snd (handleAdmit m off d))"
proof -
  have b: "blocking m (inFlight d) = [] \<longleftrightarrow> inputs_of (pm_TXID m) m \<inter> dom (inFlight d) = {}"
    by (metis blocking_inputs set_empty)
  have self: "pm_TXID m \<notin> inputs_of (pm_TXID m) m" by (simp add: inputs_of_def)
  show ?thesis
  proof (cases "inFlight d (pm_TXID m)")
    case (Some x)
    with assms(1) show ?thesis by (simp add: registered_def admit_sel)
  next
    case None
    then have "heldMsgs d (pm_TXID m) = None" using assms(3) by (auto simp: domIff)
    then show ?thesis
      using assms(1,2) None b self
      by (auto simp: registered_def parents_first_def admit_sel blocking_inputs split: if_splits)
  qed
qed

lemma registered_requeue:
  assumes "registered d" and "heldMsgs d (pm_TXID m) = None"
  shows "registered (handleRequeue m d)"
proof -
  have b: "blocking m (inFlight d) = [] \<longleftrightarrow> inputs_of (pm_TXID m) m \<inter> dom (inFlight d) = {}"
    by (metis blocking_inputs set_empty)
  show ?thesis
    using assms b by (auto simp: registered_def requeue_sel blocking_inputs split: if_splits)
qed

lemma registered_terminal:
  assumes reg: "registered d" and "graph_ok d" and "enumerates ord"
    and "st \<in> {StatusAcceptedByNetwork, StatusRejected, StatusPendingRetry}"
  shows "registered (snd (handleTerminal ord t st d))"
proof -
  define d' where "d' = snd (handleTerminal ord t st d)"
  from assms(3,2,4) d'_def have "registered d'"
  proof (cases rule: terminal_cases)
    case (release L)
    show ?thesis unfolding registered_def
    proof (intro allI impI)
      fix c m assume "heldMsgs d' c = Some m"
      then have h: "heldMsgs d c = Some m" and cL: "c \<notin> set L"
        using release(5) by (auto simp: restrict_map_def split: if_splits)
      from reg h have ne: "inputs_of c m \<inter> dom (inFlight d) \<noteq> {}"
        and w: "\<forall>p \<in> inputs_of c m \<inter> dom (inFlight d). c \<in> wait_set (waiters d) p"
        by (auto simp: registered_def)
      have "\<not> inputs_of c m \<inter> dom (inFlight d) \<subseteq> {t}"
        using release(3) cL h ne w by fastforce
      then show "inputs_of c m \<inter> dom (inFlight d') \<noteq> {} \<and>
          (\<forall>p \<in> inputs_of c m \<inter> dom (inFlight d'). c \<in> wait_set (waiters d') p)"
        using release(4,7) w cL by auto
    qed
  next
    case (cascade X)
    show ?thesis unfolding registered_def
    proof (intro allI impI)
      fix c m assume "heldMsgs d' c = Some m"
      then have h: "heldMsgs d c = Some m" and cX: "c \<notin> X"
        using cascade(5) by (auto simp: restrict_map_def split: if_splits)
      from reg h have "inputs_of c m \<inter> dom (inFlight d) \<noteq> {}"
        and w: "\<forall>p \<in> inputs_of c m \<inter> dom (inFlight d). c \<in> wait_set (waiters d) p"
        by (auto simp: registered_def)
      then obtain p where p: "p \<in> inputs_of c m \<inter> dom (inFlight d)" by blast
      have out: "p \<noteq> t \<and> p \<notin> X" if "p \<in> inputs_of c m \<inter> dom (inFlight d)" for p
        using w that cX descendants_step cascade(1) by blast
      then have "inputs_of c m \<inter> dom (inFlight d') = inputs_of c m \<inter> dom (inFlight d)"
        using cascade(4) by auto
      with p w cX out cascade(6) show "inputs_of c m \<inter> dom (inFlight d') \<noteq> {} \<and>
          (\<forall>p \<in> inputs_of c m \<inter> dom (inFlight d'). c \<in> wait_set (waiters d') p)"
        by auto
    qed
  qed
  then show ?thesis by (simp add: d'_def)
qed

lemma registered_reach: "pipe_reach parents_first s \<Longrightarrow> registered (fst s)"
proof (induction rule: pipe_reach_induct)
  case start
  then show ?case by (simp add: registered_def newDispatcher_def)
next
  case (step s s')
  note inv = pipe_inv_reach [OF step(1)]
  from step(2,3) inv show ?case
  proof (induction rule: pipe_step.induct)
    case (admit m d hi off busy)
    then show ?case using pipe_invD(6) [OF admit(4)] by (auto intro: registered_admit)
  next
    case (flush d busy hi)
    then show ?case by (simp add: registered_def)
  next
    case (requeue m busy m' d hi)
    then have "heldMsgs d (pm_TXID m') = None"
      using pipe_invD(5) [OF requeue(5)] by (force simp: live_def)
    then show ?case using requeue by (auto intro: registered_requeue)
  next
    case (terminal m busy ord st d hi)
    then show ?case using pipe_invD(1) [OF terminal(5)] by (auto intro: registered_terminal)
  qed
qed

text \<open>
  C24. No wedge: when parents are admitted before their children and the spending relation among
  held transactions is well-founded (\<open>rank\<close>), every reachable state with a transaction in flight
  has one pending or being broadcast.
\<close>

theorem pipeline_progress:
  fixes rank :: "txid \<Rightarrow> nat"
  assumes "pipe_reach parents_first (d, busy, hi)" and "inFlight d \<noteq> Map.empty"
    and "\<And>c m p. heldMsgs d c = Some m \<Longrightarrow> p \<in> inputs_of c m \<Longrightarrow> rank p < rank c"
  shows "pendingMsgs d \<noteq> [] \<or> busy \<noteq> []"
proof (rule ccontr)
  assume "\<not> (pendingMsgs d \<noteq> [] \<or> busy \<noteq> [])"
  then have all: "dom (inFlight d) = dom (heldMsgs d)"
    using pipe_invD(6) [OF pipe_inv_reach [OF assms(1)]] by (simp add: live_def)
  from assms(2) obtain c0 where "c0 \<in> dom (inFlight d)" by auto
  from ex_has_least_nat [of "\<lambda>c. c \<in> dom (inFlight d)", OF this, of rank] obtain c where
    c: "c \<in> dom (inFlight d)" "\<forall>c'. c' \<in> dom (inFlight d) \<longrightarrow> rank c \<le> rank c'" by blast
  with all obtain m where m: "heldMsgs d c = Some m" by auto
  with registered_reach [OF assms(1)] have "inputs_of c m \<inter> dom (inFlight d) \<noteq> {}"
    by (simp add: registered_def)
  then obtain p where "p \<in> inputs_of c m" "p \<in> dom (inFlight d)" by blast
  with c(2) assms(3) [OF m] have "rank p < rank c" "rank c \<le> rank p" by simp_all
  then show False by simp
qed

section \<open>Children admitted before a parent\<close>

text \<open>A held transaction that no waiter set names: nothing will release it.\<close>

definition stranded :: "txid \<Rightarrow> dispatcher \<Rightarrow> bool" where
  "stranded c d \<longleftrightarrow> c \<in> dom (heldMsgs d) \<and> (\<forall>p. c \<notin> wait_set (waiters d) p)"

lemma not_descendant: "(\<And>p. c \<notin> wait_set w p) \<Longrightarrow> c \<notin> descendants w t"
  by (auto simp: descendants_def elim: tranclE)

lemma stranded_step:
  assumes "pipe_step G s s'" and "pipe_inv s" and "stranded c (fst s)"
  shows "stranded c (fst s') \<and> inFlight (fst s') c = inFlight (fst s) c"
  using assms
proof (induction rule: pipe_step.induct)
  case (admit m d hi off busy)
  then have "c \<in> dom (inFlight d)" using pipe_invD(6) [OF admit(3)] by (auto simp: stranded_def)
  then show ?case using admit(4) by (auto simp: stranded_def admit_sel)
next
  case (flush d busy hi)
  then show ?case by (simp add: stranded_def)
next
  case (requeue m busy m' d hi)
  then have "pm_TXID m' \<noteq> c" using pipe_invD(5) [OF requeue(4)] by (force simp: stranded_def live_def)
  then show ?case using requeue(5) by (auto simp: stranded_def requeue_sel)
next
  case (terminal m busy ord st d hi)
  then have nc: "pm_TXID m \<noteq> c" using pipe_invD(5) [OF terminal(4)] by (force simp: stranded_def live_def)
  note w = terminal(5) [unfolded stranded_def fst_conv]
  from terminal(2) pipe_invD(1) [OF terminal(4)] terminal(3) refl show ?case
  proof (cases rule: terminal_cases [where t = "pm_TXID m"])
    case (release L)
    then show ?thesis using w nc by (auto simp: stranded_def)
  next
    case (cascade X)
    have "c \<notin> X" using not_descendant w cascade(1) by blast
    with cascade(4-6) w nc show ?thesis by (auto simp: stranded_def)
  qed
qed

lemma stranded_steps:
  assumes "(pipe_step G)\<^sup>*\<^sup>* s s'" and "pipe_inv s" and "stranded c (fst s)"
  shows "pipe_inv s' \<and> stranded c (fst s') \<and> inFlight (fst s') c = inFlight (fst s) c"
  using assms by (induction rule: rtranclp_induct) (auto dest: stranded_step pipe_inv_step)

text \<open>
  \<open>C\<close> spends \<open>P1\<close> and \<open>P2\<close>; it is admitted while \<open>P1\<close> is in flight and before \<open>P2\<close> arrives. Both
  parents are then broadcast and accepted, \<open>P1\<close> first.
\<close>

definition late_parent :: dispatcher where
  "late_parent =
     snd (handleTerminal key_order ''P2'' StatusAcceptedByNetwork
     (snd (handleTerminal key_order ''P1'' StatusAcceptedByNetwork
     ((snd (handleAdmit (sample_msg ''P2'' []) 3
       (snd (handleAdmit (sample_msg ''C'' [''P1'', ''P2'']) 2
       (snd (handleAdmit (sample_msg ''P1'' []) 1 newDispatcher))))))\<lparr>pendingMsgs := []\<rparr>))))"

lemma admit_reach: "pipe_reach G (d, busy, hi) \<Longrightarrow> G m d \<Longrightarrow> hi < off \<Longrightarrow> pipe_reach G (snd (handleAdmit m off d), busy, off)"
  unfolding pipe_reach_def by (erule rtranclp.rtrancl_into_rtrancl) (rule pipe_step.admit)

lemma flush_reach: "pipe_reach G (d, busy, hi) \<Longrightarrow> pipe_reach G (d\<lparr>pendingMsgs := []\<rparr>, busy @ pendingMsgs d, hi)"
  unfolding pipe_reach_def by (erule rtranclp.rtrancl_into_rtrancl) (rule pipe_step.flush)

lemma accept_reach:
  "pipe_reach G (d, busy, hi) \<Longrightarrow> m \<in> set busy \<Longrightarrow> enumerates ord \<Longrightarrow>
   pipe_reach G (snd (handleTerminal ord (pm_TXID m) StatusAcceptedByNetwork d), remove1 m busy, hi)"
  unfolding pipe_reach_def by (erule rtranclp.rtrancl_into_rtrancl) (rule pipe_step.terminal, simp_all)

lemma start_reach: "pipe_reach G (newDispatcher, [], 0)"
  by (simp add: pipe_reach_def)

abbreviation anyorder :: "propagationMsg \<Rightarrow> dispatcher \<Rightarrow> bool" where
  "anyorder \<equiv> \<lambda>_ _. True"

definition late_admits :: dispatcher where
  "late_admits = snd (handleAdmit (sample_msg ''P2'' []) 3 (snd (handleAdmit (sample_msg ''C'' [''P1'', ''P2'']) 2
       (snd (handleAdmit (sample_msg ''P1'' []) 1 newDispatcher)))))"

lemma late_admits_sel:
  "pendingMsgs late_admits = [sample_msg ''P1'' [], sample_msg ''P2'' []]"
  "waiters late_admits = fmupd ''P1'' {|''C''|} fmempty"
  "heldMsgs late_admits = [''C'' \<mapsto> sample_msg ''C'' [''P1'', ''P2'']]"
  "inFlight late_admits = [''P1'' \<mapsto> 1, ''C'' \<mapsto> 2, ''P2'' \<mapsto> 3]"
  by (simp_all add: late_admits_def sample_msg_def handleAdmit_def newDispatcher_def blocking_def
      hold_def register_waiter_def Let_def)

lemma late_parent_sel:
  "pendingMsgs late_parent = []" "wait_set (waiters late_parent) p = {}"
  "heldMsgs late_parent = [''C'' \<mapsto> sample_msg ''C'' [''P1'', ''P2'']]" "inFlight late_parent = [''C'' \<mapsto> 2]"
  unfolding late_parent_def late_admits_def [symmetric]
  by (auto simp: late_admits_sel handleTerminal_def releaseWaiters_def key_order_def sorted_list_of_fset.rep_eq
      release_child_def canRelease_def sample_msg_def wait_set_def)

lemma late_parent_reach: "pipe_reach anyorder (late_parent, [], 3)"
proof -
  have "pipe_reach anyorder (late_admits, [], 3)"
    unfolding late_admits_def
    by (rule admit_reach [where hi = 2], rule admit_reach [where hi = 1], rule admit_reach [OF start_reach]) simp_all
  from flush_reach [OF this]
  have "pipe_reach anyorder (late_admits\<lparr>pendingMsgs := []\<rparr>, [sample_msg ''P1'' [], sample_msg ''P2'' []], 3)"
    by (simp add: late_admits_sel)
  from accept_reach [OF this, of "sample_msg ''P1'' []" key_order]
  have "pipe_reach anyorder (snd (handleTerminal key_order ''P1'' StatusAcceptedByNetwork
      (late_admits\<lparr>pendingMsgs := []\<rparr>)), [sample_msg ''P2'' []], 3)"
    by (simp add: sample_msg_def)
  from accept_reach [OF this, of "sample_msg ''P2'' []" key_order] show ?thesis
    by (simp add: sample_msg_def late_parent_def late_admits_def)
qed

lemma late_parent_stranded: "stranded ''C'' late_parent"
  by (simp add: stranded_def late_parent_sel)

text \<open>
  C34. Without that order the dispatcher can wedge: a child admitted before one of its parents is
  reached in a state where both parents are accepted, nothing is pending or being broadcast, and
  the child is still held with its offset unfinished although none of its inputs is in flight.
\<close>

theorem late_parent_wedges:
  "pipe_reach anyorder (late_parent, [], 3) \<and> pendingMsgs late_parent = [] \<and>
   heldMsgs late_parent ''C'' \<noteq> None \<and> inputs_of ''C'' (the (heldMsgs late_parent ''C'')) \<inter> dom (inFlight late_parent) = {} \<and>
   ot_unfinished (tracker late_parent) = {2} \<and> stranded ''C'' late_parent"
proof -
  have "ot_unfinished (tracker late_parent) = {2}"
    using pipe_invD(2) [OF pipe_inv_reach [OF late_parent_reach]] by (simp add: tracks_def late_parent_sel)
  moreover have "inputs_of ''C'' (the (heldMsgs late_parent ''C'')) \<inter> dom (inFlight late_parent) = {}"
    by (auto simp: late_parent_sel inputs_of_def sample_msg_def)
  ultimately show ?thesis
    using late_parent_reach late_parent_stranded by (simp add: late_parent_sel)
qed

text \<open>
  A stranded transaction stays held and in flight through every later pipeline step, so the
  commit watermark never passes its offset again on this claim.
\<close>

theorem stranded_forever:
  assumes "pipe_reach G s" and "stranded c (fst s)" and "(pipe_step G)\<^sup>*\<^sup>* s s'"
  shows "stranded c (fst s') \<and> inFlight (fst s') c = inFlight (fst s) c \<and> inFlight (fst s') c \<noteq> None \<and>
         ran (inFlight (fst s')) = ot_unfinished (tracker (fst s'))"
proof -
  note st = stranded_steps [OF assms(3) pipe_inv_reach [OF assms(1)] assms(2)]
  obtain d busy hi where s': "s' = (d, busy, hi)" by (metis prod_cases3)
  with st have "pipe_inv (d, busy, hi)" and "stranded c d" by simp_all
  then have "c \<in> dom (inFlight d)" "tracks hi d"
    using pipe_invD(2,6) [of d busy hi] by (auto simp: stranded_def)
  then show ?thesis using st s' by (auto simp: tracks_def)
qed

theorem stranded_forever_witness:
  "stranded ''C'' (snd (handleAdmit (sample_msg ''X'' []) 4 late_parent)) \<and>
   inFlight (snd (handleAdmit (sample_msg ''X'' []) 4 late_parent)) ''C'' = Some 2"
proof -
  have "pipe_step anyorder (late_parent, [], 3) (snd (handleAdmit (sample_msg ''X'' []) 4 late_parent), [], 4)"
    by (rule pipe_step.admit) simp_all
  from stranded_forever [OF late_parent_reach _ r_into_rtranclp [of "pipe_step anyorder", OF this], of "''C''"]
    late_parent_stranded show ?thesis by (simp add: late_parent_sel)
qed


lemma sample_chain_reach: "pipe_reach parents_first (sample_chain, [], 3)"
  unfolding sample_chain_def
  by (rule admit_reach [where hi = 2], rule admit_reach [where hi = 1], rule admit_reach [OF start_reach])
     (auto simp: parents_first_def inputs_of_def sample_msg_def handleAdmit_def newDispatcher_def blocking_def
        hold_def Let_def split: if_splits)

theorem pipeline_progress_witness: "pendingMsgs sample_chain \<noteq> []"
proof -
  let ?rank = "\<lambda>t. if t = ''A'' then 0 else if t = ''B'' then 1 else (2::nat)"
  have "inFlight sample_chain \<noteq> Map.empty" by (simp add: sample_chain_simps)
  moreover have "?rank p < ?rank c" if "heldMsgs sample_chain c = Some m" and "p \<in> inputs_of c m" for c m p
    using that by (auto simp: sample_chain_simps inputs_of_def sample_msg_def split: if_splits)
  ultimately have "pendingMsgs sample_chain \<noteq> [] \<or> ([] :: propagationMsg list) \<noteq> []"
    by (rule pipeline_progress [OF sample_chain_reach, where rank = ?rank])
  then show ?thesis by simp
qed

end
