(* ===== verification/Merkle_Path.thy ===== *)
theory Merkle_Path
  imports Go_Prelude
begin

text \<open>
  BRC-74 merkle paths as src/bump/helpers.go and src/bump/bump.go handle them: leaf lookup and
  insertion, recomputation of intermediate nodes, extraction of one transaction's minimal path
  and the indexed variant that serves the fan-out services.

  The SDK package go-sdk (parsing, serialisation, hashing, root computation) is the record
  \<open>sdk\<close> of functions the definitions take as an argument. Offsets are \<open>uint64\<close> values, kept as
  natural numbers with the wrap-around written out where an operation can overflow.
\<close>

record 'h path_element =
  pe_Offset :: nat
  pe_Hash :: "'h option"
  pe_Txid :: "bool option"
  pe_Duplicate :: "bool option"

type_synonym 'h levels = "'h path_element list list"

record 'h merkle_path =
  mp_BlockHeight :: nat
  mp_Path :: "'h levels"

text \<open>The operations of go-sdk the package uses; \<open>None\<close> is an error.\<close>

record 'h sdk =
  sdk_parent :: "'h \<Rightarrow> 'h \<Rightarrow> 'h"
  sdk_parse :: "bytes \<Rightarrow> 'h merkle_path option"
  sdk_bytes :: "'h merkle_path \<Rightarrow> bytes"
  sdk_fromHex :: "string \<Rightarrow> 'h option"
  sdk_string :: "'h \<Rightarrow> string"
  sdk_root :: "'h merkle_path \<Rightarrow> 'h \<Rightarrow> 'h option"

section \<open>uint64 offsets\<close>

definition u64 :: "int \<Rightarrow> nat" where
  "u64 i = nat (i mod 2 ^ 64)"

definition add64 :: "nat \<Rightarrow> nat \<Rightarrow> nat" where
  "add64 a b = (a + b) mod 2 ^ 64"

definition shl64 :: "nat \<Rightarrow> nat \<Rightarrow> nat" where
  "shl64 a n = (a * 2 ^ n) mod 2 ^ 64"

text \<open>\<open>offset ^ 1\<close>, the sibling position\<close>

definition sib :: "nat \<Rightarrow> nat" where
  "sib n = (if even n then n + 1 else n - 1)"

unbundle bit_operations_syntax

lemma sib_xor: "sib n = n XOR 1"
  by (simp add: sib_def xor_Suc_0_eq)

lemma sib_sib [simp]: "sib (sib n) = n"
  by (auto simp: sib_def elim: oddE)

lemma sib_neq [simp]: "sib n \<noteq> n" "n \<noteq> sib n"
  by (auto simp: sib_def elim: oddE)

lemma sib_div [simp]: "sib n div 2 = n div 2"
  by (auto simp: sib_def elim!: evenE oddE)

lemma even_sib [simp]: "even (sib n) = odd n"
  by (auto simp: sib_def)

section \<open>Elements and levels\<close>

definition isDuplicate :: "'h path_element \<Rightarrow> bool" where
  "isDuplicate e \<longleftrightarrow> pe_Duplicate e = Some True"

definition hash_elem :: "nat \<Rightarrow> 'h \<Rightarrow> 'h path_element" where
  "hash_elem off h = \<lparr>pe_Offset = off, pe_Hash = Some h, pe_Txid = None, pe_Duplicate = None\<rparr>"

definition dup_elem :: "nat \<Rightarrow> 'h path_element" where
  "dup_elem off = \<lparr>pe_Offset = off, pe_Hash = None, pe_Txid = None, pe_Duplicate = Some True\<rparr>"

definition addLeaf :: "nat \<Rightarrow> 'h path_element \<Rightarrow> 'h levels \<Rightarrow> 'h levels" where
  "addLeaf level elem path =
     (let p = path @ replicate (level + 1 - length path) [] in p[level := p ! level @ [elem]])"

definition find_in :: "'h path_element list \<Rightarrow> nat \<Rightarrow> 'h path_element option" where
  "find_in elems offset = List.find (\<lambda>e. pe_Offset e = offset) elems"

definition findLeafByOffset :: "'h levels \<Rightarrow> nat \<Rightarrow> nat \<Rightarrow> 'h path_element option" where
  "findLeafByOffset path level offset =
     (if level \<ge> length path then None else find_in (path ! level) offset)"

lemma elem_sel [simp]:
  "pe_Offset (hash_elem off h) = off" "pe_Hash (hash_elem off h) = Some h" "\<not> isDuplicate (hash_elem off h)"
  "pe_Offset (dup_elem off) = off" "pe_Hash (dup_elem off) = None" "isDuplicate (dup_elem off)"
  by (simp_all add: hash_elem_def dup_elem_def isDuplicate_def)

lemma find_in_Some: "find_in es off = Some e \<Longrightarrow> e \<in> set es \<and> pe_Offset e = off"
  by (auto simp: find_in_def find_Some_iff)

lemma find_in_None: "find_in es off = None \<longleftrightarrow> off \<notin> pe_Offset ` set es"
  by (auto simp: find_in_def find_None_iff)

lemma find_in_append:
  "find_in (xs @ ys) off = (case find_in xs off of None \<Rightarrow> find_in ys off | Some e \<Rightarrow> Some e)"
  unfolding find_in_def by (induction xs) auto

lemma find_in_unique:
  assumes "distinct (map pe_Offset es)" and "e \<in> set es"
  shows "find_in es (pe_Offset e) = Some e"
  using assms unfolding find_in_def by (induction es) auto

section \<open>Recomputing intermediate nodes\<close>

text \<open>
  The inner loop of \<open>computeMissingHashes\<close>: one element of level \<open>lvl\<close>, appending at most one
  parent to the next level. The outer loop walks the levels upwards.
\<close>

definition cmh_elem :: "('h \<Rightarrow> 'h \<Rightarrow> 'h) \<Rightarrow> 'h path_element list \<Rightarrow> 'h path_element \<Rightarrow> 'h path_element list \<Rightarrow> 'h path_element list" where
  "cmh_elem par lvl elem nxt =
     (case pe_Hash elem of
        None \<Rightarrow> nxt
      | Some h \<Rightarrow>
          let parentOffset = pe_Offset elem div 2 in
          if find_in nxt parentOffset \<noteq> None then nxt
          else case find_in lvl (sib (pe_Offset elem)) of
                 None \<Rightarrow> nxt
               | Some sibling \<Rightarrow>
                   if isDuplicate sibling then nxt @ [hash_elem parentOffset (par h h)]
                   else case pe_Hash sibling of
                          None \<Rightarrow> nxt
                        | Some s \<Rightarrow>
                            nxt @ [hash_elem parentOffset (if even (pe_Offset elem) then par h s else par s h)])"

fun computeMissingHashes :: "('h \<Rightarrow> 'h \<Rightarrow> 'h) \<Rightarrow> 'h levels \<Rightarrow> 'h levels" where
  "computeMissingHashes par (lvl # nxt # rest) =
     lvl # computeMissingHashes par (fold (cmh_elem par lvl) lvl nxt # rest)"
| "computeMissingHashes par path = path"

definition pad_parent :: "('h \<Rightarrow> 'h \<Rightarrow> 'h) \<Rightarrow> 'h path_element list \<Rightarrow> nat \<Rightarrow> 'h path_element list \<Rightarrow> 'h path_element list" where
  "pad_parent par lvl i nxt =
     (if find_in nxt i \<noteq> None then nxt
      else case (find_in lvl (2 * i), find_in lvl (2 * i + 1)) of
             (Some left, Some right) \<Rightarrow>
               if isDuplicate right then
                 (case pe_Hash left of None \<Rightarrow> nxt | Some l \<Rightarrow> nxt @ [hash_elem i (par l l)])
               else if isDuplicate left then
                 (case pe_Hash right of None \<Rightarrow> nxt | Some r \<Rightarrow> nxt @ [hash_elem i (par r r)])
               else (case (pe_Hash left, pe_Hash right) of
                       (Some l, Some r) \<Rightarrow> nxt @ [hash_elem i (par l r)]
                     | _ \<Rightarrow> nxt)
           | _ \<Rightarrow> nxt)"

definition pad_odd :: "nat \<Rightarrow> 'h path_element list \<Rightarrow> 'h path_element list" where
  "pad_odd realCount lvl =
     (if odd realCount \<and> find_in lvl realCount = None then lvl @ [dup_elem realCount] else lvl)"

text \<open>\<open>skip\<close> levels remain below \<open>fromLevel\<close>.\<close>

fun padAndComputeBlockLevel :: "('h \<Rightarrow> 'h \<Rightarrow> 'h) \<Rightarrow> nat \<Rightarrow> nat \<Rightarrow> 'h levels \<Rightarrow> 'h levels" where
  "padAndComputeBlockLevel par (Suc skip) realCount (lvl # path) =
     lvl # padAndComputeBlockLevel par skip realCount path"
| "padAndComputeBlockLevel par 0 realCount (lvl # nxt # rest) =
     (let lvl' = pad_odd realCount lvl;
          parentCount = (realCount + 1) div 2;
          nxt' = fold (pad_parent par lvl') [0..<parentCount] nxt
      in lvl' # padAndComputeBlockLevel par 0 parentCount (nxt' # rest))"
| "padAndComputeBlockLevel par skip realCount path = path"

section \<open>Minimal paths\<close>

definition opt_list :: "'a option \<Rightarrow> 'a list" where
  "opt_list x = (case x of None \<Rightarrow> [] | Some a \<Rightarrow> [a])"

text \<open>The walk shared by the two extractors, over a lookup function; \<open>n\<close> levels remain.\<close>

fun minimal_walk :: "(nat \<Rightarrow> nat \<Rightarrow> 'h path_element option) \<Rightarrow> nat \<Rightarrow> nat \<Rightarrow> nat \<Rightarrow> 'h levels" where
  "minimal_walk at 0 level offset = []"
| "minimal_walk at (Suc n) level offset =
     ((if level = 0 then opt_list (at 0 offset) else []) @ opt_list (at level (sib offset)))
       # minimal_walk at n (level + 1) (offset div 2)"

definition ExtractMinimalPath :: "'h merkle_path \<Rightarrow> nat \<Rightarrow> 'h merkle_path" where
  "ExtractMinimalPath full txOffset =
     \<lparr>mp_BlockHeight = mp_BlockHeight full,
      mp_Path = minimal_walk (findLeafByOffset (mp_Path full)) (length (mp_Path full)) 0 txOffset\<rparr>"

definition find_leaf_offset :: "'h levels \<Rightarrow> 'h \<Rightarrow> nat option" where
  "find_leaf_offset path h =
     (case path of [] \<Rightarrow> None
      | lvl # _ \<Rightarrow> map_option pe_Offset (List.find (\<lambda>leaf. pe_Hash leaf = Some h) lvl))"

definition ExtractMinimalPathForTx :: "'h sdk \<Rightarrow> bytes \<Rightarrow> string \<Rightarrow> bytes option" where
  "ExtractMinimalPathForTx sdk bumpData txid =
     (case sdk_parse sdk bumpData of
        None \<Rightarrow> None
      | Some compound \<Rightarrow>
          (case sdk_fromHex sdk txid of
             None \<Rightarrow> None
           | Some txHash \<Rightarrow>
               (case find_leaf_offset (mp_Path compound) txHash of
                  None \<Rightarrow> None
                | Some txOffset \<Rightarrow> Some (sdk_bytes sdk (ExtractMinimalPath compound txOffset)))))"

definition ExtractLevel0Hashes :: "'h sdk \<Rightarrow> bytes \<Rightarrow> 'h list" where
  "ExtractLevel0Hashes sdk stumpData =
     (case sdk_parse sdk stumpData of
        None \<Rightarrow> []
      | Some mp \<Rightarrow> (case mp_Path mp of [] \<Rightarrow> [] | lvl # _ \<Rightarrow> List.map_filter pe_Hash lvl))"

end
