(* ===== verification/Compound_Index.thy ===== *)
theory Compound_Index
  imports Merkle_Path
begin

text \<open>
  Minimal-path extraction (src/bump/bump.go): the linear extractor \<open>ExtractMinimalPath\<close> and the
  indexed \<open>CompoundIndex\<close> with binary search. What a BRC-74 verifier folds from a path is the
  function \<open>climb\<close>; both extractors are clients of one lookup interface, the locale
  \<open>leaf_lookup\<close>, under which the extracted path folds exactly as the compound does.
\<close>

section \<open>What a verifier folds\<close>

text \<open>From a hash at an offset of the lowest level, one sibling per level.\<close>

fun climb :: "('h \<Rightarrow> 'h \<Rightarrow> 'h) \<Rightarrow> 'h levels \<Rightarrow> nat \<Rightarrow> 'h \<Rightarrow> 'h option" where
  "climb par [] off h = Some h"
| "climb par (lvl # path) off h =
     (case find_in lvl (sib off) of
        None \<Rightarrow> None
      | Some e \<Rightarrow>
          if isDuplicate e then climb par path (off div 2) (par h h)
          else case pe_Hash e of
                 None \<Rightarrow> None
               | Some s \<Rightarrow> climb par path (off div 2) (if even off then par h s else par s h))"

lemma climb_append:
  "climb par (p @ q) off h = (case climb par p off h of None \<Rightarrow> None | Some r \<Rightarrow> climb par q (off div 2 ^ length p) r)"
  by (induction p arbitrary: off h) (auto simp: div_mult2_eq split: option.splits)

text \<open>A path folds like another when they agree on every sibling lookup.\<close>

lemma climb_cong:
  assumes "list_all2 (\<lambda>l l'. \<forall>off. find_in l off = find_in l' off) p q"
  shows "climb par p off h = climb par q off h"
  using assms by (induction p q arbitrary: off h rule: list_all2_induct) (auto split: option.splits)

section \<open>The lookup interface\<close>

text \<open>An extracted path holds at most one element per level, the leaf aside.\<close>

lemma walk_length: "length (minimal_walk at' n level offset) = n"
  by (induction n arbitrary: level offset) auto

lemma walk_small:
  "lvl \<in> set (minimal_walk at' n level offset) \<Longrightarrow> length lvl \<le> 2"
  by (induction n arbitrary: level offset) (auto simp: opt_list_def split: option.splits if_splits)

locale leaf_lookup =
  fixes at :: "'i \<Rightarrow> nat \<Rightarrow> nat \<Rightarrow> 'h path_element option"
    and levels_of :: "'i \<Rightarrow> 'h levels"
    and ok :: "'i \<Rightarrow> bool"
  assumes at_find: "ok i \<Longrightarrow> at i level offset = findLeafByOffset (levels_of i) level offset"
begin

lemma walk_climb_from:
  assumes "ok i" and "level + n \<le> length (levels_of i)"
  shows "climb par (minimal_walk (at i) n level offset) offset h =
         climb par (take n (drop level (levels_of i))) offset h"
  using assms(2)
proof (induction n arbitrary: level offset h)
  case (Suc n)
  then have lt: "level < length (levels_of i)" by simp
  then have dr: "drop level (levels_of i) = levels_of i ! level # drop (Suc level) (levels_of i)"
    by (simp add: Cons_nth_drop_Suc)
  let ?lvl = "(if level = 0 then opt_list (at i 0 offset) else []) @ opt_list (at i level (sib offset))"
  have at0: "at i 0 offset = Some e \<Longrightarrow> pe_Offset e = offset" for e
    using at_find [OF assms(1)] by (auto simp: findLeafByOffset_def dest: find_in_Some split: if_splits)
  have ats: "at i level (sib offset) = find_in (levels_of i ! level) (sib offset)"
    using at_find [OF assms(1)] lt by (simp add: findLeafByOffset_def)
  have "find_in (if level = 0 then opt_list (at i 0 offset) else []) (sib offset) = None"
    using at0 by (auto simp: find_in_None opt_list_def split: option.splits)
  moreover have "find_in (opt_list (at i level (sib offset))) (sib offset) = find_in (levels_of i ! level) (sib offset)"
    unfolding ats by (cases "find_in (levels_of i ! level) (sib offset)")
      (auto simp: opt_list_def find_in_def dest: find_in_Some [unfolded find_in_def])
  ultimately have "find_in ?lvl (sib offset) = find_in (levels_of i ! level) (sib offset)"
    by (simp only: find_in_append option.simps)
  with Suc.IH [of "Suc level"] Suc.prems show ?case
    by (simp add: dr split: option.splits)
qed simp

text \<open>The extracted path folds to the same result as the full one, from every leaf.\<close>

lemma walk_climb:
  "ok i \<Longrightarrow> climb par (minimal_walk (at i) (length (levels_of i)) 0 offset) offset h =
     climb par (levels_of i) offset h"
  using walk_climb_from [of i 0] by simp

lemma walk_agree:
  assumes "ok i" and "\<And>l off. findLeafByOffset (levels_of i) l off = at' l off"
  shows "minimal_walk (at i) n level offset = minimal_walk at' n level offset"
  using assms by (induction n arbitrary: level offset) (simp_all add: at_find)

end

interpretation full: leaf_lookup "\<lambda>mp. findLeafByOffset (mp_Path mp)" "mp_Path" "\<lambda>_. True"
  by unfold_locales simp

section \<open>The index\<close>

record 'h CompoundIndex =
  ci_blockHeight :: nat
  ci_txOffsets :: "'h \<rightharpoonup> nat"
  ci_levels :: "'h levels"
  ci_leaves :: nat

definition index_leaf :: "'h path_element \<Rightarrow> ('h \<rightharpoonup> nat) \<Rightarrow> ('h \<rightharpoonup> nat)" where
  "index_leaf leaf m = (case pe_Hash leaf of None \<Rightarrow> m | Some h \<Rightarrow> m(h \<mapsto> pe_Offset leaf))"

definition index_path :: "'h merkle_path \<Rightarrow> 'h CompoundIndex" where
  "index_path compound =
     \<lparr>ci_blockHeight = mp_BlockHeight compound,
      ci_txOffsets = (case mp_Path compound of [] \<Rightarrow> Map.empty | lvl # _ \<Rightarrow> fold index_leaf lvl Map.empty),
      ci_levels = map (sort_key pe_Offset) (mp_Path compound),
      ci_leaves = sum_list (map length (mp_Path compound))\<rparr>"

definition IndexCompound :: "'h sdk \<Rightarrow> bytes \<Rightarrow> 'h CompoundIndex option" where
  "IndexCompound sdk bumpData = map_option index_path (sdk_parse sdk bumpData)"

definition Contains :: "'h sdk \<Rightarrow> 'h CompoundIndex \<Rightarrow> string \<Rightarrow> bool" where
  "Contains sdk ci txid =
     (case sdk_fromHex sdk txid of None \<Rightarrow> False | Some h \<Rightarrow> ci_txOffsets ci h \<noteq> None)"

text \<open>\<open>slices.BinarySearchFunc\<close> on \<open>[i, j)\<close>.\<close>

function bsearch :: "'h path_element list \<Rightarrow> nat \<Rightarrow> nat \<Rightarrow> nat \<Rightarrow> nat" where
  "bsearch elems target i j =
     (if i < j then
        let h = (i + j) div 2 in
        if pe_Offset (elems ! h) < target then bsearch elems target (h + 1) j else bsearch elems target i h
      else i)"
  by pat_completeness auto
termination by (relation "measure (\<lambda>(_, _, i, j). j - i)") auto

declare bsearch.simps [simp del]

definition leafAt :: "'h CompoundIndex \<Rightarrow> nat \<Rightarrow> nat \<Rightarrow> 'h path_element option" where
  "leafAt ci level offset =
     (if level \<ge> length (ci_levels ci) then None
      else let elems = ci_levels ci ! level;
               i = bsearch elems offset 0 (length elems)
           in if i < length elems \<and> pe_Offset (elems ! i) = offset then Some (elems ! i) else None)"

definition MinimalPathBytes :: "'h sdk \<Rightarrow> 'h CompoundIndex \<Rightarrow> string \<Rightarrow> bytes option" where
  "MinimalPathBytes sdk ci txid =
     (case sdk_fromHex sdk txid of
        None \<Rightarrow> None
      | Some txHash \<Rightarrow>
          (case ci_txOffsets ci txHash of
             None \<Rightarrow> None
           | Some txOffset \<Rightarrow>
               Some (sdk_bytes sdk \<lparr>mp_BlockHeight = ci_blockHeight ci,
                 mp_Path = minimal_walk (leafAt ci) (length (ci_levels ci)) 0 txOffset\<rparr>)))"

lemma bsearch_lower_bound:
  assumes "sorted (map pe_Offset es)" and "j \<le> length es" and "i \<le> j"
    and "\<forall>k < i. pe_Offset (es ! k) < t" and "\<forall>k. j \<le> k \<and> k < length es \<longrightarrow> t \<le> pe_Offset (es ! k)"
  shows "bsearch es t i j \<le> j \<and> (\<forall>k < bsearch es t i j. pe_Offset (es ! k) < t) \<and>
         (\<forall>k. bsearch es t i j \<le> k \<and> k < length es \<longrightarrow> t \<le> pe_Offset (es ! k))"
  using assms
proof (induction es t i j rule: bsearch.induct)
  case (1 es t i j)
  have mono: "k \<le> k' \<Longrightarrow> k' < length es \<Longrightarrow> pe_Offset (es ! k) \<le> pe_Offset (es ! k')" for k k'
    using sorted_nth_mono [OF 1(3), of k k'] by simp
  show ?case
  proof (cases "i < j")
    case False
    then have "bsearch es t i j = i" by (subst bsearch.simps) simp
    with 1(5-7) False show ?thesis by simp
  next
    case True
    let ?h = "(i + j) div 2"
    have h: "i \<le> ?h" "?h < j" using True by auto
    show ?thesis
    proof (cases "pe_Offset (es ! ?h) < t")
      case lt: True
      have eq: "bsearch es t i j = bsearch es t (?h + 1) j"
        by (subst bsearch.simps) (simp only: True lt Let_def if_True)
      have "pe_Offset (es ! k) < t" if "k < ?h + 1" for k
        using mono [of k ?h] that lt h 1(4) by simp
      with 1(1) [OF True refl lt] 1(3,4,7) h show ?thesis unfolding eq by simp
    next
      case ge: False
      have eq: "bsearch es t i j = bsearch es t i ?h"
        by (subst bsearch.simps) (simp only: True ge Let_def if_True if_False)
      have "t \<le> pe_Offset (es ! k)" if "?h \<le> k" "k < length es" for k
        using mono [of ?h k] that ge by simp
      with 1(2) [OF True refl ge] 1(3,4,6) h show ?thesis unfolding eq by auto
    qed
  qed
qed

lemma bsearch_find:
  fixes t :: nat
  assumes "sorted (map pe_Offset es)" and "distinct (map pe_Offset es)"
  defines "i \<equiv> bsearch es t 0 (length es)"
  shows "(if i < length es \<and> pe_Offset (es ! i) = t then Some (es ! i) else None) = find_in es t"
proof (cases "find_in es t")
  case None
  then have "\<forall>k < length es. pe_Offset (es ! k) \<noteq> t" by (auto simp: find_in_None)
  with None show ?thesis by auto
next
  case (Some e)
  then obtain k where k: "k < length es" "es ! k = e" "pe_Offset e = t"
    by (auto dest!: find_in_Some simp: in_set_conv_nth)
  have b: "\<forall>k < i. pe_Offset (es ! k) < t" "\<forall>k. i \<le> k \<and> k < length es \<longrightarrow> t \<le> pe_Offset (es ! k)"
    using bsearch_lower_bound [OF assms(1), of "length es" 0 t] by (simp_all add: i_def)
  then have le: "i \<le> k" using k by (metis less_irrefl not_le_imp_less)
  then have lt: "i < length es" using k by simp
  have "pe_Offset (es ! i) \<le> t" using sorted_nth_mono [OF assms(1) le] k lt by simp
  with b lt have "pe_Offset (es ! i) = t" by (simp add: order_antisym)
  moreover from this find_in_unique [OF assms(2), of "es ! i"] lt Some have "es ! i = e" by simp
  ultimately show ?thesis using Some lt by simp
qed

definition ci_ok :: "'h CompoundIndex \<Rightarrow> bool" where
  "ci_ok ci \<longleftrightarrow> (\<forall>lvl \<in> set (ci_levels ci). sorted (map pe_Offset lvl) \<and> distinct (map pe_Offset lvl))"

interpretation index: leaf_lookup leafAt ci_levels ci_ok
proof
  fix ci :: "'h CompoundIndex" and level offset
  assume "ci_ok ci"
  then show "leafAt ci level offset = findLeafByOffset (ci_levels ci) level offset"
    using bsearch_find [of "ci_levels ci ! level" offset]
    by (cases "level < length (ci_levels ci)") (simp_all add: leafAt_def findLeafByOffset_def ci_ok_def Let_def)
qed

section \<open>The two extractors agree\<close>

text \<open>A path as BRC-74 has it: one element per offset in a level, one leaf per hash.\<close>

definition path_distinct :: "'h levels \<Rightarrow> bool" where
  "path_distinct path \<longleftrightarrow> (\<forall>lvl \<in> set path. distinct (map pe_Offset lvl)) \<and>
     (case path of [] \<Rightarrow> True | lvl # _ \<Rightarrow> distinct (List.map_filter pe_Hash lvl))"

lemma find_in_sort: "distinct (map pe_Offset es) \<Longrightarrow> find_in (sort_key pe_Offset es) off = find_in es off"
proof (cases "find_in es off")
  case (Some e)
  assume d: "distinct (map pe_Offset es)"
  then have "distinct (map pe_Offset (sort_key pe_Offset es))"
    by (simp add: distinct_map)
  from find_in_unique [OF this, of e] Some show ?thesis by (auto dest: find_in_Some)
next
  case None
  then have "find_in (sort_key pe_Offset es) off = None" by (simp add: find_in_None)
  with None show ?thesis by simp
qed

lemma index_path_ok: "path_distinct (mp_Path mp) \<Longrightarrow> ci_ok (index_path mp)"
  by (auto simp: ci_ok_def index_path_def path_distinct_def distinct_map)

lemma index_path_lookup:
  "path_distinct (mp_Path mp) \<Longrightarrow>
   findLeafByOffset (ci_levels (index_path mp)) level off = findLeafByOffset (mp_Path mp) level off"
  by (auto simp: findLeafByOffset_def index_path_def path_distinct_def find_in_sort)

lemma index_offsets:
  assumes "distinct (List.map_filter pe_Hash lvl)"
  shows "fold index_leaf lvl m h =
    (case List.find (\<lambda>leaf. pe_Hash leaf = Some h) lvl of None \<Rightarrow> m h | Some leaf \<Rightarrow> Some (pe_Offset leaf))"
  using assms
proof (induction lvl arbitrary: m)
  case (Cons leaf lvl)
  show ?case
  proof (cases "pe_Hash leaf = Some h")
    case True
    with Cons.prems have "List.find (\<lambda>leaf. pe_Hash leaf = Some h) lvl = None"
      by (force simp: find_None_iff List.map_filter_def)
    with True Cons show ?thesis by (simp add: index_leaf_def map_filter_simps)
  next
    case False
    with Cons show ?thesis by (auto simp: index_leaf_def map_filter_simps split: option.splits)
  qed
qed simp

lemma index_offset_find:
  "path_distinct (mp_Path mp) \<Longrightarrow> ci_txOffsets (index_path mp) h = find_leaf_offset (mp_Path mp) h"
  by (auto simp: index_path_def find_leaf_offset_def path_distinct_def index_offsets split: list.splits option.splits)

text \<open>
  C27. For a compound whose levels hold one element per offset and whose leaves have distinct hashes,
  the indexed extractor returns the bytes of the linear one for every txid, unparseable and unknown
  ones included, and \<open>Contains\<close> says exactly whether there is a path.
\<close>

theorem index_equals_linear:
  assumes "sdk_parse sdk bumpData = Some compound" and "path_distinct (mp_Path compound)"
    and "IndexCompound sdk bumpData = Some ci"
  shows "MinimalPathBytes sdk ci txid = ExtractMinimalPathForTx sdk bumpData txid \<and>
         Contains sdk ci txid = (ExtractMinimalPathForTx sdk bumpData txid \<noteq> None)"
proof -
  from assms(1,3) have ci: "ci = index_path compound" by (simp add: IndexCompound_def)
  have w: "minimal_walk (leafAt ci) n 0 off = minimal_walk (findLeafByOffset (mp_Path compound)) n 0 off" for n off
    by (rule index.walk_agree) (simp_all add: ci index_path_ok index_path_lookup assms(2))
  have "length (ci_levels ci) = length (mp_Path compound)" "ci_blockHeight ci = mp_BlockHeight compound"
    by (simp_all add: ci index_path_def)
  moreover have "ci_txOffsets ci h = find_leaf_offset (mp_Path compound) h" for h
    by (simp add: ci index_offset_find assms(2))
  ultimately show ?thesis
    unfolding MinimalPathBytes_def ExtractMinimalPathForTx_def Contains_def ExtractMinimalPath_def assms(1)
    by (cases "sdk_fromHex sdk txid"; cases "find_leaf_offset (mp_Path compound) (the (sdk_fromHex sdk txid))")
       (simp_all add: w)
qed

text \<open>A four-leaf block over numbers, with a pairing function for the hash, as a sample instance.\<close>

definition sample_path :: "nat merkle_path" where
  "sample_path = \<lparr>mp_BlockHeight = 7, mp_Path = [[hash_elem 3 13, hash_elem 2 12, hash_elem 0 10, hash_elem 1 11],
     [hash_elem 1 400, hash_elem 0 300]]\<rparr>"

definition sample_sdk :: "nat sdk" where
  "sample_sdk = \<lparr>sdk_parent = (\<lambda>a b. 10 * a + 20 * b), sdk_parse = (\<lambda>d. if d = ''bump'' then Some sample_path else None),
     sdk_bytes = (\<lambda>mp. map (\<lambda>e. char_of (pe_Offset e)) (concat (mp_Path mp))),
     sdk_fromHex = (\<lambda>t. if t = ''tx'' then Some 12 else None), sdk_string = (\<lambda>n. replicate n CHR ''1''),
     sdk_root = (\<lambda>mp h. Some h)\<rparr>"

theorem index_equals_linear_witness:
  "MinimalPathBytes sample_sdk (index_path sample_path) ''tx'' = Some (map char_of [2, 3, 0 :: nat])"
proof -
  have "sdk_parse sample_sdk ''bump'' = Some sample_path" "path_distinct (mp_Path sample_path)"
    "IndexCompound sample_sdk ''bump'' = Some (index_path sample_path)"
    by (simp_all add: sample_sdk_def IndexCompound_def path_distinct_def sample_path_def hash_elem_def
        List.map_filter_def)
  from index_equals_linear [OF this, of "''tx''"] show ?thesis
    by (simp add: ExtractMinimalPathForTx_def sample_sdk_def sample_path_def find_leaf_offset_def
        ExtractMinimalPath_def findLeafByOffset_def find_in_def hash_elem_def opt_list_def sib_def
        numeral_2_eq_2)
qed

text \<open>
  The minimal path extracted for an offset folds, from every hash and at that offset, to exactly
  what the full path folds to (the same root, or the same failure); it keeps the block height and
  the number of levels and holds at most two elements per level.
\<close>

theorem minimal_path_folds:
  "climb par (mp_Path (ExtractMinimalPath full off)) off h = climb par (mp_Path full) off h \<and>
   mp_BlockHeight (ExtractMinimalPath full off) = mp_BlockHeight full \<and>
   length (mp_Path (ExtractMinimalPath full off)) = length (mp_Path full) \<and>
   list_all (\<lambda>lvl. length lvl \<le> 2) (mp_Path (ExtractMinimalPath full off))"
  by (auto simp: ExtractMinimalPath_def list_all_iff full.walk_climb walk_length dest: walk_small)

end
