(* ===== verification/Bump.thy ===== *)
theory Bump
  imports Compound_Index Models
begin

text \<open>
  Construction of compound BUMPs (src/bump/bump.go): the coinbase corrections, single-subtree
  assembly, merging of STUMP variants, the lifted final subtree and \<open>BuildCompoundBUMP\<close>. The
  go-sdk operations are the argument \<open>sdk\<close>; Go errors are the constructors of \<open>bump_error\<close>.
  Path elements are pointers in the source, but no element is reachable from two paths that are
  both still read after a mutation, so values are copied here.
\<close>

datatype bump_error =
    InvalidSubtreeIndex int nat
  | ParseStump int
  | NoStumps
  | StumpTooShort int nat nat
  | VariantsDisagree int nat nat

text \<open>
  \<open>int(math.Ceil(math.Log2(float64(n))))\<close> for a positive count; the float computation is exact
  for every subtree count a block can have.
\<close>

fun ceil_log2 :: "nat \<Rightarrow> nat" where
  "ceil_log2 n = (if n \<le> 1 then 0 else Suc (ceil_log2 ((n + 1) div 2)))"

declare ceil_log2.simps [simp del]

definition validateSubtreeIndex :: "int \<Rightarrow> nat \<Rightarrow> bool" where
  "validateSubtreeIndex subtreeIndex numSubtrees \<longleftrightarrow> \<not> (subtreeIndex < 0 \<or> subtreeIndex \<ge> int numSubtrees)"

section \<open>Coinbase corrections\<close>

definition extractCoinbaseTxID :: "'h sdk \<Rightarrow> bytes \<Rightarrow> 'h option" where
  "extractCoinbaseTxID sdk coinbaseBUMP =
     (if coinbaseBUMP = [] then None
      else case sdk_parse sdk coinbaseBUMP of
             None \<Rightarrow> None
           | Some cbPath \<Rightarrow>
               (case mp_Path cbPath of
                  [] \<Rightarrow> None
                | lvl # _ \<Rightarrow>
                    (case List.find (\<lambda>leaf. pe_Offset leaf = 0 \<and> pe_Hash leaf \<noteq> None) lvl of
                       None \<Rightarrow> None | Some leaf \<Rightarrow> pe_Hash leaf)))"

fun update_first :: "('a \<Rightarrow> bool) \<Rightarrow> ('a \<Rightarrow> 'a) \<Rightarrow> 'a list \<Rightarrow> 'a list" where
  "update_first P f [] = []"
| "update_first P f (x # xs) = (if P x then f x # xs else x # update_first P f xs)"

text \<open>
  The loop for a minimal STUMP: the first offset-0 element of a level that is not a tracked leaf
  takes the coinbase spine's hash, until the coinbase path has no sibling hash.
\<close>

fun spine_walk :: "('h \<Rightarrow> 'h \<Rightarrow> 'h) \<Rightarrow> 'h levels \<Rightarrow> 'h levels \<Rightarrow> 'h \<Rightarrow> 'h levels" where
  "spine_walk par (lvl # stump) (cb # cbs) currentHash =
     update_first (\<lambda>e. pe_Offset e = 0 \<and> pe_Txid e \<noteq> Some True) (pe_Hash_update (\<lambda>_. Some currentHash)) lvl #
     (case find_in cb 1 of
        None \<Rightarrow> stump
      | Some sibling \<Rightarrow>
          (case pe_Hash sibling of None \<Rightarrow> stump | Some s \<Rightarrow> spine_walk par stump cbs (par currentHash s)))"
| "spine_walk par stump cbs currentHash = stump"

definition applyCoinbaseToSTUMP :: "'h sdk \<Rightarrow> 'h levels \<Rightarrow> 'h option \<Rightarrow> bytes \<Rightarrow> 'h levels" where
  "applyCoinbaseToSTUMP sdk stump coinbaseTxID coinbaseBUMP =
     (case coinbaseTxID of
        None \<Rightarrow> stump
      | Some cb \<Rightarrow>
          (case stump of
             [] \<Rightarrow> stump
           | lvl0 # upper \<Rightarrow>
               if list_ex (\<lambda>e. pe_Offset e = 0) lvl0 then
                 update_first (\<lambda>e. pe_Offset e = 0) (pe_Hash_update (\<lambda>_. Some cb)) lvl0 #
                 map (filter (\<lambda>e. pe_Offset e \<noteq> 0)) upper
               else (case sdk_parse sdk coinbaseBUMP of
                       None \<Rightarrow> stump
                     | Some cbPath \<Rightarrow>
                         if mp_Path cbPath = [] then stump else spine_walk (sdk_parent sdk) stump (mp_Path cbPath) cb)))"

fun spine_root :: "('h \<Rightarrow> 'h \<Rightarrow> 'h) \<Rightarrow> 'h levels \<Rightarrow> nat \<Rightarrow> 'h \<Rightarrow> 'h option" where
  "spine_root par (lvl # cbs) (Suc n) working =
     (case find_in lvl 1 of
        None \<Rightarrow> None
      | Some sibling \<Rightarrow>
          if isDuplicate sibling then spine_root par cbs n (par working working)
          else (case pe_Hash sibling of None \<Rightarrow> None | Some s \<Rightarrow> spine_root par cbs n (par working s)))"
| "spine_root par cbs n working = Some working"

definition subtree0RootFromCoinbaseBUMP :: "'h sdk \<Rightarrow> bytes \<Rightarrow> int \<Rightarrow> 'h option" where
  "subtree0RootFromCoinbaseBUMP sdk coinbaseBUMP internalHeight =
     (if coinbaseBUMP = [] \<or> internalHeight \<le> 0 then None
      else case sdk_parse sdk coinbaseBUMP of
             None \<Rightarrow> None
           | Some cbPath \<Rightarrow>
               if int (length (mp_Path cbPath)) < internalHeight then None
               else case extractCoinbaseTxID sdk coinbaseBUMP of
                      None \<Rightarrow> None
                    | Some coinbase \<Rightarrow> spine_root (sdk_parent sdk) (mp_Path cbPath) (nat internalHeight) coinbase)"

definition correctedSubtree0Root :: "'h sdk \<Rightarrow> bytes \<Rightarrow> nat \<Rightarrow> 'h option" where
  "correctedSubtree0Root sdk coinbaseBUMP numSubtrees =
     (case sdk_parse sdk coinbaseBUMP of
        None \<Rightarrow> None
      | Some cbPath \<Rightarrow>
          if mp_Path cbPath = [] then None
          else let internalHeight = int (length (mp_Path cbPath)) - int (ceil_log2 numSubtrees)
               in if internalHeight \<le> 0 then None else subtree0RootFromCoinbaseBUMP sdk coinbaseBUMP internalHeight)"

fun extend_loop :: "'h levels \<Rightarrow> nat list \<Rightarrow> 'h levels \<Rightarrow> 'h levels" where
  "extend_loop cbPath [] path = path"
| "extend_loop cbPath (level # ls) path =
     (case findLeafByOffset cbPath level 1 of
        None \<Rightarrow> path
      | Some sibling \<Rightarrow>
          (case pe_Hash sibling of
             None \<Rightarrow> path
           | Some h \<Rightarrow>
               if findLeafByOffset path level 1 \<noteq> None then extend_loop cbPath ls path
               else extend_loop cbPath ls (addLeaf level (hash_elem 1 h) path)))"

definition extendSubtreeToBlockRoot :: "'h sdk \<Rightarrow> 'h levels \<Rightarrow> bytes \<Rightarrow> nat \<Rightarrow> 'h levels" where
  "extendSubtreeToBlockRoot sdk stump coinbaseBUMP internalHeight =
     (if coinbaseBUMP = [] then stump
      else case sdk_parse sdk coinbaseBUMP of
             None \<Rightarrow> stump
           | Some cbPath \<Rightarrow>
               if length (mp_Path cbPath) \<le> internalHeight then stump
               else extend_loop (mp_Path cbPath) [internalHeight..<length (mp_Path cbPath)] stump)"

section \<open>A single STUMP\<close>

definition shift_elem :: "nat \<Rightarrow> 'h path_element \<Rightarrow> 'h path_element" where
  "shift_elem shift e = e\<lparr>pe_Offset := add64 (pe_Offset e) shift\<rparr>"

text \<open>Level \<open>k\<close> of a subtree of height \<open>h\<close> moves by \<open>index << (h - k)\<close>.\<close>

fun shift_levels :: "int \<Rightarrow> nat \<Rightarrow> 'h levels \<Rightarrow> 'h levels" where
  "shift_levels index h [] = []"
| "shift_levels index h (lvl # path) =
     map (shift_elem (shl64 (u64 index) h)) lvl # shift_levels index (h - 1) path"

definition tracked_offset :: "'h levels \<Rightarrow> nat" where
  "tracked_offset path =
     (case path of [] \<Rightarrow> 0
      | lvl # _ \<Rightarrow> (case List.find (\<lambda>leaf. pe_Txid leaf = Some True) lvl of None \<Rightarrow> 0 | Some leaf \<Rightarrow> pe_Offset leaf))"

definition assembleFullPath :: "'h sdk \<Rightarrow> bytes \<Rightarrow> int \<Rightarrow> 'h list \<Rightarrow> bytes \<Rightarrow> bump_error + ('h merkle_path \<times> nat)" where
  "assembleFullPath sdk stumpData subtreeIndex subtreeHashes coinbaseBUMP =
     (if \<not> validateSubtreeIndex subtreeIndex (length subtreeHashes)
      then Inl (InvalidSubtreeIndex subtreeIndex (length subtreeHashes))
      else case sdk_parse sdk stumpData of
             None \<Rightarrow> Inl (ParseStump subtreeIndex)
           | Some stumpPath \<Rightarrow>
               let internalHeight = length (mp_Path stumpPath);
                   stump = (if subtreeIndex = 0 \<and> coinbaseBUMP \<noteq> []
                            then applyCoinbaseToSTUMP sdk (mp_Path stumpPath) (extractCoinbaseTxID sdk coinbaseBUMP) coinbaseBUMP
                            else mp_Path stumpPath);
                   numSubtrees = length subtreeHashes
               in if numSubtrees \<le> 1 then
                    let path = extendSubtreeToBlockRoot sdk (computeMissingHashes (sdk_parent sdk) stump) coinbaseBUMP internalHeight
                    in Inr (stumpPath\<lparr>mp_Path := path\<rparr>, tracked_offset path)
                  else
                    let shifted = shift_levels subtreeIndex internalHeight stump;
                        txOffset = tracked_offset shifted;
                        seeds = map (\<lambda>i. hash_elem i (subtreeHashes ! i))
                                  (filter (\<lambda>i. int i \<noteq> subtreeIndex) [0..<numSubtrees]);
                        full = shifted @ [seeds] @ replicate (ceil_log2 numSubtrees - 1) [];
                        full' = padAndComputeBlockLevel (sdk_parent sdk) internalHeight numSubtrees
                                  (computeMissingHashes (sdk_parent sdk) full)
                    in Inr (\<lparr>mp_BlockHeight = mp_BlockHeight stumpPath, mp_Path = full'\<rparr>, txOffset))"

definition AssembleBUMP :: "'h sdk \<Rightarrow> bytes \<Rightarrow> int \<Rightarrow> 'h list \<Rightarrow> bytes \<Rightarrow> bump_error + ('h merkle_path \<times> nat)" where
  "AssembleBUMP sdk stumpData subtreeIndex subtreeHashes coinbaseBUMP =
     (if \<not> validateSubtreeIndex subtreeIndex (length subtreeHashes)
      then Inl (InvalidSubtreeIndex subtreeIndex (length subtreeHashes))
      else case assembleFullPath sdk stumpData subtreeIndex subtreeHashes coinbaseBUMP of
             Inl err \<Rightarrow> Inl err
           | Inr (full, txOffset) \<Rightarrow> Inr (ExtractMinimalPath full txOffset, txOffset))"

section \<open>STUMP variants\<close>

text \<open>
  \<open>ComputeRoot\<close> over the subtree's own levels, for every tracked leaf (every leaf when none is
  marked).
\<close>

definition variantFoldsToRoot :: "'h sdk \<Rightarrow> stump \<Rightarrow> 'h \<Rightarrow> nat \<Rightarrow> 'h option \<Rightarrow> bytes \<Rightarrow> bool" where
  "variantFoldsToRoot sdk st root height coinbaseTxID coinbaseBUMP =
     (case sdk_parse sdk (st_StumpData st) of
        None \<Rightarrow> False
      | Some path \<Rightarrow>
          if height = 0 \<or> length (mp_Path path) < height then False
          else let levels = (if st_SubtreeIndex st = 0 \<and> coinbaseTxID \<noteq> None
                             then applyCoinbaseToSTUMP sdk (mp_Path path) coinbaseTxID coinbaseBUMP
                             else mp_Path path);
                   subtree = \<lparr>mp_BlockHeight = mp_BlockHeight path, mp_Path = take height levels\<rparr>;
                   leaf0 = hd (mp_Path subtree);
                   tracked = List.map_filter pe_Hash (filter (\<lambda>leaf. pe_Txid leaf = Some True) leaf0);
                   leaves = (if tracked = [] then List.map_filter pe_Hash leaf0 else tracked)
               in leaves \<noteq> [] \<and> list_all (\<lambda>leaf. sdk_root sdk subtree leaf = Some root) leaves)"

definition dropVariantsOffSubtreeRoot ::
  "'h sdk \<Rightarrow> stump list \<Rightarrow> 'h list \<Rightarrow> (int \<Rightarrow> nat) \<Rightarrow> 'h option \<Rightarrow> bytes \<Rightarrow> stump list" where
  "dropVariantsOffSubtreeRoot sdk stumps subtreeHashes requiredHeight coinbaseTxID coinbaseBUMP =
     (let cnt = (\<lambda>idx. length (filter (\<lambda>st. st_SubtreeIndex st = idx) stumps));
          matches = (\<lambda>st. let idx = st_SubtreeIndex st in
             \<not> (cnt idx < 2 \<or> idx < 0 \<or> idx \<ge> int (length subtreeHashes)) \<and>
             variantFoldsToRoot sdk st (subtreeHashes ! nat idx) (requiredHeight idx) coinbaseTxID coinbaseBUMP);
          anyMatch = (\<lambda>idx. list_ex (\<lambda>st. st_SubtreeIndex st = idx \<and> matches st) stumps)
      in filter (\<lambda>st. \<not> (cnt (st_SubtreeIndex st) \<ge> 2 \<and> anyMatch (st_SubtreeIndex st) \<and> \<not> matches st)) stumps)"

text \<open>
  One source element against a destination level. The lookup map keeps the last element of an
  offset, so that one is reconciled. \<open>None\<close> is a disagreement.
\<close>

definition reconcile :: "'h path_element \<Rightarrow> 'h path_element \<Rightarrow> 'h path_element" where
  "reconcile e have0 =
     (let h = (if pe_Hash have0 = None \<and> pe_Hash e \<noteq> None
               then have0\<lparr>pe_Hash := pe_Hash e, pe_Duplicate := None\<rparr> else have0)
      in if pe_Txid e = Some True \<and> pe_Txid h \<noteq> Some True then h\<lparr>pe_Txid := Some True\<rparr> else h)"

definition union_elem :: "'h path_element \<Rightarrow> 'h path_element list \<Rightarrow> 'h path_element list option" where
  "union_elem e dst =
     (case find_in (rev dst) (pe_Offset e) of
        None \<Rightarrow> Some (dst @ [e])
      | Some have0 \<Rightarrow>
          if pe_Hash have0 \<noteq> None \<and> pe_Hash e \<noteq> None \<and> pe_Hash have0 \<noteq> pe_Hash e then None
          else Some (rev (update_first (\<lambda>d. pe_Offset d = pe_Offset e) (reconcile e) (rev dst))))"

fun union_elems :: "nat \<Rightarrow> 'h path_element list \<Rightarrow> 'h path_element list \<Rightarrow> (nat \<times> nat) + 'h path_element list" where
  "union_elems level [] dst = Inr dst"
| "union_elems level (e # src) dst =
     (case union_elem e dst of
        None \<Rightarrow> Inl (level, pe_Offset e)
      | Some dst' \<Rightarrow> union_elems level src dst')"

fun unionMerklePath :: "nat \<Rightarrow> 'h levels \<Rightarrow> 'h levels \<Rightarrow> (nat \<times> nat) + 'h levels" where
  "unionMerklePath level dst [] = Inr dst"
| "unionMerklePath level dst (s # src) =
     (let (d, rest) = (case dst of [] \<Rightarrow> ([], []) | d # rest \<Rightarrow> (d, rest)) in
      case union_elems level s d of
        Inl err \<Rightarrow> Inl err
      | Inr d' \<Rightarrow>
          (case unionMerklePath (level + 1) rest src of
             Inl err \<Rightarrow> Inl err
           | Inr rest' \<Rightarrow> Inr (sort_key pe_Offset d' # rest')))"

definition level0TxIDs :: "'h sdk \<Rightarrow> 'h levels \<Rightarrow> string list" where
  "level0TxIDs sdk path =
     (case path of [] \<Rightarrow> [] | lvl # _ \<Rightarrow> rev (remdups (rev (map (sdk_string sdk) (List.map_filter pe_Hash lvl)))))"

record 'h mergedStump =
  ms_index :: int
  ms_path :: "'h merkle_path"
  ms_data :: bytes
  ms_variants :: nat
  ms_txids :: "string list"

text \<open>\<open>byIndex\<close>, \<open>variants\<close> and \<open>order\<close> are one list in first-seen order.\<close>

fun merge_loop :: "'h sdk \<Rightarrow> stump list \<Rightarrow> 'h mergedStump list \<Rightarrow> bump_error + 'h mergedStump list" where
  "merge_loop sdk [] groups = Inr groups"
| "merge_loop sdk (st # sts) groups =
     (case sdk_parse sdk (st_StumpData st) of
        None \<Rightarrow> Inl (ParseStump (st_SubtreeIndex st))
      | Some path \<Rightarrow>
          (case List.find (\<lambda>g. ms_index g = st_SubtreeIndex st) groups of
             None \<Rightarrow>
               merge_loop sdk sts (groups @ [\<lparr>ms_index = st_SubtreeIndex st, ms_path = path,
                 ms_data = st_StumpData st, ms_variants = 1, ms_txids = []\<rparr>])
           | Some g \<Rightarrow>
               (case unionMerklePath 0 (mp_Path (ms_path g)) (mp_Path path) of
                  Inl (level, off) \<Rightarrow> Inl (VariantsDisagree (st_SubtreeIndex st) level off)
                | Inr levels \<Rightarrow>
                    merge_loop sdk sts (map (\<lambda>g'. if ms_index g' = st_SubtreeIndex st
                      then g'\<lparr>ms_path := (ms_path g')\<lparr>mp_Path := levels\<rparr>, ms_variants := ms_variants g' + 1\<rparr>
                      else g') groups))))"

definition mergeStumpVariants :: "'h sdk \<Rightarrow> stump list \<Rightarrow> bump_error + 'h mergedStump list" where
  "mergeStumpVariants sdk stumps =
     map_sum id (map (\<lambda>g. g\<lparr>ms_data := (if ms_variants g > 1 then sdk_bytes sdk (ms_path g) else ms_data g),
                             ms_txids := level0TxIDs sdk (mp_Path (ms_path g))\<rparr>))
       (merge_loop sdk stumps [])"

section \<open>The block-level tree\<close>

definition fold_pairs :: "('h \<Rightarrow> 'h \<Rightarrow> 'h) \<Rightarrow> 'h list \<Rightarrow> 'h list" where
  "fold_pairs par xs =
     (let level = (if odd (length xs) then xs @ [last xs] else xs)
      in map (\<lambda>i. par (level ! (2 * i)) (level ! (2 * i + 1))) [0..<length level div 2])"

function topTreeRoot :: "('h \<Rightarrow> 'h \<Rightarrow> 'h) \<Rightarrow> 'h list \<Rightarrow> 'h" where
  "topTreeRoot par level = (if length level > 1 then topTreeRoot par (fold_pairs par level) else level ! 0)"
  by pat_completeness auto
termination
  by (relation "measure (\<lambda>(_, level). length level)") (auto simp: fold_pairs_def Let_def elim!: oddE evenE)

declare topTreeRoot.simps [simp del]

text \<open>\<open>n\<close> candidates remain, the next one lifted \<open>k\<close> times.\<close>

fun lift_loop :: "('h \<Rightarrow> 'h \<Rightarrow> 'h) \<Rightarrow> 'h list \<Rightarrow> 'h \<Rightarrow> nat \<Rightarrow> nat \<Rightarrow> 'h \<Rightarrow> nat" where
  "lift_loop par hs root 0 k lifted = 0"
| "lift_loop par hs root (Suc n) k lifted =
     (if topTreeRoot par (hs[length hs - 1 := lifted]) = root then k
      else lift_loop par hs root n (k + 1) (par lifted lifted))"

definition deriveFinalSubtreeLift :: "('h \<Rightarrow> 'h \<Rightarrow> 'h) \<Rightarrow> 'h list \<Rightarrow> nat \<Rightarrow> 'h option \<Rightarrow> nat" where
  "deriveFinalSubtreeLift par subtreeHashes internalHeight headerMerkleRoot =
     (case headerMerkleRoot of
        None \<Rightarrow> 0
      | Some root \<Rightarrow>
          if length subtreeHashes < 2 then 0
          else lift_loop par subtreeHashes root (internalHeight + 1) 0 (last subtreeHashes))"

text \<open>
  One element of \<open>computeAndPadCompound\<close>'s inner loop. \<open>parentPresent\<close> is always the set of
  offsets of the next level; the offset map keeps the last element of an offset.
\<close>

definition cap_elem :: "('h \<Rightarrow> 'h \<Rightarrow> 'h) \<Rightarrow> 'h path_element list \<Rightarrow> 'h path_element \<Rightarrow> 'h path_element list \<Rightarrow> 'h path_element list" where
  "cap_elem par lvl elem nxt =
     (let parentOffset = pe_Offset elem div 2 in
      if find_in nxt parentOffset \<noteq> None then nxt
      else case find_in (rev lvl) (sib (pe_Offset elem)) of
             None \<Rightarrow> nxt
           | Some sibling \<Rightarrow>
               if isDuplicate sibling then
                 (case pe_Hash elem of None \<Rightarrow> nxt | Some h \<Rightarrow> nxt @ [hash_elem parentOffset (par h h)])
               else if isDuplicate elem then
                 (case pe_Hash sibling of None \<Rightarrow> nxt | Some s \<Rightarrow> nxt @ [hash_elem parentOffset (par s s)])
               else (case (pe_Hash elem, pe_Hash sibling) of
                       (Some h, Some s) \<Rightarrow>
                         nxt @ [hash_elem parentOffset (if even (pe_Offset elem) then par h s else par s h)]
                     | _ \<Rightarrow> nxt))"

text \<open>\<open>below\<close> levels remain under the subtree-root layer.\<close>

fun computeAndPadCompound :: "('h \<Rightarrow> 'h \<Rightarrow> 'h) \<Rightarrow> nat \<Rightarrow> nat \<Rightarrow> 'h levels \<Rightarrow> 'h levels" where
  "computeAndPadCompound par below realCount (lvl # nxt # rest) =
     (if below > 0 then
        lvl # computeAndPadCompound par (below - 1) realCount (fold (cap_elem par lvl) lvl nxt # rest)
      else let lvl' = pad_odd realCount lvl
           in lvl' # computeAndPadCompound par 0 ((realCount + 1) div 2) (fold (cap_elem par lvl') lvl' nxt # rest))"
| "computeAndPadCompound par below realCount path = path"

section \<open>BuildCompoundBUMP\<close>

text \<open>The in-place correction of \<open>subtreeHashes[0]\<close>.\<close>

definition correct_hashes :: "'h sdk \<Rightarrow> 'h list \<Rightarrow> bytes \<Rightarrow> 'h list" where
  "correct_hashes sdk subtreeHashes coinbaseBUMP =
     (if extractCoinbaseTxID sdk coinbaseBUMP \<noteq> None \<and> subtreeHashes \<noteq> [] then
        (case correctedSubtree0Root sdk coinbaseBUMP (length subtreeHashes) of
           None \<Rightarrow> subtreeHashes | Some root \<Rightarrow> subtreeHashes[0 := root])
      else subtreeHashes)"

definition compound_internal_height :: "'h sdk \<Rightarrow> 'h merkle_path \<Rightarrow> bytes \<Rightarrow> nat \<Rightarrow> nat" where
  "compound_internal_height sdk firstPath coinbaseBUMP subtreeRootLayer =
     (case sdk_parse sdk coinbaseBUMP of
        None \<Rightarrow> length (mp_Path firstPath)
      | Some cbPath \<Rightarrow>
          if length (mp_Path cbPath) > subtreeRootLayer then length (mp_Path cbPath) - subtreeRootLayer
          else length (mp_Path firstPath))"

definition requiredHeightFor :: "nat \<Rightarrow> nat \<Rightarrow> nat \<Rightarrow> int \<Rightarrow> nat" where
  "requiredHeightFor numSubtrees internalHeight liftLevels index =
     (if index = int numSubtrees - 1 then internalHeight - liftLevels else internalHeight)"

fun place_levels :: "'h levels \<Rightarrow> 'h levels \<Rightarrow> 'h levels" where
  "place_levels [] compound = compound"
| "place_levels ns [] = ns"
| "place_levels (n # ns) (c # compound) = (c @ n) # place_levels ns compound"

definition stump_levels :: "'h sdk \<Rightarrow> 'h option \<Rightarrow> bytes \<Rightarrow> int \<Rightarrow> 'h levels \<Rightarrow> 'h levels" where
  "stump_levels sdk coinbaseTxID coinbaseBUMP index path =
     (if index = 0 \<and> coinbaseTxID \<noteq> None then applyCoinbaseToSTUMP sdk path coinbaseTxID coinbaseBUMP else path)"

fun place_loop :: "'h sdk \<Rightarrow> 'h option \<Rightarrow> bytes \<Rightarrow> (int \<Rightarrow> nat) \<Rightarrow> nat \<Rightarrow> 'h mergedStump list \<Rightarrow> 'h levels \<Rightarrow> string list
    \<Rightarrow> bump_error + ('h levels \<times> string list)" where
  "place_loop sdk cb cbData required H [] compound txids = Inr (compound, txids)"
| "place_loop sdk cb cbData required H (st # sts) compound txids =
     (let path = mp_Path (ms_path st); requiredHeight = required (ms_index st) in
      if length path < requiredHeight then Inl (StumpTooShort (ms_index st) (length path) requiredHeight)
      else place_loop sdk cb cbData required H sts
             (place_levels (shift_levels (ms_index st) H (take requiredHeight (stump_levels sdk cb cbData (ms_index st) path))) compound)
             (txids @ ms_txids st))"

definition lift_dups :: "nat \<Rightarrow> nat \<Rightarrow> nat \<Rightarrow> 'h levels \<Rightarrow> 'h levels" where
  "lift_dups finalIdx finalNaturalHeight internalHeight compound =
     fold (\<lambda>level. addLeaf level (dup_elem (add64 (shl64 finalIdx (internalHeight - level)) 1)))
       [finalNaturalHeight..<internalHeight] compound"

definition seed_roots :: "('h \<Rightarrow> 'h \<Rightarrow> 'h) \<Rightarrow> int list \<Rightarrow> 'h list \<Rightarrow> nat \<Rightarrow> nat \<Rightarrow> 'h levels \<Rightarrow> 'h levels" where
  "seed_roots par haveSTUMP subtreeHashes liftLevels internalHeight compound =
     fold (\<lambda>i. addLeaf internalHeight (hash_elem i
              (if i = length subtreeHashes - 1 then ((\<lambda>h. par h h) ^^ liftLevels) (subtreeHashes ! i) else subtreeHashes ! i)))
       (filter (\<lambda>i. int i \<notin> set haveSTUMP) [0..<length subtreeHashes]) compound"

definition build_multi :: "'h sdk \<Rightarrow> stump list \<Rightarrow> 'h list \<Rightarrow> bytes \<Rightarrow> 'h option \<Rightarrow> bump_error + ('h merkle_path \<times> string list)" where
  "build_multi sdk stumps subtreeHashes coinbaseBUMP headerMerkleRoot =
     (case sdk_parse sdk (st_StumpData (hd stumps)) of
        None \<Rightarrow> Inl (ParseStump (st_SubtreeIndex (hd stumps)))
      | Some firstPath \<Rightarrow>
          let par = sdk_parent sdk;
              coinbaseTxID = extractCoinbaseTxID sdk coinbaseBUMP;
              numSubtrees = length subtreeHashes;
              subtreeRootLayer = ceil_log2 numSubtrees;
              internalHeight = compound_internal_height sdk firstPath coinbaseBUMP subtreeRootLayer;
              liftLevels = deriveFinalSubtreeLift par subtreeHashes internalHeight headerMerkleRoot;
              required = requiredHeightFor numSubtrees internalHeight liftLevels;
              kept = dropVariantsOffSubtreeRoot sdk stumps subtreeHashes required coinbaseTxID coinbaseBUMP
          in case mergeStumpVariants sdk kept of
               Inl err \<Rightarrow> Inl err
             | Inr merged \<Rightarrow>
                 (case place_loop sdk coinbaseTxID coinbaseBUMP required internalHeight merged
                         (replicate (internalHeight + subtreeRootLayer) []) [] of
                    Inl err \<Rightarrow> Inl err
                  | Inr (placed, txids) \<Rightarrow>
                      let haveSTUMP = map ms_index merged;
                          lifted = (if liftLevels > 0 \<and> int (numSubtrees - 1) \<in> set haveSTUMP
                                    then lift_dups (numSubtrees - 1) (internalHeight - liftLevels) internalHeight placed
                                    else placed);
                          seeded = seed_roots par haveSTUMP subtreeHashes liftLevels internalHeight lifted
                      in Inr (\<lparr>mp_BlockHeight = mp_BlockHeight firstPath,
                               mp_Path = computeAndPadCompound par internalHeight numSubtrees seeded\<rparr>, txids)))"

text \<open>The second component is the caller's slice of subtree hashes afterwards.\<close>

definition BuildCompoundBUMP :: "'h sdk \<Rightarrow> stump list \<Rightarrow> 'h list \<Rightarrow> bytes \<Rightarrow> 'h option
    \<Rightarrow> (bump_error + ('h merkle_path \<times> string list)) \<times> 'h list" where
  "BuildCompoundBUMP sdk stumps subtreeHashes coinbaseBUMP headerMerkleRoot =
     (if stumps = [] then (Inl NoStumps, subtreeHashes)
      else let hashes = correct_hashes sdk subtreeHashes coinbaseBUMP in
        (if length hashes \<le> 1 then
           (case mergeStumpVariants sdk stumps of
              Inl err \<Rightarrow> Inl err
            | Inr merged \<Rightarrow>
                map_sum id (\<lambda>(full, _). (full, ms_txids (hd merged)))
                  (assembleFullPath sdk (ms_data (hd merged)) (ms_index (hd merged)) hashes coinbaseBUMP))
         else build_multi sdk stumps hashes coinbaseBUMP headerMerkleRoot, hashes))"

definition ValidateCompoundRoot :: "'h sdk \<Rightarrow> 'h merkle_path option \<Rightarrow> 'h option \<Rightarrow> bool" where
  "ValidateCompoundRoot sdk compound expected =
     (case (expected, compound) of
        (Some root, Some mp) \<Rightarrow>
          (case mp_Path mp of
             [] \<Rightarrow> False
           | lvl # _ \<Rightarrow>
               (case List.find (\<lambda>l. pe_Hash l \<noteq> None) lvl of
                  None \<Rightarrow> False
                | Some l \<Rightarrow> sdk_root sdk mp (the (pe_Hash l)) = Some root))
      | _ \<Rightarrow> False)"

end
