(* ===== verification/Merkle_Tree.thy ===== *)
theory Merkle_Tree
  imports Bump
begin

text \<open>
  The merkle tree of a block as Bitcoin defines it, and the compound builder measured against it.
  A lifted or padded block needs no special tree: with the duplicate-last rule on every odd level,
  the tree over all transactions is the specification of both. \<open>levels_ok\<close> says that every stored
  element of a path agrees with the tree; the compound builder keeps it, and a path that has it
  folds to the tree's root or not at all.
\<close>

section \<open>The tree\<close>

lemma length_fold_pairs [simp]: "length (fold_pairs par xs) = (length xs + 1) div 2"
  by (auto simp: fold_pairs_def Let_def elim!: oddE evenE)

lemma fold_pairs_nth:
  assumes "o1 < (length xs + 1) div 2"
  shows "fold_pairs par xs ! o1 =
    par (xs ! (2 * o1)) (if 2 * o1 + 1 < length xs then xs ! (2 * o1 + 1) else xs ! (2 * o1))"
proof (cases "odd (length xs)")
  case True
  then obtain k where k: "length xs = 2 * k + 1" by (auto elim: oddE)
  with assms have "o1 \<le> k" by simp
  moreover have "last xs = xs ! (2 * k)" using k by (simp add: last_conv_nth flip: length_0_conv)
  ultimately show ?thesis using k True by (auto simp: fold_pairs_def Let_def nth_append)
next
  case False
  then obtain k where k: "length xs = 2 * k" by (auto elim: evenE)
  with assms have "o1 < k" by simp
  then show ?thesis using k False by (auto simp: fold_pairs_def Let_def)
qed

definition tree :: "('h \<Rightarrow> 'h \<Rightarrow> 'h) \<Rightarrow> 'h list \<Rightarrow> nat \<Rightarrow> 'h list" where
  "tree par txs l = (fold_pairs par ^^ l) txs"

definition cnt :: "'h list \<Rightarrow> nat \<Rightarrow> nat" where
  "cnt txs l = ((\<lambda>n. (n + 1) div 2) ^^ l) (length txs)"

lemma tree_0 [simp]: "tree par txs 0 = txs" and tree_Suc: "tree par txs (Suc l) = fold_pairs par (tree par txs l)"
  by (simp_all add: tree_def)

lemma cnt_0 [simp]: "cnt txs 0 = length txs" and cnt_Suc: "cnt txs (Suc l) = (cnt txs l + 1) div 2"
  by (simp_all add: cnt_def)

lemma length_tree [simp]: "length (tree par txs l) = cnt txs l"
  by (induction l) (simp_all add: tree_Suc cnt_Suc)

lemma tree_parent:
  assumes "o1 < cnt txs (Suc l)"
  shows "tree par txs (Suc l) ! o1 =
    par (tree par txs l ! (2 * o1))
        (if 2 * o1 + 1 < cnt txs l then tree par txs l ! (2 * o1 + 1) else tree par txs l ! (2 * o1))"
  using fold_pairs_nth [of o1 "tree par txs l" par] assms by (simp add: tree_Suc cnt_Suc)

lemma cnt_pos: "txs \<noteq> [] \<Longrightarrow> 0 < cnt txs l"
  by (induction l) (auto simp: cnt_Suc)

lemma cnt_div: "off < cnt txs l \<Longrightarrow> off div 2 < cnt txs (Suc l)"
  by (simp add: cnt_Suc)

lemma ceil_log2_step: "1 < n \<Longrightarrow> ceil_log2 n = Suc (ceil_log2 ((n + 1) div 2))"
  by (subst ceil_log2.simps) simp

lemma ceil_log2_1 [simp]: "ceil_log2 (Suc 0) = 0"
  by (subst ceil_log2.simps) simp

text \<open>\<open>topTreeRoot\<close> is the top of the tree.\<close>

lemma topTreeRoot_tree: "xs \<noteq> [] \<Longrightarrow> topTreeRoot par xs = tree par xs (ceil_log2 (length xs)) ! 0"
proof (induction par xs rule: topTreeRoot.induct)
  case (1 par xs)
  show ?case
  proof (cases "length xs > 1")
    case True
    let ?ys = "fold_pairs par xs"
    have "?ys \<noteq> []" using True by (auto simp flip: length_0_conv)
    with 1(1) [OF True] have "topTreeRoot par xs = tree par ?ys (ceil_log2 (length ?ys)) ! 0"
      using True by (subst topTreeRoot.simps) simp
    moreover have "tree par ?ys l = tree par xs (Suc l)" for l
      by (simp add: tree_def funpow_Suc_right del: funpow.simps)
    moreover have "ceil_log2 (length xs) = Suc (ceil_log2 (length ?ys))"
      using True by (simp add: ceil_log2_step [OF True])
    ultimately show ?thesis by simp
  next
    case False
    with 1(2) have "length xs = Suc 0" by (cases xs) auto
    then show ?thesis by (subst topTreeRoot.simps) simp
  qed
qed

lemma halvings: "0 < n \<Longrightarrow> ((\<lambda>n. (n + 1) div 2) ^^ ceil_log2 n) n = 1"
proof (induction n rule: ceil_log2.induct)
  case (1 n)
  show ?case
  proof (cases "n \<le> 1")
    case True
    with 1(2) have "n = Suc 0" by simp
    then show ?thesis by simp
  next
    case False
    then have "ceil_log2 n = Suc (ceil_log2 ((n + 1) div 2))" by (intro ceil_log2_step) simp
    with 1(1) [OF False] False show ?thesis by (simp only: funpow_Suc_right comp_apply)
  qed
qed

lemma cnt_top: "txs \<noteq> [] \<Longrightarrow> cnt txs (ceil_log2 (length txs)) = 1"
  unfolding cnt_def by (rule halvings) simp

section \<open>Elements that agree with the tree\<close>

text \<open>A duplicate marker may only stand one past the end of an odd level.\<close>

definition elem_ok :: "('h \<Rightarrow> 'h \<Rightarrow> 'h) \<Rightarrow> 'h list \<Rightarrow> nat \<Rightarrow> 'h path_element \<Rightarrow> bool" where
  "elem_ok par txs l e \<longleftrightarrow>
     (if isDuplicate e then odd (cnt txs l) \<and> pe_Offset e = cnt txs l
      else pe_Offset e < cnt txs l \<and> pe_Hash e = Some (tree par txs l ! pe_Offset e))"

fun levels_ok :: "('h \<Rightarrow> 'h \<Rightarrow> 'h) \<Rightarrow> 'h list \<Rightarrow> nat \<Rightarrow> 'h levels \<Rightarrow> bool" where
  "levels_ok par txs l [] = True"
| "levels_ok par txs l (lvl # path) = (list_all (elem_ok par txs l) lvl \<and> levels_ok par txs (Suc l) path)"

lemma parent_of_pair:
  assumes "off < cnt txs l"
  shows "tree par txs (Suc l) ! (off div 2) =
    (if cnt txs l \<le> sib off then par (tree par txs l ! off) (tree par txs l ! off)
     else if even off then par (tree par txs l ! off) (tree par txs l ! sib off)
     else par (tree par txs l ! sib off) (tree par txs l ! off))"
proof -
  note p = tree_parent [OF cnt_div [OF assms], of par]
  show ?thesis
  proof (cases "even off")
    case True
    then have "2 * (off div 2) = off" by simp
    then show ?thesis using p True by (auto simp: sib_def)
  next
    case False
    then obtain k where k: "off = 2 * k + 1" by (auto elim: oddE)
    then show ?thesis using p assms by (auto simp: sib_def)
  qed
qed

lemma climb_tree:
  assumes "levels_ok par txs l path" and "off < cnt txs l"
    and "climb par path off (tree par txs l ! off) = Some r"
  shows "r = tree par txs (l + length path) ! (off div 2 ^ length path) \<and>
         off div 2 ^ length path < cnt txs (l + length path)"
  using assms
proof (induction path arbitrary: l off)
  case (Cons lvl path)
  from Cons.prems(3) obtain e where e: "find_in lvl (sib off) = Some e" by (auto split: option.splits)
  then have eo: "elem_ok par txs l e" "pe_Offset e = sib off"
    using Cons.prems(1) by (auto dest!: find_in_Some simp: list_all_iff)
  have step: "climb par path (off div 2) (tree par txs (Suc l) ! (off div 2)) = Some r"
    using Cons.prems(2,3) e eo parent_of_pair [OF Cons.prems(2), of par]
    by (auto simp: elem_ok_def split: if_splits option.splits)
  have "levels_ok par txs (Suc l) path" using Cons.prems(1) by simp
  from Cons.IH [OF this cnt_div [OF Cons.prems(2)] step] show ?case
    by (simp add: div_mult2_eq)
qed simp

section \<open>Filling in the tree\<close>

definition offs :: "'h path_element list \<Rightarrow> nat set" where
  "offs lvl = pe_Offset ` set lvl"

lemma offs_simps [simp]: "offs [] = {}" "offs (xs @ ys) = offs xs \<union> offs ys" "offs (e # xs) = insert (pe_Offset e) (offs xs)"
  by (auto simp: offs_def)

lemma find_in_offs: "find_in lvl off \<noteq> None \<longleftrightarrow> off \<in> offs lvl"
  by (simp add: find_in_None offs_def)

lemma offs_rev [simp]: "offs (rev lvl) = offs lvl"
  by (simp add: offs_def)

lemma elem_ok_parent:
  assumes "elem_ok par txs l e" and "elem_ok par txs l s" and "pe_Offset s = sib (pe_Offset e)"
  shows "isDuplicate s \<Longrightarrow> \<not> isDuplicate e \<and> (\<forall>h. pe_Hash e = Some h \<longrightarrow>
           elem_ok par txs (Suc l) (hash_elem (pe_Offset e div 2) (par h h)))"
    and "\<not> isDuplicate s \<Longrightarrow> \<not> isDuplicate e \<Longrightarrow> pe_Hash e = Some h \<Longrightarrow> pe_Hash s = Some h' \<Longrightarrow>
           elem_ok par txs (Suc l) (hash_elem (pe_Offset e div 2) (if even (pe_Offset e) then par h h' else par h' h))"
proof -
  assume s: "isDuplicate s"
  with assms have "\<not> isDuplicate e" by (metis elem_ok_def sib_neq(1))
  then show "\<not> isDuplicate e \<and> (\<forall>h. pe_Hash e = Some h \<longrightarrow>
           elem_ok par txs (Suc l) (hash_elem (pe_Offset e div 2) (par h h)))"
    using assms s parent_of_pair [of "pe_Offset e" txs l par] by (auto simp: elem_ok_def cnt_div)
next
  assume "\<not> isDuplicate s" "\<not> isDuplicate e" "pe_Hash e = Some h" "pe_Hash s = Some h'"
  then show "elem_ok par txs (Suc l) (hash_elem (pe_Offset e div 2) (if even (pe_Offset e) then par h h' else par h' h))"
    using assms parent_of_pair [of "pe_Offset e" txs l par] by (auto simp: elem_ok_def cnt_div)
qed

lemma cap_elem_ok:
  assumes "list_all (elem_ok par txs l) lvl" and "e \<in> set lvl" and "list_all (elem_ok par txs (Suc l)) nxt"
  shows "list_all (elem_ok par txs (Suc l)) (cap_elem par lvl e nxt)"
proof (cases "find_in (rev lvl) (sib (pe_Offset e))")
  case None
  then show ?thesis using assms(3) by (simp add: cap_elem_def Let_def)
next
  case (Some s)
  then have s: "s \<in> set lvl" "pe_Offset s = sib (pe_Offset e)" by (auto dest: find_in_Some)
  then have oks: "elem_ok par txs l e" "elem_ok par txs l s" "pe_Offset e = sib (pe_Offset s)"
    using assms by (auto simp: list_all_iff)
  note p = elem_ok_parent [OF oks(1,2) s(2)] and q = elem_ok_parent(1) [OF oks(2,1,3)]
  have "pe_Offset s div 2 = pe_Offset e div 2" using s(2) by simp
  then show ?thesis using assms(3) Some p q
    by (auto simp: cap_elem_def Let_def split: option.splits)
qed

lemma fold_cap_ok:
  assumes "list_all (elem_ok par txs l) lvl" and "set es \<subseteq> set lvl" and "list_all (elem_ok par txs (Suc l)) nxt"
  shows "list_all (elem_ok par txs (Suc l)) (fold (cap_elem par lvl) es nxt)"
  using assms(2,3) by (induction es arbitrary: nxt) (auto intro: cap_elem_ok [OF assms(1)])

lemma pad_odd_ok: "list_all (elem_ok par txs l) lvl \<Longrightarrow> list_all (elem_ok par txs l) (pad_odd (cnt txs l) lvl)"
  by (simp add: pad_odd_def elem_ok_def)

lemma offs_cap_mono: "offs nxt \<subseteq> offs (cap_elem par lvl e nxt)"
  by (auto simp: cap_elem_def Let_def split: option.splits)

lemma offs_fold_cap_mono: "offs nxt \<subseteq> offs (fold (cap_elem par lvl) es nxt)"
  by (induction es arbitrary: nxt) (simp, metis fold_simps(2) offs_cap_mono subset_trans)

text \<open>A node with a sibling gets its parent.\<close>

lemma fold_cap_parent:
  assumes ok: "list_all (elem_ok par txs l) lvl" and e: "off \<in> offs lvl" "off < cnt txs l" and s: "sib off \<in> offs lvl"
  shows "off div 2 \<in> offs (fold (cap_elem par lvl) lvl nxt)"
proof -
  from e(1) obtain x where x: "x \<in> set lvl" "pe_Offset x = off" by (auto simp: offs_def)
  then obtain as bs where split: "lvl = as @ x # bs" by (auto simp: in_set_conv_decomp)
  from s obtain y where y: "find_in (rev lvl) (sib off) = Some y"
    using find_in_offs [of "rev lvl" "sib off"] by auto
  then have "y \<in> set lvl" by (auto dest: find_in_Some)
  then have oks: "elem_ok par txs l x" "elem_ok par txs l y" using ok x by (auto simp: list_all_iff)
  let ?n = "fold (cap_elem par lvl) as nxt"
  have "off div 2 \<in> offs (cap_elem par lvl x ?n)"
    using oks x(2) y e(2) find_in_offs [of ?n "off div 2"]
    by (auto simp: cap_elem_def Let_def elem_ok_def split: option.splits)
  moreover have "fold (cap_elem par lvl) lvl nxt = fold (cap_elem par lvl) bs (cap_elem par lvl x ?n)"
    using arg_cong [OF split, of "\<lambda>z. fold (cap_elem par lvl) z nxt"] by simp
  ultimately show ?thesis
    using offs_fold_cap_mono [of "cap_elem par lvl x ?n" par lvl bs] by auto
qed

lemma computeAndPad_ok:
  assumes "levels_ok par txs l path" and "realCount = cnt txs (l + below)"
  shows "levels_ok par txs l (computeAndPadCompound par below realCount path)"
  using assms
proof (induction par below realCount path arbitrary: l rule: computeAndPadCompound.induct)
  case (1 par below realCount lvl nxt rest)
  show ?case
  proof (cases "below > 0")
    case True
    then have "levels_ok par txs (Suc l) (fold (cap_elem par lvl) lvl nxt # rest)"
      using 1(3) by (auto intro: fold_cap_ok)
    with 1(1) [OF True, of "Suc l"] 1(3,4) True show ?thesis by simp
  next
    case False
    let ?lvl = "pad_odd realCount lvl"
    have p: "list_all (elem_ok par txs l) ?lvl" using 1(3,4) False by (simp add: pad_odd_ok)
    then have "levels_ok par txs (Suc l) (fold (cap_elem par ?lvl) ?lvl nxt # rest)"
      using 1(3) by (auto intro: fold_cap_ok)
    with 1(2) [OF False refl, of "Suc l"] 1(4) False p show ?thesis by (simp add: cnt_Suc Let_def)
  qed
qed simp_all

section \<open>Climbing the filled tree\<close>

definition full_level :: "'h list \<Rightarrow> nat \<Rightarrow> 'h path_element list \<Rightarrow> bool" where
  "full_level txs l lvl \<longleftrightarrow> (\<forall>off < cnt txs l. off \<in> offs lvl)"

lemma full_next:
  assumes "list_all (elem_ok par txs l) lvl" and "full_level txs l lvl"
  shows "full_level txs (Suc l) (fold (cap_elem par (pad_odd (cnt txs l) lvl)) (pad_odd (cnt txs l) lvl) nxt)"
  unfolding full_level_def
proof (intro allI impI)
  let ?lvl = "pad_odd (cnt txs l) lvl"
  fix o1 assume "o1 < cnt txs (Suc l)"
  then have lt: "2 * o1 < cnt txs l" by (auto simp: cnt_Suc)
  have sub: "offs lvl \<subseteq> offs ?lvl" by (auto simp: pad_odd_def)
  have "2 * o1 + 1 \<in> offs ?lvl"
  proof (cases "2 * o1 + 1 < cnt txs l")
    case True
    then show ?thesis using assms(2) sub by (auto simp: full_level_def)
  next
    case False
    then have c: "cnt txs l = 2 * o1 + 1" using lt by simp
    then show ?thesis using find_in_offs [of lvl "2 * o1 + 1"] by (auto simp: pad_odd_def)
  qed
  moreover have "2 * o1 \<in> offs ?lvl" using assms(2) lt sub by (auto simp: full_level_def)
  ultimately show "o1 \<in> offs (fold (cap_elem par ?lvl) ?lvl nxt)"
    using fold_cap_parent [OF pad_odd_ok [OF assms(1)], of "2 * o1" nxt] lt by (simp add: sib_def)
qed

lemma climb_step:
  assumes "list_all (elem_ok par txs l) lvl" and "off < cnt txs l" and "sib off \<in> offs lvl"
  shows "climb par (lvl # path) off (tree par txs l ! off) =
         climb par path (off div 2) (tree par txs (Suc l) ! (off div 2))"
proof -
  from assms(3) obtain e where e: "find_in lvl (sib off) = Some e" using find_in_offs [of lvl "sib off"] by auto
  then have "elem_ok par txs l e" "pe_Offset e = sib off" using assms(1) by (auto dest!: find_in_Some simp: list_all_iff)
  with e parent_of_pair [OF assms(2), of par] show ?thesis by (auto simp: elem_ok_def)
qed

lemma sib_bound: "off < n \<Longrightarrow> sib off < n \<or> sib off = n \<and> odd n"
  by (cases "Suc off = n") (auto simp: sib_def)

lemma top_climb:
  assumes "levels_ok par txs l path" and "path \<noteq> []" and "full_level txs l (hd path)"
    and "even (cnt txs (l + length path - 1))" and "off < cnt txs l"
  shows "climb par (computeAndPadCompound par 0 (cnt txs l) path) off (tree par txs l ! off) =
         Some (tree par txs (l + length path) ! (off div 2 ^ length path))"
  using assms
proof (induction "length path" arbitrary: path l off rule: less_induct)
  case less
  note prems = less.prems
  then consider lvl where "path = [lvl]" | lvl nxt rest where "path = lvl # nxt # rest"
    by (cases path; cases "tl path") auto
  then show ?case
  proof cases
    case (1 lvl)
    have "sib off < cnt txs l" using prems(4) sib_bound [OF prems(5)] 1 by auto
    then have "sib off \<in> offs lvl" using prems(3) 1 by (auto simp: full_level_def)
    with climb_step [of par txs l lvl off "[]"] prems 1 show ?thesis by simp
  next
    case (2 lvl nxt rest)
    let ?lvl = "pad_odd (cnt txs l) lvl"
    let ?nxt = "fold (cap_elem par ?lvl) ?lvl nxt"
    from prems(1) 2 have ok: "list_all (elem_ok par txs l) ?lvl" by (simp add: pad_odd_ok)
    have full: "full_level txs (Suc l) ?nxt" using prems(1,3) 2 by (intro full_next) simp_all
    have "sib off \<in> offs ?lvl"
    proof (cases "sib off < cnt txs l")
      case True
      then show ?thesis using prems(3) 2 by (auto simp: full_level_def pad_odd_def)
    next
      case False
      then have "sib off = cnt txs l" "odd (cnt txs l)" using sib_bound [OF prems(5)] by auto
      then show ?thesis using find_in_offs [of lvl "cnt txs l"] by (auto simp: pad_odd_def)
    qed
    note st = climb_step [OF ok prems(5) this]
    have lo: "levels_ok par txs (Suc l) (?nxt # rest)" using prems(1) ok 2 by (auto intro: fold_cap_ok)
    have "climb par (computeAndPadCompound par 0 (cnt txs (Suc l)) (?nxt # rest)) (off div 2) (tree par txs (Suc l) ! (off div 2)) =
      Some (tree par txs (Suc l + length (?nxt # rest)) ! (off div 2 div 2 ^ length (?nxt # rest)))"
      using prems(4) 2 lo full cnt_div [OF prems(5)] by (intro less.hyps) simp_all
    then show ?thesis using 2 st by (simp add: cnt_Suc Let_def del: climb.simps flip: div_mult2_eq)
  qed
qed

text \<open>The climb of \<open>off\<close> has its starting node and every sibling in the lowest \<open>n\<close> levels.\<close>

definition covers :: "nat \<Rightarrow> 'h levels \<Rightarrow> nat \<Rightarrow> bool" where
  "covers n path off \<longleftrightarrow> off \<in> offs (path ! 0) \<and> (\<forall>k < n. sib (off div 2 ^ k) \<in> offs (path ! k))"

lemma covers_step:
  assumes "list_all (elem_ok par txs l) lvl" and "off < cnt txs l" and "covers (Suc n) (lvl # nxt # rest) off"
  shows "covers n (fold (cap_elem par lvl) lvl nxt # rest) (off div 2)"
proof -
  let ?nxt = "fold (cap_elem par lvl) lvl nxt"
  from assms(3) have lv: "off \<in> offs lvl" "sib off \<in> offs lvl"
    and up: "\<And>k. k < n \<Longrightarrow> sib (off div 2 ^ Suc k) \<in> offs ((nxt # rest) ! k)"
    unfolding covers_def by (force, force, metis Suc_less_eq nth_Cons_Suc)
  have "off div 2 \<in> offs ?nxt" by (rule fold_cap_parent [OF assms(1) lv(1) assms(2) lv(2)])
  moreover have "sib (off div 2 div 2 ^ k) \<in> offs ((?nxt # rest) ! k)" if "k < n" for k
    using up [OF that] offs_fold_cap_mono [of nxt par lvl lvl]
    by (cases k) (auto simp flip: div_mult2_eq)
  ultimately show ?thesis by (simp add: covers_def)
qed

lemma covers_0 [simp]: "covers 0 path off \<longleftrightarrow> off \<in> offs (path ! 0)"
  by (simp add: covers_def)

text \<open>Every slot of the subtree-root layer is seeded or lies above a covered transaction.\<close>

definition roots_reached :: "'h list \<Rightarrow> nat \<Rightarrow> nat \<Rightarrow> 'h levels \<Rightarrow> bool" where
  "roots_reached txs l n path \<longleftrightarrow>
     (\<forall>i < cnt txs (l + n). i \<in> offs (path ! n) \<or> (\<exists>off. covers n path off \<and> off < cnt txs l \<and> off div 2 ^ n = i))"

lemma compound_climb:
  assumes "levels_ok par txs l path" and "below < length path" and "realCount = cnt txs (l + below)"
    and "even (cnt txs (l + length path - 1))" and "roots_reached txs l below path"
    and "covers below path off" and "off < cnt txs l"
  shows "climb par (computeAndPadCompound par below realCount path) off (tree par txs l ! off) =
         Some (tree par txs (l + length path) ! (off div 2 ^ length path))"
  using assms
proof (induction below arbitrary: l path off)
  case 0
  then have "full_level txs l (hd path)" by (cases path) (auto simp: full_level_def roots_reached_def)
  moreover have "path \<noteq> []" using 0(2) by auto
  ultimately show ?case using top_climb [OF 0(1) _ _ 0(4) 0(7)] 0(3) by simp
next
  case (Suc b)
  then obtain lvl nxt rest where path: "path = lvl # nxt # rest" by (cases path; cases "tl path") auto
  let ?nxt = "fold (cap_elem par lvl) lvl nxt"
  from Suc.prems(1) path have ok: "list_all (elem_ok par txs l) lvl" by simp
  have lo: "levels_ok par txs (Suc l) (?nxt # rest)" using Suc.prems(1) path ok by (auto intro: fold_cap_ok)
  have cv: "covers b (?nxt # rest) (x div 2)" if "covers (Suc b) path x" "x < cnt txs l" for x
    using covers_step [OF ok that(2)] that(1) path by simp
  have "offs (path ! Suc b) \<subseteq> offs ((?nxt # rest) ! b)"
    using path offs_fold_cap_mono [of nxt par lvl lvl] by (cases b) auto
  then have rr: "roots_reached txs (Suc l) b (?nxt # rest)"
    unfolding roots_reached_def
  proof (intro allI impI)
    fix i assume sub: "offs (path ! Suc b) \<subseteq> offs ((?nxt # rest) ! b)" and i: "i < cnt txs (Suc l + b)"
    with Suc.prems(5) consider "i \<in> offs (path ! Suc b)"
      | x where "covers (Suc b) path x" "x < cnt txs l" "x div 2 ^ Suc b = i"
      by (auto simp: roots_reached_def)
    then show "i \<in> offs ((?nxt # rest) ! b) \<or>
        (\<exists>off. covers b (?nxt # rest) off \<and> off < cnt txs (Suc l) \<and> off div 2 ^ b = i)"
    proof cases
      case 2
      then have "x div 2 div 2 ^ b = i" by (simp flip: div_mult2_eq)
      with 2 cv cnt_div show ?thesis by blast
    qed (use sub in auto)
  qed
  have "sib off \<in> offs lvl" using Suc.prems(6) path by (force simp: covers_def)
  then have "climb par (computeAndPadCompound par (Suc b) realCount path) off (tree par txs l ! off) =
    climb par (computeAndPadCompound par b realCount (?nxt # rest)) (off div 2) (tree par txs (Suc l) ! (off div 2))"
    using climb_step [OF ok Suc.prems(7)] path by simp
  also have "\<dots> = Some (tree par txs (Suc l + length (?nxt # rest)) ! (off div 2 div 2 ^ length (?nxt # rest)))"
    using Suc.prems path by (intro Suc.IH lo rr cv) (auto simp: cnt_div)
  finally show ?case using path by (simp flip: div_mult2_eq)
qed

end
