(* ===== verification/Bump_Correct.thy ===== *)
theory Bump_Correct
  imports Merkle_Tree
begin

text \<open>
  \<open>BuildCompoundBUMP\<close> (src/bump/bump.go) against the block's merkle tree: for the STUMPs of a block
  with at least two subtrees, the compound it builds folds every covered transaction to the
  block's merkle root, with coinbase correction, lifted final subtree and odd-level padding.
\<close>

section \<open>The shape of a block\<close>

text \<open>
  \<open>n\<close> subtrees of height \<open>H\<close>; the final one holds at most \<open>2 ^ (H - L)\<close> transactions and is lifted by
  \<open>L\<close> levels. Offsets stay below \<open>2 ^ 64\<close>.
\<close>

definition block_shape :: "'h list \<Rightarrow> nat \<Rightarrow> nat \<Rightarrow> nat \<Rightarrow> bool" where
  "block_shape txs n H L \<longleftrightarrow> 2 \<le> n \<and> L \<le> H \<and> (n - 1) * 2 ^ H < length txs \<and>
     length txs \<le> (n - 1) * 2 ^ H + 2 ^ (H - L) \<and> n * 2 ^ H \<le> 2 ^ 63"

lemma cnt_eq: "cnt txs l = (length txs + 2 ^ l - 1) div 2 ^ l"
proof (induction l)
  case (Suc l)
  have pos: "(1::nat) \<le> 2 ^ l" by simp
  have "cnt txs (Suc l) = (length txs + 2 ^ l - 1 + 2 ^ l) div 2 ^ l div 2"
    unfolding cnt_Suc Suc by (simp add: div_add_self2)
  also have "length txs + 2 ^ l - 1 + 2 ^ l = length txs + 2 ^ Suc l - 1" using pos by simp
  finally show ?case by (simp add: mult.commute flip: div_mult2_eq)
qed simp

lemma ceil_div:
  fixes m :: nat
  assumes "0 < r" and "r \<le> d"
  shows "(m * d + r + d - 1) div d = m + 1"
proof -
  from assms have e: "m * d + r + d - 1 = (r - 1) + (m + 1) * d" and "r - 1 < d" "d \<noteq> 0"
    by (auto simp: algebra_simps)
  have "(r - 1 + (m + 1) * d) div d = m + 1 + (r - 1) div d"
    using \<open>d \<noteq> 0\<close> by (rule div_mult_self1)
  also have "(r - 1) div d = 0" using \<open>r - 1 < d\<close> by simp
  finally show ?thesis unfolding e by simp
qed

lemma cnt_layer:
  assumes "block_shape txs n H L"
  shows "cnt txs H = n"
proof -
  define r where "r = length txs - (n - 1) * 2 ^ H"
  have "(2::nat) ^ (H - L) \<le> 2 ^ H" by (rule power_increasing) simp_all
  moreover have "0 < r" "r \<le> 2 ^ (H - L)" "length txs = (n - 1) * 2 ^ H + r"
    using assms by (auto simp: block_shape_def r_def)
  ultimately have "0 < r" "r \<le> 2 ^ H" "length txs = (n - 1) * 2 ^ H + r"
    by (blast intro: order_trans)+
  then have "cnt txs H = n - 1 + 1" unfolding cnt_eq by (simp only: ceil_div)
  then show ?thesis using assms by (simp add: block_shape_def)
qed

lemma cnt_lifted:
  assumes "block_shape txs n H L" and "H - L \<le> l" and "l \<le> H"
  shows "cnt txs l = (n - 1) * 2 ^ (H - l) + 1"
proof -
  define r where "r = length txs - (n - 1) * 2 ^ H"
  have le: "(2::nat) ^ (H - L) \<le> 2 ^ l" using assms(2) by simp
  have "0 < r" and "r \<le> 2 ^ (H - L)" and e: "length txs = (n - 1) * 2 ^ H + r"
    using assms(1) by (auto simp: block_shape_def r_def)
  moreover have "(n - 1) * 2 ^ H = (n - 1) * 2 ^ (H - l) * 2 ^ l"
    using assms(3) by (simp flip: power_add)
  ultimately show ?thesis unfolding cnt_eq using le by (simp only: ceil_div order_trans [OF _ le])
qed

lemma cnt_mono: "l \<le> l' \<Longrightarrow> cnt txs l' \<le> cnt txs l"
  by (induction l' rule: dec_induct) (auto simp: cnt_Suc)

lemma cnt_ge2: "block_shape txs n H L \<Longrightarrow> l \<le> H \<Longrightarrow> 2 \<le> cnt txs l"
  using cnt_mono [of l H txs] cnt_layer [of txs n H L] by (simp add: block_shape_def)

lemma halvings_2: "1 < n \<Longrightarrow> ((\<lambda>n. (n + 1) div 2) ^^ (ceil_log2 n - 1)) n = 2"
proof (induction n rule: ceil_log2.induct)
  case (1 n)
  have s: "ceil_log2 n = Suc (ceil_log2 ((n + 1) div 2))" by (rule ceil_log2_step [OF 1(2)])
  show ?case
  proof (cases "(n + 1) div 2 \<le> 1")
    case True
    then have "n = 2" using 1(2) by simp
    then show ?thesis using s by simp
  next
    case False
    then have "ceil_log2 ((n + 1) div 2) = Suc (ceil_log2 (((n + 1) div 2 + 1) div 2))"
      by (intro ceil_log2_step) simp
    with s have "ceil_log2 n - 1 = Suc (ceil_log2 ((n + 1) div 2) - 1)" by simp
    with 1(1) 1(2) False show ?thesis by (simp only: funpow_Suc_right comp_apply)
  qed
qed

lemma cnt_add: "cnt txs (H + k) = ((\<lambda>n. (n + 1) div 2) ^^ k) (cnt txs H)"
  by (simp add: cnt_def add.commute [of H] funpow_add)

lemma tree_add: "tree par txs (H + k) = tree par (tree par txs H) k"
  by (simp add: tree_def add.commute [of H] funpow_add)

text \<open>The root layer of the compound is the block's merkle root.\<close>

lemma root_layer:
  assumes "block_shape txs n H L"
  shows "tree par txs (H + ceil_log2 n) ! 0 = topTreeRoot par txs"
    and "even (cnt txs (H + ceil_log2 n - 1))" and "0 < ceil_log2 n"
proof -
  have n: "cnt txs H = n" "1 < n" using cnt_layer [OF assms] assms by (auto simp: block_shape_def)
  then show pos: "0 < ceil_log2 n" by (simp add: ceil_log2_step)
  have "cnt txs (H + (ceil_log2 n - 1)) = 2"
    unfolding cnt_add n(1) by (rule halvings_2 [OF n(2)])
  then show "even (cnt txs (H + ceil_log2 n - 1))" using pos by simp
  have "topTreeRoot par (tree par txs l) = topTreeRoot par txs" if "l \<le> H" for l
    using that
  proof (induction l)
    case (Suc l)
    then have "1 < length (tree par txs l)" using cnt_ge2 [OF assms, of l] by simp
    then have "topTreeRoot par (tree par txs l) = topTreeRoot par (tree par txs (Suc l))"
      by (subst topTreeRoot.simps) (simp add: tree_Suc)
    with Suc show ?case by simp
  qed simp
  then have "topTreeRoot par txs = topTreeRoot par (tree par txs H)" by simp
  also have "\<dots> = tree par (tree par txs H) (ceil_log2 n) ! 0"
    using n by (subst topTreeRoot_tree) (auto simp flip: length_0_conv)
  finally show "tree par txs (H + ceil_log2 n) ! 0 = topTreeRoot par txs" by (simp add: tree_add)
qed

section \<open>Placing paths in the block\<close>

lemma levels_ok_nth: "levels_ok par txs l path \<longleftrightarrow> (\<forall>k < length path. list_all (elem_ok par txs (l + k)) (path ! k))"
proof (induction path arbitrary: l)
  case (Cons lvl path)
  show ?case by (simp add: Cons All_less_Suc2)
qed simp

text \<open>Level \<open>k\<close> of a path local to subtree \<open>j\<close> of height \<open>h\<close>, at block offsets.\<close>

fun glob :: "nat \<Rightarrow> nat \<Rightarrow> 'h levels \<Rightarrow> 'h levels" where
  "glob j h [] = []"
| "glob j h (lvl # path) = map (\<lambda>e. e\<lparr>pe_Offset := pe_Offset e + j * 2 ^ h\<rparr>) lvl # glob j (h - 1) path"

lemma length_glob [simp]: "length (glob j h path) = length path"
  by (induction path arbitrary: h) auto

lemma glob_nth:
  "k < length path \<Longrightarrow> k \<le> h \<Longrightarrow>
   glob j h path ! k = map (\<lambda>e. e\<lparr>pe_Offset := pe_Offset e + j * 2 ^ (h - k)\<rparr>) (path ! k)"
proof (induction path arbitrary: h k)
  case (Cons lvl path)
  then show ?case by (cases k) (auto simp: Suc_diff_le)
qed simp

lemma cnt_le_length: "cnt txs l \<le> length txs"
  using cnt_mono [of 0 l txs] by simp

lemma elem_ok_offset: "elem_ok par txs l e \<Longrightarrow> pe_Offset e \<le> length txs"
  using cnt_le_length [of txs l] by (auto simp: elem_ok_def split: if_splits)

text \<open>The \<open>uint64\<close> shift does not wrap on elements of the block.\<close>

lemma shift_levels_glob:
  assumes "levels_ok par txs l (glob j h path)" and "length txs < 2 ^ 64"
  shows "shift_levels (int j) h path = glob j h path"
  using assms(1)
proof (induction path arbitrary: l h)
  case (Cons lvl path)
  have "shift_elem (shl64 (u64 (int j)) h) e = e\<lparr>pe_Offset := pe_Offset e + j * 2 ^ h\<rparr>" if "e \<in> set lvl" for e
  proof -
    have "elem_ok par txs l (e\<lparr>pe_Offset := pe_Offset e + j * 2 ^ h\<rparr>)"
      using Cons.prems that by (auto simp: list_all_iff)
    from elem_ok_offset [OF this] assms(2) have lt: "pe_Offset e + j * 2 ^ h < 2 ^ 64" by simp
    have "j \<le> j * 2 ^ h" by simp
    with lt have jl: "j < 2 ^ 64" by linarith
    then have "int j mod 2 ^ 64 = int j" by (intro mod_pos_pos_trivial) simp_all
    then have "u64 (int j) = j" "shl64 j h = j * 2 ^ h"
      using lt by (simp_all add: u64_def shl64_def)
    then show ?thesis using lt by (simp add: shift_elem_def add64_def)
  qed
  with Cons.IH [of "Suc l" "h - 1"] Cons.prems show ?case by simp
qed simp

lemma shift_sib: "0 < h \<Longrightarrow> sib (a + j * 2 ^ h) = sib a + j * 2 ^ h"
  by (cases h) (auto simp: sib_def elim!: oddE)

lemma glob_div: "k \<le> h \<Longrightarrow> (a + j * 2 ^ h) div 2 ^ k = a div 2 ^ k + j * 2 ^ (h - k :: nat)" for a j :: nat
proof -
  assume "k \<le> h"
  then have e: "a + j * 2 ^ h = a + (j * 2 ^ (h - k)) * 2 ^ k" by (simp flip: power_add)
  have "(a + (j * 2 ^ (h - k)) * 2 ^ k) div 2 ^ k = j * 2 ^ (h - k) + a div 2 ^ k"
    by (rule div_mult_self1) simp
  then show ?thesis unfolding e by simp
qed

lemma covers_glob:
  assumes "covers r path off" and "r \<le> h" and "r \<le> length path" and "path \<noteq> []"
  shows "covers r (glob j h path) (off + j * 2 ^ h)"
proof -
  have "off + j * 2 ^ h \<in> offs (glob j h path ! 0)"
    using assms(1,4) by (cases path) (auto simp: covers_def offs_def image_image)
  moreover have "sib ((off + j * 2 ^ h) div 2 ^ k) \<in> offs (glob j h path ! k)" if "k < r" for k
  proof -
    have "sib (off div 2 ^ k) \<in> offs (path ! k)" using assms(1) that by (auto simp: covers_def)
    then have "sib (off div 2 ^ k) + j * 2 ^ (h - k) \<in> offs (glob j h path ! k)"
      using glob_nth [of k path h j] that assms(2,3) by (auto simp: offs_def image_image)
    then show ?thesis using that assms(2) by (simp add: glob_div shift_sib)
  qed
  ultimately show ?thesis by (simp add: covers_def)
qed

section \<open>Adding elements\<close>

text \<open>A path \<open>q\<close> that has at least the offsets of \<open>p\<close>, level by level.\<close>

definition extends :: "'h levels \<Rightarrow> 'h levels \<Rightarrow> bool" where
  "extends p q \<longleftrightarrow> length p \<le> length q \<and> (\<forall>k < length p. offs (p ! k) \<subseteq> offs (q ! k))"

lemma extends_refl [simp]: "extends p p"
  by (simp add: extends_def)

lemma extends_trans: "extends p q \<Longrightarrow> extends q r \<Longrightarrow> extends p r"
  unfolding extends_def by (meson le_trans less_le_trans subset_trans)

lemma covers_extends: "covers n p off \<Longrightarrow> extends p q \<Longrightarrow> n \<le> length p \<Longrightarrow> p \<noteq> [] \<Longrightarrow> covers n q off"
  unfolding covers_def extends_def by (metis length_greater_0_conv order_less_le_trans subsetD)

lemma place_levels_spec:
  assumes "length ns \<le> length c"
  shows "length (place_levels ns c) = length c \<and> extends ns (place_levels ns c) \<and> extends c (place_levels ns c)"
  using assms
proof (induction ns c rule: place_levels.induct)
  case (3 n ns c compound)
  then show ?case by (auto simp: extends_def nth_Cons split: nat.splits)
qed (auto simp: extends_def)

lemma place_levels_ok:
  "levels_ok par txs l ns \<Longrightarrow> levels_ok par txs l c \<Longrightarrow> levels_ok par txs l (place_levels ns c)"
  by (induction ns c arbitrary: l rule: place_levels.induct) auto

lemma addLeaf_spec:
  assumes "level < length path"
  shows "length (addLeaf level e path) = length path" "extends path (addLeaf level e path)"
    "pe_Offset e \<in> offs (addLeaf level e path ! level)"
    "levels_ok par txs 0 path \<Longrightarrow> elem_ok par txs level e \<Longrightarrow> levels_ok par txs 0 (addLeaf level e path)"
  using assms by (auto simp: addLeaf_def Let_def extends_def nth_list_update levels_ok_nth)

lemma fold_addLeaf_spec:
  fixes f :: "'x \<Rightarrow> nat" and g :: "'x \<Rightarrow> 'h path_element"
  assumes "\<And>x. x \<in> set xs \<Longrightarrow> f x < length path"
  defines "q \<equiv> fold (\<lambda>x. addLeaf (f x) (g x)) xs path"
  shows "length q = length path \<and> extends path q \<and> (\<forall>x \<in> set xs. pe_Offset (g x) \<in> offs (q ! f x)) \<and>
    (levels_ok par txs 0 path \<longrightarrow> (\<forall>x \<in> set xs. elem_ok par txs (f x) (g x)) \<longrightarrow> levels_ok par txs 0 q)"
  using assms(1) unfolding q_def
proof (induction xs arbitrary: path)
  case (Cons x xs)
  let ?p = "addLeaf (f x) (g x) path"
  have lt: "f x < length path" using Cons.prems by simp
  note a = addLeaf_spec [OF lt]
  have "f y < length ?p" if "y \<in> set xs" for y using Cons.prems that a(1) by simp
  note ih = Cons.IH [OF this]
  have "pe_Offset (g x) \<in> offs (fold (\<lambda>x. addLeaf (f x) (g x)) xs ?p ! f x)"
    using a(1,3) ih lt by (auto simp: extends_def)
  then show ?case using a ih extends_trans [OF a(2)] by auto
qed simp

section \<open>The compound of a block\<close>

text \<open>
  The levels a STUMP of subtree \<open>j\<close> contributes, as placed (after the coinbase swap): they cover
  the subtree's own height, agree with the block's tree, and carry a transaction's climb.
\<close>

definition own_height :: "nat \<Rightarrow> nat \<Rightarrow> nat \<Rightarrow> nat \<Rightarrow> nat" where
  "own_height n H L j = (if j = n - 1 then H - L else H)"

definition tx_covered :: "'h list \<Rightarrow> nat \<Rightarrow> nat \<Rightarrow> nat \<Rightarrow> 'h levels \<Rightarrow> nat \<Rightarrow> bool" where
  "tx_covered txs H r j lv off \<longleftrightarrow> covers r lv off \<and> off < 2 ^ r \<and> off + j * 2 ^ H < length txs"

definition subtree_path :: "('h \<Rightarrow> 'h \<Rightarrow> 'h) \<Rightarrow> 'h list \<Rightarrow> nat \<Rightarrow> nat \<Rightarrow> nat \<Rightarrow> nat \<Rightarrow> 'h levels \<Rightarrow> bool" where
  "subtree_path par txs n H L j lv \<longleftrightarrow> j < n \<and> 0 < own_height n H L j \<and> own_height n H L j \<le> length lv \<and>
     levels_ok par txs 0 (glob j H (take (own_height n H L j) lv)) \<and>
     (\<exists>off. tx_covered txs H (own_height n H L j) j lv off)"

lemma covers_take: "n \<le> r \<Longrightarrow> 0 < r \<Longrightarrow> covers n (take r lv) off = covers n lv off"
  by (auto simp: covers_def)

definition place_all :: "nat \<Rightarrow> nat \<Rightarrow> nat \<Rightarrow> (nat \<times> 'h levels) list \<Rightarrow> 'h levels \<Rightarrow> 'h levels" where
  "place_all n H L gs c = fold (\<lambda>(j, lv). place_levels (glob j H (take (own_height n H L j) lv))) gs c"

lemma place_all_spec:
  assumes "\<And>j lv. (j, lv) \<in> set gs \<Longrightarrow> subtree_path par txs n H L j lv" and "H \<le> length c" and "levels_ok par txs 0 c"
  shows "length (place_all n H L gs c) = length c \<and> extends c (place_all n H L gs c) \<and>
    levels_ok par txs 0 (place_all n H L gs c) \<and>
    (\<forall>(j, lv) \<in> set gs. extends (glob j H (take (own_height n H L j) lv)) (place_all n H L gs c))"
  using assms
proof (induction gs arbitrary: c)
  case (Cons g gs)
  obtain j lv where g: "g = (j, lv)" by fastforce
  let ?p = "glob j H (take (own_height n H L j) lv)"
  let ?c = "place_levels ?p c"
  have "subtree_path par txs n H L j lv" using Cons.prems(1) g by simp
  then have ok: "levels_ok par txs 0 ?p" and "length ?p \<le> length c"
    using Cons.prems(2) by (auto simp: subtree_path_def own_height_def)
  note pl = place_levels_spec [OF this(2)]
  have "levels_ok par txs 0 ?c" using ok Cons.prems(3) by (rule place_levels_ok)
  with Cons.IH [of ?c] Cons.prems pl g
  have ih: "length (place_all n H L gs ?c) = length ?c \<and> extends ?c (place_all n H L gs ?c) \<and>
    levels_ok par txs 0 (place_all n H L gs ?c) \<and>
    (\<forall>(j, lv) \<in> set gs. extends (glob j H (take (own_height n H L j) lv)) (place_all n H L gs ?c))" by simp
  moreover have "place_all n H L (g # gs) c = place_all n H L gs ?c" by (simp add: place_all_def g)
  ultimately show ?case using pl g by (auto intro: extends_trans)
qed (simp add: place_all_def)

lemma lift_dups_spec:
  assumes "block_shape txs n H L" and "H \<le> length c" and "levels_ok par txs 0 c"
  shows "length (lift_dups (n - 1) (H - L) H c) = length c \<and> extends c (lift_dups (n - 1) (H - L) H c) \<and>
    levels_ok par txs 0 (lift_dups (n - 1) (H - L) H c) \<and>
    (\<forall>k. H - L \<le> k \<and> k < H \<longrightarrow> (n - 1) * 2 ^ (H - k) + 1 \<in> offs (lift_dups (n - 1) (H - L) H c ! k))"
proof -
  have off: "add64 (shl64 (n - 1) (H - k)) 1 = (n - 1) * 2 ^ (H - k) + 1" if "k < H" for k
  proof -
    have "(n - 1) * 2 ^ (H - k) \<le> n * 2 ^ H" by (intro mult_mono power_increasing) simp_all
    also have "\<dots> \<le> 2 ^ 63" using assms(1) by (simp add: block_shape_def)
    finally show ?thesis by (simp add: add64_def shl64_def)
  qed
  have ok: "elem_ok par txs k (dup_elem (add64 (shl64 (n - 1) (H - k)) 1))" if "H - L \<le> k" "k < H" for k
    using cnt_lifted [OF assms(1) that(1)] that(2) off [OF that(2)] by (auto simp: elem_ok_def)
  have "\<And>k. k \<in> set [H - L..<H] \<Longrightarrow> k < length c" using assms(2) by simp
  note f = fold_addLeaf_spec [of "[H - L..<H]" "\<lambda>k. k" c "\<lambda>k. dup_elem (add64 (shl64 (n - 1) (H - k)) 1)" par txs,
      OF this]
  show ?thesis unfolding lift_dups_def using f assms(3) ok off by auto
qed

lemma seed_roots_spec:
  assumes "H < length c" and "levels_ok par txs 0 c" and "length hs = n"
    and "\<And>i. i < n \<Longrightarrow> int i \<notin> set have_st \<Longrightarrow>
      (if i = n - 1 then ((\<lambda>h. par h h) ^^ L) (hs ! i) else hs ! i) = tree par txs H ! i"
    and "cnt txs H = n"
  shows "length (seed_roots par have_st hs L H c) = length c \<and> extends c (seed_roots par have_st hs L H c) \<and>
    levels_ok par txs 0 (seed_roots par have_st hs L H c) \<and>
    (\<forall>i < n. int i \<notin> set have_st \<longrightarrow> i \<in> offs (seed_roots par have_st hs L H c ! H))"
proof -
  let ?g = "\<lambda>i. hash_elem i (if i = length hs - 1 then ((\<lambda>h. par h h) ^^ L) (hs ! i) else hs ! i)"
  have ok: "elem_ok par txs H (?g i)" if "i < n" "int i \<notin> set have_st" for i
    using assms(3-5) that by (simp add: elem_ok_def)
  note f = fold_addLeaf_spec [of "filter (\<lambda>i. int i \<notin> set have_st) [0..<length hs]" "\<lambda>_. H" c ?g par txs]
  show ?thesis unfolding seed_roots_def using f assms(1-3) ok by auto
qed

lemma cnt_div_pow: "x < cnt txs l \<Longrightarrow> x div 2 ^ k < cnt txs (l + k)"
proof (induction k)
  case (Suc k)
  then show ?case using cnt_div [of "x div 2 ^ k" txs "l + k"] by (simp add: mult.commute flip: div_mult2_eq)
qed simp

text \<open>The compound before its tree is filled in, and what it covers.\<close>

definition seeded_compound :: "('h \<Rightarrow> 'h \<Rightarrow> 'h) \<Rightarrow> nat \<Rightarrow> nat \<Rightarrow> nat \<Rightarrow> 'h list \<Rightarrow> (nat \<times> 'h levels) list \<Rightarrow> 'h levels" where
  "seeded_compound par n H L hs gs =
     (let placed = place_all n H L gs (replicate (H + ceil_log2 n) []) in
      seed_roots par (map (int \<circ> fst) gs) hs L H
        (if 0 < L \<and> n - 1 \<in> fst ` set gs then lift_dups (n - 1) (H - L) H placed else placed))"

definition seeds_ok :: "('h \<Rightarrow> 'h \<Rightarrow> 'h) \<Rightarrow> 'h list \<Rightarrow> nat \<Rightarrow> nat \<Rightarrow> nat \<Rightarrow> 'h list \<Rightarrow> nat set \<Rightarrow> bool" where
  "seeds_ok par txs n H L hs have_st \<longleftrightarrow> length hs = n \<and>
     (\<forall>i < n. i \<notin> have_st \<longrightarrow>
        (if i = n - 1 then ((\<lambda>h. par h h) ^^ L) (hs ! i) else hs ! i) = tree par txs H ! i)"

definition groups_ok :: "('h \<Rightarrow> 'h \<Rightarrow> 'h) \<Rightarrow> 'h list \<Rightarrow> nat \<Rightarrow> nat \<Rightarrow> nat \<Rightarrow> (nat \<times> 'h levels) list \<Rightarrow> bool" where
  "groups_ok par txs n H L gs \<longleftrightarrow> (\<forall>(j, lv) \<in> set gs. subtree_path par txs n H L j lv)"

lemma seeded_compound_spec:
  assumes shape: "block_shape txs n H L"
    and gs: "groups_ok par txs n H L gs"
    and hs: "seeds_ok par txs n H L hs (fst ` set gs)"
  defines "c \<equiv> seeded_compound par n H L hs gs"
  shows "length c = H + ceil_log2 n" "levels_ok par txs 0 c"
    "(j, lv) \<in> set gs \<Longrightarrow> extends (glob j H (take (own_height n H L j) lv)) c"
    "n - 1 \<in> fst ` set gs \<Longrightarrow> H - L \<le> k \<Longrightarrow> k < H \<Longrightarrow> (n - 1) * 2 ^ (H - k) + 1 \<in> offs (c ! k)"
    "i < n \<Longrightarrow> i \<notin> fst ` set gs \<Longrightarrow> i \<in> offs (c ! H)"
proof -
  define e :: "'a levels" where "e = replicate (H + ceil_log2 n) []"
  define p where "p = place_all n H L gs e"
  define q where "q = (if 0 < L \<and> n - 1 \<in> fst ` set gs then lift_dups (n - 1) (H - L) H p else p)"
  have c: "c = seed_roots par (map (int \<circ> fst) gs) hs L H q"
    by (simp add: c_def seeded_compound_def e_def p_def q_def Let_def)
  have e: "levels_ok par txs 0 e" "H \<le> length e" "H < length e"
    using root_layer(3) [OF shape] by (simp_all add: e_def levels_ok_nth)
  have "\<And>j lv. (j, lv) \<in> set gs \<Longrightarrow> subtree_path par txs n H L j lv" using gs by (auto simp: groups_ok_def)
  note P = place_all_spec [of gs par txs n H L e, OF this e(2,1), folded p_def]
  have lp: "H \<le> length p" "levels_ok par txs 0 p" using P e(2) by auto
  note Lf = lift_dups_spec [OF shape lp]
  have Q: "length q = length p" "extends p q" "levels_ok par txs 0 q"
    "n - 1 \<in> fst ` set gs \<Longrightarrow> H - L \<le> k \<Longrightarrow> k < H \<Longrightarrow> (n - 1) * 2 ^ (H - k) + 1 \<in> offs (q ! k)" for k
    using Lf lp by (auto simp: q_def)
  have lq: "H < length q" using P Q(1) e(3) by simp
  have mem: "(int i \<notin> set (map (int \<circ> fst) gs)) = (i \<notin> fst ` set gs)" for i by force
  have S: "length c = length q \<and> extends q c \<and> levels_ok par txs 0 c \<and>
      (\<forall>i < n. int i \<notin> set (map (int \<circ> fst) gs) \<longrightarrow> i \<in> offs (c ! H))"
    unfolding c
  proof (rule seed_roots_spec [OF lq Q(3) _ _ cnt_layer [OF shape]])
    show "length hs = n" using hs by (simp add: seeds_ok_def)
    show "(if i = n - 1 then ((\<lambda>h. par h h) ^^ L) (hs ! i) else hs ! i) = tree par txs H ! i"
      if "i < n" "int i \<notin> set (map (int \<circ> fst) gs)" for i
      using hs that unfolding mem by (simp add: seeds_ok_def)
  qed
  show "length c = H + ceil_log2 n" using S Q(1) P by (simp add: e_def)
  show "levels_ok par txs 0 c" using S by simp
  show "(j, lv) \<in> set gs \<Longrightarrow> extends (glob j H (take (own_height n H L j) lv)) c"
    using P Q(2) S extends_trans [of _ p q] extends_trans [of _ q c] by fastforce
  show "n - 1 \<in> fst ` set gs \<Longrightarrow> H - L \<le> k \<Longrightarrow> k < H \<Longrightarrow> (n - 1) * 2 ^ (H - k) + 1 \<in> offs (c ! k)"
  proof -
    assume a: "n - 1 \<in> fst ` set gs" "H - L \<le> k" "k < H"
    have "k < length q" using a(3) lq by simp
    with S have "offs (q ! k) \<subseteq> offs (c ! k)" by (simp add: extends_def)
    with Q(4) [OF a] show ?thesis by blast
  qed
  show "i < n \<Longrightarrow> i \<notin> fst ` set gs \<Longrightarrow> i \<in> offs (c ! H)" using S mem by simp
qed

lemma seeded_covers:
  assumes shape: "block_shape txs n H L"
    and gs: "groups_ok par txs n H L gs"
    and hs: "seeds_ok par txs n H L hs (fst ` set gs)"
    and g: "(j, lv) \<in> set gs" and t: "tx_covered txs H (own_height n H L j) j lv off"
  shows "covers H (seeded_compound par n H L hs gs) (off + j * 2 ^ H)"
proof -
  let ?r = "own_height n H L j" and ?c = "seeded_compound par n H L hs gs"
  note C = seeded_compound_spec [OF shape gs hs]
  have sp: "0 < ?r" "?r \<le> length lv" "j < n" using gs g by (auto simp: groups_ok_def subtree_path_def)
  have r: "?r \<le> H" by (simp add: own_height_def)
  have cov: "covers ?r ?c (off + j * 2 ^ H)"
  proof (rule covers_extends [OF covers_glob C(3) [OF g]])
    show "covers ?r (take ?r lv) off" using t sp by (simp add: tx_covered_def covers_take)
  qed (use sp r in \<open>auto simp flip: length_0_conv\<close>)
  have "sib ((off + j * 2 ^ H) div 2 ^ k) \<in> offs (?c ! k)" if k: "?r \<le> k" "k < H" for k
  proof -
    have j: "j = n - 1" "H - L \<le> k" using k by (auto simp: own_height_def split: if_splits)
    have "off < 2 ^ k" using t k(1) by (auto simp: tx_covered_def intro: less_le_trans power_increasing)
    then have "(off + j * 2 ^ H) div 2 ^ k = j * 2 ^ (H - k)" using k(2) by (simp add: glob_div)
    moreover have "even (j * 2 ^ (H - k))" using k(2) by simp
    moreover have "n - 1 \<in> fst ` set gs" using g j(1) by force
    ultimately show ?thesis using C(4) [OF _ j(2) k(2)] j(1) by (simp add: sib_def)
  qed
  then show ?thesis using cov unfolding covers_def by (auto simp: not_le [symmetric])
qed

text \<open>Every covered transaction folds to the block's merkle root.\<close>

lemma compound_folds:
  assumes shape: "block_shape txs n H L"
    and gs: "groups_ok par txs n H L gs"
    and hs: "seeds_ok par txs n H L hs (fst ` set gs)"
    and g: "(j, lv) \<in> set gs" and t: "tx_covered txs H (own_height n H L j) j lv off"
  shows "climb par (computeAndPadCompound par H n (seeded_compound par n H L hs gs)) (off + j * 2 ^ H)
    (txs ! (off + j * 2 ^ H)) = Some (topTreeRoot par txs)"
proof -
  let ?c = "seeded_compound par n H L hs gs" and ?x = "off + j * 2 ^ H"
  note C = seeded_compound_spec [OF shape gs hs]
  have n: "cnt txs H = n" "1 < n" using cnt_layer [OF shape] shape by (auto simp: block_shape_def)
  have x: "?x < cnt txs 0" using t by (simp add: tx_covered_def)
  have rr: "roots_reached txs 0 H ?c"
    unfolding roots_reached_def
  proof (intro allI impI)
    fix i assume "i < cnt txs (0 + H)"
    then have i: "i < n" using n by simp
    show "i \<in> offs (?c ! H) \<or> (\<exists>off. covers H ?c off \<and> off < cnt txs 0 \<and> off div 2 ^ H = i)"
    proof (cases "i \<in> fst ` set gs")
      case False
      then show ?thesis using C(5) [OF i] by simp
    next
      case True
      then obtain lv' where g': "(i, lv') \<in> set gs" by auto
      then obtain y where y: "tx_covered txs H (own_height n H L i) i lv' y"
        using gs by (auto simp: groups_ok_def subtree_path_def)
      have "y < 2 ^ H"
        using y by (auto simp: tx_covered_def own_height_def intro: less_le_trans power_increasing split: if_splits)
      then have "(y + i * 2 ^ H) div 2 ^ H = i" by simp
      then show ?thesis using seeded_covers [OF shape gs hs g' y] y by (auto simp: tx_covered_def)
    qed
  qed
  have "climb par (computeAndPadCompound par H n ?c) ?x (tree par txs 0 ! ?x) =
      Some (tree par txs (0 + length ?c) ! (?x div 2 ^ length ?c))"
    using C(1,2) root_layer(2,3) [OF shape] n(1) rr seeded_covers [OF shape gs hs g t] x
    by (intro compound_climb) simp_all
  moreover have "?x div 2 ^ length ?c = 0"
    using cnt_div_pow [OF x, of "length ?c"] halvings [of n] n by (simp add: C(1) cnt_add)
  ultimately show ?thesis using root_layer(1) [OF shape] C(1) by simp
qed

section \<open>One STUMP per subtree\<close>

definition unmerged :: "'h sdk \<Rightarrow> stump \<Rightarrow> 'h mergedStump" where
  "unmerged sdk st = \<lparr>ms_index = st_SubtreeIndex st, ms_path = the (sdk_parse sdk (st_StumpData st)),
     ms_data = st_StumpData st, ms_variants = 1, ms_txids = []\<rparr>"

lemma merge_loop_distinct:
  assumes "distinct (map ms_index groups @ map st_SubtreeIndex sts)"
    and "\<forall>st \<in> set sts. sdk_parse sdk (st_StumpData st) \<noteq> None"
  shows "merge_loop sdk sts groups = Inr (groups @ map (unmerged sdk) sts)"
  using assms
proof (induction sts arbitrary: groups)
  case (Cons st sts)
  have "List.find (\<lambda>g. ms_index g = st_SubtreeIndex st) groups = None"
    using Cons.prems(1) by (auto simp: find_None_iff) (metis imageI)
  moreover obtain p where "sdk_parse sdk (st_StumpData st) = Some p" using Cons.prems(2) by auto
  ultimately show ?case
    using Cons.IH [of "groups @ [unmerged sdk st]"] Cons.prems by (simp add: unmerged_def)
qed simp

lemma distinct_filter_key: "distinct (map f xs) \<Longrightarrow> length (filter (\<lambda>x. f x = k) xs) \<le> 1"
  by (induction xs) (auto simp: filter_empty_conv, metis imageI)

lemma dropVariants_distinct:
  assumes "distinct (map st_SubtreeIndex stumps)"
  shows "dropVariantsOffSubtreeRoot sdk stumps hs r cb cbData = stumps"
proof -
  have "\<not> 2 \<le> length (filter (\<lambda>st. st_SubtreeIndex st = k) stumps)" for k
    using distinct_filter_key [OF assms, of k] by simp
  then show ?thesis by (simp add: dropVariantsOffSubtreeRoot_def Let_def)
qed

lemma length_spine_walk [simp]: "length (spine_walk par stump cbs h) = length stump"
  by (induction par stump cbs h rule: spine_walk.induct) (auto split: option.splits)

lemma length_stump_levels [simp]: "length (stump_levels sdk cb cbData i path) = length path"
  by (auto simp: stump_levels_def applyCoinbaseToSTUMP_def split: option.splits list.splits)

text \<open>The STUMPs as placed.\<close>

definition groups_of :: "'h sdk \<Rightarrow> bytes \<Rightarrow> stump list \<Rightarrow> (nat \<times> 'h levels) list" where
  "groups_of sdk cbData stumps = map (\<lambda>st. (nat (st_SubtreeIndex st),
     stump_levels sdk (extractCoinbaseTxID sdk cbData) cbData (st_SubtreeIndex st)
       (mp_Path (the (sdk_parse sdk (st_StumpData st)))))) stumps"

lemma required_own: "j < n \<Longrightarrow> requiredHeightFor n H L (int j) = own_height n H L j"
  by (auto simp: requiredHeightFor_def own_height_def)

lemma place_loop_groups:
  assumes "\<forall>st \<in> set sts. 0 \<le> st_SubtreeIndex st" and "groups_ok (sdk_parent sdk) txs n H L (groups_of sdk cbData sts)"
    and "length txs < 2 ^ 64"
    and "ms = map (\<lambda>st. (unmerged sdk st)\<lparr>ms_data := f st, ms_txids := g st\<rparr>) sts"
  shows "place_loop sdk (extractCoinbaseTxID sdk cbData) cbData (requiredHeightFor n H L) H ms c tx =
    Inr (place_all n H L (groups_of sdk cbData sts) c, tx @ concat (map ms_txids ms))"
  using assms(1,2,4)
proof (induction sts arbitrary: ms c tx)
  case (Cons st sts)
  let ?j = "nat (st_SubtreeIndex st)"
  let ?p = "mp_Path (the (sdk_parse sdk (st_StumpData st)))"
  let ?lv = "stump_levels sdk (extractCoinbaseTxID sdk cbData) cbData (st_SubtreeIndex st) ?p"
  have j: "st_SubtreeIndex st = int ?j" using Cons.prems(1) by simp
  have "subtree_path (sdk_parent sdk) txs n H L ?j ?lv"
    using Cons.prems(2) by (auto simp: groups_ok_def groups_of_def)
  then have sp: "?j < n" "own_height n H L ?j \<le> length ?p"
    "levels_ok (sdk_parent sdk) txs 0 (glob ?j H (take (own_height n H L ?j) ?lv))"
    by (auto simp: subtree_path_def)
  have r: "requiredHeightFor n H L (st_SubtreeIndex st) = own_height n H L ?j"
    using required_own [OF sp(1)] j by simp
  have sh: "shift_levels (st_SubtreeIndex st) H (take (own_height n H L ?j) ?lv) = glob ?j H (take (own_height n H L ?j) ?lv)"
    using shift_levels_glob [OF sp(3) assms(3)] j by simp
  have "groups_ok (sdk_parent sdk) txs n H L (groups_of sdk cbData sts)"
    using Cons.prems(2) by (auto simp: groups_ok_def groups_of_def)
  note ih = Cons.IH [OF _ this refl]
  show ?case
    using ih Cons.prems(1,3) r sh sp(2) by (simp add: unmerged_def place_all_def groups_of_def Let_def)
qed (simp add: place_all_def groups_of_def)

text \<open>
  The inputs of a build: the STUMPs of distinct subtrees of the block with transactions \<open>txs\<close>, as
  placed (after the coinbase swap of subtree 0) consistent with its tree; the subtree hashes of the
  other slots after the correction of slot 0; the derived height and lift are the block's.
\<close>

definition compound_inputs ::
  "'h sdk \<Rightarrow> 'h list \<Rightarrow> nat \<Rightarrow> nat \<Rightarrow> stump list \<Rightarrow> 'h list \<Rightarrow> bytes \<Rightarrow> 'h option \<Rightarrow> bool" where
  "compound_inputs sdk txs H L stumps subtreeHashes cbData header \<longleftrightarrow>
     (let n = length subtreeHashes; hashes = correct_hashes sdk subtreeHashes cbData in
      block_shape txs n H L \<and> stumps \<noteq> [] \<and> distinct (map st_SubtreeIndex stumps) \<and>
      (\<forall>st \<in> set stumps. 0 \<le> st_SubtreeIndex st \<and> sdk_parse sdk (st_StumpData st) \<noteq> None) \<and>
      groups_ok (sdk_parent sdk) txs n H L (groups_of sdk cbData stumps) \<and>
      seeds_ok (sdk_parent sdk) txs n H L hashes (fst ` set (groups_of sdk cbData stumps)) \<and>
      compound_internal_height sdk (the (sdk_parse sdk (st_StumpData (hd stumps)))) cbData (ceil_log2 n) = H \<and>
      deriveFinalSubtreeLift (sdk_parent sdk) hashes H header = L)"

lemma length_correct_hashes [simp]: "length (correct_hashes sdk hs cb) = length hs"
  by (simp add: correct_hashes_def split: option.splits)

lemma shape_length: "block_shape txs n H L \<Longrightarrow> length txs < 2 ^ 64"
proof -
  assume b: "block_shape txs n H L"
  have "(2::nat) ^ (H - L) \<le> 2 ^ H" by (rule power_increasing) simp_all
  moreover from b have "length txs \<le> (n - 1) * 2 ^ H + 2 ^ (H - L)" by (simp add: block_shape_def)
  ultimately have "length txs \<le> (n - 1) * 2 ^ H + 2 ^ H" by linarith
  also have "\<dots> = n * 2 ^ H" using b by (cases n) (auto simp: block_shape_def)
  also have "\<dots> \<le> 2 ^ 63" using b by (simp add: block_shape_def)
  finally show ?thesis by simp
qed

lemma build_result:
  assumes inp: "compound_inputs sdk txs H L stumps subtreeHashes cbData header"
  defines "hashes \<equiv> correct_hashes sdk subtreeHashes cbData" and "n \<equiv> length subtreeHashes"
  shows "\<exists>txids. BuildCompoundBUMP sdk stumps subtreeHashes cbData header =
    (Inr (\<lparr>mp_BlockHeight = mp_BlockHeight (the (sdk_parse sdk (st_StumpData (hd stumps)))),
           mp_Path = computeAndPadCompound (sdk_parent sdk) H n
             (seeded_compound (sdk_parent sdk) n H L hashes (groups_of sdk cbData stumps))\<rparr>, txids), hashes)"
proof -
  note I = inp [unfolded compound_inputs_def Let_def, folded hashes_def n_def]
  have ne: "stumps \<noteq> []" and di: "distinct (map st_SubtreeIndex stumps)" using I by blast+
  then obtain p where p: "sdk_parse sdk (st_StumpData (hd stumps)) = Some p" using I by fastforce
  have ln: "length hashes = n" "2 \<le> n" using I by (auto simp: hashes_def n_def block_shape_def)
  let ?final = "\<lambda>g. g\<lparr>ms_data := if 1 < ms_variants g then sdk_bytes sdk (ms_path g) else ms_data g,
      ms_txids := level0TxIDs sdk (mp_Path (ms_path g))\<rparr>"
  define M where "M = map (?final \<circ> unmerged sdk) stumps"
  let ?gs = "groups_of sdk cbData stumps"
  have merged: "mergeStumpVariants sdk stumps = Inr M"
    using merge_loop_distinct [of "[]" stumps sdk] I by (auto simp: mergeStumpVariants_def M_def)
  have m: "M = map (\<lambda>st. (unmerged sdk st)\<lparr>ms_data := ms_data (?final (unmerged sdk st)),
      ms_txids := ms_txids (?final (unmerged sdk st))\<rparr>) stumps" by (simp add: M_def)
  have nn: "\<forall>st \<in> set stumps. 0 \<le> st_SubtreeIndex st" using I by auto
  have gk: "groups_ok (sdk_parent sdk) txs n H L ?gs" and lt: "length txs < 2 ^ 64"
    using I shape_length by blast+
  note pl = place_loop_groups [OF nn gk lt m]
  have idx: "map ms_index M = map (int \<circ> fst) ?gs"
    using nn by (auto simp: M_def groups_of_def unmerged_def)
  have fin: "int (n - 1) \<in> set (map (int \<circ> fst) ?gs) \<longleftrightarrow> n - 1 \<in> fst ` set ?gs" by force
  have h: "compound_internal_height sdk p cbData (ceil_log2 n) = H"
    and lift: "deriveFinalSubtreeLift (sdk_parent sdk) hashes H header = L" using I p by auto
  have bm: "build_multi sdk stumps hashes cbData header =
     Inr (\<lparr>mp_BlockHeight = mp_BlockHeight p, mp_Path = computeAndPadCompound (sdk_parent sdk) H n
             (seeded_compound (sdk_parent sdk) n H L hashes ?gs)\<rparr>, concat (map ms_txids M))"
    unfolding build_multi_def p option.case Let_def ln(1) h lift dropVariants_distinct [OF di] merged sum.case pl
      prod.case idx fin seeded_compound_def
    by simp
  then show ?thesis using ln ne p by (simp add: BuildCompoundBUMP_def Let_def hashes_def)
qed


text \<open>A block of two subtrees with two transactions each; one STUMP, for the second subtree.\<close>

definition sample_txs :: "nat list" where "sample_txs = [10, 11, 12, 13]"

definition sample_stump :: stump where
  "sample_stump = \<lparr>st_BlockHash = ''b'', st_SubtreeIndex = 1, st_StumpData = ''s'', st_ContentHash = []\<rparr>"

definition tree_sdk :: "nat sdk" where
  "tree_sdk = sample_sdk\<lparr>sdk_parse := (\<lambda>d. if d = ''s'' then
     Some \<lparr>mp_BlockHeight = 9, mp_Path = [[hash_elem 0 12, hash_elem 1 13]]\<rparr> else None)\<rparr>"

lemma sample_inputs: "compound_inputs tree_sdk sample_txs 1 0 [sample_stump] [320, 999] [] None"
proof -
  have p: "sdk_parent tree_sdk = (\<lambda>a b. 10 * a + 20 * b)" by (simp add: tree_sdk_def sample_sdk_def)
  have gs: "groups_of tree_sdk [] [sample_stump] = [(1, [[hash_elem 0 12, hash_elem 1 13]])]"
    by (simp add: groups_of_def sample_stump_def tree_sdk_def stump_levels_def)
  have t: "tree (\<lambda>a b. 10 * a + 20 * b) sample_txs (Suc 0) ! 0 = 320"
    by (simp add: tree_Suc fold_pairs_nth sample_txs_def)
  have "subtree_path (sdk_parent tree_sdk) sample_txs 2 1 0 1 [[hash_elem 0 12, hash_elem 1 13]]"
    unfolding subtree_path_def p own_height_def
    by (auto simp: elem_ok_def hash_elem_def isDuplicate_def sample_txs_def tx_covered_def covers_def offs_def sib_def
        intro!: exI [of _ 0])
  then have g: "groups_ok (sdk_parent tree_sdk) sample_txs 2 1 0 (groups_of tree_sdk [] [sample_stump])"
    by (simp add: groups_ok_def gs)
  have hs: "correct_hashes tree_sdk [320, 999] [] = [320, 999]"
    by (simp add: correct_hashes_def extractCoinbaseTxID_def)
  have "seeds_ok (sdk_parent tree_sdk) sample_txs 2 1 0 [320, 999] (fst ` set (groups_of tree_sdk [] [sample_stump]))"
    using t by (auto simp: seeds_ok_def gs p less_Suc_eq numeral_2_eq_2)
  moreover have "block_shape sample_txs 2 1 0" by (simp add: block_shape_def sample_txs_def)
  moreover have "sdk_parse tree_sdk (st_StumpData sample_stump) = Some \<lparr>mp_BlockHeight = 9, mp_Path = [[hash_elem 0 12, hash_elem 1 13]]\<rparr>"
    "sdk_parse tree_sdk [] = None" "0 \<le> st_SubtreeIndex sample_stump"
    by (simp_all add: tree_sdk_def sample_stump_def)
  ultimately show ?thesis using g
    by (simp add: compound_inputs_def Let_def hs compound_internal_height_def deriveFinalSubtreeLift_def numeral_2_eq_2)
qed


end
