(* ===== verification/Bump_Parts.thy ===== *)
theory Bump_Parts
  imports Bump_Correct
begin

text \<open>
  The parts of the compound builder (src/bump/bump.go) on their own: the search for the final
  subtree's lift, the union of STUMP variants, the coinbase corrections of subtree 0, and a block
  shape the builder does not handle.
\<close>

section \<open>The lift of the final subtree\<close>

definition lift_matches :: "('h \<Rightarrow> 'h \<Rightarrow> 'h) \<Rightarrow> 'h list \<Rightarrow> 'h \<Rightarrow> nat \<Rightarrow> bool" where
  "lift_matches par hs root k \<longleftrightarrow>
     topTreeRoot par (hs[length hs - 1 := ((\<lambda>h. par h h) ^^ k) (last hs)]) = root"

lemma lift_loop_spec:
  assumes "lifted = ((\<lambda>h. par h h) ^^ k) (last hs)" and "k + n = m"
  shows "lift_loop par hs root n k lifted =
    (if \<exists>i. k \<le> i \<and> i < m \<and> lift_matches par hs root i then LEAST i. k \<le> i \<and> lift_matches par hs root i else 0)"
  using assms
proof (induction n arbitrary: k lifted)
  case (Suc n)
  show ?case
  proof (cases "lift_matches par hs root k")
    case True
    then have "(LEAST i. k \<le> i \<and> lift_matches par hs root i) = k" by (intro Least_equality) auto
    moreover have "lift_loop par hs root (Suc n) k lifted = k"
      using True Suc.prems(1) by (simp add: lift_matches_def)
    moreover have "\<exists>i. k \<le> i \<and> i < m \<and> lift_matches par hs root i" using True Suc.prems(2) by auto
    ultimately show ?thesis by simp
  next
    case False
    have ex: "(\<exists>i. k \<le> i \<and> i < m \<and> lift_matches par hs root i) = (\<exists>i. Suc k \<le> i \<and> i < m \<and> lift_matches par hs root i)"
      using False by (metis Suc_leD le_neq_implies_less Suc_leI)
    have "(k \<le> i \<and> lift_matches par hs root i) = (Suc k \<le> i \<and> lift_matches par hs root i)" for i
      using False by (metis Suc_leD le_neq_implies_less Suc_leI)
    then have "(LEAST i. k \<le> i \<and> lift_matches par hs root i) = (LEAST i. Suc k \<le> i \<and> lift_matches par hs root i)" by simp
    moreover have "lift_loop par hs root (Suc n) k lifted = lift_loop par hs root n (Suc k) (par lifted lifted)"
      using False Suc.prems(1) by (simp add: lift_matches_def)
    moreover have "lift_loop par hs root n (Suc k) (par lifted lifted) =
        (if \<exists>i. Suc k \<le> i \<and> i < m \<and> lift_matches par hs root i
         then LEAST i. Suc k \<le> i \<and> lift_matches par hs root i else 0)"
      by (rule Suc.IH) (use Suc.prems in simp_all)
    ultimately show ?thesis by (simp only: ex)
  qed
qed auto

text \<open>
  \<open>deriveFinalSubtreeLift\<close> returns the smallest lift up to the internal height whose top tree folds
  to the header's merkle root, and 0 when there is none, no header root or fewer than two subtrees.
\<close>

theorem deriveFinalSubtreeLift_least:
  "deriveFinalSubtreeLift par hs H header =
    (case header of
       None \<Rightarrow> 0
     | Some root \<Rightarrow>
         if length hs \<ge> 2 \<and> (\<exists>k \<le> H. lift_matches par hs root k) then LEAST k. lift_matches par hs root k else 0)"
proof (cases header)
  case (Some root)
  have ex: "(\<exists>i. 0 \<le> i \<and> i < H + 1 \<and> lift_matches par hs root i) = (\<exists>k \<le> H. lift_matches par hs root k)"
    by (auto simp: less_Suc_eq_le)
  have "lift_loop par hs root (H + 1) 0 (last hs) =
      (if \<exists>k \<le> H. lift_matches par hs root k then LEAST k. lift_matches par hs root k else 0)"
    by (subst lift_loop_spec [of "last hs" 0 par hs "H + 1" "H + 1" root]) (simp_all only: ex, simp_all, auto)
  then show ?thesis using Some by (simp only: deriveFinalSubtreeLift_def option.case) auto
qed (simp add: deriveFinalSubtreeLift_def)

section \<open>A final subtree of one transaction\<close>

text \<open>A hash function without collisions: the free one.\<close>

datatype sample_hash = Tx nat | Node sample_hash sample_hash

definition single_sdk :: "sample_hash sdk" where
  "single_sdk = \<lparr>sdk_parent = Node, sdk_parse = (\<lambda>d.
       if d = ''a'' then Some \<lparr>mp_BlockHeight = 9, mp_Path = [[hash_elem 0 (Tx 0), hash_elem 1 (Tx 1)]]\<rparr>
       else if d = ''b'' then Some \<lparr>mp_BlockHeight = 9, mp_Path = [[hash_elem 0 (Tx 2)]]\<rparr> else None),
     sdk_bytes = (\<lambda>_. []), sdk_fromHex = (\<lambda>_. None), sdk_string = (\<lambda>_. ''t''), sdk_root = (\<lambda>_ _. None)\<rparr>"

definition single_stumps :: "stump list" where
  "single_stumps = [\<lparr>st_BlockHash = ''x'', st_SubtreeIndex = 0, st_StumpData = ''a'', st_ContentHash = []\<rparr>,
     \<lparr>st_BlockHash = ''x'', st_SubtreeIndex = 1, st_StumpData = ''b'', st_ContentHash = []\<rparr>]"

definition single_hashes :: "sample_hash list" where
  "single_hashes = [Node (Tx 0) (Tx 1), Tx 2]"

definition single_root :: sample_hash where
  "single_root = Node (Node (Tx 0) (Tx 1)) (Node (Tx 2) (Tx 2))"

lemma single_lift: "deriveFinalSubtreeLift Node single_hashes (Suc 0) (Some single_root) = Suc 0"
  by (simp add: deriveFinalSubtreeLift_def single_hashes_def single_root_def topTreeRoot.simps fold_pairs_def)

lemma single_merge:
  "mergeStumpVariants single_sdk single_stumps = Inr
     [\<lparr>ms_index = 0, ms_path = \<lparr>mp_BlockHeight = 9, mp_Path = [[hash_elem 0 (Tx 0), hash_elem 1 (Tx 1)]]\<rparr>,
        ms_data = ''a'', ms_variants = 1, ms_txids = [''t'']\<rparr>,
      \<lparr>ms_index = 1, ms_path = \<lparr>mp_BlockHeight = 9, mp_Path = [[hash_elem 0 (Tx 2)]]\<rparr>,
        ms_data = ''b'', ms_variants = 1, ms_txids = [''t'']\<rparr>]"
  by (simp add: mergeStumpVariants_def single_stumps_def single_sdk_def level0TxIDs_def List.map_filter_def)

definition single_levels :: "sample_hash path_element list list" where
  "single_levels = [[hash_elem 0 (Tx 0), hash_elem 1 (Tx 1), dup_elem 3], [hash_elem 0 (Node (Tx 0) (Tx 1))]]"

lemma single_place:
  "place_loop single_sdk None [] (requiredHeightFor 2 1 1) 1
     [\<lparr>ms_index = 0, ms_path = \<lparr>mp_BlockHeight = 9, mp_Path = [[hash_elem 0 (Tx 0), hash_elem 1 (Tx 1)]]\<rparr>,
        ms_data = ''a'', ms_variants = 1, ms_txids = [''t'']\<rparr>,
      \<lparr>ms_index = 1, ms_path = \<lparr>mp_BlockHeight = 9, mp_Path = [[hash_elem 0 (Tx 2)]]\<rparr>,
        ms_data = ''b'', ms_variants = 1, ms_txids = [''t'']\<rparr>] [[], []] [] =
   Inr ([[hash_elem 0 (Tx 0), hash_elem 1 (Tx 1)], []], [''t'', ''t''])"
  by (simp add: requiredHeightFor_def stump_levels_def shift_elem_def u64_def shl64_def add64_def hash_elem_def addLeaf_def Let_def)

lemma single_pad:
  "computeAndPadCompound Node 1 2 (seed_roots Node [0, 1] single_hashes 1 1
     (lift_dups 1 0 1 [[hash_elem 0 (Tx 0), hash_elem 1 (Tx 1)], []])) = single_levels"
proof -
  have "add64 (shl64 (Suc 0) (Suc 0)) (Suc 0) = 3" by (simp add: add64_def shl64_def u64_def)
  then show ?thesis
    by (simp add: lift_dups_def seed_roots_def computeAndPadCompound.simps single_hashes_def single_levels_def
      addLeaf_def Let_def pad_odd_def cap_elem_def find_in_def sib_def isDuplicate_def dup_elem_def hash_elem_def)
qed

lemma single_build:
  "fst (BuildCompoundBUMP single_sdk single_stumps single_hashes [] (Some single_root)) =
     Inr (\<lparr>mp_BlockHeight = 9, mp_Path = single_levels\<rparr>, [''t'', ''t''])"
proof -
  have cb: "extractCoinbaseTxID single_sdk [] = None" "sdk_parent single_sdk = Node"
    by (simp_all add: extractCoinbaseTxID_def single_sdk_def)
  have hs: "correct_hashes single_sdk single_hashes [] = single_hashes" by (simp add: correct_hashes_def cb)
  have n: "length single_hashes = 2" by (simp add: single_hashes_def)
  have first: "sdk_parse single_sdk (st_StumpData (hd single_stumps)) =
      Some \<lparr>mp_BlockHeight = 9, mp_Path = [[hash_elem 0 (Tx 0), hash_elem 1 (Tx 1)]]\<rparr>"
    by (simp add: single_sdk_def single_stumps_def)
  have keep: "dropVariantsOffSubtreeRoot single_sdk single_stumps single_hashes r cb' cbData = single_stumps" for r cb' cbData
    by (rule dropVariants_distinct) (simp add: single_stumps_def)
  have cl: "ceil_log2 2 = 1" by (simp add: ceil_log2.simps)
  have ih: "compound_internal_height single_sdk \<lparr>mp_BlockHeight = 9, mp_Path = [[hash_elem 0 (Tx 0), hash_elem 1 (Tx 1)]]\<rparr> [] 1 = 1"
    by (simp add: compound_internal_height_def single_sdk_def)
  have lift: "deriveFinalSubtreeLift Node single_hashes 1 (Some single_root) = 1" using single_lift by simp
  have two: "replicate (1 + 1) [] = [[], []]" by simp
  have "build_multi single_sdk single_stumps single_hashes [] (Some single_root) =
      Inr (\<lparr>mp_BlockHeight = 9, mp_Path = single_levels\<rparr>, [''t'', ''t''])"
    unfolding build_multi_def first option.case Let_def cb n cl ih lift keep single_merge sum.case two single_place prod.case
    using single_pad by simp
  then show ?thesis by (simp add: BuildCompoundBUMP_def hs n single_stumps_def Let_def)
qed

text \<open>
  C36. When the final subtree holds a single transaction its natural height is 0 and none of its STUMP
  is placed, yet its slot counts as having a STUMP and is not seeded: for a block of three
  transactions in subtrees of two, the lift is found and the build succeeds, but the compound has no
  leaf for the last transaction and no longer folds the first one to the header's root.
\<close>

theorem single_tx_final_subtree_lost:
  "topTreeRoot Node [Tx 0, Tx 1, Tx 2] = single_root \<and>
   deriveFinalSubtreeLift Node single_hashes 1 (Some single_root) = 1 \<and>
   (\<exists>mp txids. fst (BuildCompoundBUMP single_sdk single_stumps single_hashes [] (Some single_root)) = Inr (mp, txids) \<and>
      climb Node (mp_Path mp) 0 (Tx 0) = None \<and> find_in (mp_Path mp ! 0) 2 = None)"
proof -
  have "topTreeRoot Node [Tx 0, Tx 1, Tx 2] = single_root"
    by (simp add: topTreeRoot.simps fold_pairs_def single_root_def)
  moreover have "climb Node single_levels 0 (Tx 0) = None" "find_in (single_levels ! 0) 2 = None"
    by (simp_all add: single_levels_def find_in_def sib_def isDuplicate_def hash_elem_def dup_elem_def)
  ultimately show ?thesis using single_lift by (simp add: single_build)
qed

end
