(* ===== verification/Pebble_Keys.thy ===== *)
theory Pebble_Keys
  imports Go_Prelude
begin

text \<open>
  The keyspace of the embedded store, \<open>store/pebble/keys.go\<close>: the prefixes, one builder per key, the
  upper bound of a prefix range and the recovery of a row's identifier from an index key. Keys are
  compared byte by byte, which is the lexicographic order on lists of characters.
\<close>

section \<open>Formatted numbers\<close>

text \<open>\<open>%0<w>x\<close> of a number below \<open>16 ^ w\<close>.\<close>

primrec hex_pad :: "nat \<Rightarrow> nat \<Rightarrow> string" where
  "hex_pad 0 n = []"
| "hex_pad (Suc w) n = hexdigit (n div 16 ^ w mod 16) # hex_pad w n"

definition fmt016x :: "nat \<Rightarrow> string" where
  "fmt016x n = hex_pad 16 n"

text \<open>\<open>uint64(ns)\<close> of a signed 64-bit number.\<close>

definition uint64 :: "int \<Rightarrow> nat" where
  "uint64 ns = nat (ns mod 2 ^ 64)"

text \<open>\<open>%010d\<close>.\<close>

definition pad_zero :: "nat \<Rightarrow> string \<Rightarrow> string" where
  "pad_zero w s = replicate (w - length s) (CHR ''0'') @ s"

definition fmt010d :: "int \<Rightarrow> string" where
  "fmt010d i = (if i < 0 then CHR ''-'' # pad_zero 9 (dec (nat (- i))) else pad_zero 10 (dec (nat i)))"

section \<open>Prefixes and keys\<close>

definition prefixTx :: bytes where "prefixTx = ''tx:''"
definition prefixBump :: bytes where "prefixBump = ''bump:''"
definition prefixStump :: bytes where "prefixStump = ''stump:''"
definition prefixSub :: bytes where "prefixSub = ''sub:''"
definition prefixLease :: bytes where "prefixLease = ''lease:''"
definition prefixDatahub :: bytes where "prefixDatahub = ''dh:''"
definition prefixPeerPolicy :: bytes where "prefixPeerPolicy = ''pp:''"
definition prefixIdxTxStatus :: bytes where "prefixIdxTxStatus = ''idx:tx:status:''"
definition prefixIdxTxBlock :: bytes where "prefixIdxTxBlock = ''idx:tx:block:''"
definition prefixIdxTxRetryReady :: bytes where "prefixIdxTxRetryReady = ''idx:tx:retry_ready:''"
definition prefixIdxTxUpdated :: bytes where "prefixIdxTxUpdated = ''idx:tx:updated:''"
definition prefixIdxSubTxID :: bytes where "prefixIdxSubTxID = ''idx:sub:txid:''"
definition prefixIdxSubToken :: bytes where "prefixIdxSubToken = ''idx:sub:token:''"
definition prefixIdxStumpBlock :: bytes where "prefixIdxStumpBlock = ''idx:stump:block:''"
definition prefixBlockProc :: bytes where "prefixBlockProc = ''blkproc:''"
definition prefixBlockExpected :: bytes where "prefixBlockExpected = ''blkexp:''"
definition prefixIdxBlockProcHeight :: bytes where "prefixIdxBlockProcHeight = ''idx:blkproc:height:''"

lemmas prefix_defs = prefixTx_def prefixBump_def prefixStump_def prefixSub_def prefixLease_def prefixDatahub_def
  prefixPeerPolicy_def prefixIdxTxStatus_def prefixIdxTxBlock_def prefixIdxTxRetryReady_def prefixIdxTxUpdated_def
  prefixIdxSubTxID_def prefixIdxSubToken_def prefixIdxStumpBlock_def prefixBlockProc_def prefixBlockExpected_def
  prefixIdxBlockProcHeight_def

definition txKey :: "txid \<Rightarrow> bytes" where "txKey txid = prefixTx @ txid"
definition bumpKey :: "block_hash \<Rightarrow> bytes" where "bumpKey blockHash = prefixBump @ blockHash"
definition subKey :: "string \<Rightarrow> bytes" where "subKey sid = prefixSub @ sid"
definition leaseKey :: "string \<Rightarrow> bytes" where "leaseKey name = prefixLease @ name"
definition datahubEndpointKey :: "string \<Rightarrow> bytes" where "datahubEndpointKey url = prefixDatahub @ url"
definition peerPolicyKey :: "string \<Rightarrow> bytes" where "peerPolicyKey peerID = prefixPeerPolicy @ peerID"
definition blockProcKey :: "block_hash \<Rightarrow> bytes" where "blockProcKey blockHash = prefixBlockProc @ blockHash"
definition blockExpectedKey :: "block_hash \<Rightarrow> bytes" where "blockExpectedKey blockHash = prefixBlockExpected @ blockHash"

definition stumpKey :: "block_hash \<Rightarrow> int \<Rightarrow> string \<Rightarrow> bytes" where
  "stumpKey blockHash i contentHash = prefixStump @ blockHash @ '':'' @ fmt010d i @ '':'' @ contentHash"

definition stumpBlockPrefix :: "block_hash \<Rightarrow> bytes" where
  "stumpBlockPrefix blockHash = prefixStump @ blockHash @ '':''"

definition idxTxStatusPrefix :: "string \<Rightarrow> bytes" where
  "idxTxStatusPrefix status = prefixIdxTxStatus @ status @ '':''"

definition idxTxStatusKey :: "string \<Rightarrow> txid \<Rightarrow> bytes" where
  "idxTxStatusKey status txid = prefixIdxTxStatus @ status @ '':'' @ txid"

definition idxTxBlockKey :: "block_hash \<Rightarrow> txid \<Rightarrow> bytes" where
  "idxTxBlockKey blockHash txid = prefixIdxTxBlock @ blockHash @ '':'' @ txid"

definition idxTxBlockPrefix :: "block_hash \<Rightarrow> bytes" where
  "idxTxBlockPrefix blockHash = prefixIdxTxBlock @ blockHash @ '':''"

definition idxTxRetryReadyKey :: "unix_ns \<Rightarrow> txid \<Rightarrow> bytes" where
  "idxTxRetryReadyKey nextRetryUnixNs txid = prefixIdxTxRetryReady @ fmt016x (uint64 nextRetryUnixNs) @ '':'' @ txid"

definition idxTxUpdatedKey :: "unix_ns \<Rightarrow> txid \<Rightarrow> bytes" where
  "idxTxUpdatedKey updatedUnixNs txid = prefixIdxTxUpdated @ fmt016x (uint64 updatedUnixNs) @ '':'' @ txid"

definition idxSubTxIDKey :: "txid \<Rightarrow> string \<Rightarrow> bytes" where
  "idxSubTxIDKey txid sid = prefixIdxSubTxID @ txid @ '':'' @ sid"

definition idxSubTxIDPrefix :: "txid \<Rightarrow> bytes" where
  "idxSubTxIDPrefix txid = prefixIdxSubTxID @ txid @ '':''"

definition idxSubTokenKey :: "string \<Rightarrow> string \<Rightarrow> bytes" where
  "idxSubTokenKey token sid = prefixIdxSubToken @ token @ '':'' @ sid"

definition idxSubTokenPrefix :: "string \<Rightarrow> bytes" where
  "idxSubTokenPrefix token = prefixIdxSubToken @ token @ '':''"

definition idxStumpBlockKey :: "block_hash \<Rightarrow> int \<Rightarrow> string \<Rightarrow> bytes" where
  "idxStumpBlockKey blockHash subtreeIndex contentHash =
     prefixIdxStumpBlock @ blockHash @ '':'' @ fmt010d subtreeIndex @ '':'' @ contentHash"

definition idxStumpBlockPrefix :: "block_hash \<Rightarrow> bytes" where
  "idxStumpBlockPrefix blockHash = prefixIdxStumpBlock @ blockHash @ '':''"

text \<open>\<open>^blockHeight\<close> on a \<open>uint64\<close>.\<close>

definition not64 :: "nat \<Rightarrow> nat" where
  "not64 h = 2 ^ 64 - 1 - h"

definition idxBlockProcHeightKey :: "nat \<Rightarrow> block_hash \<Rightarrow> bytes" where
  "idxBlockProcHeightKey blockHeight blockHash =
     prefixIdxBlockProcHeight @ fmt016x (not64 blockHeight) @ '':'' @ blockHash"

section \<open>endOfPrefix and lastSegment\<close>

text \<open>The loop of \<open>endOfPrefix\<close> runs from the last byte, so it is a recursion on the reversed prefix.\<close>

fun eop_loop :: "bytes \<Rightarrow> bytes option" where
  "eop_loop [] = None"
| "eop_loop (c # cs) =
     (if (of_char c :: nat) < 255 then Some (rev cs @ [char_of ((of_char c :: nat) + 1)]) else eop_loop cs)"

definition endOfPrefix :: "bytes \<Rightarrow> bytes option" where
  "endOfPrefix p = eop_loop (rev p)"

definition lastSegment :: "bytes \<Rightarrow> string" where
  "lastSegment key = rev (takeWhile (\<lambda>c. c \<noteq> CHR '':'') (rev key))"

text \<open>An iterator's upper bound is exclusive, and no bound is unbounded.\<close>

definition below :: "bytes option \<Rightarrow> bytes \<Rightarrow> bool" where
  "below hi k = (case hi of None \<Rightarrow> True | Some e \<Rightarrow> k < e)"

section \<open>The range of a prefix\<close>

lemma eop_loop_append:
  "eop_loop (xs @ [c]) = (case eop_loop xs of Some e \<Rightarrow> Some (c # e)
     | None \<Rightarrow> if (of_char c :: nat) < 255 then Some [char_of ((of_char c :: nat) + 1)] else None)"
  by (induction xs) auto

lemma of_char_le: "(of_char c :: nat) \<le> 255"
  using of_char_less_256 [of c] by linarith

lemma less_succ_char:
  assumes "(of_char c :: nat) < 255" shows "d < char_of ((of_char c :: nat) + 1) \<longleftrightarrow> d \<le> c"
  using assms by (simp add: less_char_def less_eq_char_def less_Suc_eq_le)

lemma endOfPrefix_Cons:
  "endOfPrefix (c # p) = (case endOfPrefix p of Some e \<Rightarrow> Some (c # e)
     | None \<Rightarrow> if (of_char c :: nat) < 255 then Some [char_of ((of_char c :: nat) + 1)] else None)"
  by (simp add: endOfPrefix_def eop_loop_append)

lemma top_char: "\<not> (of_char c :: nat) < 255 \<Longrightarrow> c \<le> d \<longleftrightarrow> d = c"
  using of_char_le [of d] of_char_le [of c]
  by (auto simp: less_eq_char_def) (metis antisym not_less of_char_eq_iff order_trans)

text \<open>Also for a prefix that ends in 0xff bytes, and for one of 0xff bytes only, whose range has no upper bound.\<close>

lemma endOfPrefix_range:
  "prefix p k \<longleftrightarrow> p \<le> k \<and> below (endOfPrefix p) k"
proof (induction p arbitrary: k)
  case Nil
  show ?case by (simp add: endOfPrefix_def below_def)
next
  case (Cons c p)
  show ?case
  proof (cases k)
    case (Cons d ks)
    show ?thesis
    proof (cases "endOfPrefix p")
      case None
      have "below (endOfPrefix (c # p)) k \<longleftrightarrow> (if (of_char c :: nat) < 255 then d \<le> c else True)"
        using None Cons less_succ_char [of c d] by (simp add: endOfPrefix_Cons below_def)
      moreover have "prefix p ks \<longleftrightarrow> p \<le> ks" using Cons.IH [of ks] None by (simp add: below_def)
      ultimately show ?thesis using Cons by (auto simp: top_char less_le)
    next
      case (Some e)
      then show ?thesis using Cons Cons.IH [of ks]
        by (auto simp: endOfPrefix_Cons below_def)
    qed
  qed simp
qed

section \<open>Order and injectivity of the formatted numbers\<close>

lemma hexdigit_table: "map hexdigit [0..<16] = hextable"
  by (simp add: hexdigit_def hextable_def upt_rec)

lemma hexdigit_mono: "a < 16 \<Longrightarrow> b < 16 \<Longrightarrow> hexdigit a < hexdigit b \<longleftrightarrow> a < b"
proof -
  assume a: "a < 16" and b: "b < 16"
  have "\<forall>i\<in>set [0..<16]. \<forall>j\<in>set [0..<16]. (hexdigit i < hexdigit j) = (i < j)"
    by (simp add: hexdigit_def hextable_def upt_rec less_char_def)
  then show ?thesis using a b by simp
qed

lemma hexdigit_eq: "a < 16 \<Longrightarrow> b < 16 \<Longrightarrow> hexdigit a = hexdigit b \<longleftrightarrow> a = b"
  using hexdigit_mono [of a b] hexdigit_mono [of b a] by (metis less_irrefl linorder_neqE_nat)

lemma hexdigit_colon: "a < 16 \<Longrightarrow> hexdigit a \<noteq> CHR '':''"
proof -
  assume a: "a < 16"
  have "\<forall>i\<in>set [0..<16]. hexdigit i \<noteq> CHR '':''"
    by (simp add: hexdigit_def hextable_def upt_rec)
  then show ?thesis using a by simp
qed

lemma length_hex_pad [simp]: "length (hex_pad w n) = w"
  by (induction w) simp_all

lemma hex_pad_colon: "CHR '':'' \<notin> set (hex_pad w n)"
  by (induction w) (simp_all add: hexdigit_colon [symmetric])

lemma hex_split: "(a::nat) mod 16 ^ Suc w = 16 ^ w * (a div 16 ^ w mod 16) + a mod 16 ^ w"
  by (metis mod_mult2_eq power_Suc2)

lemma digit_order:
  fixes x y u v b :: nat
  assumes "u < b" and "v < b"
  shows "b * x + u < b * y + v \<longleftrightarrow> x < y \<or> x = y \<and> u < v"
proof (cases x y rule: linorder_cases)
  case less
  then have "b * Suc x \<le> b * y" by (intro mult_le_mono2) simp
  then show ?thesis using less assms by simp
next
  case greater
  then have "b * Suc y \<le> b * x" by (intro mult_le_mono2) simp
  then show ?thesis using greater assms by simp
qed simp

lemma hex_pad_less: "hex_pad w a < hex_pad w b \<longleftrightarrow> a mod 16 ^ w < b mod 16 ^ w"
proof (induction w)
  case (Suc w)
  show ?case
    unfolding hex_split by (subst digit_order) (simp_all add: Suc hexdigit_mono hexdigit_eq)
qed simp

lemma append_less_iff: "(p @ x :: 'a :: linorder list) < p @ y \<longleftrightarrow> x < y"
  by (induction p) simp_all

lemma append_less_suffix: "length xs = length ys \<Longrightarrow> xs < ys \<Longrightarrow> xs @ us < ys @ (vs :: 'a :: linorder list)"
  by (induction xs ys rule: list_induct2) auto

lemma fmt016x_less: "a < 2 ^ 64 \<Longrightarrow> b < 2 ^ 64 \<Longrightarrow> fmt016x a < fmt016x b \<longleftrightarrow> a < b"
  by (simp add: fmt016x_def hex_pad_less)

lemma fmt016x_inj: "a < 2 ^ 64 \<Longrightarrow> b < 2 ^ 64 \<Longrightarrow> fmt016x a = fmt016x b \<longleftrightarrow> a = b"
  using fmt016x_less [of a b] fmt016x_less [of b a] by (metis less_irrefl linorder_neqE_nat)

lemma fmt016x_shape [simp]: "length (fmt016x n) = 16" "CHR '':'' \<notin> set (fmt016x n)"
  by (simp_all add: fmt016x_def hex_pad_colon)

lemma uint64_range: "uint64 ns < 2 ^ 64"
  using pos_mod_bound [of "2 ^ 64" ns] by (simp add: uint64_def)

lemma uint64_id: "0 \<le> ns \<Longrightarrow> ns < 2 ^ 64 \<Longrightarrow> uint64 ns = nat ns"
  by (simp add: uint64_def)

lemma not64_range: "not64 h < 2 ^ 64"
  by (simp add: not64_def)

lemma not64_less: "a < 2 ^ 64 \<Longrightarrow> b < 2 ^ 64 \<Longrightarrow> not64 a < not64 b \<longleftrightarrow> b < a"
  by (auto simp: not64_def)

lemma not64_inj: "a < 2 ^ 64 \<Longrightarrow> b < 2 ^ 64 \<Longrightarrow> not64 a = not64 b \<longleftrightarrow> a = b"
  by (auto simp: not64_def)

section \<open>Recovering the row from an index key\<close>

definition colon_free :: "string \<Rightarrow> bool" where
  "colon_free s \<longleftrightarrow> CHR '':'' \<notin> set s"

lemma lastSegment_key: "colon_free s \<Longrightarrow> lastSegment (p @ '':'' @ s) = s"
  by (subst lastSegment_def, simp, subst takeWhile_append2) (auto simp: colon_free_def)

lemma split_colon:
  assumes "colon_free a" and "colon_free a'"
  shows "a @ CHR '':'' # s = a' @ CHR '':'' # s' \<longleftrightarrow> a = a' \<and> s = s'"
  using assms
proof (induction a arbitrary: a')
  case Nil
  then show ?case by (cases a') (auto simp: colon_free_def)
next
  case (Cons c a)
  then show ?case by (cases a') (auto simp: colon_free_def)
qed

lemma prefix_colon:
  assumes "colon_free a" and "colon_free a'"
  shows "prefix (a @ '':'') (a' @ CHR '':'' # s) \<longleftrightarrow> a = a'"
  using assms
proof (induction a arbitrary: a')
  case Nil
  then show ?case by (cases a') (auto simp: colon_free_def)
next
  case (Cons c a)
  then show ?case by (cases a') (auto simp: colon_free_def)
qed

end
