(* ===== verification/Pebble_DB.thy ===== *)
theory Pebble_DB
  imports Pebble_Keys Models
begin

text \<open>
  The rows of the embedded store, the storage engine it calls and the upkeep of its index entries.

  A stored value is the Go value whose JSON text the code writes: \<open>encoding/json\<close> gives a struct of
  strings, numbers, booleans and byte slices back unchanged, so a value under a key is one of the
  structs of \<open>store/pebble/pebble.go\<close>, an empty index value, or bytes that do not parse.

  The engine (github.com/cockroachdb/pebble) is the parameter \<open>pb\<close>: a point read, a range scan and the
  commit of a batch, each of which may fail. \<open>pebble_ok\<close> names what the code relies on, with a view of
  the engine's state as a map: a successful read gives the view, a successful scan the entries of the
  range in key order, a commit applies the whole batch in order or, on an error, nothing.
\<close>

section \<open>Stored rows\<close>

record storedOrphanedAnchor =
  so_BlockHash :: block_hash
  so_BlockHeight :: nat
  so_OrphanedUnixNs :: unix_ns

record storedStatus =
  ss_TxID :: txid
  ss_Status :: status
  ss_StatusCode :: int
  ss_BlockHash :: block_hash
  ss_BlockHeight :: nat
  ss_MerklePath :: bytes
  ss_ExtraInfo :: string
  ss_CompetingTxs :: "txid list"
  ss_RawTx :: bytes
  ss_RetryCount :: int
  ss_TimestampUnixNs :: unix_ns
  ss_CreatedUnixNs :: unix_ns
  ss_NextRetryUnixNs :: unix_ns
  ss_RetryReason :: string
  ss_MerkleRegisteredUnixNs :: unix_ns
  ss_OrphanedAnchors :: "storedOrphanedAnchor list"

record storedSubmission =
  sm_SubmissionID :: string
  sm_TxID :: txid
  sm_CallbackURL :: string
  sm_CallbackToken :: string
  sm_FullStatusUpdates :: bool
  sm_LastDeliveredStatus :: status
  sm_RetryCount :: int
  sm_NextRetryUnixNs :: unix_ns
  sm_Attempts :: int
  sm_LastAttemptUnixNs :: unix_ns
  sm_LastResult :: string
  sm_CreatedUnixNs :: unix_ns

record storedLease =
  sl_Holder :: string
  sl_ExpiresUnixNs :: unix_ns

record storedBump =
  bm_BlockHeight :: nat
  bm_BumpData :: bytes

record storedEndpointPolicy =
  ep_MiningFeeSatoshis :: nat
  ep_MiningFeeBytes :: nat
  ep_MaxTxSizePolicy :: nat
  ep_MaxScriptSizePolicy :: nat
  ep_MaxTxSigopsCountsPolicy :: nat

record storedDatahubEndpoint =
  de_URL :: string
  de_Network :: string
  de_Source :: string
  de_Policy :: "storedEndpointPolicy option"
  de_LastSeenUnixNs :: unix_ns

record storedPeerPolicy =
  pp_PeerID :: string
  pp_Network :: string
  pp_MiningFeeSatoshis :: nat
  pp_MiningFeeBytes :: nat
  pp_MaxTxSizePolicy :: nat
  pp_MaxScriptSizePolicy :: nat
  pp_LastSeenUnixNs :: unix_ns

record storedBlockProcessing =
  bk_BlockHash :: block_hash
  bk_BlockHeight :: nat
  bk_HeaderSeenUnixNs :: unix_ns
  bk_ProcessedUnixNs :: unix_ns
  bk_BUMPBuiltUnixNs :: unix_ns
  bk_Status :: block_status
  bk_OrphanedAtUnixNs :: unix_ns
  bk_ReconciledAtUnixNs :: unix_ns

datatype payload =
    PNil
  | PStatus storedStatus
  | PSub storedSubmission
  | PLease storedLease
  | PBump storedBump
  | PStump stump
  | PBlock storedBlockProcessing
  | PExpected "int list"
  | PEndpoint storedDatahubEndpoint
  | PPeer storedPeerPolicy
  | PRaw bytes

text \<open>The range of a stored time or counter.\<close>

definition int64 :: "int \<Rightarrow> bool" where
  "int64 n \<longleftrightarrow> - (2 ^ 63) \<le> n \<and> n < 2 ^ 63"

section \<open>The engine\<close>

datatype store_error =
    Cancelled
  | EngineError
  | Unparsable
  | ErrNotFound
  | BadLimit
  | ErrReplayUnavailable
  | EmptyURL
  | ErrInvalidEndpointPolicy
  | ErrInvalidPeerPolicy
  | CallbackError string

datatype batch_op = Put bytes payload | Del bytes

type_synonym kv = "bytes \<rightharpoonup> payload"
type_synonym 'r result = "store_error + 'r"

text \<open>Whether the i-th \<open>ctx.Err()\<close> of a call sees the context cancelled.\<close>

type_synonym ctx = "nat \<Rightarrow> bool"

definition uncancelled :: "ctx \<Rightarrow> bool" where
  "uncancelled ctx \<longleftrightarrow> (\<forall>i. \<not> ctx i)"

lemma uncancelledD: "uncancelled ctx \<Longrightarrow> \<not> ctx i"
  by (simp add: uncancelled_def)

lemma uncancelled_never: "uncancelled (\<lambda>_. False)"
  by (simp add: uncancelled_def)

record 'db pebble =
  pb_get :: "'db \<Rightarrow> bytes \<Rightarrow> payload option result"
  pb_scan :: "'db \<Rightarrow> bytes \<Rightarrow> bytes option \<Rightarrow> (bytes \<times> payload) list result"
  pb_commit :: "'db \<Rightarrow> batch_op list \<Rightarrow> store_error option \<times> 'db"

fun apply_op :: "batch_op \<Rightarrow> kv \<Rightarrow> kv" where
  "apply_op (Put k v) m = m(k \<mapsto> v)"
| "apply_op (Del k) m = m(k := None)"

definition apply_batch :: "batch_op list \<Rightarrow> kv \<Rightarrow> kv" where
  "apply_batch ops m = fold apply_op ops m"

definition pebble_ok :: "'db pebble \<Rightarrow> ('db \<Rightarrow> kv) \<Rightarrow> bool" where
  "pebble_ok pb view \<longleftrightarrow>
     (\<forall>d k v. pb_get pb d k = Inr v \<longrightarrow> v = view d k) \<and>
     (\<forall>d lo hi kvs. pb_scan pb d lo hi = Inr kvs \<longrightarrow>
        sorted_wrt (<) (map fst kvs) \<and> (\<forall>k v. (k, v) \<in> set kvs \<longleftrightarrow> view d k = Some v \<and> lo \<le> k \<and> below hi k)) \<and>
     (\<forall>d ops. view (snd (pb_commit pb d ops)) =
        (if fst (pb_commit pb d ops) = None then apply_batch ops (view d) else view d))"

text \<open>An engine on which no call fails.\<close>

definition pebble_up :: "'db pebble \<Rightarrow> bool" where
  "pebble_up pb \<longleftrightarrow>
     (\<forall>d k. isl (pb_get pb d k) = False) \<and> (\<forall>d lo hi. isl (pb_scan pb d lo hi) = False) \<and>
     (\<forall>d ops. fst (pb_commit pb d ops) = None)"

text \<open>The two ways an operation goes on: after a read, and after a commit.\<close>

definition read_then :: "'a result \<Rightarrow> 'db \<Rightarrow> ('a \<Rightarrow> 'r result \<times> 'db) \<Rightarrow> 'r result \<times> 'db" where
  "read_then r d f = (case r of Inl e \<Rightarrow> (Inl e, d) | Inr a \<Rightarrow> f a)"

definition commit_then :: "'db pebble \<Rightarrow> 'db \<Rightarrow> batch_op list \<Rightarrow> 'r \<Rightarrow> 'r result \<times> 'db" where
  "commit_then pb d ops r = (case pb_commit pb d ops of (None, d') \<Rightarrow> (Inr r, d') | (Some e, d') \<Rightarrow> (Inl e, d'))"

definition scan_prefix :: "'db pebble \<Rightarrow> 'db \<Rightarrow> bytes \<Rightarrow> (bytes \<times> payload) list result" where
  "scan_prefix pb d p = pb_scan pb d p (endOfPrefix p)"

lemma pebble_get: "pebble_ok pb view \<Longrightarrow> pb_get pb d k = Inr v \<Longrightarrow> v = view d k"
  by (simp add: pebble_ok_def)

lemma pebble_up_get: "pebble_ok pb view \<Longrightarrow> pebble_up pb \<Longrightarrow> pb_get pb d k = Inr (view d k)"
proof -
  assume ok: "pebble_ok pb view" and up: "pebble_up pb"
  have "\<not> isl (pb_get pb d k)" using up by (simp add: pebble_up_def)
  then show ?thesis using pebble_get [OF ok, of d k] by (cases "pb_get pb d k") simp_all
qed

lemma pebble_commit:
  "pebble_ok pb view \<Longrightarrow> view (snd (pb_commit pb d ops)) =
     (if fst (pb_commit pb d ops) = None then apply_batch ops (view d) else view d)"
  by (simp add: pebble_ok_def)

lemma commit_then_view:
  assumes "pebble_ok pb view" and "commit_then pb d ops r = (res, d')"
  shows "view d' = (if isl res then view d else apply_batch ops (view d))"
    and "\<not> isl res \<Longrightarrow> res = Inr r"
  using pebble_commit [OF assms(1), of d ops] assms(2)
  by (auto simp: commit_then_def split: prod.splits option.splits)

lemma commit_then_up:
  assumes "pebble_ok pb view" and "pebble_up pb"
  obtains d' where "commit_then pb d ops r = (Inr r, d')" "view d' = apply_batch ops (view d)"
proof -
  have "fst (pb_commit pb d ops) = None" using assms(2) by (simp add: pebble_up_def)
  then show thesis
    using that [of "snd (pb_commit pb d ops)"] pebble_commit [OF assms(1), of d ops]
    by (cases "pb_commit pb d ops") (simp add: commit_then_def)
qed

lemma scan_prefix_mem:
  assumes "pebble_ok pb view" and "scan_prefix pb d p = Inr kvs"
  shows "(k, v) \<in> set kvs \<longleftrightarrow> view d k = Some v \<and> prefix p k"
proof -
  have "\<forall>k v. (k, v) \<in> set kvs \<longleftrightarrow> view d k = Some v \<and> p \<le> k \<and> below (endOfPrefix p) k"
    using assms by (simp add: scan_prefix_def pebble_ok_def)
  then show ?thesis by (simp add: endOfPrefix_range [symmetric])
qed

lemma scan_prefix_sorted:
  assumes "pebble_ok pb view" and "scan_prefix pb d p = Inr kvs"
  shows "sorted_wrt (<) (map fst kvs)"
  using assms by (simp add: scan_prefix_def pebble_ok_def)

lemma scan_prefix_keys:
  assumes "pebble_ok pb view" and "scan_prefix pb d p = Inr kvs"
  shows "fst ` set kvs = {k. view d k \<noteq> None \<and> prefix p k}"
  using scan_prefix_mem [OF assms] by force

lemma scan_up:
  assumes "pebble_up pb"
  obtains kvs where "scan_prefix pb d p = Inr kvs"
proof -
  have "\<not> isl (scan_prefix pb d p)" using assms by (simp add: pebble_up_def scan_prefix_def)
  then show thesis using that by (cases "scan_prefix pb d p") simp_all
qed

section \<open>An engine in memory\<close>

text \<open>A list of entries, the newest first; it satisfies the laws and evaluates.\<close>

definition mem_scan :: "(bytes \<times> payload) list \<Rightarrow> bytes \<Rightarrow> bytes option \<Rightarrow> (bytes \<times> payload) list" where
  "mem_scan d lo hi =
     map (\<lambda>k. (k, the (map_of d k))) (sort (remdups (filter (\<lambda>k. lo \<le> k \<and> below hi k) (map fst d))))"

fun mem_op :: "batch_op \<Rightarrow> (bytes \<times> payload) list \<Rightarrow> (bytes \<times> payload) list" where
  "mem_op (Put k v) d = (k, v) # d"
| "mem_op (Del k) d = filter (\<lambda>e. fst e \<noteq> k) d"

definition mem :: "(bytes \<times> payload) list pebble" where
  "mem = \<lparr>pb_get = (\<lambda>d k. Inr (map_of d k)), pb_scan = (\<lambda>d lo hi. Inr (mem_scan d lo hi)),
     pb_commit = (\<lambda>d ops. (None, fold mem_op ops d))\<rparr>"

lemma map_of_drop_key: "map_of (filter (\<lambda>e. fst e \<noteq> k) d) = (map_of d)(k := None)"
  by (induction d) (auto simp: fun_eq_iff)

lemma mem_view: "map_of (fold mem_op ops d) = apply_batch ops (map_of d)"
proof (induction ops arbitrary: d)
  case (Cons oper ops)
  then show ?case by (cases oper) (simp_all add: apply_batch_def map_of_drop_key)
qed (simp add: apply_batch_def)

lemma mem_ok: "pebble_ok mem map_of"
proof -
  have "(k, v) \<in> set (mem_scan d lo hi) \<longleftrightarrow> map_of d k = Some v \<and> lo \<le> k \<and> below hi k" for d k v lo hi
  proof -
    have "k \<in> fst ` set d \<longleftrightarrow> map_of d k \<noteq> None" by (simp add: map_of_eq_None_iff)
    then show ?thesis by (auto simp: mem_scan_def)
  qed
  moreover have "sorted_wrt (<) (map fst (mem_scan d lo hi))" for d lo hi
    by (simp add: mem_scan_def comp_def strict_sorted_iff)
  ultimately show ?thesis by (simp add: pebble_ok_def mem_def mem_view)
qed

lemma mem_up: "pebble_up mem"
  by (simp add: pebble_up_def mem_def)

section \<open>Batches\<close>

lemma apply_batch_append [simp]: "apply_batch (xs @ ys) m = apply_batch ys (apply_batch xs m)"
  by (simp add: apply_batch_def)

lemma apply_batch_Nil [simp]: "apply_batch [] m = m"
  by (simp add: apply_batch_def)

lemma apply_batch_Cons [simp]: "apply_batch (x # xs) m = apply_batch xs (apply_op x m)"
  by (simp add: apply_batch_def)

lemma apply_batch_dels: "apply_batch (map Del ks) m k = (if k \<in> set ks then None else m k)"
  by (induction ks arbitrary: m) auto

lemma apply_batch_puts: "apply_batch (map (\<lambda>k. Put k v) ks) m k = (if k \<in> set ks then Some v else m k)"
  by (induction ks arbitrary: m) auto

fun op_key :: "batch_op \<Rightarrow> bytes" where
  "op_key (Put k v) = k"
| "op_key (Del k) = k"

lemma apply_batch_other: "k \<notin> op_key ` set ops \<Longrightarrow> apply_batch ops m k = m k"
proof (induction ops arbitrary: m)
  case (Cons oper ops)
  then show ?case by (cases oper) auto
qed simp

section \<open>Tables with index entries\<close>

text \<open>
  A table keeps its rows under \<open>key\<close>, with the index keys \<open>ix row\<close> beside each: an index entry exists
  exactly when some stored row calls for it.
\<close>

definition table_consistent ::
    "('i \<Rightarrow> bytes) \<Rightarrow> ('r \<Rightarrow> bytes list) \<Rightarrow> ('r \<Rightarrow> 'i) \<Rightarrow> ('r \<Rightarrow> payload) \<Rightarrow> ('r \<Rightarrow> bool) \<Rightarrow> (bytes \<Rightarrow> bool) \<Rightarrow> kv \<Rightarrow> bool" where
  "table_consistent key ix rid mk okr isix m \<longleftrightarrow>
     (\<forall>a p. m (key a) = Some p \<longrightarrow> (\<exists>r. p = mk r \<and> rid r = a \<and> okr r)) \<and>
     (\<forall>k. isix k \<longrightarrow> (m k \<noteq> None \<longleftrightarrow> (\<exists>r. m (key (rid r)) = Some (mk r) \<and> k \<in> set (ix r))))"

lemma table_frame:
  assumes "\<And>a. m' (key a) = m (key a)" and "\<And>k. isix k \<Longrightarrow> m' k = m k"
  shows "table_consistent key ix rid mk okr isix m' = table_consistent key ix rid mk okr isix m"
  using assms by (simp add: table_consistent_def)

locale indexed_table =
  fixes key :: "'i \<Rightarrow> bytes" and ix :: "'r \<Rightarrow> bytes list" and rid :: "'r \<Rightarrow> 'i" and mk :: "'r \<Rightarrow> payload"
    and okr :: "'r \<Rightarrow> bool" and isix :: "bytes \<Rightarrow> bool" and owner :: "bytes \<Rightarrow> 'i"
  assumes key_inj: "key a = key b \<Longrightarrow> a = b"
    and mk_inj: "mk r = mk r' \<Longrightarrow> r = r'"
    and key_not_ix: "\<not> isix (key a)"
    and ix_isix: "k \<in> set (ix r) \<Longrightarrow> isix k"
    and ix_owner: "okr r \<Longrightarrow> k \<in> set (ix r) \<Longrightarrow> owner k = rid r"
begin

lemma row_wf:
  assumes "table_consistent key ix rid mk okr isix m" and "m (key a) = Some p"
  obtains r where "p = mk r" "rid r = a" "okr r"
  using assms unfolding table_consistent_def by blast

lemma mk_row:
  assumes "table_consistent key ix rid mk okr isix m" and "m (key a) = Some (mk r)"
  shows "rid r = a" and "okr r"
proof -
  obtain r' where "mk r = mk r'" "rid r' = a" "okr r'" by (rule row_wf [OF assms])
  then show "rid r = a" "okr r" using mk_inj by blast+
qed

lemma entry_row:
  assumes "table_consistent key ix rid mk okr isix m" and "isix k" and "m k \<noteq> None"
  obtains r where "m (key (owner k)) = Some (mk r)" "rid r = owner k" "k \<in> set (ix r)" "okr r"
proof -
  obtain r where r: "m (key (rid r)) = Some (mk r)" "k \<in> set (ix r)"
    using assms unfolding table_consistent_def by blast
  have "okr r" by (rule mk_row [OF assms(1) r(1)])
  moreover have "owner k = rid r" using ix_owner [OF \<open>okr r\<close> r(2)] .
  ultimately show thesis using r that by simp
qed

lemma row_entry:
  assumes "table_consistent key ix rid mk okr isix m" and "m (key a) = Some (mk r)" and "k \<in> set (ix r)"
  shows "m k \<noteq> None"
proof -
  have "\<forall>k. isix k \<longrightarrow> (m k \<noteq> None \<longleftrightarrow> (\<exists>r. m (key (rid r)) = Some (mk r) \<and> k \<in> set (ix r)))"
    using assms(1) by (simp add: table_consistent_def)
  moreover have "m (key (rid r)) = Some (mk r)" using assms(2) mk_row(1) [OF assms(1,2)] by simp
  ultimately show ?thesis using ix_isix [OF assms(3)] assms(3) by blast
qed

lemma rewrite_lookup:
  assumes "set D \<subseteq> Collect isix"
  shows "apply_batch (map Del D @ [Put (key a) v] @ map (\<lambda>k. Put k PNil) (ix r)) m (key b) =
      (if b = a then Some v else m (key b))"
    and "isix k \<Longrightarrow> apply_batch (map Del D @ [Put (key a) v] @ map (\<lambda>k. Put k PNil) (ix r)) m k =
      (if k \<in> set (ix r) then Some PNil else if k \<in> set D then None else m k)"
proof -
  have "key b \<notin> set (ix r)" "key b \<notin> set D" for b using assms key_not_ix ix_isix by blast+
  then show "apply_batch (map Del D @ [Put (key a) v] @ map (\<lambda>k. Put k PNil) (ix r)) m (key b) =
      (if b = a then Some v else m (key b))"
    by (auto simp: apply_batch_puts apply_batch_dels dest: key_inj)
  show "isix k \<Longrightarrow> apply_batch (map Del D @ [Put (key a) v] @ map (\<lambda>k. Put k PNil) (ix r)) m k =
      (if k \<in> set (ix r) then Some PNil else if k \<in> set D then None else m k)"
    using key_not_ix [of a] by (auto simp: apply_batch_puts apply_batch_dels)
qed

lemma rewrite_entry:
  assumes c: "table_consistent key ix rid mk okr isix m" and k: "isix k" "k \<notin> set (ix r)"
    and old: "m (key (rid r)) = map_option mk old"
    and D: "\<And>q. old = Some q \<Longrightarrow> set (ix q) - set (ix r) \<subseteq> set D \<and> set D \<subseteq> set (ix q)"
    and D0: "old = None \<Longrightarrow> D = []"
  shows "(k \<notin> set D \<and> m k \<noteq> None) \<longleftrightarrow> (\<exists>s. rid s \<noteq> rid r \<and> m (key (rid s)) = Some (mk s) \<and> k \<in> set (ix s))"
    (is "?L \<longleftrightarrow> ?R")
proof
  assume L: ?L
  then obtain s where s: "m (key (rid s)) = Some (mk s)" "k \<in> set (ix s)"
    using c k(1) unfolding table_consistent_def by blast
  moreover have "rid s \<noteq> rid r"
  proof
    assume "rid s = rid r"
    then have "old = Some s" using s(1) old mk_inj by auto
    then show False using D s(2) L k(2) by blast
  qed
  ultimately show ?R by blast
next
  assume ?R
  then obtain s where s: "rid s \<noteq> rid r" "m (key (rid s)) = Some (mk s)" "k \<in> set (ix s)" by blast
  have "owner k = rid s" by (rule ix_owner [OF mk_row(2) [OF c s(2)] s(3)])
  moreover have "owner k = rid r" if kD: "k \<in> set D"
  proof (cases old)
    case (Some q)
    then have "m (key (rid r)) = Some (mk q)" using old by simp
    then show ?thesis using mk_row [OF c, of "rid r" q] ix_owner [of q k] D [OF Some] kD by auto
  qed (use D0 kD in simp)
  ultimately show ?L using s(1) row_entry [OF c s(2,3)] by auto
qed

lemma rewrite_consistent:
  assumes c: "table_consistent key ix rid mk okr isix m" and okr: "okr r"
    and old: "m (key (rid r)) = map_option mk old"
    and D: "\<And>q. old = Some q \<Longrightarrow> set (ix q) - set (ix r) \<subseteq> set D \<and> set D \<subseteq> set (ix q)"
    and D0: "old = None \<Longrightarrow> D = []"
  shows "table_consistent key ix rid mk okr isix
    (apply_batch (map Del D @ [Put (key (rid r)) (mk r)] @ map (\<lambda>k. Put k PNil) (ix r)) m)"
proof -
  define M where "M = apply_batch (map Del D @ [Put (key (rid r)) (mk r)] @ map (\<lambda>k. Put k PNil) (ix r)) m"
  have Dix: "set D \<subseteq> Collect isix"
  proof (cases old)
    case (Some q)
    then show ?thesis using D ix_isix by blast
  qed (use D0 in simp)
  have look1: "M (key b) = (if b = rid r then Some (mk r) else m (key b))" for b
    unfolding M_def by (rule rewrite_lookup(1) [OF Dix])
  have look2: "M k = (if k \<in> set (ix r) then Some PNil else if k \<in> set D then None else m k)" if "isix k" for k
    unfolding M_def by (rule rewrite_lookup(2) [OF Dix that])
  have other: "M (key (rid s)) = Some (mk s) \<longleftrightarrow> (if rid s = rid r then s = r else m (key (rid s)) = Some (mk s))" for s
    by (auto simp: look1 dest: mk_inj)
  have rows: "\<exists>s. p = mk s \<and> rid s = a \<and> okr s" if "M (key a) = Some p" for a p
  proof (cases "a = rid r")
    case False
    then have "m (key a) = Some p" using that by (simp add: look1)
    then show ?thesis using c unfolding table_consistent_def by blast
  qed (use that okr in \<open>auto simp: look1\<close>)
  have entries: "M k \<noteq> None \<longleftrightarrow> (\<exists>s. M (key (rid s)) = Some (mk s) \<and> k \<in> set (ix s))" if k: "isix k" for k
  proof (cases "k \<in> set (ix r)")
    case True
    then show ?thesis unfolding other by (auto simp: look2 [OF k])
  next
    case False
    have "M k \<noteq> None \<longleftrightarrow> k \<notin> set D \<and> m k \<noteq> None" using False by (simp add: look2 [OF k])
    also have "\<dots> \<longleftrightarrow> (\<exists>s. rid s \<noteq> rid r \<and> m (key (rid s)) = Some (mk s) \<and> k \<in> set (ix s))"
      by (rule rewrite_entry [OF c k False old D D0])
    also have "\<dots> \<longleftrightarrow> (\<exists>s. M (key (rid s)) = Some (mk s) \<and> k \<in> set (ix s))"
      unfolding other using False by auto
    finally show ?thesis .
  qed
  show ?thesis
    unfolding table_consistent_def M_def [symmetric]
    by (intro conjI allI impI) (rule rows, assumption, rule entries, assumption)
qed

lemma overwrite_consistent:
  assumes "table_consistent key ix rid mk okr isix m" and "m (key (rid r)) = Some (mk q)" and "okr r" and "ix r = ix q"
  shows "table_consistent key ix rid mk okr isix (m(key (rid r) \<mapsto> mk r))"
proof -
  define M where "M = apply_batch (map Del [] @ [Put (key (rid r)) (mk r)] @ map (\<lambda>k. Put k PNil) (ix r)) m"
  have c: "table_consistent key ix rid mk okr isix M"
    unfolding M_def by (rule rewrite_consistent [OF assms(1,3), of "Some q"]) (use assms in auto)
  have M1: "M (key a) = (m(key (rid r) \<mapsto> mk r)) (key a)" for a
    unfolding M_def by (subst rewrite_lookup(1)) (auto dest: key_inj)
  have M2: "M k = (if k \<in> set (ix r) then Some PNil else m k)" if "isix k" for k
    unfolding M_def by (subst rewrite_lookup(2) [OF _ that]) auto
  have "(m(key (rid r) \<mapsto> mk r)) k \<noteq> None \<longleftrightarrow> M k \<noteq> None" if k: "isix k" for k
    using row_entry [OF assms(1,2), of k] assms(4) key_not_ix [of "rid r"] k by (auto simp: M2)
  then show ?thesis using c unfolding table_consistent_def M1 by simp
qed

end

end
