(* ===== verification/Tx_Tracker.thy ===== *)
theory Tx_Tracker
  imports Models "HOL-Library.Finite_Map"
begin

text \<open>
  The in-memory transaction tracker: the hydration filter of \<open>store/trackerscan.go\<close> and the tracker of
  \<open>store/tracker.go\<close>. Every method runs under the tracker's lock, so it is one step on the map.
  \<open>chainhash.NewHashFromHex\<close> is the parameter \<open>parse\<close>. The row source of a hydration pass, the
  interface \<open>TrackerRowIterator\<close>, is the locale \<open>row_source\<close>: it hands rows to a callback one at a time
  and stops at the first error.
\<close>

section \<open>TrackerScan\<close>

definition ConfirmationsRequired :: nat where
  "ConfirmationsRequired = 100"

record tracker_row =
  tr_TxID :: txid
  tr_Status :: status
  tr_BlockHeight :: nat

definition trackerStatuses :: "status list" where
  "trackerStatuses = filter (\<lambda>s. \<not> IsTerminal s \<or> s = StatusMined) AllStatuses"

definition TrackerStatuses :: "status list" where
  "TrackerStatuses = trackerStatuses"

definition TracksStatus :: "status \<Rightarrow> bool" where
  "TracksStatus s \<longleftrightarrow> s \<in> set trackerStatuses"

record tracker_scan =
  PruneMinedBelow :: nat

definition NewTrackerScan :: "nat \<Rightarrow> bool \<Rightarrow> tracker_scan" where
  "NewTrackerScan tipHeight tipKnown =
     (if \<not> tipKnown \<or> tipHeight < ConfirmationsRequired then \<lparr>PruneMinedBelow = 0\<rparr>
      else \<lparr>PruneMinedBelow = tipHeight - ConfirmationsRequired + 1\<rparr>)"

definition Keep :: "tracker_scan \<Rightarrow> status \<Rightarrow> nat \<Rightarrow> bool" where
  "Keep s st blockHeight =
     (if \<not> TracksStatus st then False
      else if st = StatusMined \<and> blockHeight > 0 \<and> PruneMinedBelow s > 0 \<and> blockHeight < PruneMinedBelow s then False
      else True)"

section \<open>TxTracker\<close>

record TrackedTx =
  tt_Status :: status
  tt_MinedHeight :: nat

type_synonym 'h tx_tracker = "('h, TrackedTx) fmap"

definition NewTxTracker :: "'h tx_tracker" where
  "NewTxTracker = fmempty"

definition AddHash :: "'h \<Rightarrow> status \<Rightarrow> 'h tx_tracker \<Rightarrow> 'h tx_tracker" where
  "AddHash hash st t = fmupd hash \<lparr>tt_Status = st, tt_MinedHeight = 0\<rparr> t"

definition tracker_Add :: "(string \<Rightarrow> 'h option) \<Rightarrow> txid \<Rightarrow> status \<Rightarrow> 'h tx_tracker \<Rightarrow> 'h tx_tracker" where
  "tracker_Add parse txid st t = (case parse txid of None \<Rightarrow> t | Some hash \<Rightarrow> fmupd hash \<lparr>tt_Status = st, tt_MinedHeight = 0\<rparr> t)"

definition UpdateStatusHash :: "'h \<Rightarrow> status \<Rightarrow> 'h tx_tracker \<Rightarrow> 'h tx_tracker" where
  "UpdateStatusHash hash st t =
     (case fmlookup t hash of None \<Rightarrow> t | Some tx \<Rightarrow> fmupd hash (tx\<lparr>tt_Status := st\<rparr>) t)"

definition tracker_UpdateStatus :: "(string \<Rightarrow> 'h option) \<Rightarrow> txid \<Rightarrow> status \<Rightarrow> 'h tx_tracker \<Rightarrow> 'h tx_tracker" where
  "tracker_UpdateStatus parse txid st t = (case parse txid of None \<Rightarrow> t | Some hash \<Rightarrow> UpdateStatusHash hash st t)"

definition SetMinedHash :: "'h \<Rightarrow> nat \<Rightarrow> 'h tx_tracker \<Rightarrow> 'h tx_tracker" where
  "SetMinedHash hash blockHeight t =
     (case fmlookup t hash of None \<Rightarrow> t
      | Some tx \<Rightarrow> fmupd hash (tx\<lparr>tt_Status := StatusMined, tt_MinedHeight := blockHeight\<rparr>) t)"

definition tracker_SetMined :: "(string \<Rightarrow> 'h option) \<Rightarrow> txid \<Rightarrow> nat \<Rightarrow> 'h tx_tracker \<Rightarrow> 'h tx_tracker" where
  "tracker_SetMined parse txid blockHeight t = (case parse txid of None \<Rightarrow> t | Some hash \<Rightarrow> SetMinedHash hash blockHeight t)"

text \<open>The sum of two \<open>uint64\<close> wraps. The hashes come in the map's iteration order, so they are a set.\<close>

definition deeply_confirmed :: "nat \<Rightarrow> TrackedTx \<Rightarrow> bool" where
  "deeply_confirmed currentHeight tx \<longleftrightarrow>
     tt_Status tx = StatusMined \<and> tt_MinedHeight tx > 0 \<and>
     currentHeight \<ge> (tt_MinedHeight tx + ConfirmationsRequired) mod 2 ^ 64"

definition PruneConfirmed :: "nat \<Rightarrow> 'h tx_tracker \<Rightarrow> 'h fset \<times> 'h tx_tracker" where
  "PruneConfirmed currentHeight t =
     (let gone = (\<lambda>hash. case fmlookup t hash of None \<Rightarrow> False | Some tx \<Rightarrow> deeply_confirmed currentHeight tx)
      in (fmdom (fmfilter gone t), fmfilter (\<lambda>hash. \<not> gone hash) t))"

definition RemoveHash :: "'h \<Rightarrow> 'h tx_tracker \<Rightarrow> 'h tx_tracker" where
  "RemoveHash hash t = fmdrop hash t"

definition tracker_Remove :: "(string \<Rightarrow> 'h option) \<Rightarrow> txid \<Rightarrow> 'h tx_tracker \<Rightarrow> 'h tx_tracker" where
  "tracker_Remove parse txid t = (case parse txid of None \<Rightarrow> t | Some hash \<Rightarrow> fmdrop hash t)"

definition ContainsHash :: "'h tx_tracker \<Rightarrow> 'h \<Rightarrow> bool" where
  "ContainsHash t hash \<longleftrightarrow> fmlookup t hash \<noteq> None"

definition tracker_Contains :: "(string \<Rightarrow> 'h option) \<Rightarrow> 'h tx_tracker \<Rightarrow> txid \<Rightarrow> bool" where
  "tracker_Contains parse t txid \<longleftrightarrow> (case parse txid of None \<Rightarrow> False | Some hash \<Rightarrow> fmlookup t hash \<noteq> None)"

definition GetStatusHash :: "'h tx_tracker \<Rightarrow> 'h \<Rightarrow> status \<times> bool" where
  "GetStatusHash t hash = (case fmlookup t hash of None \<Rightarrow> ([], False) | Some tx \<Rightarrow> (tt_Status tx, True))"

definition tracker_GetStatus :: "(string \<Rightarrow> 'h option) \<Rightarrow> 'h tx_tracker \<Rightarrow> txid \<Rightarrow> status \<times> bool" where
  "tracker_GetStatus parse t txid = (case parse txid of None \<Rightarrow> ([], False) | Some hash \<Rightarrow> GetStatusHash t hash)"

definition FilterTrackedHashes :: "'h tx_tracker \<Rightarrow> 'h list \<Rightarrow> 'h list" where
  "FilterTrackedHashes t hashes = filter (\<lambda>hash. fmlookup t hash \<noteq> None) hashes"

fun filter_txids :: "(string \<Rightarrow> 'h option) \<Rightarrow> 'h tx_tracker \<Rightarrow> txid list \<Rightarrow> txid list \<times> nat \<Rightarrow> txid list \<times> nat" where
  "filter_txids parse t [] (tracked, unknown) = (tracked, unknown)"
| "filter_txids parse t (s # ss) (tracked, unknown) =
     filter_txids parse t ss
       (case parse s of
          None \<Rightarrow> (tracked, unknown + 1)
        | Some hash \<Rightarrow> if fmlookup t hash \<noteq> None then (tracked @ [s], unknown) else (tracked, unknown + 1))"

definition FilterTrackedTxids :: "(string \<Rightarrow> 'h option) \<Rightarrow> 'h tx_tracker \<Rightarrow> txid list \<Rightarrow> txid list \<times> nat" where
  "FilterTrackedTxids parse t txids = (if txids = [] then ([], 0) else filter_txids parse t txids ([], 0))"

definition tracker_Count :: "'h tx_tracker \<Rightarrow> nat" where
  "tracker_Count t = fcard (fmdom t)"

section \<open>Hydration\<close>

record load_stats =
  ls_Scanned :: nat
  ls_Loaded :: nat
  ls_Skipped :: nat

definition loadFromStoreBatchSize :: int where
  "loadFromStoreBatchSize = 10000"

text \<open>The state the callback of \<open>loadFromStore\<close> closes over.\<close>

record 'h loading =
  ld_tracker :: "'h tx_tracker"
  ld_batch :: "('h \<times> TrackedTx) list"
  ld_stats :: load_stats

definition load_flush :: "'h loading \<Rightarrow> 'h loading" where
  "load_flush s =
     (if ld_batch s = [] then s
      else s\<lparr>ld_tracker := fold (\<lambda>(hash, tx). fmupd hash tx) (ld_batch s) (ld_tracker s),
             ld_stats := (ld_stats s)\<lparr>ls_Loaded := ls_Loaded (ld_stats s) + length (ld_batch s)\<rparr>,
             ld_batch := []\<rparr>)"

definition load_row ::
    "(string \<Rightarrow> 'h option) \<Rightarrow> tracker_scan \<Rightarrow> nat \<Rightarrow> tracker_row \<Rightarrow> 'h loading \<Rightarrow> 'e option \<times> 'h loading" where
  "load_row parse scan batchSize row s =
     (let s1 = s\<lparr>ld_stats := (ld_stats s)\<lparr>ls_Scanned := ls_Scanned (ld_stats s) + 1\<rparr>\<rparr> in
      if \<not> Keep scan (tr_Status row) (tr_BlockHeight row)
      then (None, s1\<lparr>ld_stats := (ld_stats s1)\<lparr>ls_Skipped := ls_Skipped (ld_stats s1) + 1\<rparr>\<rparr>)
      else case parse (tr_TxID row) of
             None \<Rightarrow> (None, s1)
           | Some hash \<Rightarrow>
               let s2 = s1\<lparr>ld_batch := ld_batch s1 @ [(hash, \<lparr>tt_Status = tr_Status row, tt_MinedHeight = tr_BlockHeight row\<rparr>)]\<rparr>
               in (None, if length (ld_batch s2) \<ge> batchSize then load_flush s2 else s2))"

type_synonym ('s, 'e) row_iterator = "(tracker_row \<Rightarrow> 's \<Rightarrow> 'e option \<times> 's) \<Rightarrow> 's \<Rightarrow> 'e option \<times> 's"

definition loadFromStore ::
    "(string \<Rightarrow> 'h option) \<Rightarrow> ('h loading, 'e) row_iterator \<Rightarrow> tracker_scan \<Rightarrow> int \<Rightarrow> 'h tx_tracker
      \<Rightarrow> (load_stats \<times> 'e option) \<times> 'h tx_tracker" where
  "loadFromStore parse iterate scan batchSize t =
     (let size = nat (if batchSize \<le> 0 then loadFromStoreBatchSize else batchSize);
          (err, s) = iterate (load_row parse scan size)
             \<lparr>ld_tracker = t, ld_batch = [], ld_stats = \<lparr>ls_Scanned = 0, ls_Loaded = 0, ls_Skipped = 0\<rparr>\<rparr>;
          s' = load_flush s
      in ((ld_stats s', err), ld_tracker s'))"

definition LoadFromStore ::
    "(string \<Rightarrow> 'h option) \<Rightarrow> ('h loading, 'e) row_iterator \<Rightarrow> tracker_scan \<Rightarrow> 'h tx_tracker
      \<Rightarrow> (load_stats \<times> 'e option) \<times> 'h tx_tracker" where
  "LoadFromStore parse iterate scan t = loadFromStore parse iterate scan loadFromStoreBatchSize t"

section \<open>The filter\<close>

lemma trackerStatuses_iff: "s \<in> set AllStatuses \<Longrightarrow> TracksStatus s \<longleftrightarrow> \<not> IsTerminal s \<or> s = StatusMined"
  by (simp add: TracksStatus_def trackerStatuses_def)

text \<open>
  \<open>Keep\<close> of the scan built from a chain tip is the filter it replaced: for every known status it
  drops the terminal statuses other than MINED, and a MINED row of a recorded height once the known
  tip is at least \<open>ConfirmationsRequired\<close> blocks above it; an unknown tip drops no MINED row.
\<close>

theorem Keep_reference:
  assumes "st \<in> set AllStatuses"
  shows "Keep (NewTrackerScan tipHeight tipKnown) st blockHeight \<longleftrightarrow>
     \<not> (IsTerminal st \<and> st \<noteq> StatusMined) \<and>
     \<not> (tipKnown \<and> st = StatusMined \<and> blockHeight > 0 \<and> tipHeight \<ge> blockHeight + ConfirmationsRequired)"
  using trackerStatuses_iff [OF assms]
  by (auto simp: Keep_def NewTrackerScan_def ConfirmationsRequired_def)

theorem Keep_reference_witness:
  "\<not> Keep (NewTrackerScan 900100 True) StatusMined 900000 \<and> Keep (NewTrackerScan 900099 True) StatusMined 900000"
  using Keep_reference [of StatusMined 900100 True 900000] Keep_reference [of StatusMined 900099 True 900000]
  by (simp add: ConfirmationsRequired_def AllStatuses_def)

section \<open>Pruning\<close>

definition tracker_keeps :: "tracker_scan \<Rightarrow> TrackedTx \<Rightarrow> bool" where
  "tracker_keeps scan tx \<longleftrightarrow> Keep scan (tt_Status tx) (tt_MinedHeight tx)"

lemma deeply_confirmed_Keep:
  assumes "tt_MinedHeight tx + ConfirmationsRequired < 2 ^ 64" and "TracksStatus (tt_Status tx)"
  shows "deeply_confirmed h tx \<longleftrightarrow> \<not> tracker_keeps (NewTrackerScan h True) tx"
  using assms by (auto simp: deeply_confirmed_def tracker_keeps_def Keep_def NewTrackerScan_def ConfirmationsRequired_def)

text \<open>
  Pruning at a height and hydrating at that height keep the same rows: when the tracked heights
  are at least \<open>ConfirmationsRequired\<close> below the wrap-around, \<open>PruneConfirmed\<close> removes and returns
  exactly the transactions the scan of that height would not load, and leaves the others as they are.
\<close>

theorem PruneConfirmed_Keep:
  assumes "\<And>hash tx. fmlookup t hash = Some tx \<Longrightarrow> tt_MinedHeight tx + ConfirmationsRequired < 2 ^ 64 \<and> TracksStatus (tt_Status tx)"
    and "PruneConfirmed h t = (immutable, t')"
  shows "fmlookup t' hash = (case fmlookup t hash of None \<Rightarrow> None
           | Some tx \<Rightarrow> if tracker_keeps (NewTrackerScan h True) tx then Some tx else None) \<and>
         (hash |\<in>| immutable \<longleftrightarrow> (\<exists>tx. fmlookup t hash = Some tx \<and> \<not> tracker_keeps (NewTrackerScan h True) tx))"
proof (cases "fmlookup t hash")
  case None
  then show ?thesis using assms(2) by (auto simp: PruneConfirmed_def Let_def fmdom_notI)
next
  case (Some tx)
  have "deeply_confirmed h tx \<longleftrightarrow> \<not> tracker_keeps (NewTrackerScan h True) tx"
    using deeply_confirmed_Keep assms(1) [OF Some] by blast
  then show ?thesis using Some assms(2) by (auto simp: PruneConfirmed_def Let_def fmdomI)
qed

definition sample_tracker :: "nat tx_tracker" where
  "sample_tracker = SetMinedHash 1 800 (AddHash 2 StatusReceived (AddHash 1 StatusSentToNetwork NewTxTracker))"

lemma sample_tracker_lookup:
  "fmlookup sample_tracker k = (if k = 1 then Some \<lparr>tt_Status = StatusMined, tt_MinedHeight = 800\<rparr>
     else if k = 2 then Some \<lparr>tt_Status = StatusReceived, tt_MinedHeight = 0\<rparr> else None)"
  by (simp add: sample_tracker_def SetMinedHash_def AddHash_def NewTxTracker_def)

lemma tracked_samples: "TracksStatus StatusMined" "TracksStatus StatusReceived"
  by (simp_all add: TracksStatus_def trackerStatuses_def AllStatuses_def IsTerminal_def terminalStatuses_def)

theorem PruneConfirmed_Keep_witness:
  "1 |\<in>| fst (PruneConfirmed 900 sample_tracker) \<and> fmlookup (snd (PruneConfirmed 900 sample_tracker)) 1 = None \<and>
   fmlookup (snd (PruneConfirmed 900 sample_tracker)) 2 = Some \<lparr>tt_Status = StatusReceived, tt_MinedHeight = 0\<rparr>"
proof -
  have tracked: "tt_MinedHeight tx + ConfirmationsRequired < 2 ^ 64 \<and> TracksStatus (tt_Status tx)"
    if "fmlookup sample_tracker hash = Some tx" for hash tx
    using that tracked_samples by (auto simp: sample_tracker_lookup ConfirmationsRequired_def split: if_splits)
  have e: "PruneConfirmed 900 sample_tracker = (fst (PruneConfirmed 900 sample_tracker), snd (PruneConfirmed 900 sample_tracker))" by simp
  have "\<not> tracker_keeps (NewTrackerScan 900 True) \<lparr>tt_Status = StatusMined, tt_MinedHeight = 800\<rparr>"
    "tracker_keeps (NewTrackerScan 900 True) \<lparr>tt_Status = StatusReceived, tt_MinedHeight = 0\<rparr>"
    using tracked_samples by (simp_all add: tracker_keeps_def Keep_def NewTrackerScan_def ConfirmationsRequired_def)
  then show ?thesis
    using PruneConfirmed_Keep [OF tracked e, where hash = 1] PruneConfirmed_Keep [OF tracked e, where hash = 2]
    by (simp add: sample_tracker_lookup)
qed

section \<open>Hydration from a row source\<close>

text \<open>Handing rows to a callback until one fails.\<close>

fun each :: "('r \<Rightarrow> 's \<Rightarrow> 'e option \<times> 's) \<Rightarrow> 'r list \<Rightarrow> 's \<Rightarrow> 'e option \<times> 's" where
  "each fn [] s = (None, s)"
| "each fn (r # rs) s = (case fn r s of (Some e, s') \<Rightarrow> (Some e, s') | (None, s') \<Rightarrow> each fn rs s')"

lemma each_append:
  "each fn (xs @ ys) s = (case each fn xs s of (Some e, s') \<Rightarrow> (Some e, s') | (None, s') \<Rightarrow> each fn ys s')"
  by (induction xs arbitrary: s) (auto split: prod.splits option.splits)

definition load_map :: "(string \<Rightarrow> 'h option) \<Rightarrow> tracker_scan \<Rightarrow> tracker_row list \<Rightarrow> 'h tx_tracker \<Rightarrow> 'h tx_tracker" where
  "load_map parse scan rows t = fold (\<lambda>row m.
     case parse (tr_TxID row) of
       Some hash \<Rightarrow> if Keep scan (tr_Status row) (tr_BlockHeight row)
                    then fmupd hash \<lparr>tt_Status = tr_Status row, tt_MinedHeight = tr_BlockHeight row\<rparr> m else m
     | None \<Rightarrow> m) rows t"

text \<open>The tracker once the pending batch is flushed.\<close>

definition flushed :: "'h loading \<Rightarrow> 'h tx_tracker" where
  "flushed s = fold (\<lambda>(hash, tx). fmupd hash tx) (ld_batch s) (ld_tracker s)"

lemma load_flush_flushed [simp]: "flushed (load_flush s) = flushed s" "ld_tracker (load_flush s) = flushed s"
  by (auto simp: load_flush_def flushed_def)

lemma load_row_flushed:
  "fst (load_row parse scan n row s) = None"
  "flushed (snd (load_row parse scan n row s)) = load_map parse scan [row] (flushed s)"
proof -
  show "fst (load_row parse scan n row s) = None"
    by (auto simp: load_row_def Let_def split: option.splits)
  have f: "flushed (if b then load_flush q else q) = flushed q" for b and q :: "'a loading" by simp
  show "flushed (snd (load_row parse scan n row s)) = load_map parse scan [row] (flushed s)"
  proof (cases "Keep scan (tr_Status row) (tr_BlockHeight row)")
    case True
    then show ?thesis
      by (cases "parse (tr_TxID row)") (simp_all add: load_row_def Let_def f, simp_all add: flushed_def load_map_def)
  next
    case False
    then show ?thesis by (simp add: load_row_def Let_def flushed_def load_map_def split: option.splits)
  qed
qed

locale row_source =
  fixes iterate :: "('h loading, 'e) row_iterator" and rows :: "tracker_row list" and failure :: "'e option"
  assumes iterate_each:
    "iterate fn s = (case each fn rows s of (Some e, s') \<Rightarrow> (Some e, s') | (None, s') \<Rightarrow> (failure, s'))"
begin

lemma each_load_row:
  "\<exists>s'. each (load_row parse scan n) rs s = (None :: 'e option, s') \<and> flushed s' = load_map parse scan rs (flushed s)"
proof (induction rs arbitrary: s)
  case Nil
  show ?case by (simp add: load_map_def)
next
  case (Cons r rs)
  obtain s1 where s1: "load_row parse scan n r s = (None :: 'e option, s1)"
    using load_row_flushed(1) [of parse scan n r s] by (metis prod.collapse)
  then have "flushed s1 = load_map parse scan [r] (flushed s)" using load_row_flushed(2) [of parse scan n r s, where 'c = 'e] by simp
  then show ?case using Cons.IH [of s1] s1 by (auto simp: load_map_def)
qed

lemma load_exact:
  "snd (loadFromStore parse iterate scan n t) = load_map parse scan rows t \<and>
   snd (fst (loadFromStore parse iterate scan n t)) = failure"
proof -
  define k where "k = nat (if n \<le> 0 then loadFromStoreBatchSize else n)"
  let ?s = "\<lparr>ld_tracker = t, ld_batch = [], ld_stats = \<lparr>ls_Scanned = 0, ls_Loaded = 0, ls_Skipped = 0\<rparr>\<rparr>"
  obtain s' where s': "each (load_row parse scan k) rows ?s = (None :: 'e option, s')" "flushed s' = load_map parse scan rows (flushed ?s)"
    using each_load_row by blast
  have "flushed ?s = t" by (simp add: flushed_def)
  then show ?thesis using s' by (simp add: loadFromStore_def k_def [symmetric] iterate_each)
qed

end

section \<open>Batch lookups\<close>

definition knows :: "(string \<Rightarrow> 'h option) \<Rightarrow> 'h tx_tracker \<Rightarrow> txid \<Rightarrow> bool" where
  "knows parse t s \<longleftrightarrow> tracker_Contains parse t s"

lemma filter_txids_spec:
  "filter_txids parse t ss (tracked, unknown) =
     (tracked @ filter (knows parse t) ss, unknown + length (filter (\<lambda>s. \<not> knows parse t s) ss))"
  by (induction ss arbitrary: tracked unknown)
    (auto simp: knows_def tracker_Contains_def split: option.splits)

lemma FilterTrackedTxids_spec:
  "FilterTrackedTxids parse t txids = (filter (knows parse t) txids, length (filter (\<lambda>s. \<not> knows parse t s) txids))"
  by (simp add: FilterTrackedTxids_def filter_txids_spec)

end
