(* ===== verification/Pebble_Status.thy ===== *)
theory Pebble_Status
  imports Pebble_DB Tx_Tracker
begin

text \<open>
  The transaction rows of the embedded store (\<open>store/pebble/pebble.go\<close>, "Transaction status"): reads,
  guarded and block-scoped writes, the retry queue and the index walks. Each operation takes the
  engine \<open>pb\<close>, the outcomes \<open>ctx\<close> of the context checks it makes, the clock reading \<open>now\<close> where the code
  takes one, and the engine's state, and returns its result with the state afterwards. The shard lock
  of a row makes each read-modify-write of the row one step.
\<close>

section \<open>Rows and models\<close>

definition UnixNano :: "unix_ns option \<Rightarrow> unix_ns" where
  "UnixNano t = (case t of None \<Rightarrow> - 6795364578871345152 | Some ns \<Rightarrow> ns)"

text \<open>A stored 0 is an absent time, and an absent time is stored as 0.\<close>

definition time_of :: "unix_ns \<Rightarrow> unix_ns option" where
  "time_of ns = (if ns \<noteq> 0 then Some ns else None)"

definition stored_time :: "unix_ns option \<Rightarrow> unix_ns" where
  "stored_time t = (case t of None \<Rightarrow> 0 | Some ns \<Rightarrow> ns)"

definition appendOrphanedAnchor :: "unix_ns \<Rightarrow> storedStatus \<Rightarrow> storedStatus" where
  "appendOrphanedAnchor now row =
     (if ss_BlockHash row = [] then row
      else if ss_OrphanedAnchors row \<noteq> [] \<and> so_BlockHash (last (ss_OrphanedAnchors row)) = ss_BlockHash row then row
      else let anchors = ss_OrphanedAnchors row @
                 [\<lparr>so_BlockHash = ss_BlockHash row, so_BlockHeight = ss_BlockHeight row, so_OrphanedUnixNs = now\<rparr>]
           in row\<lparr>ss_OrphanedAnchors :=
                (if length anchors > MaxOrphanedAnchors then drop (length anchors - MaxOrphanedAnchors) anchors else anchors)\<rparr>)"

definition toModel :: "storedStatus \<Rightarrow> transaction_status" where
  "toModel s = \<lparr>ts_TxID = ss_TxID s, ts_Status = ss_Status s, ts_StatusCode = ss_StatusCode s,
     ts_Timestamp = time_of (ss_TimestampUnixNs s), ts_TxIDs = [], ts_BlockHash = ss_BlockHash s,
     ts_BlockHeight = ss_BlockHeight s, ts_MerklePath = ss_MerklePath s, ts_ExtraInfo = ss_ExtraInfo s,
     ts_CompetingTxs = ss_CompetingTxs s, ts_RawTx = ss_RawTx s, ts_RetryCount = ss_RetryCount s,
     ts_NextRetryAt = time_of (ss_NextRetryUnixNs s), ts_CreatedAt = time_of (ss_CreatedUnixNs s),
     ts_OrphanedProofs = map (\<lambda>a. \<lparr>oa_BlockHash = so_BlockHash a, oa_BlockHeight = so_BlockHeight a,
        oa_OrphanedAt = so_OrphanedUnixNs a, oa_MerklePath = None\<rparr>) (ss_OrphanedAnchors s),
     ts_MerkleRegisteredAt = time_of (ss_MerkleRegisteredUnixNs s)\<rparr>"

definition fromModel :: "transaction_status \<Rightarrow> storedStatus" where
  "fromModel m = \<lparr>ss_TxID = ts_TxID m, ss_Status = ts_Status m, ss_StatusCode = ts_StatusCode m,
     ss_BlockHash = ts_BlockHash m, ss_BlockHeight = ts_BlockHeight m, ss_MerklePath = ts_MerklePath m,
     ss_ExtraInfo = ts_ExtraInfo m, ss_CompetingTxs = ts_CompetingTxs m, ss_RawTx = ts_RawTx m,
     ss_RetryCount = ts_RetryCount m, ss_TimestampUnixNs = stored_time (ts_Timestamp m),
     ss_CreatedUnixNs = stored_time (ts_CreatedAt m), ss_NextRetryUnixNs = stored_time (ts_NextRetryAt m),
     ss_RetryReason = [], ss_MerkleRegisteredUnixNs = stored_time (ts_MerkleRegisteredAt m),
     ss_OrphanedAnchors = map (\<lambda>a. \<lparr>so_BlockHash = oa_BlockHash a, so_BlockHeight = oa_BlockHeight a,
        so_OrphanedUnixNs = oa_OrphanedAt a\<rparr>) (ts_OrphanedProofs m)\<rparr>"

section \<open>Reads and index entries of one row\<close>

definition readStoredStatus :: "'db pebble \<Rightarrow> 'db \<Rightarrow> txid \<Rightarrow> storedStatus option result" where
  "readStoredStatus pb d txid =
     (case pb_get pb d (txKey txid) of
        Inl e \<Rightarrow> Inl e
      | Inr None \<Rightarrow> Inr None
      | Inr (Some v) \<Rightarrow> (case v of PStatus st \<Rightarrow> Inr (Some st) | _ \<Rightarrow> Inl Unparsable))"

definition readStatus :: "'db pebble \<Rightarrow> 'db \<Rightarrow> txid \<Rightarrow> transaction_status option result" where
  "readStatus pb d txid =
     (case pb_get pb d (txKey txid) of
        Inl e \<Rightarrow> Inl e
      | Inr None \<Rightarrow> Inr None
      | Inr (Some v) \<Rightarrow> (case v of PStatus st \<Rightarrow> Inr (Some (toModel st)) | _ \<Rightarrow> Inl Unparsable))"

definition addStatusIndexes :: "storedStatus \<Rightarrow> batch_op list" where
  "addStatusIndexes st =
     [Put (idxTxStatusKey (ss_Status st) (ss_TxID st)) PNil] @
     (if ss_BlockHash st \<noteq> [] then [Put (idxTxBlockKey (ss_BlockHash st) (ss_TxID st)) PNil] else []) @
     (if ss_Status st = StatusPendingRetry \<and> ss_NextRetryUnixNs st \<noteq> 0
      then [Put (idxTxRetryReadyKey (ss_NextRetryUnixNs st) (ss_TxID st)) PNil] else []) @
     (if ss_TimestampUnixNs st \<noteq> 0 then [Put (idxTxUpdatedKey (ss_TimestampUnixNs st) (ss_TxID st)) PNil] else [])"

definition removeStatusIndexes :: "storedStatus \<Rightarrow> batch_op list" where
  "removeStatusIndexes st =
     [Del (idxTxStatusKey (ss_Status st) (ss_TxID st))] @
     (if ss_BlockHash st \<noteq> [] then [Del (idxTxBlockKey (ss_BlockHash st) (ss_TxID st))] else []) @
     (if ss_Status st = StatusPendingRetry \<and> ss_NextRetryUnixNs st \<noteq> 0
      then [Del (idxTxRetryReadyKey (ss_NextRetryUnixNs st) (ss_TxID st))] else []) @
     (if ss_TimestampUnixNs st \<noteq> 0 then [Del (idxTxUpdatedKey (ss_TimestampUnixNs st) (ss_TxID st))] else [])"

text \<open>The batch that every rewrite of a row commits.\<close>

definition rewrite_ops :: "txid \<Rightarrow> storedStatus \<Rightarrow> storedStatus \<Rightarrow> batch_op list" where
  "rewrite_ops txid existing updated =
     removeStatusIndexes existing @ [Put (txKey txid) (PStatus updated)] @ addStatusIndexes updated"

section \<open>Inserts and updates\<close>

definition writeStatusNew :: "'db pebble \<Rightarrow> transaction_status \<Rightarrow> 'r \<Rightarrow> 'db \<Rightarrow> 'r result \<times> 'db" where
  "writeStatusNew pb status r d =
     (let st = fromModel status
      in commit_then pb d (Put (txKey (ts_TxID status)) (PStatus st) # addStatusIndexes st) r)"

text \<open>The row \<open>GetOrInsertStatus\<close> inserts: the caller's, with defaults.\<close>

definition fresh_status :: "unix_ns \<Rightarrow> transaction_status \<Rightarrow> transaction_status" where
  "fresh_status now status =
     (let s1 = (if ts_Timestamp status = None then status\<lparr>ts_Timestamp := Some now\<rparr> else status);
          s2 = (if ts_Status s1 = [] then s1\<lparr>ts_Status := StatusReceived\<rparr> else s1)
      in s2\<lparr>ts_CreatedAt := Some now\<rparr>)"

definition GetOrInsertStatus ::
    "'db pebble \<Rightarrow> ctx \<Rightarrow> unix_ns \<Rightarrow> transaction_status \<Rightarrow> 'db \<Rightarrow> (transaction_status \<times> bool) result \<times> 'db" where
  "GetOrInsertStatus pb ctx now status d =
     (if ctx 0 then (Inl Cancelled, d)
      else read_then (readStatus pb d (ts_TxID status)) d (\<lambda>existing.
        case existing of
          Some e \<Rightarrow> (Inr (e, False), d)
        | None \<Rightarrow> writeStatusNew pb (fresh_status now status) (fresh_status now status, True) d))"

definition mergeStatus :: "storedStatus \<Rightarrow> transaction_status \<Rightarrow> storedStatus" where
  "mergeStatus existing u = existing\<lparr>
     ss_TxID := ts_TxID u,
     ss_Status := (if ts_Status u \<noteq> [] then ts_Status u else ss_Status existing),
     ss_StatusCode := (if ts_StatusCode u \<noteq> 0 then ts_StatusCode u else ss_StatusCode existing),
     ss_BlockHash := (if ts_BlockHash u \<noteq> [] then ts_BlockHash u else ss_BlockHash existing),
     ss_BlockHeight := (if ts_BlockHeight u > 0 then ts_BlockHeight u else ss_BlockHeight existing),
     ss_MerklePath := (if ts_MerklePath u \<noteq> [] then ts_MerklePath u else ss_MerklePath existing),
     ss_ExtraInfo := (if ts_ExtraInfo u \<noteq> [] then ts_ExtraInfo u else ss_ExtraInfo existing),
     ss_CompetingTxs := (if ts_CompetingTxs u \<noteq> [] then ts_CompetingTxs u else ss_CompetingTxs existing),
     ss_RawTx := (if ts_RawTx u \<noteq> [] then ts_RawTx u else ss_RawTx existing),
     ss_RetryCount := (if ts_RetryCount u > 0 then ts_RetryCount u else ss_RetryCount existing),
     ss_TimestampUnixNs := (case ts_Timestamp u of Some t \<Rightarrow> t | None \<Rightarrow> ss_TimestampUnixNs existing),
     ss_CreatedUnixNs := (case ts_CreatedAt u of Some t \<Rightarrow> t | None \<Rightarrow> ss_CreatedUnixNs existing),
     ss_NextRetryUnixNs := (case ts_NextRetryAt u of Some t \<Rightarrow> t | None \<Rightarrow> ss_NextRetryUnixNs existing),
     ss_MerkleRegisteredUnixNs :=
       (case ts_MerkleRegisteredAt u of Some t \<Rightarrow> t | None \<Rightarrow> ss_MerkleRegisteredUnixNs existing)\<rparr>"

record status_update =
  su_Prev :: "transaction_status option"
  su_Current :: "transaction_status option"

definition Applied :: "status_update \<Rightarrow> bool" where
  "Applied u \<longleftrightarrow> su_Prev u \<noteq> None"

definition UpdateStatusReturning ::
    "'db pebble \<Rightarrow> ctx \<Rightarrow> transaction_status \<Rightarrow> 'db \<Rightarrow> status_update result \<times> 'db" where
  "UpdateStatusReturning pb ctx status d =
     (if ctx 0 then (Inl Cancelled, d)
      else read_then (readStoredStatus pb d (ts_TxID status)) d (\<lambda>existing.
        case existing of
          None \<Rightarrow> (Inl ErrNotFound, d)
        | Some e \<Rightarrow>
            if ts_Status status \<noteq> [] \<and> \<not> CanTransitionFrom (ts_Status status) (ss_Status e)
            then (Inr \<lparr>su_Prev = None, su_Current = Some (toModel e)\<rparr>, d)
            else commit_then pb d (rewrite_ops (ts_TxID status) e (mergeStatus e status))
                   \<lparr>su_Prev = Some (toModel e), su_Current = None\<rparr>))"

definition UpdateStatus :: "'db pebble \<Rightarrow> ctx \<Rightarrow> transaction_status \<Rightarrow> 'db \<Rightarrow> unit result \<times> 'db" where
  "UpdateStatus pb ctx status d = map_prod (map_sum id (\<lambda>_. ())) id (UpdateStatusReturning pb ctx status d)"

section \<open>Writes of many rows\<close>

text \<open>The row ids of an index walk; the context is checked at every key.\<close>

fun walk_ids :: "ctx \<Rightarrow> nat \<Rightarrow> string list \<Rightarrow> (bytes \<times> payload) list \<Rightarrow> string list \<times> store_error option" where
  "walk_ids ctx i ids [] = (ids, None)"
| "walk_ids ctx i ids ((k, _) # kvs) =
     (if ctx i then (ids, Some Cancelled) else walk_ids ctx (Suc i) (ids @ [lastSegment k]) kvs)"

text \<open>The row as \<open>SetStatusByBlockHash\<close> rewrites it.\<close>

definition set_status_updated :: "unix_ns \<Rightarrow> status \<Rightarrow> storedStatus \<Rightarrow> storedStatus" where
  "set_status_updated now newStatus existing =
     (let u1 = existing\<lparr>ss_Status := newStatus, ss_TimestampUnixNs := now\<rparr> in
      if newStatus = StatusSeenOnNetwork then (appendOrphanedAnchor now u1)\<lparr>ss_BlockHash := [], ss_BlockHeight := 0\<rparr> else u1)"

text \<open>One candidate of \<open>SetStatusByBlockHash\<close>, under its shard lock: whether the row was rewritten.\<close>

definition set_status_row ::
    "'db pebble \<Rightarrow> unix_ns \<Rightarrow> block_hash \<Rightarrow> status \<Rightarrow> txid \<Rightarrow> 'db \<Rightarrow> bool result \<times> 'db" where
  "set_status_row pb now blockHash newStatus txid d =
     (case readStoredStatus pb d txid of
        Inl _ \<Rightarrow> (Inr False, d)
      | Inr None \<Rightarrow> (Inr False, d)
      | Inr (Some existing) \<Rightarrow>
          if ss_BlockHash existing \<noteq> blockHash then (Inr False, d)
          else if ss_Status existing = StatusImmutable then (Inr False, d)
          else commit_then pb d (rewrite_ops txid existing (set_status_updated now newStatus existing)) True)"

fun set_status_loop ::
    "'db pebble \<Rightarrow> unix_ns \<Rightarrow> block_hash \<Rightarrow> status \<Rightarrow> txid list \<Rightarrow> txid list \<Rightarrow> 'db
      \<Rightarrow> (txid list \<times> store_error option) \<times> 'db" where
  "set_status_loop pb now blockHash newStatus txids [] d = ((txids, None), d)"
| "set_status_loop pb now blockHash newStatus txids (txid # candidates) d =
     (case set_status_row pb now blockHash newStatus txid d of
        (Inl e, d') \<Rightarrow> ((txids, Some e), d')
      | (Inr wrote, d') \<Rightarrow>
          set_status_loop pb now blockHash newStatus (if wrote then txids @ [txid] else txids) candidates d')"

definition SetStatusByBlockHash ::
    "'db pebble \<Rightarrow> ctx \<Rightarrow> unix_ns \<Rightarrow> block_hash \<Rightarrow> status \<Rightarrow> 'db \<Rightarrow> (txid list \<times> store_error option) \<times> 'db" where
  "SetStatusByBlockHash pb ctx now blockHash newStatus d =
     (if ctx 0 then (([], Some Cancelled), d)
      else case scan_prefix pb d (idxTxBlockPrefix blockHash) of
             Inl e \<Rightarrow> (([], Some e), d)
           | Inr kvs \<Rightarrow>
               (case walk_ids ctx 1 [] kvs of
                  (_, Some e) \<Rightarrow> (([], Some e), d)
                | (candidates, None) \<Rightarrow> set_status_loop pb now blockHash newStatus [] candidates d))"

text \<open>The row as \<open>SetMinedByTxIDs\<close> rewrites it.\<close>

definition set_mined_updated :: "unix_ns \<Rightarrow> block_hash \<Rightarrow> nat \<Rightarrow> storedStatus \<Rightarrow> storedStatus" where
  "set_mined_updated now blockHash blockHeight existing =
     (if ss_Status existing = StatusMined \<and> ss_BlockHash existing \<noteq> blockHash
      then appendOrphanedAnchor now existing else existing)
       \<lparr>ss_Status := StatusMined, ss_BlockHash := blockHash, ss_BlockHeight := blockHeight, ss_TimestampUnixNs := now\<rparr>"

text \<open>One row of \<open>SetMinedByTxIDs\<close>: the row before and the status returned for it.\<close>

definition set_mined_row ::
    "'db pebble \<Rightarrow> unix_ns \<Rightarrow> block_hash \<Rightarrow> nat \<Rightarrow> txid \<Rightarrow> 'db \<Rightarrow> (transaction_status \<times> transaction_status) option result \<times> 'db" where
  "set_mined_row pb now blockHash blockHeight txid d =
     read_then (readStoredStatus pb d txid) d (\<lambda>row.
       case row of
         None \<Rightarrow> (Inr None, d)
       | Some existing \<Rightarrow>
           if \<not> CanTransitionFrom StatusMined (ss_Status existing) then (Inr None, d)
           else commit_then pb d (rewrite_ops txid existing (set_mined_updated now blockHash blockHeight existing))
                     (Some (toModel existing,
                        empty_status\<lparr>ts_TxID := txid, ts_Status := StatusMined, ts_BlockHash := blockHash,
                          ts_BlockHeight := blockHeight, ts_Timestamp := Some now\<rparr>)))"

fun set_mined_loop ::
    "'db pebble \<Rightarrow> ctx \<Rightarrow> nat \<Rightarrow> unix_ns \<Rightarrow> block_hash \<Rightarrow> nat \<Rightarrow> txid list
      \<Rightarrow> transaction_status list \<Rightarrow> transaction_status list \<Rightarrow> 'db
      \<Rightarrow> (transaction_status list \<times> transaction_status list \<times> store_error option) \<times> 'db" where
  "set_mined_loop pb ctx i now blockHash blockHeight [] prevs out d = ((prevs, out, None), d)"
| "set_mined_loop pb ctx i now blockHash blockHeight (txid # txids) prevs out d =
     (if ctx i then ((prevs, out, Some Cancelled), d)
      else case set_mined_row pb now blockHash blockHeight txid d of
             (Inl e, d') \<Rightarrow> ((prevs, out, Some e), d')
           | (Inr None, d') \<Rightarrow> set_mined_loop pb ctx (Suc i) now blockHash blockHeight txids prevs out d'
           | (Inr (Some (prev, new)), d') \<Rightarrow>
               set_mined_loop pb ctx (Suc i) now blockHash blockHeight txids (prevs @ [prev]) (out @ [new]) d')"

definition SetMinedByTxIDs ::
    "'db pebble \<Rightarrow> ctx \<Rightarrow> unix_ns \<Rightarrow> block_hash \<Rightarrow> nat \<Rightarrow> txid list \<Rightarrow> 'db
      \<Rightarrow> (transaction_status list \<times> transaction_status list \<times> store_error option) \<times> 'db" where
  "SetMinedByTxIDs pb ctx now blockHash blockHeight txids d =
     (if ctx 0 then (([], [], Some Cancelled), d)
      else set_mined_loop pb ctx 1 now blockHash blockHeight txids [] [] d)"

fun merkle_registered_loop :: "'db pebble \<Rightarrow> ctx \<Rightarrow> nat \<Rightarrow> unix_ns \<Rightarrow> txid list \<Rightarrow> 'db \<Rightarrow> unit result \<times> 'db" where
  "merkle_registered_loop pb ctx i tsNs [] d = (Inr (), d)"
| "merkle_registered_loop pb ctx i tsNs (txid # txids) d =
     (if ctx i then (Inl Cancelled, d)
      else case readStoredStatus pb d txid of
             Inl e \<Rightarrow> (Inl e, d)
           | Inr None \<Rightarrow> merkle_registered_loop pb ctx (Suc i) tsNs txids d
           | Inr (Some existing) \<Rightarrow>
               (case commit_then pb d [Put (txKey txid) (PStatus (existing\<lparr>ss_MerkleRegisteredUnixNs := tsNs\<rparr>))] () of
                  (Inl e, d') \<Rightarrow> (Inl e, d')
                | (Inr _, d') \<Rightarrow> merkle_registered_loop pb ctx (Suc i) tsNs txids d'))"

definition MarkMerkleRegisteredByTxIDs :: "'db pebble \<Rightarrow> ctx \<Rightarrow> txid list \<Rightarrow> unix_ns option \<Rightarrow> 'db \<Rightarrow> unit result \<times> 'db" where
  "MarkMerkleRegisteredByTxIDs pb ctx txids ts d =
     (if ctx 0 then (Inl Cancelled, d) else merkle_registered_loop pb ctx 1 (UnixNano ts) txids d)"

section \<open>The retry queue\<close>

definition BumpRetryCount :: "'db pebble \<Rightarrow> ctx \<Rightarrow> txid \<Rightarrow> 'db \<Rightarrow> int result \<times> 'db" where
  "BumpRetryCount pb ctx txid d =
     (if ctx 0 then (Inl Cancelled, d)
      else read_then (readStoredStatus pb d txid) d (\<lambda>row.
        case row of
          None \<Rightarrow> (Inl ErrNotFound, d)
        | Some existing \<Rightarrow>
            let updated = existing\<lparr>ss_RetryCount := ss_RetryCount existing + 1\<rparr>
            in commit_then pb d [Put (txKey txid) (PStatus updated)] (ss_RetryCount updated)))"

definition SetPendingRetryFields ::
    "'db pebble \<Rightarrow> ctx \<Rightarrow> unix_ns \<Rightarrow> txid \<Rightarrow> bytes \<Rightarrow> unix_ns option \<Rightarrow> string \<Rightarrow> 'db \<Rightarrow> unit result \<times> 'db" where
  "SetPendingRetryFields pb ctx now txid rawTx nextRetryAt lastReason d =
     (if ctx 0 then (Inl Cancelled, d)
      else read_then (readStoredStatus pb d txid) d (\<lambda>row.
        case row of
          None \<Rightarrow> (Inl ErrNotFound, d)
        | Some existing \<Rightarrow>
            if \<not> CanTransitionFrom StatusPendingRetry (ss_Status existing) then (Inr (), d)
            else let updated = existing\<lparr>ss_Status := StatusPendingRetry, ss_RawTx := rawTx,
                       ss_NextRetryUnixNs := UnixNano nextRetryAt, ss_TimestampUnixNs := now, ss_RetryReason := lastReason\<rparr>
                 in commit_then pb d (rewrite_ops txid existing updated) ()))"

definition ClearRetryState :: "'db pebble \<Rightarrow> ctx \<Rightarrow> unix_ns \<Rightarrow> txid \<Rightarrow> status \<Rightarrow> string \<Rightarrow> 'db \<Rightarrow> unit result \<times> 'db" where
  "ClearRetryState pb ctx now txid finalStatus extraInfo d =
     (if ctx 0 then (Inl Cancelled, d)
      else read_then (readStoredStatus pb d txid) d (\<lambda>row.
        case row of
          None \<Rightarrow> (Inr (), d)
        | Some existing \<Rightarrow>
            let u1 = existing\<lparr>ss_Status := finalStatus, ss_TimestampUnixNs := now, ss_RawTx := [],
                       ss_NextRetryUnixNs := 0, ss_RetryReason := []\<rparr>;
                updated = (if extraInfo \<noteq> [] then u1\<lparr>ss_ExtraInfo := extraInfo\<rparr> else u1)
            in commit_then pb d (rewrite_ops txid existing updated) ()))"

text \<open>
  \<open>fmt.Sscanf\<close> of a hexadecimal number into an \<open>int64\<close>: the longest run of hexadecimal digits, an
  error when there is none or the value is out of range.
\<close>

definition hex_val :: "string \<Rightarrow> nat" where
  "hex_val ds = foldl (\<lambda>a c. 16 * a + the (fromHexChar c)) 0 ds"

definition sscanf_x :: "string \<Rightarrow> int option" where
  "sscanf_x s =
     (let ds = takeWhile (\<lambda>c. fromHexChar c \<noteq> None) s
      in if ds = [] \<or> hex_val ds \<ge> 2 ^ 63 then None else Some (int (hex_val ds)))"

record pending_retry =
  pr_TxID :: txid
  pr_RawTx :: bytes
  pr_RetryCount :: int
  pr_NextRetryAt :: unix_ns
  pr_LastReason :: string

definition retry_of :: "storedStatus \<Rightarrow> pending_retry" where
  "retry_of st = \<lparr>pr_TxID = ss_TxID st, pr_RawTx = ss_RawTx st, pr_RetryCount = ss_RetryCount st,
     pr_NextRetryAt = ss_NextRetryUnixNs st, pr_LastReason = ss_RetryReason st\<rparr>"

fun ready_loop ::
    "'db pebble \<Rightarrow> 'db \<Rightarrow> ctx \<Rightarrow> nat \<Rightarrow> unix_ns \<Rightarrow> nat \<Rightarrow> pending_retry list \<Rightarrow> (bytes \<times> payload) list
      \<Rightarrow> pending_retry list \<times> store_error option" where
  "ready_loop pb d ctx i nowNs limit results [] = (results, None)"
| "ready_loop pb d ctx i nowNs limit results ((key, _) # kvs) =
     (if \<not> length results < limit then (results, None)
      else if ctx i then (results, Some Cancelled)
      else let rest = drop (length prefixIdxTxRetryReady) key in
        if length rest < 17 \<or> rest ! 16 \<noteq> CHR '':'' then ready_loop pb d ctx (Suc i) nowNs limit results kvs
        else case sscanf_x (take 16 rest) of
               None \<Rightarrow> ready_loop pb d ctx (Suc i) nowNs limit results kvs
             | Some nextNs \<Rightarrow>
                 if nextNs > nowNs then (results, None)
                 else (case pb_get pb d (txKey (drop 17 rest)) of
                         Inl e \<Rightarrow> (results, Some e)
                       | Inr None \<Rightarrow> ready_loop pb d ctx (Suc i) nowNs limit results kvs
                       | Inr (Some v) \<Rightarrow>
                           (case v of
                              PStatus st \<Rightarrow>
                                ready_loop pb d ctx (Suc i) nowNs limit
                                  (if ss_RawTx st = [] then results else results @ [retry_of st]) kvs
                            | _ \<Rightarrow> (results, Some Unparsable))))"

definition GetReadyRetries ::
    "'db pebble \<Rightarrow> ctx \<Rightarrow> unix_ns option \<Rightarrow> int \<Rightarrow> 'db \<Rightarrow> pending_retry list \<times> store_error option" where
  "GetReadyRetries pb ctx now limit d =
     (if limit \<le> 0 then ([], None)
      else if ctx 0 then ([], Some Cancelled)
      else case scan_prefix pb d prefixIdxTxRetryReady of
             Inl e \<Rightarrow> ([], Some e)
           | Inr kvs \<Rightarrow> ready_loop pb d ctx 1 (UnixNano now) (nat limit) [] kvs)"

section \<open>Index walks\<close>

definition since_ok :: "unix_ns option \<Rightarrow> unix_ns \<Rightarrow> bool" where
  "since_ok since ns \<longleftrightarrow> since = None \<or> \<not> ns < UnixNano since"

fun since_loop ::
    "'db pebble \<Rightarrow> 'db \<Rightarrow> ctx \<Rightarrow> nat \<Rightarrow> unix_ns option \<Rightarrow> transaction_status list \<Rightarrow> (bytes \<times> payload) list
      \<Rightarrow> transaction_status list \<times> store_error option" where
  "since_loop pb d ctx i since results [] = (results, None)"
| "since_loop pb d ctx i since results ((key, _) # kvs) =
     (if ctx i then (results, Some Cancelled)
      else since_loop pb d ctx (Suc i) since
             (case readStatus pb d (lastSegment key) of
                Inr (Some st) \<Rightarrow> if since_ok since (UnixNano (ts_Timestamp st)) then results @ [st] else results
              | _ \<Rightarrow> results) kvs)"

definition GetStatusesSince ::
    "'db pebble \<Rightarrow> ctx \<Rightarrow> unix_ns option \<Rightarrow> 'db \<Rightarrow> transaction_status list \<times> store_error option" where
  "GetStatusesSince pb ctx since d =
     (if ctx 0 then ([], Some Cancelled)
      else case scan_prefix pb d prefixIdxTxUpdated of
             Inl e \<Rightarrow> ([], Some e)
           | Inr kvs \<Rightarrow> since_loop pb d ctx 1 since [] kvs)"

text \<open>The callback of the streaming walks is a step on the caller's state that may fail.\<close>

fun iterate_since_loop ::
    "'db pebble \<Rightarrow> 'db \<Rightarrow> ctx \<Rightarrow> nat \<Rightarrow> unix_ns option \<Rightarrow> (transaction_status \<Rightarrow> 's \<Rightarrow> store_error option \<times> 's)
      \<Rightarrow> (bytes \<times> payload) list \<Rightarrow> 's \<Rightarrow> store_error option \<times> 's" where
  "iterate_since_loop pb d ctx i since fn [] s = (None, s)"
| "iterate_since_loop pb d ctx i since fn ((key, _) # kvs) s =
     (if ctx i then (Some Cancelled, s)
      else case readStatus pb d (lastSegment key) of
             Inr (Some st) \<Rightarrow>
               if since_ok since (UnixNano (ts_Timestamp st)) then
                 (case fn st s of
                    (Some e, s') \<Rightarrow> (Some e, s')
                  | (None, s') \<Rightarrow> iterate_since_loop pb d ctx (Suc i) since fn kvs s')
               else iterate_since_loop pb d ctx (Suc i) since fn kvs s
           | _ \<Rightarrow> iterate_since_loop pb d ctx (Suc i) since fn kvs s)"

definition IterateStatusesSince ::
    "'db pebble \<Rightarrow> ctx \<Rightarrow> unix_ns option \<Rightarrow> (transaction_status \<Rightarrow> 's \<Rightarrow> store_error option \<times> 's) \<Rightarrow> 'db \<Rightarrow> 's
      \<Rightarrow> store_error option \<times> 's" where
  "IterateStatusesSince pb ctx since fn d s =
     (if ctx 0 then (Some Cancelled, s)
      else case scan_prefix pb d prefixIdxTxUpdated of
             Inl e \<Rightarrow> (Some e, s)
           | Inr kvs \<Rightarrow> iterate_since_loop pb d ctx 1 since fn kvs s)"

record status_census =
  sc_Count :: nat
  sc_Oldest :: "unix_ns option"

fun census_loop ::
    "'db pebble \<Rightarrow> 'db \<Rightarrow> ctx \<Rightarrow> nat \<Rightarrow> unix_ns option \<Rightarrow> unix_ns \<Rightarrow> status_census \<Rightarrow> (bytes \<times> payload) list
      \<Rightarrow> (status_census \<times> nat) result" where
  "census_loop pb d ctx i since deadlineNs census [] = Inr (census, i)"
| "census_loop pb d ctx i since deadlineNs census ((key, _) # kvs) =
     (if ctx i then Inl Cancelled
      else census_loop pb d ctx (Suc i) since deadlineNs
             (case readStoredStatus pb d (lastSegment key) of
                Inr (Some st) \<Rightarrow>
                  let ns = ss_TimestampUnixNs st in
                  if \<not> since_ok since ns \<or> ns \<ge> deadlineNs then census
                  else \<lparr>sc_Count = sc_Count census + 1,
                        sc_Oldest = (case sc_Oldest census of
                                       None \<Rightarrow> Some ns | Some old \<Rightarrow> if ns < old then Some ns else Some old)\<rparr>
              | _ \<Rightarrow> census) kvs)"

fun census_statuses ::
    "'db pebble \<Rightarrow> 'db \<Rightarrow> ctx \<Rightarrow> nat \<Rightarrow> unix_ns option \<Rightarrow> unix_ns \<Rightarrow> (status \<rightharpoonup> status_census) \<Rightarrow> status list
      \<Rightarrow> (status \<rightharpoonup> status_census) result" where
  "census_statuses pb d ctx i since deadlineNs out [] = Inr out"
| "census_statuses pb d ctx i since deadlineNs out (status # statuses) =
     (case scan_prefix pb d (idxTxStatusPrefix status) of
        Inl e \<Rightarrow> Inl e
      | Inr kvs \<Rightarrow>
          (case census_loop pb d ctx i since deadlineNs \<lparr>sc_Count = 0, sc_Oldest = None\<rparr> kvs of
             Inl e \<Rightarrow> Inl e
           | Inr (census, i') \<Rightarrow>
               census_statuses pb d ctx i' since deadlineNs (out(status \<mapsto> census)) statuses))"

definition CensusStatusesSince ::
    "'db pebble \<Rightarrow> ctx \<Rightarrow> unix_ns option \<Rightarrow> unix_ns option \<Rightarrow> status list \<Rightarrow> 'db \<Rightarrow> (status \<rightharpoonup> status_census) result" where
  "CensusStatusesSince pb ctx since stuckDeadline statuses d =
     (if ctx 0 then Inl Cancelled
      else census_statuses pb d ctx 1 since (UnixNano stuckDeadline) Map.empty statuses)"

definition GetTxIDsByBlockHash :: "'db pebble \<Rightarrow> ctx \<Rightarrow> block_hash \<Rightarrow> 'db \<Rightarrow> txid list \<times> store_error option" where
  "GetTxIDsByBlockHash pb ctx blockHash d =
     (if ctx 0 then ([], Some Cancelled)
      else case scan_prefix pb d (idxTxBlockPrefix blockHash) of
             Inl e \<Rightarrow> ([], Some e)
           | Inr kvs \<Rightarrow> walk_ids ctx 1 [] kvs)"

fun tracker_rows_loop ::
    "'db pebble \<Rightarrow> 'db \<Rightarrow> ctx \<Rightarrow> nat \<Rightarrow> tracker_scan \<Rightarrow> status \<Rightarrow> (tracker_row \<Rightarrow> 's \<Rightarrow> store_error option \<times> 's)
      \<Rightarrow> (bytes \<times> payload) list \<Rightarrow> 's \<Rightarrow> nat \<times> store_error option \<times> 's" where
  "tracker_rows_loop pb d ctx i scan st fn [] s = (i, None, s)"
| "tracker_rows_loop pb d ctx i scan st fn ((key, _) # kvs) s =
     (if ctx i then (i, Some Cancelled, s)
      else case readStoredStatus pb d (lastSegment key) of
             Inr (Some r) \<Rightarrow>
               if ss_Status r = st \<and> Keep scan (ss_Status r) (ss_BlockHeight r) then
                 (case fn \<lparr>tr_TxID = ss_TxID r, tr_Status = ss_Status r, tr_BlockHeight = ss_BlockHeight r\<rparr> s of
                    (Some e, s') \<Rightarrow> (i, Some e, s')
                  | (None, s') \<Rightarrow> tracker_rows_loop pb d ctx (Suc i) scan st fn kvs s')
               else tracker_rows_loop pb d ctx (Suc i) scan st fn kvs s
           | _ \<Rightarrow> tracker_rows_loop pb d ctx (Suc i) scan st fn kvs s)"

fun tracker_statuses_loop ::
    "'db pebble \<Rightarrow> 'db \<Rightarrow> ctx \<Rightarrow> nat \<Rightarrow> tracker_scan \<Rightarrow> status list \<Rightarrow> (tracker_row \<Rightarrow> 's \<Rightarrow> store_error option \<times> 's)
      \<Rightarrow> 's \<Rightarrow> store_error option \<times> 's" where
  "tracker_statuses_loop pb d ctx i scan [] fn s = (None, s)"
| "tracker_statuses_loop pb d ctx i scan (st # sts) fn s =
     (case scan_prefix pb d (idxTxStatusPrefix st) of
        Inl e \<Rightarrow> (Some e, s)
      | Inr kvs \<Rightarrow>
          (case tracker_rows_loop pb d ctx i scan st fn kvs s of
             (_, Some e, s') \<Rightarrow> (Some e, s')
           | (i', None, s') \<Rightarrow> tracker_statuses_loop pb d ctx i' scan sts fn s'))"

definition IterateTrackerRows ::
    "'db pebble \<Rightarrow> ctx \<Rightarrow> tracker_scan \<Rightarrow> 'db \<Rightarrow> ('s, store_error) row_iterator" where
  "IterateTrackerRows pb ctx scan d fn s =
     (if ctx 0 then (Some Cancelled, s) else tracker_statuses_loop pb d ctx 1 scan TrackerStatuses fn s)"

end
