(* ===== verification/Pebble_Rows.thy ===== *)
theory Pebble_Rows
  imports Pebble_Status
begin

text \<open>
  The index entries of transaction rows as an instance of \<open>indexed_table\<close>, and the shape of every write
  to the table: each operation of \<open>Pebble_Status\<close> changes the store by a sequence of row writes, each of
  which replaces one row together with its index entries.
\<close>

section \<open>The transaction table\<close>

definition status_index_keys :: "storedStatus \<Rightarrow> bytes list" where
  "status_index_keys st =
     [idxTxStatusKey (ss_Status st) (ss_TxID st)] @
     (if ss_BlockHash st \<noteq> [] then [idxTxBlockKey (ss_BlockHash st) (ss_TxID st)] else []) @
     (if ss_Status st = StatusPendingRetry \<and> ss_NextRetryUnixNs st \<noteq> 0
      then [idxTxRetryReadyKey (ss_NextRetryUnixNs st) (ss_TxID st)] else []) @
     (if ss_TimestampUnixNs st \<noteq> 0 then [idxTxUpdatedKey (ss_TimestampUnixNs st) (ss_TxID st)] else [])"

lemma addStatusIndexes_keys: "addStatusIndexes st = map (\<lambda>k. Put k PNil) (status_index_keys st)"
  by (simp add: addStatusIndexes_def status_index_keys_def)

lemma removeStatusIndexes_keys: "removeStatusIndexes st = map Del (status_index_keys st)"
  by (simp add: removeStatusIndexes_def status_index_keys_def)

definition status_row_ok :: "storedStatus \<Rightarrow> bool" where
  "status_row_ok r \<longleftrightarrow> colon_free (ss_TxID r) \<and> colon_free (ss_Status r) \<and> colon_free (ss_BlockHash r)"

definition is_tx_index :: "bytes \<Rightarrow> bool" where
  "is_tx_index k \<longleftrightarrow> prefix ''idx:tx:'' k"

definition status_consistent :: "kv \<Rightarrow> bool" where
  "status_consistent = table_consistent txKey status_index_keys ss_TxID PStatus status_row_ok is_tx_index"

lemmas tx_key_defs = idxTxStatusKey_def idxTxBlockKey_def idxTxRetryReadyKey_def idxTxUpdatedKey_def

lemma lastSegment_key3: "colon_free s \<Longrightarrow> lastSegment (p @ q @ '':'' @ s) = s"
  using lastSegment_key [of s "p @ q"] by simp

lemma tx_index_owner:
  assumes "status_row_ok r" and "k \<in> set (status_index_keys r)"
  shows "lastSegment k = ss_TxID r"
  using assms
  by (auto simp: status_index_keys_def status_row_ok_def tx_key_defs lastSegment_key3 [simplified] split: if_splits)

lemma tx_index_space: "k \<in> set (status_index_keys r) \<Longrightarrow> is_tx_index k"
  by (auto simp: status_index_keys_def tx_key_defs is_tx_index_def prefix_defs split: if_splits)

interpretation tx: indexed_table txKey status_index_keys ss_TxID PStatus status_row_ok is_tx_index lastSegment
proof unfold_locales
  show "txKey a = txKey b \<Longrightarrow> a = b" for a b by (simp add: txKey_def)
  show "PStatus r = PStatus r' \<Longrightarrow> r = r'" for r r' by simp
  show "\<not> is_tx_index (txKey a)" for a by (simp add: txKey_def is_tx_index_def prefix_defs)
  show "k \<in> set (status_index_keys r) \<Longrightarrow> is_tx_index k" for k r by (rule tx_index_space)
  show "status_row_ok r \<Longrightarrow> k \<in> set (status_index_keys r) \<Longrightarrow> lastSegment k = ss_TxID r" for r k
    by (rule tx_index_owner)
qed

section \<open>Row writes\<close>

definition row_at :: "kv \<Rightarrow> txid \<Rightarrow> storedStatus option" where
  "row_at m t = (case m (txKey t) of Some (PStatus r) \<Rightarrow> Some r | _ \<Rightarrow> None)"

lemma row_at_key: "row_at m t = Some r \<longleftrightarrow> m (txKey t) = Some (PStatus r)"
  by (auto simp: row_at_def split: option.splits payload.splits)

lemma row_at_TxID:
  assumes "status_consistent m" and "row_at m t = Some r"
  shows "ss_TxID r = t" and "status_row_ok r"
  using tx.mk_row [of m t r] assms by (simp_all add: status_consistent_def row_at_key)

lemma consistent_row:
  assumes "status_consistent m" and "m (txKey t) = Some p"
  shows "\<exists>r. p = PStatus r"
  using tx.row_wf [of m t p] assms unfolding status_consistent_def by metis

text \<open>
  \<open>row_write T m m'\<close>: one row of the table is inserted or replaced, together with its index entries,
  and \<open>T\<close> relates the row before (if any) to the row after.
\<close>

definition row_write :: "(storedStatus option \<Rightarrow> storedStatus \<Rightarrow> bool) \<Rightarrow> kv \<Rightarrow> kv \<Rightarrow> bool" where
  "row_write T m m' \<longleftrightarrow> (\<exists>old new. T old new \<and> status_row_ok new \<and>
     m (txKey (ss_TxID new)) = map_option PStatus old \<and>
     (m' = apply_batch (map Del (case old of None \<Rightarrow> [] | Some q \<Rightarrow> status_index_keys q) @
              [Put (txKey (ss_TxID new)) (PStatus new)] @ map (\<lambda>k. Put k PNil) (status_index_keys new)) m \<or>
      (\<exists>q. old = Some q \<and> status_index_keys new = status_index_keys q \<and> m' = m(txKey (ss_TxID new) \<mapsto> PStatus new))))"

lemma row_write_consistent:
  assumes "status_consistent m" and "row_write T m m'"
  shows "status_consistent m'"
proof -
  obtain old new where w: "status_row_ok new" "m (txKey (ss_TxID new)) = map_option PStatus old"
    and m': "m' = apply_batch (map Del (case old of None \<Rightarrow> [] | Some q \<Rightarrow> status_index_keys q) @
              [Put (txKey (ss_TxID new)) (PStatus new)] @ map (\<lambda>k. Put k PNil) (status_index_keys new)) m \<or>
      (\<exists>q. old = Some q \<and> status_index_keys new = status_index_keys q \<and> m' = m(txKey (ss_TxID new) \<mapsto> PStatus new))"
    using assms(2) unfolding row_write_def by blast
  from m' show ?thesis
  proof
    assume e: "m' = apply_batch (map Del (case old of None \<Rightarrow> [] | Some q \<Rightarrow> status_index_keys q) @
              [Put (txKey (ss_TxID new)) (PStatus new)] @ map (\<lambda>k. Put k PNil) (status_index_keys new)) m"
    show ?thesis
      using assms(1) w unfolding status_consistent_def e by (intro tx.rewrite_consistent) auto
  next
    assume "\<exists>q. old = Some q \<and> status_index_keys new = status_index_keys q \<and> m' = m(txKey (ss_TxID new) \<mapsto> PStatus new)"
    then obtain q where q: "old = Some q" "status_index_keys new = status_index_keys q" "m' = m(txKey (ss_TxID new) \<mapsto> PStatus new)"
      by blast
    show ?thesis
      using tx.overwrite_consistent [OF assms(1) [unfolded status_consistent_def], of new q] w q
      by (simp add: status_consistent_def)
  qed
qed

lemma row_write_lookup:
  assumes "row_write T m m'"
  obtains old new where "T old new" "status_row_ok new" "m (txKey (ss_TxID new)) = map_option PStatus old"
    "\<And>t. m' (txKey t) = (if t = ss_TxID new then Some (PStatus new) else m (txKey t))"
proof -
  obtain old new where w: "T old new" "status_row_ok new" "m (txKey (ss_TxID new)) = map_option PStatus old"
    and m': "m' = apply_batch (map Del (case old of None \<Rightarrow> [] | Some q \<Rightarrow> status_index_keys q) @
              [Put (txKey (ss_TxID new)) (PStatus new)] @ map (\<lambda>k. Put k PNil) (status_index_keys new)) m \<or>
      (\<exists>q. old = Some q \<and> status_index_keys new = status_index_keys q \<and> m' = m(txKey (ss_TxID new) \<mapsto> PStatus new))"
    using assms unfolding row_write_def by blast
  have "m' (txKey t) = (if t = ss_TxID new then Some (PStatus new) else m (txKey t))" for t
    using m'
  proof
    assume "m' = apply_batch (map Del (case old of None \<Rightarrow> [] | Some q \<Rightarrow> status_index_keys q) @
              [Put (txKey (ss_TxID new)) (PStatus new)] @ map (\<lambda>k. Put k PNil) (status_index_keys new)) m"
    moreover have "set (case old of None \<Rightarrow> [] | Some q \<Rightarrow> status_index_keys q) \<subseteq> Collect is_tx_index"
      using tx_index_space by (cases old) auto
    ultimately show ?thesis using tx.rewrite_lookup(1) by simp
  qed (auto simp: txKey_def)
  then show thesis using that w by blast
qed

text \<open>A row write leaves every key outside the table as it is.\<close>

definition tx_space :: "bytes \<Rightarrow> bool" where
  "tx_space k \<longleftrightarrow> prefix prefixTx k \<or> is_tx_index k"

lemma txKey_space: "tx_space (txKey t)"
  by (simp add: tx_space_def txKey_def)

lemma row_write_frame:
  assumes "row_write T m m'" and "\<not> tx_space k"
  shows "m' k = m k"
proof -
  have ix: "k \<notin> set (status_index_keys r)" for r using assms(2) tx_index_space by (auto simp: tx_space_def)
  have "k \<noteq> txKey t" for t using assms(2) txKey_space by blast
  then show ?thesis
    using assms(1) ix unfolding row_write_def
    by (auto simp: apply_batch_puts apply_batch_dels split: option.splits)
qed

lemma row_write_mono: "row_write T m m' \<Longrightarrow> (\<And>old new. T old new \<Longrightarrow> T' old new) \<Longrightarrow> row_write T' m m'"
  unfolding row_write_def by blast

lemma rewrite_row_write:
  assumes "status_consistent m" and "row_at m t = Some q" and "ss_TxID new = t" and "status_row_ok new" and "T (Some q) new"
  shows "row_write T m (apply_batch (rewrite_ops t q new) m)"
  unfolding row_write_def rewrite_ops_def addStatusIndexes_keys removeStatusIndexes_keys
  using assms by (intro exI [of _ "Some q"] exI [of _ new]) (simp add: row_at_key)

section \<open>Reads\<close>

lemma readStoredStatus_view:
  assumes "pebble_ok pb view" and "readStoredStatus pb d t = Inr row"
  shows "row = row_at (view d) t" and "row = None \<Longrightarrow> view d (txKey t) = None"
  using assms pebble_get [OF assms(1), of d "txKey t"]
  by (auto simp: readStoredStatus_def row_at_def split: sum.splits option.splits payload.splits)

lemma readStatus_stored: "readStatus pb d t = map_sum id (map_option toModel) (readStoredStatus pb d t)"
  by (auto simp: readStatus_def readStoredStatus_def split: sum.splits option.splits payload.splits)

lemma readStoredStatus_up:
  assumes "pebble_ok pb view" and "pebble_up pb" and "status_consistent (view d)"
  shows "readStoredStatus pb d t = Inr (row_at (view d) t)"
  using pebble_up_get [OF assms(1,2), of d "txKey t"] consistent_row [OF assms(3), of t]
  by (cases "view d (txKey t)") (auto simp: readStoredStatus_def row_at_def)

section \<open>What each operation writes\<close>

text \<open>Either nothing, or one row write.\<close>

definition writes :: "(storedStatus option \<Rightarrow> storedStatus \<Rightarrow> bool) \<Rightarrow> kv \<Rightarrow> kv \<Rightarrow> bool" where
  "writes T m m' \<longleftrightarrow> m' = m \<or> row_write T m m'"

lemma writes_refl [simp]: "writes T m m"
  by (simp add: writes_def)

lemma commit_row_write:
  assumes "pebble_ok pb view" and "commit_then pb d ops r = (res, d')" and "row_write T (view d) (apply_batch ops (view d))"
  shows "writes T (view d) (view d')"
  using commit_then_view(1) [OF assms(1,2)] assms(3) by (auto simp: writes_def)

lemma writes_consistent: "status_consistent m \<Longrightarrow> writes T m m' \<Longrightarrow> status_consistent m'"
  unfolding writes_def using row_write_consistent by blast

lemma rewrite_writes:
  assumes "pebble_ok pb view" and "status_consistent (view d)" and "readStoredStatus pb d t = Inr (Some q)"
    and "commit_then pb d (rewrite_ops t q new) r = (res, d')"
    and "ss_TxID new = t" and "status_row_ok new" and "T (Some q) new"
  shows "writes T (view d) (view d')"
  using readStoredStatus_view(1) [OF assms(1,3)] assms
  by (intro commit_row_write [OF assms(1,4)] rewrite_row_write) simp_all

lemma stored_row:
  assumes "pebble_ok pb view" and "status_consistent (view d)" and "readStoredStatus pb d t = Inr (Some q)"
  shows "row_at (view d) t = Some q" and "ss_TxID q = t" and "status_row_ok q"
  using readStoredStatus_view(1) [OF assms(1,3)] row_at_TxID [OF assms(2), of t q] by simp_all

lemma overwrite_writes:
  assumes "pebble_ok pb view" and "status_consistent (view d)" and "readStoredStatus pb d t = Inr (Some q)"
    and "commit_then pb d [Put (txKey t) (PStatus new)] r = (res, d')"
    and "status_index_keys new = status_index_keys q" and "ss_TxID new = t" and "status_row_ok new" and "T (Some q) new"
  shows "writes T (view d) (view d')"
proof (rule commit_row_write [OF assms(1,4)])
  have "view d (txKey t) = Some (PStatus q)" using stored_row(1) [OF assms(1-3)] by (simp add: row_at_key)
  then show "row_write T (view d) (apply_batch [Put (txKey t) (PStatus new)] (view d))"
    unfolding row_write_def using assms(5-8) by (intro exI [of _ "Some q"] exI [of _ new]) simp
qed

text \<open>The rows a caller may ask for.\<close>

definition request_ok :: "transaction_status \<Rightarrow> bool" where
  "request_ok s \<longleftrightarrow> colon_free (ts_TxID s) \<and> colon_free (ts_Status s) \<and> colon_free (ts_BlockHash s)"

definition inserts :: "storedStatus option \<Rightarrow> storedStatus \<Rightarrow> bool" where
  "inserts old new \<longleftrightarrow> old = None"

lemma GetOrInsertStatus_writes:
  assumes "pebble_ok pb view" and "status_consistent (view d)" and "request_ok s"
    and "GetOrInsertStatus pb ctx now s d = (res, d')"
  shows "writes inserts (view d) (view d')"
proof (cases "\<not> ctx 0 \<and> readStoredStatus pb d (ts_TxID s) = Inr None")
  case True
  define s3 where "s3 = fresh_status now s"
  have c: "commit_then pb d (Put (txKey (ts_TxID s3)) (PStatus (fromModel s3)) # addStatusIndexes (fromModel s3)) (s3, True) = (res, d')"
    using assms(4) True by (simp add: GetOrInsertStatus_def readStatus_stored read_then_def Let_def writeStatusNew_def s3_def)
  have ok: "status_row_ok (fromModel s3)" "ss_TxID (fromModel s3) = ts_TxID s" "ts_TxID s3 = ts_TxID s"
    using assms(3)
    by (simp_all add: status_row_ok_def request_ok_def fromModel_def s3_def fresh_status_def Let_def colon_free_def StatusReceived_def)
  have none: "view d (txKey (ts_TxID s)) = None" using readStoredStatus_view(2) [OF assms(1)] True by blast
  show ?thesis
    using ok none
    by (intro commit_row_write [OF assms(1) c])
      (auto simp: row_write_def inserts_def addStatusIndexes_keys intro!: exI [of _ "None :: storedStatus option"] exI [of _ "fromModel s3"])
next
  case False
  then have "d' = d"
    using assms(4)
    by (cases "readStoredStatus pb d (ts_TxID s)")
      (auto simp: GetOrInsertStatus_def readStatus_stored read_then_def split: if_splits option.splits)
  then show ?thesis by simp
qed

text \<open>A write that keeps the status or moves it to one of \<open>K\<close> as the lattice allows.\<close>

definition lattice_allows :: "status set \<Rightarrow> storedStatus option \<Rightarrow> storedStatus \<Rightarrow> bool" where
  "lattice_allows K old new \<longleftrightarrow> (\<exists>q. old = Some q \<and>
     (ss_Status new = ss_Status q \<or> ss_Status new \<in> K \<and> CanTransitionFrom (ss_Status new) (ss_Status q)))"

lemma mergeStatus_row:
  "ss_TxID (mergeStatus q s) = ts_TxID s"
  "ss_Status (mergeStatus q s) = (if ts_Status s \<noteq> [] then ts_Status s else ss_Status q)"
  "status_row_ok q \<Longrightarrow> request_ok s \<Longrightarrow> status_row_ok (mergeStatus q s)"
  by (simp_all add: mergeStatus_def status_row_ok_def request_ok_def)

lemma UpdateStatusReturning_writes:
  assumes "pebble_ok pb view" and "status_consistent (view d)" and "request_ok s"
    and "UpdateStatusReturning pb ctx s d = (res, d')"
  shows "writes (lattice_allows ({ts_Status s} - {[]})) (view d) (view d')"
proof (cases "\<exists>q. \<not> ctx 0 \<and> readStoredStatus pb d (ts_TxID s) = Inr (Some q) \<and>
    (ts_Status s = [] \<or> CanTransitionFrom (ts_Status s) (ss_Status q))")
  case True
  then obtain q where q: "\<not> ctx 0" "readStoredStatus pb d (ts_TxID s) = Inr (Some q)"
    "ts_Status s = [] \<or> CanTransitionFrom (ts_Status s) (ss_Status q)" by blast
  have c: "commit_then pb d (rewrite_ops (ts_TxID s) q (mergeStatus q s)) \<lparr>su_Prev = Some (toModel q), su_Current = None\<rparr> = (res, d')"
    using assms(4) q by (auto simp: UpdateStatusReturning_def read_then_def)
  show ?thesis
    using stored_row [OF assms(1,2) q(2)] q(3) assms(3)
    by (intro rewrite_writes [OF assms(1,2) q(2) c]) (auto simp: mergeStatus_row lattice_allows_def)
next
  case False
  then have "d' = d"
    using assms(4) by (auto simp: UpdateStatusReturning_def read_then_def split: if_splits sum.splits option.splits)
  then show ?thesis by simp
qed

text \<open>A block-scoped rewrite: the row is anchored to the block and not IMMUTABLE.\<close>

definition block_scoped :: "block_hash \<Rightarrow> storedStatus option \<Rightarrow> storedStatus \<Rightarrow> bool" where
  "block_scoped b old new \<longleftrightarrow> (\<exists>q. old = Some q \<and> ss_BlockHash q = b \<and> ss_Status q \<noteq> StatusImmutable)"

lemma appendOrphanedAnchor_row [simp]:
  "ss_TxID (appendOrphanedAnchor now r) = ss_TxID r" "ss_Status (appendOrphanedAnchor now r) = ss_Status r"
  "ss_BlockHash (appendOrphanedAnchor now r) = ss_BlockHash r" "status_row_ok (appendOrphanedAnchor now r) = status_row_ok r"
  by (simp_all add: appendOrphanedAnchor_def Let_def status_row_ok_def)

lemma set_status_updated_row:
  "ss_TxID (set_status_updated now st q) = ss_TxID q" "ss_Status (set_status_updated now st q) = st"
  "status_row_ok q \<Longrightarrow> colon_free st \<Longrightarrow> status_row_ok (set_status_updated now st q)"
  by (auto simp: set_status_updated_def Let_def status_row_ok_def colon_free_def)

lemma set_status_row_writes:
  assumes "pebble_ok pb view" and "status_consistent (view d)" and "colon_free st"
    and "set_status_row pb now b st t d = (res, d')"
  shows "writes (block_scoped b) (view d) (view d')"
proof (cases "\<exists>q. readStoredStatus pb d t = Inr (Some q) \<and> ss_BlockHash q = b \<and> ss_Status q \<noteq> StatusImmutable")
  case True
  then obtain q where q: "readStoredStatus pb d t = Inr (Some q)" "ss_BlockHash q = b" "ss_Status q \<noteq> StatusImmutable" by blast
  have c: "commit_then pb d (rewrite_ops t q (set_status_updated now st q)) True = (res, d')"
    using assms(4) q by (simp add: set_status_row_def)
  show ?thesis
    using stored_row [OF assms(1,2) q(1)] q(2,3) assms(3)
    by (intro rewrite_writes [OF assms(1,2) q(1) c]) (auto simp: set_status_updated_row block_scoped_def)
next
  case False
  then have "d' = d" using assms(4) by (auto simp: set_status_row_def split: if_splits sum.splits option.splits)
  then show ?thesis by simp
qed

lemma StatusMined_colon_free [simp]: "colon_free StatusMined"
  by (simp add: colon_free_def StatusMined_def)

lemma set_mined_updated_row:
  "ss_TxID (set_mined_updated now b h q) = ss_TxID q" "ss_Status (set_mined_updated now b h q) = StatusMined"
  "ss_BlockHash (set_mined_updated now b h q) = b" "ss_BlockHeight (set_mined_updated now b h q) = h"
  "status_row_ok q \<Longrightarrow> colon_free b \<Longrightarrow> status_row_ok (set_mined_updated now b h q)"
  by (simp_all add: set_mined_updated_def status_row_ok_def)

lemma set_mined_row_cases:
  assumes "set_mined_row pb now b h t d = (res, d')"
  shows "(\<exists>q. readStoredStatus pb d t = Inr (Some q) \<and> CanTransitionFrom StatusMined (ss_Status q) \<and>
      commit_then pb d (rewrite_ops t q (set_mined_updated now b h q))
        (Some (toModel q, empty_status\<lparr>ts_TxID := t, ts_Status := StatusMined, ts_BlockHash := b,
                          ts_BlockHeight := h, ts_Timestamp := Some now\<rparr>)) = (res, d')) \<or> d' = d"
  using assms unfolding set_mined_row_def read_then_def
  by (auto split: if_splits sum.splits option.splits)

lemma set_mined_row_writes:
  assumes "pebble_ok pb view" and "status_consistent (view d)" and "colon_free b"
    and "set_mined_row pb now b h t d = (res, d')"
  shows "writes (lattice_allows {StatusMined}) (view d) (view d')"
  using set_mined_row_cases [OF assms(4)]
proof
  assume "\<exists>q. readStoredStatus pb d t = Inr (Some q) \<and> CanTransitionFrom StatusMined (ss_Status q) \<and>
      commit_then pb d (rewrite_ops t q (set_mined_updated now b h q))
        (Some (toModel q, empty_status\<lparr>ts_TxID := t, ts_Status := StatusMined, ts_BlockHash := b,
                          ts_BlockHeight := h, ts_Timestamp := Some now\<rparr>)) = (res, d')"
  then obtain q where q: "readStoredStatus pb d t = Inr (Some q)" "CanTransitionFrom StatusMined (ss_Status q)"
    "commit_then pb d (rewrite_ops t q (set_mined_updated now b h q))
        (Some (toModel q, empty_status\<lparr>ts_TxID := t, ts_Status := StatusMined, ts_BlockHash := b,
                          ts_BlockHeight := h, ts_Timestamp := Some now\<rparr>)) = (res, d')" by blast
  show ?thesis
    using stored_row [OF assms(1,2) q(1)] q(2) assms(3)
    by (intro rewrite_writes [OF assms(1,2) q(1) q(3)]) (auto simp: set_mined_updated_row lattice_allows_def)
qed simp

lemma BumpRetryCount_writes:
  assumes "pebble_ok pb view" and "status_consistent (view d)" and "BumpRetryCount pb ctx t d = (res, d')"
  shows "writes (lattice_allows {}) (view d) (view d')"
proof (cases "\<exists>q. \<not> ctx 0 \<and> readStoredStatus pb d t = Inr (Some q)")
  case True
  then obtain q where q: "\<not> ctx 0" "readStoredStatus pb d t = Inr (Some q)" by blast
  let ?u = "q\<lparr>ss_RetryCount := ss_RetryCount q + 1\<rparr>"
  have c: "commit_then pb d [Put (txKey t) (PStatus ?u)] (ss_RetryCount ?u) = (res, d')"
    using assms(3) q by (simp add: BumpRetryCount_def read_then_def Let_def)
  show ?thesis
    using stored_row [OF assms(1,2) q(2)]
    by (intro overwrite_writes [OF assms(1,2) q(2) c]) (auto simp: status_index_keys_def status_row_ok_def lattice_allows_def)
next
  case False
  then have "d' = d"
    using assms(3) by (auto simp: BumpRetryCount_def read_then_def split: if_splits sum.splits option.splits)
  then show ?thesis by simp
qed

lemma StatusPendingRetry_colon_free [simp]: "colon_free StatusPendingRetry"
  by (simp add: colon_free_def StatusPendingRetry_def)

lemma SetPendingRetryFields_writes:
  assumes "pebble_ok pb view" and "status_consistent (view d)"
    and "SetPendingRetryFields pb ctx now t raw next reason d = (res, d')"
  shows "writes (lattice_allows {StatusPendingRetry}) (view d) (view d')"
proof (cases "\<exists>q. \<not> ctx 0 \<and> readStoredStatus pb d t = Inr (Some q) \<and> CanTransitionFrom StatusPendingRetry (ss_Status q)")
  case True
  then obtain q where q: "\<not> ctx 0" "readStoredStatus pb d t = Inr (Some q)" "CanTransitionFrom StatusPendingRetry (ss_Status q)" by blast
  let ?u = "q\<lparr>ss_Status := StatusPendingRetry, ss_RawTx := raw, ss_NextRetryUnixNs := UnixNano next,
              ss_TimestampUnixNs := now, ss_RetryReason := reason\<rparr>"
  have c: "commit_then pb d (rewrite_ops t q ?u) () = (res, d')"
    using assms(3) q by (simp add: SetPendingRetryFields_def read_then_def Let_def)
  show ?thesis
    using stored_row [OF assms(1,2) q(2)] q(3)
    by (intro rewrite_writes [OF assms(1,2) q(2) c]) (auto simp: status_row_ok_def lattice_allows_def)
next
  case False
  then have "d' = d"
    using assms(3) by (auto simp: SetPendingRetryFields_def read_then_def split: if_splits sum.splits option.splits)
  then show ?thesis by simp
qed

definition any_rewrite :: "storedStatus option \<Rightarrow> storedStatus \<Rightarrow> bool" where
  "any_rewrite old new \<longleftrightarrow> old \<noteq> None"

lemma ClearRetryState_writes:
  assumes "pebble_ok pb view" and "status_consistent (view d)" and "colon_free st"
    and "ClearRetryState pb ctx now t st extra d = (res, d')"
  shows "writes any_rewrite (view d) (view d')"
proof (cases "\<exists>q. \<not> ctx 0 \<and> readStoredStatus pb d t = Inr (Some q)")
  case True
  then obtain q where q: "\<not> ctx 0" "readStoredStatus pb d t = Inr (Some q)" by blast
  define u1 where "u1 = q\<lparr>ss_Status := st, ss_TimestampUnixNs := now, ss_RawTx := [], ss_NextRetryUnixNs := 0, ss_RetryReason := []\<rparr>"
  define u where "u = (if extra \<noteq> [] then u1\<lparr>ss_ExtraInfo := extra\<rparr> else u1)"
  have c: "commit_then pb d (rewrite_ops t q u) () = (res, d')"
    using assms(4) q by (cases "extra = []") (simp_all add: ClearRetryState_def read_then_def Let_def u_def u1_def)
  have u: "ss_TxID u = ss_TxID q" "status_row_ok q \<Longrightarrow> status_row_ok u"
    using assms(3) by (simp_all add: u_def u1_def status_row_ok_def)
  show ?thesis
    using stored_row [OF assms(1,2) q(2)] u
    by (intro rewrite_writes [OF assms(1,2) q(2) c]) (auto simp: any_rewrite_def)
next
  case False
  then have "d' = d"
    using assms(4) by (auto simp: ClearRetryState_def read_then_def split: if_splits sum.splits option.splits)
  then show ?thesis by simp
qed

end
