(* ===== verification/Pebble_Status_Correct.thy ===== *)
theory Pebble_Status_Correct
  imports Pebble_Rows
begin

text \<open>
  Correctness of the transaction table: the loops as sequences of row writes, the index walks, guarded
  and block-scoped writes, the retry queue, and the hydration of the tracker from the store.
\<close>

section \<open>Loops as sequences of row writes\<close>

lemma writes_rtranclp_consistent:
  "(writes T)\<^sup>*\<^sup>* m m' \<Longrightarrow> status_consistent m \<Longrightarrow> status_consistent m'"
  by (induction rule: rtranclp_induct) (auto intro: writes_consistent)

lemma set_status_loop_writes:
  assumes "pebble_ok pb view" and "colon_free st"
  shows "status_consistent (view d) \<Longrightarrow> set_status_loop pb now b st acc ts d = (res, d') \<Longrightarrow>
    (writes (block_scoped b))\<^sup>*\<^sup>* (view d) (view d')"
proof (induction ts arbitrary: acc d)
  case (Cons t ts)
  obtain r d1 where r: "set_status_row pb now b st t d = (r, d1)" by fastforce
  have w: "writes (block_scoped b) (view d) (view d1)" by (rule set_status_row_writes [OF assms(1) Cons.prems(1) assms(2) r])
  show ?case
  proof (cases r)
    case (Inl e)
    then show ?thesis using Cons.prems(2) r w by simp
  next
    case (Inr wrote)
    have "(writes (block_scoped b))\<^sup>*\<^sup>* (view d1) (view d')"
      using Cons.prems(2) r Inr by (intro Cons.IH [OF writes_consistent [OF Cons.prems(1) w]]) simp
    with w show ?thesis by (rule converse_rtranclp_into_rtranclp)
  qed
qed simp

lemma SetStatusByBlockHash_writes:
  assumes "pebble_ok pb view" and "colon_free st" and "status_consistent (view d)"
    and "SetStatusByBlockHash pb ctx now b st d = (res, d')"
  shows "(writes (block_scoped b))\<^sup>*\<^sup>* (view d) (view d')"
  using assms(4) set_status_loop_writes [OF assms(1,2,3)]
  by (auto simp: SetStatusByBlockHash_def split: if_splits sum.splits prod.splits option.splits)

lemma set_mined_loop_writes:
  assumes "pebble_ok pb view" and "colon_free b"
  shows "status_consistent (view d) \<Longrightarrow> set_mined_loop pb ctx i now b h ts prevs out d = (res, d') \<Longrightarrow>
    (writes (lattice_allows {StatusMined}))\<^sup>*\<^sup>* (view d) (view d')"
proof (induction ts arbitrary: i prevs out d)
  case (Cons t ts)
  obtain r d1 where r: "set_mined_row pb now b h t d = (r, d1)" by fastforce
  have w: "writes (lattice_allows {StatusMined}) (view d) (view d1)" by (rule set_mined_row_writes [OF assms(1) Cons.prems(1) assms(2) r])
  note IH = Cons.IH [OF writes_consistent [OF Cons.prems(1) w]]
  show ?case
  proof (cases "ctx i \<or> isl r")
    case True
    then show ?thesis using Cons.prems(2) r w by (auto split: if_splits sum.splits)
  next
    case False
    then have "(writes (lattice_allows {StatusMined}))\<^sup>*\<^sup>* (view d1) (view d')"
      using Cons.prems(2) r IH by (auto split: sum.splits option.splits)
    with w show ?thesis by (rule converse_rtranclp_into_rtranclp)
  qed
qed simp

lemma SetMinedByTxIDs_writes:
  assumes "pebble_ok pb view" and "colon_free b" and "status_consistent (view d)"
    and "SetMinedByTxIDs pb ctx now b h ts d = (res, d')"
  shows "(writes (lattice_allows {StatusMined}))\<^sup>*\<^sup>* (view d) (view d')"
  using assms(4) set_mined_loop_writes [OF assms(1,2,3)] by (auto simp: SetMinedByTxIDs_def split: if_splits)

lemma merkle_registered_loop_writes:
  assumes "pebble_ok pb view"
  shows "status_consistent (view d) \<Longrightarrow> merkle_registered_loop pb ctx i ns ts d = (res, d') \<Longrightarrow>
    (writes (lattice_allows {}))\<^sup>*\<^sup>* (view d) (view d')"
proof (induction ts arbitrary: i d)
  case (Cons t ts)
  show ?case
  proof (cases "\<exists>q. \<not> ctx i \<and> readStoredStatus pb d t = Inr (Some q)")
    case True
    then obtain q where q: "\<not> ctx i" "readStoredStatus pb d t = Inr (Some q)" by blast
    let ?u = "q\<lparr>ss_MerkleRegisteredUnixNs := ns\<rparr>"
    obtain r d1 where c: "commit_then pb d [Put (txKey t) (PStatus ?u)] () = (r, d1)" by fastforce
    have w: "writes (lattice_allows {}) (view d) (view d1)"
      using stored_row [OF assms Cons.prems(1) q(2)]
      by (intro overwrite_writes [OF assms Cons.prems(1) q(2) c]) (auto simp: status_index_keys_def status_row_ok_def lattice_allows_def)
    show ?thesis
    proof (cases r)
      case (Inl e)
      then show ?thesis using Cons.prems(2) q c w by auto
    next
      case (Inr u)
      have "(writes (lattice_allows {}))\<^sup>*\<^sup>* (view d1) (view d')"
        using Cons.prems(2) q c Inr by (intro Cons.IH [OF writes_consistent [OF Cons.prems(1) w]]) simp
      with w show ?thesis by (rule converse_rtranclp_into_rtranclp)
    qed
  next
    case False
    then show ?thesis using Cons.prems Cons.IH by (auto split: if_splits sum.splits option.splits)
  qed
qed simp

section \<open>Index walks\<close>

lemma walk_ids_all: "uncancelled ctx \<Longrightarrow> walk_ids ctx i ids kvs = (ids @ map (lastSegment \<circ> fst) kvs, None)"
  by (induction kvs arbitrary: i ids) (auto dest: uncancelledD)

text \<open>The ids under a prefix \<open>p\<close>, when every key there is \<open>p\<close> followed by an id.\<close>

lemma walk_sorted_ids:
  assumes "pebble_ok pb view" and "scan_prefix pb d p = Inr kvs"
    and "{k. view d k \<noteq> None \<and> prefix p k} = (\<lambda>t. p @ t) ` S"
    and "\<And>t. t \<in> S \<Longrightarrow> lastSegment (p @ t) = t"
  shows "map (lastSegment \<circ> fst) kvs = sorted_list_of_set S" and "map fst kvs = map (\<lambda>t. p @ t) (sorted_list_of_set S)"
    and "finite S"
proof -
  define ids where "ids = map (lastSegment \<circ> fst) kvs"
  have keys: "fst ` set kvs = (\<lambda>t. p @ t) ` S" using scan_prefix_keys [OF assms(1,2)] assms(3) by simp
  have "k = p @ lastSegment k" if "k \<in> fst ` set kvs" for k
    using that assms(4) unfolding keys by auto
  then have mapk: "map fst kvs = map (\<lambda>t. p @ t) ids"
    unfolding ids_def by (simp add: comp_def)
  have "sorted_wrt (<) (map (\<lambda>t. p @ t) ids)" using scan_prefix_sorted [OF assms(1,2)] mapk by simp
  then have s: "sorted_wrt (<) ids" by (simp add: sorted_wrt_map append_less_iff)
  have "(\<lambda>t. p @ t) ` set ids = (\<lambda>t. p @ t) ` S" using keys mapk by (metis list.set_map)
  then have "set ids = S" by (simp add: inj_image_eq_iff inj_def)
  then have "ids = sorted_list_of_set S" using s by (metis sorted_list_of_set.idem_if_sorted_distinct strict_sorted_iff)
  then show "map (lastSegment \<circ> fst) kvs = sorted_list_of_set S" "map fst kvs = map (\<lambda>t. p @ t) (sorted_list_of_set S)"
    using mapk by (simp_all add: ids_def)
  show "finite S" using \<open>set ids = S\<close> by (metis List.finite_set)
qed

definition rows_where :: "kv \<Rightarrow> (storedStatus \<Rightarrow> bool) \<Rightarrow> txid set" where
  "rows_where m P = {t. \<exists>q. row_at m t = Some q \<and> P q}"

lemma block_index_keys:
  assumes "status_consistent m" and "colon_free b" and "b \<noteq> []"
  shows "{k. m k \<noteq> None \<and> prefix (idxTxBlockPrefix b) k} = (\<lambda>t. idxTxBlockPrefix b @ t) ` rows_where m (\<lambda>q. ss_BlockHash q = b)"
    (is "?L = ?R")
proof
  show "?L \<subseteq> ?R"
  proof
    fix k assume "k \<in> ?L"
    then have k: "m k \<noteq> None" "prefix (idxTxBlockPrefix b) k" by auto
    then have "is_tx_index k" by (auto simp: is_tx_index_def idxTxBlockPrefix_def prefix_defs prefix_def)
    then obtain r where r: "m (txKey (lastSegment k)) = Some (PStatus r)" "ss_TxID r = lastSegment k"
      "k \<in> set (status_index_keys r)" "status_row_ok r"
      using tx.entry_row assms(1) k(1) unfolding status_consistent_def by metis
    have "k = idxTxBlockKey (ss_BlockHash r) (ss_TxID r)"
      using r(3) k(2) by (auto simp: status_index_keys_def tx_key_defs idxTxBlockPrefix_def prefix_defs split: if_splits)
    moreover from this have "ss_BlockHash r = b"
      using k(2) r(4) assms(2)
      by (simp add: idxTxBlockKey_def idxTxBlockPrefix_def prefix_colon [simplified] status_row_ok_def)
    ultimately show "k \<in> ?R" using r(1,2) by (auto simp: rows_where_def row_at_key idxTxBlockKey_def idxTxBlockPrefix_def)
  qed
  show "?R \<subseteq> ?L"
  proof
    fix k assume "k \<in> ?R"
    then obtain t q where t: "k = idxTxBlockPrefix b @ t" "row_at m t = Some q" "ss_BlockHash q = b"
      by (auto simp: rows_where_def)
    have "k \<in> set (status_index_keys q)"
      using t assms(3) row_at_TxID [OF assms(1) t(2)] by (simp add: status_index_keys_def idxTxBlockKey_def idxTxBlockPrefix_def)
    then have "m k \<noteq> None"
      using tx.row_entry [of m t q k] assms(1) t(2) by (simp add: status_consistent_def row_at_key)
    then show "k \<in> ?L" using t(1) by simp
  qed
qed

lemma block_index_owner:
  assumes "status_consistent m" and "t \<in> rows_where m P"
  shows "lastSegment (idxTxBlockPrefix b @ t) = t" and "lastSegment (idxTxStatusPrefix s @ t) = t"
  using assms row_at_TxID [OF assms(1), of t]
  by (auto simp: rows_where_def idxTxBlockPrefix_def idxTxStatusPrefix_def status_row_ok_def lastSegment_key3 [simplified])

text \<open>
  The anchored transactions of a block: on an engine that works, \<open>GetTxIDsByBlockHash\<close> returns, in
  ascending order and once each, exactly the transactions whose row carries that block hash.
\<close>

theorem GetTxIDsByBlockHash_exact:
  assumes "pebble_ok pb view" and "pebble_up pb" and "status_consistent (view d)"
    and "colon_free b" and "b \<noteq> []" and "uncancelled ctx"
  shows "GetTxIDsByBlockHash pb ctx b d = (sorted_list_of_set (rows_where (view d) (\<lambda>q. ss_BlockHash q = b)), None)"
proof -
  obtain kvs where kvs: "scan_prefix pb d (idxTxBlockPrefix b) = Inr kvs" by (rule scan_up [OF assms(2)])
  show ?thesis
    using kvs assms(6) walk_sorted_ids(1) [OF assms(1) kvs block_index_keys [OF assms(3-5)] block_index_owner(1) [OF assms(3)]]
    by (simp add: GetTxIDsByBlockHash_def walk_ids_all uncancelledD)
qed

definition sample_row :: "txid \<Rightarrow> status \<Rightarrow> block_hash \<Rightarrow> storedStatus" where
  "sample_row t s b = (fromModel (empty_status\<lparr>ts_TxID := t, ts_Status := s, ts_BlockHash := b\<rparr>))"

definition sample_db :: "(bytes \<times> payload) list" where
  "sample_db = fold mem_op
     (Put (txKey ''t1'') (PStatus (sample_row ''t1'' StatusMined ''b'')) # addStatusIndexes (sample_row ''t1'' StatusMined ''b'') @
      Put (txKey ''t2'') (PStatus (sample_row ''t2'' StatusImmutable ''b'')) # addStatusIndexes (sample_row ''t2'' StatusImmutable ''b'')) []"

lemma sample_rows [simp]:
  "ss_TxID (sample_row t s b) = t" "ss_Status (sample_row t s b) = s" "ss_BlockHash (sample_row t s b) = b"
  "ss_TimestampUnixNs (sample_row t s b) = 0" "ss_NextRetryUnixNs (sample_row t s b) = 0" "ss_RawTx (sample_row t s b) = []"
  by (simp_all add: sample_row_def fromModel_def empty_status_def stored_time_def)

lemma empty_consistent: "status_consistent Map.empty"
  by (simp add: status_consistent_def table_consistent_def)

lemma insert_row_write:
  assumes "m (txKey (ss_TxID r)) = None" and "status_row_ok r"
  shows "row_write inserts m (apply_batch (Put (txKey (ss_TxID r)) (PStatus r) # addStatusIndexes r) m)"
  unfolding row_write_def inserts_def addStatusIndexes_keys
  using assms by (intro exI [of _ "None :: storedStatus option"] exI [of _ r]) simp

lemma sample_db_view:
  "status_consistent (map_of sample_db)" "row_at (map_of sample_db) ''t1'' = Some (sample_row ''t1'' StatusMined ''b'')"
  "row_at (map_of sample_db) ''t2'' = Some (sample_row ''t2'' StatusImmutable ''b'')"
  "rows_where (map_of sample_db) (\<lambda>q. ss_BlockHash q = ''b'') = {''t1'', ''t2''}"
proof -
  define r1 where "r1 = sample_row ''t1'' StatusMined ''b''"
  define r2 where "r2 = sample_row ''t2'' StatusImmutable ''b''"
  define m1 where "m1 = apply_batch (Put (txKey (ss_TxID r1)) (PStatus r1) # addStatusIndexes r1) Map.empty"
  define m2 where "m2 = apply_batch (Put (txKey (ss_TxID r2)) (PStatus r2) # addStatusIndexes r2) m1"
  have v: "map_of sample_db = m2"
    unfolding sample_db_def mem_view m2_def m1_def r1_def r2_def by simp
  have ok: "status_row_ok r1" "status_row_ok r2"
    by (simp_all add: r1_def r2_def status_row_ok_def colon_free_def StatusMined_def StatusImmutable_def)
  have w1: "row_write inserts Map.empty m1" unfolding m1_def by (rule insert_row_write) (use ok in simp_all)
  have k1: "m1 (txKey t) = (if t = ''t1'' then Some (PStatus r1) else None)" for t
    by (auto simp: m1_def addStatusIndexes_keys apply_batch_puts status_index_keys_def tx_key_defs prefix_defs txKey_def r1_def)
  have w2: "row_write inserts m1 m2" unfolding m2_def by (rule insert_row_write) (use ok k1 in \<open>simp_all add: r2_def\<close>)
  have k2: "m2 (txKey t) = (if t = ''t2'' then Some (PStatus r2) else if t = ''t1'' then Some (PStatus r1) else None)" for t
    using k1 by (auto simp: m2_def addStatusIndexes_keys apply_batch_puts status_index_keys_def tx_key_defs prefix_defs txKey_def r2_def)
  show "status_consistent (map_of sample_db)"
    unfolding v by (rule row_write_consistent [OF row_write_consistent [OF empty_consistent w1] w2])
  have "row_at m2 t = (if t = ''t2'' then Some r2 else if t = ''t1'' then Some r1 else None)" for t
    by (simp add: row_at_def k2)
  then show "row_at (map_of sample_db) ''t1'' = Some (sample_row ''t1'' StatusMined ''b'')"
    "row_at (map_of sample_db) ''t2'' = Some (sample_row ''t2'' StatusImmutable ''b'')"
    "rows_where (map_of sample_db) (\<lambda>q. ss_BlockHash q = ''b'') = {''t1'', ''t2''}"
    by (auto simp: v r1_def r2_def rows_where_def)
qed

theorem GetTxIDsByBlockHash_exact_witness:
  "GetTxIDsByBlockHash mem (\<lambda>_. False) ''b'' sample_db = ([''t1'', ''t2''], None)"
  using GetTxIDsByBlockHash_exact [OF mem_ok mem_up sample_db_view(1) _ _ uncancelled_never, of "''b''"] sample_db_view(4)
  by (simp add: colon_free_def sorted_list_of_set_insert_remove less_char_def)

section \<open>Single-row writes\<close>

lemma rewrite_row_at:
  assumes "status_consistent m" and "row_at m t = Some q" and "ss_TxID new = t" and "status_row_ok new"
  shows "row_at (apply_batch (rewrite_ops t q new) m) x = (if x = t then Some new else row_at m x)"
    and "status_consistent (apply_batch (rewrite_ops t q new) m)"
proof -
  have w: "row_write any_rewrite m (apply_batch (rewrite_ops t q new) m)"
    by (rule rewrite_row_write [OF assms]) (simp add: any_rewrite_def)
  show "status_consistent (apply_batch (rewrite_ops t q new) m)" by (rule row_write_consistent [OF assms(1) w])
  have "apply_batch (rewrite_ops t q new) m (txKey x) = (if x = t then Some (PStatus new) else m (txKey x))"
    unfolding rewrite_ops_def addStatusIndexes_keys removeStatusIndexes_keys
    by (rule tx.rewrite_lookup(1)) (use tx_index_space in blast)
  then show "row_at (apply_batch (rewrite_ops t q new) m) x = (if x = t then Some new else row_at m x)"
    by (simp add: row_at_def)
qed

lemma rewrite_up:
  assumes "pebble_ok pb view" and "pebble_up pb" and "status_consistent (view d)" and "row_at (view d) t = Some q"
    and "ss_TxID new = t" and "status_row_ok new"
  obtains d' where "commit_then pb d (rewrite_ops t q new) r = (Inr r, d')" "status_consistent (view d')"
    "\<forall>x. row_at (view d') x = (if x = t then Some new else row_at (view d) x)"
proof -
  obtain d' where d': "commit_then pb d (rewrite_ops t q new) r = (Inr r, d')" "view d' = apply_batch (rewrite_ops t q new) (view d)"
    by (rule commit_then_up [OF assms(1,2)])
  show thesis by (rule that [OF d'(1)]) (simp_all add: d'(2) rewrite_row_at [OF assms(3-6)])
qed

text \<open>
  C12. A guarded update on an engine that works: an unknown transaction is \<open>ErrNotFound\<close> and nothing is
  created; a transition the lattice forbids returns the durable row as \<open>Current\<close> and writes nothing;
  any other update returns the row before as \<open>Prev\<close>, leaves the merged row, changes no other row and
  keeps the index entries exact.
\<close>

theorem UpdateStatusReturning_exact:
  assumes "pebble_ok pb view" and "pebble_up pb" and "status_consistent (view d)" and "request_ok s" and "\<not> ctx 0"
    and "UpdateStatusReturning pb ctx s d = (res, d')"
  shows "case row_at (view d) (ts_TxID s) of
      None \<Rightarrow> res = Inl ErrNotFound \<and> view d' = view d
    | Some q \<Rightarrow>
        if ts_Status s \<noteq> [] \<and> \<not> CanTransitionFrom (ts_Status s) (ss_Status q)
        then res = Inr \<lparr>su_Prev = None, su_Current = Some (toModel q)\<rparr> \<and> view d' = view d
        else res = Inr \<lparr>su_Prev = Some (toModel q), su_Current = None\<rparr> \<and> status_consistent (view d') \<and>
             (\<forall>x. row_at (view d') x = (if x = ts_TxID s then Some (mergeStatus q s) else row_at (view d) x))"
proof (cases "row_at (view d) (ts_TxID s)")
  case None
  then show ?thesis using assms(5,6) readStoredStatus_up [OF assms(1-3)] by (auto simp: UpdateStatusReturning_def read_then_def)
next
  case (Some q)
  have ok: "status_row_ok (mergeStatus q s)"
    using row_at_TxID [OF assms(3) Some] assms(4) by (simp add: mergeStatus_row)
  show ?thesis
  proof (cases "ts_Status s \<noteq> [] \<and> \<not> CanTransitionFrom (ts_Status s) (ss_Status q)")
    case True
    then show ?thesis
      using Some assms(5,6) readStoredStatus_up [OF assms(1-3)] by (auto simp: UpdateStatusReturning_def read_then_def)
  next
    case False
    let ?r = "\<lparr>su_Prev = Some (toModel q), su_Current = None\<rparr>"
    obtain d1 where d1: "commit_then pb d (rewrite_ops (ts_TxID s) q (mergeStatus q s)) ?r = (Inr ?r, d1)" "status_consistent (view d1)"
      "\<forall>x. row_at (view d1) x = (if x = ts_TxID s then Some (mergeStatus q s) else row_at (view d) x)"
      by (rule rewrite_up [OF assms(1-3) Some mergeStatus_row(1) ok, where r = ?r])
    moreover have "(res, d') = (Inr ?r, d1)"
      using False Some assms(5,6) d1(1) readStoredStatus_up [OF assms(1-3)]
      by (simp add: UpdateStatusReturning_def read_then_def split: if_splits)
    ultimately show ?thesis using False Some by auto
  qed
qed

definition late_seen :: transaction_status where
  "late_seen = empty_status\<lparr>ts_TxID := ''t1'', ts_Status := StatusSeenOnNetwork\<rparr>"

theorem UpdateStatusReturning_exact_witness:
  "fst (UpdateStatusReturning mem (\<lambda>_. False) late_seen sample_db) =
     Inr \<lparr>su_Prev = None, su_Current = Some (toModel (sample_row ''t1'' StatusMined ''b''))\<rparr>"
proof -
  have "request_ok late_seen" "\<not> CanTransitionFrom StatusSeenOnNetwork StatusMined" "StatusSeenOnNetwork \<noteq> []"
    by (simp_all add: request_ok_def late_seen_def empty_status_def colon_free_def CanTransitionFrom_def
        DisallowedPreviousStatuses_def status_defs)
  then show ?thesis
    using UpdateStatusReturning_exact [OF mem_ok mem_up sample_db_view(1), of late_seen "\<lambda>_. False"] sample_db_view(2)
    by (cases "UpdateStatusReturning mem (\<lambda>_. False) late_seen sample_db") (simp add: late_seen_def)
qed

section \<open>Block-scoped writes\<close>

definition revertible :: "block_hash \<Rightarrow> storedStatus \<Rightarrow> bool" where
  "revertible b q \<longleftrightarrow> ss_BlockHash q = b \<and> ss_Status q \<noteq> StatusImmutable"

lemma set_status_row_up:
  assumes "pebble_ok pb view" and "pebble_up pb" and "status_consistent (view d)" and "colon_free st"
  obtains d' where "set_status_row pb now b st t d = (Inr (t \<in> rows_where (view d) (revertible b)), d')"
    "status_consistent (view d')"
    "\<forall>x. row_at (view d') x = (if x = t then map_option (\<lambda>q. if revertible b q then set_status_updated now st q else q) (row_at (view d) t)
            else row_at (view d) x)"
proof (cases "t \<in> rows_where (view d) (revertible b)")
  case True
  then obtain q where q: "row_at (view d) t = Some q" "revertible b q" by (auto simp: rows_where_def)
  have new: "ss_TxID (set_status_updated now st q) = t" "status_row_ok (set_status_updated now st q)"
    using row_at_TxID [OF assms(3) q(1)] assms(4) by (simp_all add: set_status_updated_row)
  obtain d1 where d1: "commit_then pb d (rewrite_ops t q (set_status_updated now st q)) True = (Inr True, d1)" "status_consistent (view d1)"
    "\<forall>x. row_at (view d1) x = (if x = t then Some (set_status_updated now st q) else row_at (view d) x)"
    by (rule rewrite_up [OF assms(1-3) q(1) new, where r = True])
  have "set_status_row pb now b st t d = (Inr True, d1)"
    using q d1(1) readStoredStatus_up [OF assms(1-3)] by (simp add: set_status_row_def revertible_def)
  then show ?thesis using that [of d1] d1(2,3) q True by simp
next
  case False
  have "set_status_row pb now b st t d = (Inr False, d)"
    using False readStoredStatus_up [OF assms(1-3)]
    by (auto simp: set_status_row_def rows_where_def revertible_def split: option.splits)
  moreover have "map_option (\<lambda>q. if revertible b q then set_status_updated now st q else q) (row_at (view d) t) = row_at (view d) t"
    using False by (cases "row_at (view d) t") (auto simp: rows_where_def)
  ultimately show ?thesis using that [of d] False assms(3) by simp
qed

lemma set_status_loop_up:
  assumes "pebble_ok pb view" and "pebble_up pb" and "colon_free st"
  shows "status_consistent (view d) \<Longrightarrow> distinct ts \<Longrightarrow>
    \<exists>d'. set_status_loop pb now b st acc ts d = ((acc @ filter (\<lambda>t. t \<in> rows_where (view d) (revertible b)) ts, None), d') \<and>
      status_consistent (view d') \<and>
      (\<forall>x. row_at (view d') x = (if x \<in> set ts then map_option (\<lambda>q. if revertible b q then set_status_updated now st q else q) (row_at (view d) x)
              else row_at (view d) x))"
proof (induction ts arbitrary: acc d)
  case (Cons t ts)
  obtain d1 where d1: "set_status_row pb now b st t d = (Inr (t \<in> rows_where (view d) (revertible b)), d1)"
    "status_consistent (view d1)"
    "\<forall>x. row_at (view d1) x = (if x = t then map_option (\<lambda>q. if revertible b q then set_status_updated now st q else q) (row_at (view d) t)
            else row_at (view d) x)"
    by (rule set_status_row_up [OF assms(1,2) Cons.prems(1) assms(3), where t = t and b = b and now = now])
  define acc1 where "acc1 = (if t \<in> rows_where (view d) (revertible b) then acc @ [t] else acc)"
  have same: "filter (\<lambda>x. x \<in> rows_where (view d1) (revertible b)) ts = filter (\<lambda>x. x \<in> rows_where (view d) (revertible b)) ts"
    using Cons.prems(2) d1(3) by (intro filter_cong) (auto simp: rows_where_def)
  obtain d2 where d2: "set_status_loop pb now b st acc1 ts d1 = ((acc1 @ filter (\<lambda>x. x \<in> rows_where (view d) (revertible b)) ts, None), d2)"
    "status_consistent (view d2)"
    "\<forall>x. row_at (view d2) x = (if x \<in> set ts then map_option (\<lambda>q. if revertible b q then set_status_updated now st q else q) (row_at (view d1) x)
              else row_at (view d1) x)"
    using Cons.IH [OF d1(2), of acc1] Cons.prems(2) same by auto
  have "set_status_loop pb now b st acc (t # ts) d = ((acc @ filter (\<lambda>x. x \<in> rows_where (view d) (revertible b)) (t # ts), None), d2)"
    using d1(1) d2(1) by (simp add: acc1_def)
  moreover have "row_at (view d2) x = (if x \<in> set (t # ts) then map_option (\<lambda>q. if revertible b q then set_status_updated now st q else q) (row_at (view d) x)
              else row_at (view d) x)" for x
    using d2(3) d1(3) Cons.prems(2) by auto
  ultimately show ?case using d2(2) by blast
qed simp



section \<open>Mining\<close>

definition minable :: "storedStatus \<Rightarrow> bool" where
  "minable q \<longleftrightarrow> CanTransitionFrom StatusMined (ss_Status q)"

lemma set_mined_row_up:
  assumes "pebble_ok pb view" and "pebble_up pb" and "status_consistent (view d)" and "colon_free b"
  obtains r d' where "set_mined_row pb now b h t d = (Inr r, d')"
    "(case r of None \<Rightarrow> t \<notin> rows_where (view d) minable
      | Some (prev, new) \<Rightarrow> t \<in> rows_where (view d) minable \<and> ts_TxID new = t)"
    "status_consistent (view d')"
    "\<forall>x. row_at (view d') x = (if x = t then map_option (\<lambda>q. if minable q then set_mined_updated now b h q else q) (row_at (view d) t)
            else row_at (view d) x)"
proof (cases "t \<in> rows_where (view d) minable")
  case True
  then obtain q where q: "row_at (view d) t = Some q" "minable q" by (auto simp: rows_where_def)
  have new: "ss_TxID (set_mined_updated now b h q) = t" "status_row_ok (set_mined_updated now b h q)"
    using row_at_TxID [OF assms(3) q(1)] assms(4) by (simp_all add: set_mined_updated_row)
  let ?r = "Some (toModel q, empty_status\<lparr>ts_TxID := t, ts_Status := StatusMined, ts_BlockHash := b,
                          ts_BlockHeight := h, ts_Timestamp := Some now\<rparr>)"
  obtain d1 where d1: "commit_then pb d (rewrite_ops t q (set_mined_updated now b h q)) ?r = (Inr ?r, d1)" "status_consistent (view d1)"
    "\<forall>x. row_at (view d1) x = (if x = t then Some (set_mined_updated now b h q) else row_at (view d) x)"
    by (rule rewrite_up [OF assms(1-3) q(1) new, where r = ?r])
  have "set_mined_row pb now b h t d = (Inr ?r, d1)"
    using q d1(1) readStoredStatus_up [OF assms(1-3)] by (simp add: set_mined_row_def read_then_def minable_def)
  then show ?thesis by (rule that) (use d1(2,3) q True in simp_all)
next
  case False
  have "set_mined_row pb now b h t d = (Inr None, d)"
    using False readStoredStatus_up [OF assms(1-3)]
    by (auto simp: set_mined_row_def read_then_def rows_where_def minable_def split: option.splits)
  moreover have "map_option (\<lambda>q. if minable q then set_mined_updated now b h q else q) (row_at (view d) t) = row_at (view d) t"
    using False by (cases "row_at (view d) t") (auto simp: rows_where_def)
  ultimately show ?thesis using that [of None d] False assms(3) by simp
qed

lemma set_mined_idem:
  "set_mined_updated now b h (set_mined_updated now b h q) = set_mined_updated now b h q" "minable (set_mined_updated now b h q)"
  by (simp_all add: set_mined_updated_def minable_def)

lemma set_mined_loop_up:
  assumes "pebble_ok pb view" and "pebble_up pb" and "colon_free b" and "uncancelled ctx"
  shows "status_consistent (view d) \<Longrightarrow>
    \<exists>prevs' out' d'. set_mined_loop pb ctx i now b h ts prevs out d = ((prevs', out', None), d') \<and>
      status_consistent (view d') \<and> map ts_TxID out' = map ts_TxID out @ filter (\<lambda>t. t \<in> rows_where (view d) minable) ts \<and>
      (\<forall>x. row_at (view d') x = (if x \<in> set ts then map_option (\<lambda>q. if minable q then set_mined_updated now b h q else q) (row_at (view d) x)
              else row_at (view d) x))"
proof (induction ts arbitrary: i prevs out d)
  case (Cons t ts)
  let ?f = "map_option (\<lambda>q. if minable q then set_mined_updated now b h q else q)"
  obtain r d1 where d1: "set_mined_row pb now b h t d = (Inr r, d1)"
    "(case r of None \<Rightarrow> t \<notin> rows_where (view d) minable
      | Some (prev, new) \<Rightarrow> t \<in> rows_where (view d) minable \<and> ts_TxID new = t)"
    "status_consistent (view d1)" "\<forall>x. row_at (view d1) x = (if x = t then ?f (row_at (view d) t) else row_at (view d) x)"
    by (rule set_mined_row_up [OF assms(1,2) Cons.prems assms(3), where t = t and now = now and h = h])
  have ff: "?f (?f o') = ?f o'" for o' by (cases o') (simp_all add: set_mined_idem)
  have same: "rows_where (view d1) minable = rows_where (view d) minable"
    using d1(4) by (auto simp: rows_where_def set_mined_idem(2) split: if_splits)
  define prevs1 where "prevs1 = (case r of None \<Rightarrow> prevs | Some (prev, new) \<Rightarrow> prevs @ [prev])"
  define out1 where "out1 = (case r of None \<Rightarrow> out | Some (prev, new) \<Rightarrow> out @ [new])"
  have step: "set_mined_loop pb ctx i now b h (t # ts) prevs out d = set_mined_loop pb ctx (Suc i) now b h ts prevs1 out1 d1"
    using uncancelledD [OF assms(4)] d1(1) by (simp add: prevs1_def out1_def split: option.splits)
  have o1: "map ts_TxID out1 = map ts_TxID out @ filter (\<lambda>t. t \<in> rows_where (view d) minable) [t]"
    using d1(2) by (auto simp: out1_def split: option.splits)
  obtain prevs' out' d' where d': "set_mined_loop pb ctx (Suc i) now b h ts prevs1 out1 d1 = ((prevs', out', None), d')"
    "status_consistent (view d')" "map ts_TxID out' = map ts_TxID out1 @ filter (\<lambda>t. t \<in> rows_where (view d1) minable) ts"
    "\<forall>x. row_at (view d') x = (if x \<in> set ts then ?f (row_at (view d1) x) else row_at (view d1) x)"
    using Cons.IH [OF d1(3), of "Suc i" prevs1 out1] by blast
  have "\<forall>x. row_at (view d') x = (if x \<in> set (t # ts) then ?f (row_at (view d) x) else row_at (view d) x)"
    using d'(4) d1(4) ff by auto
  moreover have "map ts_TxID out' = map ts_TxID out @ filter (\<lambda>t. t \<in> rows_where (view d) minable) (t # ts)"
    using d'(3) o1 same by simp
  ultimately show ?case using step d'(1,2) by auto
qed simp

text \<open>
  Mining a block: on an engine that works \<open>SetMinedByTxIDs\<close> sets exactly the known, non-IMMUTABLE
  transactions of the list to MINED at the given block and height, reports one status for each in the
  order of the list, skips unknown ones, changes no other row, keeps the index entries exact, and a
  transaction named twice, or in a replayed call, gains no second history entry.
\<close>

theorem SetMinedByTxIDs_exact:
  assumes "pebble_ok pb view" and "pebble_up pb" and "status_consistent (view d)" and "colon_free b" and "uncancelled ctx"
  shows "\<exists>prevs out d'. SetMinedByTxIDs pb ctx now b h txids d = ((prevs, out, None), d') \<and>
    map ts_TxID out = filter (\<lambda>t. t \<in> rows_where (view d) minable) txids \<and> status_consistent (view d') \<and>
    (\<forall>x. row_at (view d') x =
       (if x \<in> set txids then map_option (\<lambda>q. if minable q then set_mined_updated now b h q else q) (row_at (view d) x)
        else row_at (view d) x)) \<and>
    (\<forall>q. set_mined_updated now b h (set_mined_updated now b h q) = set_mined_updated now b h q)"
proof -
  have "SetMinedByTxIDs pb ctx now b h txids d = set_mined_loop pb ctx 1 now b h txids [] [] d"
    using uncancelledD [OF assms(5)] by (simp add: SetMinedByTxIDs_def)
  then show ?thesis
    using set_mined_loop_up [OF assms(1,2,4,5,3), where prevs = "[]" and out = "[]" and ts = txids and now = now and h = h and i = 1]
    by (simp only: set_mined_idem list.map append_Nil simp_thms) blast
qed

theorem SetMinedByTxIDs_exact_witness:
  "map ts_TxID (fst (snd (fst (SetMinedByTxIDs mem (\<lambda>_. False) 7 ''c'' 12 [''t2'', ''t1'', ''zz''] sample_db)))) =
     filter (\<lambda>t. t \<in> rows_where (map_of sample_db) minable) [''t2'', ''t1'', ''zz'']"
proof -
  have "colon_free ''c''" by (simp add: colon_free_def)
  from SetMinedByTxIDs_exact [OF mem_ok mem_up sample_db_view(1) this uncancelled_never, where now = 7 and h = 12 and txids = "[''t2'', ''t1'', ''zz'']"]
  show ?thesis by (elim exE conjE) (simp only: fst_conv snd_conv)
qed

section \<open>What stays confirmed\<close>

text \<open>
  The steps that writers of transaction rows take, each under the lock of its row: the block-scoped
  and mining calls are sequences of them, with any other step in between.
\<close>

inductive tx_step :: "'db pebble \<Rightarrow> 'db \<Rightarrow> 'db \<Rightarrow> bool" for pb where
  insert: "request_ok s \<Longrightarrow> tx_step pb d (snd (GetOrInsertStatus pb ctx now s d))"
| update: "request_ok s \<Longrightarrow> ts_Status s \<in> insert [] (set AllStatuses) \<Longrightarrow> tx_step pb d (snd (UpdateStatusReturning pb ctx s d))"
| block_scoped: "colon_free st \<Longrightarrow> tx_step pb d (snd (set_status_row pb now b st t d))"
| mined: "colon_free b \<Longrightarrow> tx_step pb d (snd (set_mined_row pb now b h t d))"
| merkle: "tx_step pb d (snd (merkle_registered_loop pb ctx i ns [t] d))"
| bump_retry: "tx_step pb d (snd (BumpRetryCount pb ctx t d))"
| pending: "tx_step pb d (snd (SetPendingRetryFields pb ctx now t raw next reason d))"

inductive_cases tx_stepE: "tx_step pb d d'"

definition keeps_immutable :: "storedStatus option \<Rightarrow> storedStatus \<Rightarrow> bool" where
  "keeps_immutable old new \<longleftrightarrow> (\<forall>q. old = Some q \<and> ss_Status q = StatusImmutable \<longrightarrow> ss_Status new = StatusImmutable)"

lemma lattice_keeps_immutable:
  assumes "K \<subseteq> set AllStatuses" and "lattice_allows K old new"
  shows "keeps_immutable old new"
  using assms immutable.sink_closed [of StatusImmutable "ss_Status new"] unfolding keeps_immutable_def lattice_allows_def by auto

lemma writes_mono: "writes T m m' \<Longrightarrow> (\<And>old new. T old new \<Longrightarrow> T' old new) \<Longrightarrow> writes T' m m'"
  unfolding writes_def using row_write_mono by blast

lemma merkle_registered_one:
  assumes "pebble_ok pb view" and "status_consistent (view d)" and "merkle_registered_loop pb ctx i ns [t] d = (res, d')"
  shows "writes (lattice_allows {}) (view d) (view d')"
proof (cases "\<exists>q. \<not> ctx i \<and> readStoredStatus pb d t = Inr (Some q)")
  case True
  then obtain q where q: "\<not> ctx i" "readStoredStatus pb d t = Inr (Some q)" by blast
  let ?u = "q\<lparr>ss_MerkleRegisteredUnixNs := ns\<rparr>"
  obtain r d1 where c: "commit_then pb d [Put (txKey t) (PStatus ?u)] () = (r, d1)" by (rule prod.exhaust)
  have "d1 = d'" using assms(3) q c by (auto split: sum.splits)
  then show ?thesis
    using stored_row [OF assms(1,2) q(2)]
    by (intro overwrite_writes [OF assms(1,2) q(2) c [unfolded \<open>d1 = d'\<close>]])
      (auto simp: status_index_keys_def status_row_ok_def lattice_allows_def)
next
  case False
  then have "d' = d" using assms(3) by (auto split: if_splits sum.splits option.splits)
  then show ?thesis by simp
qed

lemma tx_step_writes:
  assumes "pebble_ok pb view" and "status_consistent (view d)" and "tx_step pb d d'"
  shows "writes keeps_immutable (view d) (view d')"
  using assms(3)
proof cases
  case (insert s ctx now)
  show ?thesis
    unfolding insert(1)
    by (rule writes_mono [OF GetOrInsertStatus_writes [OF assms(1,2) insert(2) surjective_pairing]])
      (auto simp: inserts_def keeps_immutable_def)
next
  case (update s ctx)
  show ?thesis
    unfolding update(1)
    by (rule writes_mono [OF UpdateStatusReturning_writes [OF assms(1,2) update(2) surjective_pairing]])
      (use update in \<open>auto intro: lattice_keeps_immutable [rotated]\<close>)
next
  case (block_scoped st now b t)
  show ?thesis
    unfolding block_scoped(1)
    by (rule writes_mono [OF set_status_row_writes [OF assms(1,2) block_scoped(2) surjective_pairing]])
      (auto simp: block_scoped_def keeps_immutable_def)
next
  case (mined b now h t)
  show ?thesis
    unfolding mined(1)
    by (rule writes_mono [OF set_mined_row_writes [OF assms(1,2) mined(2) surjective_pairing]])
      (auto simp: AllStatuses_def intro: lattice_keeps_immutable [rotated])
next
  case (merkle ctx i ns t)
  show ?thesis
    unfolding merkle(1)
    by (rule writes_mono [OF merkle_registered_one [OF assms(1,2) surjective_pairing]])
      (auto simp: intro: lattice_keeps_immutable [rotated])
next
  case (bump_retry ctx t)
  show ?thesis
    unfolding bump_retry(1)
    by (rule writes_mono [OF BumpRetryCount_writes [OF assms(1,2) surjective_pairing]])
      (auto simp: intro: lattice_keeps_immutable [rotated])
next
  case (pending ctx now t raw "next" reason)
  show ?thesis
    unfolding pending(1)
    by (rule writes_mono [OF SetPendingRetryFields_writes [OF assms(1,2) surjective_pairing]])
      (auto simp: AllStatuses_def intro: lattice_keeps_immutable [rotated])
qed

lemma writes_keep_immutable:
  assumes "writes keeps_immutable m m'" and "row_at m t = Some q" and "ss_Status q = StatusImmutable"
  shows "\<exists>q'. row_at m' t = Some q' \<and> ss_Status q' = StatusImmutable"
proof (cases "m' = m")
  case False
  then have "row_write keeps_immutable m m'" using assms(1) by (simp add: writes_def)
  then obtain old new where w: "keeps_immutable old new" "m (txKey (ss_TxID new)) = map_option PStatus old"
    "\<forall>x. m' (txKey x) = (if x = ss_TxID new then Some (PStatus new) else m (txKey x))"
    by (rule row_write_lookup) blast
  show ?thesis
  proof (cases "t = ss_TxID new")
    case True
    then have "old = Some q" using w(2) assms(2) by (auto simp: row_at_key)
    then show ?thesis using w(1,3) True assms(3) by (auto simp: row_at_key keeps_immutable_def)
  qed (use w(3) assms(2,3) in \<open>simp add: row_at_key\<close>)
qed (use assms in simp)

text \<open>
  C9. An IMMUTABLE transaction stays IMMUTABLE and stored through every interleaving of the row steps of
  inserts, guarded updates, block-scoped rewrites, mining, registration stamps and retry scheduling,
  also when engine calls fail or contexts are cancelled in between; and the index entries stay exact.
\<close>

theorem immutable_stays:
  assumes "pebble_ok pb view" and "status_consistent (view d)" and "(tx_step pb)\<^sup>*\<^sup>* d d'"
    and "row_at (view d) t = Some q" and "ss_Status q = StatusImmutable"
  shows "status_consistent (view d') \<and> (\<exists>q'. row_at (view d') t = Some q' \<and> ss_Status q' = StatusImmutable)"
  using assms(3)
proof (induction rule: rtranclp_induct)
  case base
  then show ?case using assms by blast
next
  case (step d1 d2)
  have w: "writes keeps_immutable (view d1) (view d2)"
    by (rule tx_step_writes [OF assms(1) _ step(2)]) (use step(3) in blast)
  show ?case using step(3) writes_consistent [OF _ w] writes_keep_immutable [OF w] by blast
qed

theorem immutable_stays_witness:
  "\<exists>q. row_at (map_of (snd (set_mined_row mem 9 ''c'' 12 ''t2'' sample_db))) ''t2'' = Some q \<and> ss_Status q = StatusImmutable"
proof -
  have "tx_step mem sample_db (snd (set_mined_row mem 9 ''c'' 12 ''t2'' sample_db))"
    by (rule tx_step.mined) (simp add: colon_free_def)
  then have "(tx_step mem)\<^sup>*\<^sup>* sample_db (snd (set_mined_row mem 9 ''c'' 12 ''t2'' sample_db))" by (rule r_into_rtranclp)
  from immutable_stays [OF mem_ok sample_db_view(1) this sample_db_view(3)] show ?thesis by simp
qed

text \<open>
  C37. \<open>ClearRetryState\<close> is not guarded: whatever status the row has by then, IMMUTABLE and MINED included,
  an engine that works leaves it with the final status the caller asked for.
\<close>

theorem ClearRetryState_unguarded:
  assumes "pebble_ok pb view" and "pebble_up pb" and "status_consistent (view d)" and "colon_free st" and "\<not> ctx 0"
    and "row_at (view d) t = Some q"
  shows "\<exists>d' q'. ClearRetryState pb ctx now t st extra d = (Inr (), d') \<and> row_at (view d') t = Some q' \<and> ss_Status q' = st"
proof -
  define u1 where "u1 = q\<lparr>ss_Status := st, ss_TimestampUnixNs := now, ss_RawTx := [], ss_NextRetryUnixNs := 0, ss_RetryReason := []\<rparr>"
  define u where "u = (if extra \<noteq> [] then u1\<lparr>ss_ExtraInfo := extra\<rparr> else u1)"
  have u: "ss_TxID u = t" "status_row_ok u" "ss_Status u = st"
    using row_at_TxID [OF assms(3,6)] assms(4) by (simp_all add: u_def u1_def status_row_ok_def)
  obtain d1 where d1: "commit_then pb d (rewrite_ops t q u) () = (Inr (), d1)" "status_consistent (view d1)"
    "\<forall>x. row_at (view d1) x = (if x = t then Some u else row_at (view d) x)"
    by (rule rewrite_up [OF assms(1-3,6) u(1,2), where r = "()"])
  have "ClearRetryState pb ctx now t st extra d = (Inr (), d1)"
    using d1(1) assms(5,6) readStoredStatus_up [OF assms(1-3), of t]
    by (cases "extra = []") (simp_all add: ClearRetryState_def read_then_def Let_def u_def u1_def)
  then show ?thesis using d1(3) u(3) by simp
qed

theorem ClearRetryState_unguarded_witness:
  "\<exists>q. row_at (map_of (snd (ClearRetryState mem (\<lambda>_. False) 9 ''t2'' StatusRejected [] sample_db))) ''t2'' = Some q \<and>
     ss_Status q = StatusRejected"
  using ClearRetryState_unguarded [OF mem_ok mem_up sample_db_view(1) _ _ sample_db_view(3), where ctx = "\<lambda>_. False" and st = StatusRejected and now = 9 and extra = "[]"]
  by (auto simp: colon_free_def StatusRejected_def)

end
