(* ===== verification/Pebble_Retry.thy ===== *)
theory Pebble_Retry
  imports Pebble_Status_Correct
begin

text \<open>
  The durable retry queue: \<open>GetReadyRetries\<close> walks the time-ordered index and returns the parked
  transactions that are due, oldest first.
\<close>

section \<open>Reading a time back from an index key\<close>

lemma hex_val_snoc: "hex_val (ds @ [c]) = 16 * hex_val ds + the (fromHexChar c)"
  by (simp add: hex_val_def)

lemma foldl_hex: "foldl (\<lambda>a c. 16 * a + the (fromHexChar c)) a ds = a * 16 ^ length ds + hex_val ds"
proof (induction ds rule: rev_induct)
  case (snoc c ds)
  then show ?case by (simp add: hex_val_snoc algebra_simps)
qed (simp add: hex_val_def)

lemma hex_val_Cons: "hex_val (c # ds) = the (fromHexChar c) * 16 ^ length ds + hex_val ds"
proof -
  have "hex_val (c # ds) = foldl (\<lambda>a c. 16 * a + the (fromHexChar c)) (the (fromHexChar c)) ds" by (simp add: hex_val_def)
  then show ?thesis by (simp only: foldl_hex)
qed

lemma hex_val_pad: "hex_val (hex_pad w n) = n mod 16 ^ w"
proof (induction w)
  case 0
  show ?case by (simp add: hex_val_def)
next
  case (Suc w)
  have "hex_val (hex_pad (Suc w) n) = (n div 16 ^ w mod 16) * 16 ^ w + hex_val (hex_pad w n)"
    by (simp add: hex_val_Cons)
  then show ?case using Suc hex_split [of n w] by (simp add: mult.commute)
qed

lemma hex_pad_digits: "c \<in> set (hex_pad w n) \<Longrightarrow> fromHexChar c \<noteq> None"
  by (induction w) auto

lemma sscanf_fmt016x:
  assumes "n < 2 ^ 64"
  shows "sscanf_x (fmt016x n) = (if n < 2 ^ 63 then Some (int n) else None)"
proof -
  have tw: "takeWhile (\<lambda>c. fromHexChar c \<noteq> None) (fmt016x n) = fmt016x n"
    unfolding fmt016x_def by (rule takeWhile_eq_all_conv [THEN iffD2]) (blast dest: hex_pad_digits)
  have hv: "hex_val (fmt016x n) = n" using assms by (simp add: fmt016x_def hex_val_pad)
  have "fmt016x n \<noteq> []" using fmt016x_shape(1) [of n] by (metis list.size(3) zero_neq_numeral)
  then show ?thesis unfolding sscanf_x_def Let_def tw hv by simp
qed

lemma uint64_sign:
  assumes "- (2 ^ 63) \<le> ns" and "ns < 2 ^ 63"
  shows "uint64 ns < 2 ^ 63 \<longleftrightarrow> 0 \<le> ns" and "0 \<le> ns \<Longrightarrow> int (uint64 ns) = ns"
proof -
  have "ns mod 2 ^ 64 = (if 0 \<le> ns then ns else ns + 2 ^ 64)"
  proof (cases "0 \<le> ns")
    case False
    have "(ns + 2 ^ 64) mod 2 ^ 64 = ns + 2 ^ 64" by (rule mod_pos_pos_trivial) (use False assms in simp_all)
    then show ?thesis using False by simp
  qed (use assms in simp)
  then show "uint64 ns < 2 ^ 63 \<longleftrightarrow> 0 \<le> ns" "0 \<le> ns \<Longrightarrow> int (uint64 ns) = ns"
    using assms by (auto simp: uint64_def)
qed

section \<open>The walk\<close>

definition retry_key :: "storedStatus \<Rightarrow> bytes" where
  "retry_key q = idxTxRetryReadyKey (ss_NextRetryUnixNs q) (ss_TxID q)"

definition parked :: "storedStatus \<Rightarrow> bool" where
  "parked q \<longleftrightarrow> ss_Status q = StatusPendingRetry \<and> ss_NextRetryUnixNs q \<noteq> 0"

text \<open>Due at \<open>now\<close>, with raw bytes to send.\<close>

definition due :: "unix_ns \<Rightarrow> storedStatus \<Rightarrow> bool" where
  "due now q \<longleftrightarrow> parked q \<and> 0 < ss_NextRetryUnixNs q \<and> ss_NextRetryUnixNs q \<le> now \<and> ss_RawTx q \<noteq> []"

lemma retry_key_parts:
  "drop (length prefixIdxTxRetryReady) (retry_key q) = fmt016x (uint64 (ss_NextRetryUnixNs q)) @ '':'' @ ss_TxID q"
  "take 16 (fmt016x n @ '':'' @ t) = fmt016x n" "drop 17 (fmt016x n @ '':'' @ t) = t"
  "(fmt016x n @ '':'' @ t) ! 16 = CHR '':''" "17 \<le> length (fmt016x n @ '':'' @ t)"
  by (simp_all add: retry_key_def idxTxRetryReadyKey_def nth_append)

lemma retry_key_mono:
  assumes "retry_key q < retry_key r"
  shows "uint64 (ss_NextRetryUnixNs q) \<le> uint64 (ss_NextRetryUnixNs r)"
proof (rule ccontr)
  assume "\<not> ?thesis"
  then have "fmt016x (uint64 (ss_NextRetryUnixNs r)) < fmt016x (uint64 (ss_NextRetryUnixNs q))"
    by (simp add: fmt016x_less [OF uint64_range uint64_range])
  then have "retry_key r < retry_key q"
    by (simp add: retry_key_def idxTxRetryReadyKey_def append_less_iff append_less_suffix)
  then show False using assms by simp
qed

lemma ready_loop_rows:
  assumes up: "\<And>q. q \<in> set qs \<Longrightarrow> pb_get pb d (txKey (ss_TxID q)) = Inr (Some (PStatus q))"
    and rows: "\<And>q. q \<in> set qs \<Longrightarrow> int64 (ss_NextRetryUnixNs q) \<and> parked q"
    and keys: "map fst kvs = map retry_key qs"
    and order: "sorted_wrt (<) (map retry_key qs)"
    and c: "uncancelled ctx"
  shows "length acc \<le> limit \<Longrightarrow>
    ready_loop pb d ctx i now limit acc kvs = (take limit (acc @ map retry_of (filter (due now) qs)), None)"
  using up rows keys order
proof (induction kvs arbitrary: qs acc i)
  case Nil
  then show ?case by simp
next
  case (Cons kv kvs)
  obtain q qs' where qs: "qs = q # qs'" "fst kv = retry_key q" "map fst kvs = map retry_key qs'"
    using Cons.prems(4) by (cases qs) auto
  obtain v where kv: "kv = (retry_key q, v)" using qs(2) by (cases kv) simp
  let ?ns = "ss_NextRetryUnixNs q"
  have get: "pb_get pb d (txKey (ss_TxID q)) = Inr (Some (PStatus q))" using Cons.prems(2) qs(1) by simp
  have q: "int64 ?ns" "parked q" using Cons.prems(3) qs(1) by simp_all
  have scan: "sscanf_x (fmt016x (uint64 ?ns)) = (if 0 \<le> ?ns then Some ?ns else None)"
    using sscanf_fmt016x [OF uint64_range, of ?ns] uint64_sign [of ?ns] q(1) by (auto simp: int64_def)
  note IH = Cons.IH [OF _ _ _ qs(3)]
  have sub: "\<And>r. r \<in> set qs' \<Longrightarrow> pb_get pb d (txKey (ss_TxID r)) = Inr (Some (PStatus r))"
    "\<And>r. r \<in> set qs' \<Longrightarrow> int64 (ss_NextRetryUnixNs r) \<and> parked r" "sorted_wrt (<) (map retry_key qs')"
    using Cons.prems(2,3,5) qs(1) by auto
  have later: "uint64 ?ns \<le> uint64 (ss_NextRetryUnixNs r)" if "r \<in> set qs'" for r
    using Cons.prems(5) qs(1) that by (auto intro: retry_key_mono)
  show ?case
  proof (cases "length acc < limit")
    case False
    then show ?thesis using Cons.prems(1) kv by simp
  next
    case True
    have step: "ready_loop pb d ctx i now limit acc (kv # kvs) =
        (case (if 0 \<le> ?ns then Some ?ns else None) of
           None \<Rightarrow> ready_loop pb d ctx (Suc i) now limit acc kvs
         | Some nextNs \<Rightarrow> if nextNs > now then (acc, None)
             else ready_loop pb d ctx (Suc i) now limit (if ss_RawTx q = [] then acc else acc @ [retry_of q]) kvs)"
      using True uncancelledD [OF c] get scan
      by (simp add: kv retry_key_parts [simplified] not_less del: upt_Suc split: option.splits)
    consider "?ns < 0" | "0 \<le> ?ns" "now < ?ns" | "0 \<le> ?ns" "?ns \<le> now" by linarith
    then show ?thesis
    proof cases
      case 1
      then have "\<not> due now q" by (simp add: due_def)
      then show ?thesis using 1 step IH [OF Cons.prems(1) sub] qs(1) by simp
    next
      case 2
      have "\<not> due now r" if r: "r \<in> set qs'" for r
        using later [OF r] 2 uint64_sign(2) [of ?ns] uint64_sign(2) [of "ss_NextRetryUnixNs r"] sub(2) [OF r] q(1)
        by (auto simp: due_def int64_def)
      then have "filter (due now) qs = []" using 2 qs(1) by (auto simp: due_def)
      then show ?thesis using 2 step Cons.prems(1) by simp
    next
      case 3
      then have "due now q \<longleftrightarrow> ss_RawTx q \<noteq> []" using q(2) by (auto simp: due_def parked_def)
      then show ?thesis using 3 step IH [OF _ sub, of "acc @ [retry_of q]"] IH [OF Cons.prems(1) sub] True qs(1) by simp
    qed
  qed
qed

definition times_in_range :: "kv \<Rightarrow> bool" where
  "times_in_range m \<longleftrightarrow> (\<forall>t q. row_at m t = Some q \<longrightarrow> int64 (ss_NextRetryUnixNs q))"

lemma retry_index_keys:
  assumes "status_consistent m"
  shows "{k. m k \<noteq> None \<and> prefix prefixIdxTxRetryReady k} = retry_key ` {q. row_at m (ss_TxID q) = Some q \<and> parked q}"
    (is "?L = ?R")
proof
  show "?L \<subseteq> ?R"
  proof
    fix k assume "k \<in> ?L"
    then have k: "m k \<noteq> None" "prefix prefixIdxTxRetryReady k" by auto
    then have "is_tx_index k" by (auto simp: is_tx_index_def prefix_defs prefix_def)
    then obtain r where r: "m (txKey (lastSegment k)) = Some (PStatus r)" "ss_TxID r = lastSegment k"
      "k \<in> set (status_index_keys r)"
      using tx.entry_row assms k(1) unfolding status_consistent_def by metis
    have "k = retry_key r \<and> parked r"
      using r(3) k(2) by (auto simp: status_index_keys_def tx_key_defs prefix_defs retry_key_def parked_def split: if_splits)
    then show "k \<in> ?R" using r(1,2) by (auto simp: row_at_key)
  qed
  show "?R \<subseteq> ?L"
  proof
    fix k assume "k \<in> ?R"
    then obtain q where q: "k = retry_key q" "row_at m (ss_TxID q) = Some q" "parked q" by auto
    have "k \<in> set (status_index_keys q)" using q by (simp add: status_index_keys_def retry_key_def parked_def)
    then have "m k \<noteq> None" using tx.row_entry [of m "ss_TxID q" q k] assms q(2) by (simp add: status_consistent_def row_at_key)
    then show "k \<in> ?L" using q(1) by (simp add: retry_key_def idxTxRetryReadyKey_def)
  qed
qed

text \<open>
  C23. On an engine that works \<open>GetReadyRetries\<close> returns the first \<open>limit\<close> of the PENDING\_RETRY rows that
  are due and have raw bytes, in the order of their retry times, each once; when there are at most
  \<open>limit\<close> of them it returns them all.
\<close>

theorem GetReadyRetries_exact:
  assumes "pebble_ok pb view" and "pebble_up pb" and "status_consistent (view d)" and "uncancelled ctx" and "0 < limit"
    and "times_in_range (view d)"
  shows "\<exists>qs. GetReadyRetries pb ctx now limit d = (take (nat limit) (map retry_of qs), None) \<and>
     distinct qs \<and> set qs = {q. row_at (view d) (ss_TxID q) = Some q \<and> due (UnixNano now) q} \<and>
     sorted (map ss_NextRetryUnixNs qs)"
proof -
  obtain kvs where kvs: "scan_prefix pb d prefixIdxTxRetryReady = Inr kvs" by (rule scan_up [OF assms(2)])
  let ?P = "{q. row_at (view d) (ss_TxID q) = Some q \<and> parked q}"
  have keys: "fst ` set kvs = retry_key ` ?P" using scan_prefix_keys [OF assms(1) kvs] retry_index_keys [OF assms(3)] by simp
  define qs where "qs = map (\<lambda>k. the (row_at (view d) (lastSegment k))) (map fst kvs)"
  have owner: "the (row_at (view d) (lastSegment (retry_key q))) = q" if "q \<in> ?P" for q
    using that row_at_TxID [OF assms(3)]
    by (auto simp: retry_key_def idxTxRetryReadyKey_def lastSegment_key3 [simplified] status_row_ok_def)
  have "k = retry_key (the (row_at (view d) (lastSegment k)))" if "k \<in> fst ` set kvs" for k
    using that owner unfolding keys by auto
  then have mapk: "map fst kvs = map retry_key qs" unfolding qs_def by (simp add: comp_def)
  have set: "set qs = ?P"
  proof -
    have "set qs = (\<lambda>k. the (row_at (view d) (lastSegment k))) ` retry_key ` ?P" by (simp add: qs_def image_image flip: keys)
    also have "\<dots> = ?P" using owner by (auto simp: image_image image_iff)
    finally show ?thesis .
  qed
  have order: "sorted_wrt (<) (map retry_key qs)" using scan_prefix_sorted [OF assms(1) kvs] mapk by simp
  have get: "pb_get pb d (txKey (ss_TxID q)) = Inr (Some (PStatus q))" if "q \<in> set qs" for q
    using that set pebble_up_get [OF assms(1,2)] by (simp add: row_at_key)
  have rows: "int64 (ss_NextRetryUnixNs q) \<and> parked q" if "q \<in> set qs" for q
    using that set assms(6) unfolding times_in_range_def by blast
  have "GetReadyRetries pb ctx now limit d = (take (nat limit) (map retry_of (filter (due (UnixNano now)) qs)), None)"
    using ready_loop_rows [OF get rows mapk order assms(4), of "[]" "nat limit" 1 "UnixNano now"] kvs assms(5) uncancelledD [OF assms(4)]
    by (simp add: GetReadyRetries_def)
  moreover have "sorted (map ss_NextRetryUnixNs (filter (due (UnixNano now)) qs))"
  proof -
    have "sorted_wrt (\<lambda>a b. retry_key a < retry_key b) (filter (due (UnixNano now)) qs)"
      using order by (simp add: sorted_wrt_map sorted_wrt_filter)
    then have "sorted_wrt (\<lambda>a b. ss_NextRetryUnixNs a \<le> ss_NextRetryUnixNs b) (filter (due (UnixNano now)) qs)"
    proof (rule sorted_wrt_mono_rel [rotated])
      fix a b assume ab: "a \<in> set (filter (due (UnixNano now)) qs)" "b \<in> set (filter (due (UnixNano now)) qs)" "retry_key a < retry_key b"
      then show "ss_NextRetryUnixNs a \<le> ss_NextRetryUnixNs b"
        using retry_key_mono [OF ab(3)] uint64_sign(2) [of "ss_NextRetryUnixNs a"] uint64_sign(2) [of "ss_NextRetryUnixNs b"] rows
        by (auto simp: due_def int64_def)
    qed
    then show ?thesis by (simp add: sorted_wrt_map)
  qed
  moreover have "distinct (filter (due (UnixNano now)) qs)"
    using order by (simp add: strict_sorted_iff distinct_map)
  moreover have "set (filter (due (UnixNano now)) qs) = {q. row_at (view d) (ss_TxID q) = Some q \<and> due (UnixNano now) q}"
    using set by (auto simp: due_def)
  ultimately show ?thesis by blast
qed

definition parked_row :: "txid \<Rightarrow> unix_ns \<Rightarrow> storedStatus" where
  "parked_row t ns = (sample_row t StatusPendingRetry [])\<lparr>ss_RawTx := ''r'', ss_NextRetryUnixNs := ns\<rparr>"

definition parked_db :: "(bytes \<times> payload) list" where
  "parked_db = fold mem_op (Put (txKey ''t1'') (PStatus (parked_row ''t1'' 5)) # addStatusIndexes (parked_row ''t1'' 5)) []"

lemma parked_db_view:
  "status_consistent (map_of parked_db)" "row_at (map_of parked_db) t = (if t = ''t1'' then Some (parked_row ''t1'' 5) else None)"
proof -
  define r where "r = parked_row ''t1'' 5"
  define m where "m = apply_batch (Put (txKey (ss_TxID r)) (PStatus r) # addStatusIndexes r) Map.empty"
  have t: "ss_TxID r = ''t1''" by (simp add: r_def parked_row_def)
  have v: "map_of parked_db = m" unfolding parked_db_def mem_view m_def t by (simp add: r_def)
  have ok: "status_row_ok r"
    by (simp add: r_def parked_row_def status_row_ok_def colon_free_def StatusPendingRetry_def)
  have w: "row_write inserts Map.empty m" unfolding m_def by (rule insert_row_write) (use ok in simp_all)
  show "status_consistent (map_of parked_db)" unfolding v by (rule row_write_consistent [OF empty_consistent w])
  have "m (txKey t) = (if t = ''t1'' then Some (PStatus r) else None)"
    unfolding m_def addStatusIndexes_keys t
    by (simp add: apply_batch_puts status_index_keys_def tx_key_defs prefix_defs txKey_def)
  then show "row_at (map_of parked_db) t = (if t = ''t1'' then Some (parked_row ''t1'' 5) else None)"
    by (simp add: v row_at_def r_def)
qed

theorem GetReadyRetries_exact_witness:
  "fst (GetReadyRetries mem (\<lambda>_. False) (Some 9) 3 parked_db) = [retry_of (parked_row ''t1'' 5)]"
proof -
  have range: "times_in_range (map_of parked_db)"
    by (simp add: times_in_range_def parked_db_view(2) int64_def parked_row_def)
  have "(0::int) < 3" by simp
  from GetReadyRetries_exact [OF mem_ok mem_up parked_db_view(1) uncancelled_never this range, of "Some 9"]
  obtain qs where qs: "GetReadyRetries mem (\<lambda>_. False) (Some 9) 3 parked_db = (take (nat 3) (map retry_of qs), None)" "distinct qs"
    "set qs = {q. row_at (map_of parked_db) (ss_TxID q) = Some q \<and> due (UnixNano (Some 9)) q}"
    by (elim exE conjE)
  have one: "set qs = {parked_row ''t1'' 5}"
    unfolding qs(3) by (auto simp: parked_db_view(2) due_def parked_def UnixNano_def split: if_splits) (simp_all add: parked_row_def)
  then have "length qs = Suc 0" using distinct_card [OF qs(2)] by simp
  then obtain q where "qs = [q]" by (auto simp: length_Suc_conv)
  then have "qs = [parked_row ''t1'' 5]" using one by simp
  then show ?thesis using qs(1) by simp
qed

end
