(* ===== verification/Pebble_Hydration.thy ===== *)
theory Pebble_Hydration
  imports Pebble_Status_Correct
begin

text \<open>
  Hydrating the tracker from the embedded store: \<open>IterateTrackerRows\<close> is a row source in the sense of
  \<open>Tx_Tracker\<close>, and on a consistent table it emits exactly the rows the scan keeps.
\<close>

section \<open>The store as a row source\<close>

definition row_of :: "storedStatus \<Rightarrow> tracker_row" where
  "row_of r = \<lparr>tr_TxID = ss_TxID r, tr_Status = ss_Status r, tr_BlockHeight = ss_BlockHeight r\<rparr>"

text \<open>What one index walk hands out: the next context check, the rows, and the error that ends it.\<close>

fun emit_rows ::
    "'db pebble \<Rightarrow> 'db \<Rightarrow> ctx \<Rightarrow> nat \<Rightarrow> tracker_scan \<Rightarrow> status \<Rightarrow> (bytes \<times> payload) list \<Rightarrow> nat \<times> tracker_row list \<times> store_error option" where
  "emit_rows pb d ctx i scan st [] = (i, [], None)"
| "emit_rows pb d ctx i scan st ((key, _) # kvs) =
     (if ctx i then (i, [], Some Cancelled)
      else let (j, rows, err) = emit_rows pb d ctx (Suc i) scan st kvs in
        (j, (case readStoredStatus pb d (lastSegment key) of
               Inr (Some r) \<Rightarrow> if ss_Status r = st \<and> Keep scan (ss_Status r) (ss_BlockHeight r) then row_of r # rows else rows
             | _ \<Rightarrow> rows), err))"

fun emit_statuses ::
    "'db pebble \<Rightarrow> 'db \<Rightarrow> ctx \<Rightarrow> nat \<Rightarrow> tracker_scan \<Rightarrow> status list \<Rightarrow> tracker_row list \<times> store_error option" where
  "emit_statuses pb d ctx i scan [] = ([], None)"
| "emit_statuses pb d ctx i scan (st # sts) =
     (case scan_prefix pb d (idxTxStatusPrefix st) of
        Inl e \<Rightarrow> ([], Some e)
      | Inr kvs \<Rightarrow>
          (case emit_rows pb d ctx i scan st kvs of
             (_, rows, Some e) \<Rightarrow> (rows, Some e)
           | (j, rows, None) \<Rightarrow> map_prod ((@) rows) id (emit_statuses pb d ctx j scan sts)))"

definition emitted :: "'db pebble \<Rightarrow> ctx \<Rightarrow> tracker_scan \<Rightarrow> 'db \<Rightarrow> tracker_row list \<times> store_error option" where
  "emitted pb ctx scan d = (if ctx 0 then ([], Some Cancelled) else emit_statuses pb d ctx 1 scan TrackerStatuses)"

definition ends_with :: "store_error option \<times> 's \<Rightarrow> store_error option \<Rightarrow> store_error option \<times> 's" where
  "ends_with r err = (case r of (Some e, s) \<Rightarrow> (Some e, s) | (None, s) \<Rightarrow> (err, s))"

lemma tracker_rows_loop_each:
  assumes "emit_rows pb d ctx i scan st kvs = (j, rows, err)"
  shows "snd (tracker_rows_loop pb d ctx i scan st fn kvs s) = ends_with (each fn rows s) err \<and>
    (fst (ends_with (each fn rows s) err) = None \<longrightarrow> fst (tracker_rows_loop pb d ctx i scan st fn kvs s) = j)"
  using assms
proof (induction kvs arbitrary: i rows s)
  case Nil
  then show ?case by (auto simp: ends_with_def)
next
  case (Cons kv kvs)
  obtain key v where kv: "kv = (key, v)" by (rule prod.exhaust)
  show ?case
  proof (cases "ctx i")
    case True
    then show ?thesis using Cons.prems kv by (auto simp: ends_with_def)
  next
    case False
    obtain j' rows' err' where e: "emit_rows pb d ctx (Suc i) scan st kvs = (j', rows', err')" by (rule prod_cases3)
    have j: "j' = j" "err' = err" using Cons.prems kv False e by auto
    note IH = Cons.IH [OF e [unfolded j]]
    consider (emit) r where "readStoredStatus pb d (lastSegment key) = Inr (Some r)" "ss_Status r = st" "Keep scan st (ss_BlockHeight r)"
      | (skip) "rows = rows'" "tracker_rows_loop pb d ctx i scan st fn (kv # kvs) s = tracker_rows_loop pb d ctx (Suc i) scan st fn kvs s"
      using Cons.prems kv False e by (auto split: sum.splits option.splits if_splits)
    then show ?thesis
    proof cases
      case emit
      have rows: "rows = row_of r # rows'" using Cons.prems kv False e emit by simp
      show ?thesis
        using IH emit rows kv False
        by (auto simp: ends_with_def row_of_def split: prod.splits option.splits)
    next
      case skip
      then show ?thesis using IH by simp
    qed
  qed
qed

lemma tracker_statuses_loop_each:
  "tracker_statuses_loop pb d ctx i scan sts fn s =
     ends_with (each fn (fst (emit_statuses pb d ctx i scan sts)) s) (snd (emit_statuses pb d ctx i scan sts))"
proof (induction sts arbitrary: i s)
  case Nil
  show ?case by (simp add: ends_with_def)
next
  case (Cons st sts)
  show ?case
  proof (cases "scan_prefix pb d (idxTxStatusPrefix st)")
    case (Inl e)
    then show ?thesis by (simp add: ends_with_def)
  next
    case (Inr kvs)
    obtain j rows err where e: "emit_rows pb d ctx i scan st kvs = (j, rows, err)" by (rule prod_cases3)
    obtain i' r s' where l: "tracker_rows_loop pb d ctx i scan st fn kvs s = (i', r, s')" by (rule prod_cases3)
    have loop: "(r, s') = ends_with (each fn rows s) err" "r = None \<longrightarrow> i' = j"
      using tracker_rows_loop_each [OF e, of fn s] l by (auto simp: prod_eq_iff)
    show ?thesis
    proof (cases err)
      case None
      then show ?thesis
        using Inr e l loop Cons.IH [of j s']
        by (cases "each fn rows s") (auto simp: ends_with_def each_append split: option.splits)
    next
      case (Some x)
      then show ?thesis
        using Inr e l loop by (cases "each fn rows s") (auto simp: ends_with_def split: option.splits)
    qed
  qed
qed

lemma IterateTrackerRows_each:
  "IterateTrackerRows pb ctx scan d fn s = ends_with (each fn (fst (emitted pb ctx scan d)) s) (snd (emitted pb ctx scan d))"
  by (simp add: IterateTrackerRows_def emitted_def tracker_statuses_loop_each) (simp add: ends_with_def)

interpretation store_rows: row_source "IterateTrackerRows pb ctx scan d" "fst (emitted pb ctx scan d)" "snd (emitted pb ctx scan d)"
  for pb :: "'db pebble" and ctx scan d
  by unfold_locales (simp add: IterateTrackerRows_each ends_with_def)

section \<open>The emitted rows\<close>

lemma status_index_entries:
  assumes "status_consistent m" and "colon_free st"
  shows "{k. m k \<noteq> None \<and> prefix (idxTxStatusPrefix st) k} = (\<lambda>t. idxTxStatusPrefix st @ t) ` rows_where m (\<lambda>q. ss_Status q = st)"
    (is "?L = ?R")
proof
  show "?L \<subseteq> ?R"
  proof
    fix k assume "k \<in> ?L"
    then have k: "m k \<noteq> None" "prefix (idxTxStatusPrefix st) k" by auto
    then have "is_tx_index k" by (auto simp: is_tx_index_def idxTxStatusPrefix_def prefix_defs prefix_def)
    then obtain r where r: "m (txKey (lastSegment k)) = Some (PStatus r)" "ss_TxID r = lastSegment k"
      "k \<in> set (status_index_keys r)" "status_row_ok r"
      using tx.entry_row assms(1) k(1) unfolding status_consistent_def by metis
    have "k = idxTxStatusKey (ss_Status r) (ss_TxID r)"
      using r(3) k(2) by (auto simp: status_index_keys_def tx_key_defs idxTxStatusPrefix_def prefix_defs split: if_splits)
    moreover from this have "ss_Status r = st"
      using k(2) r(4) assms(2)
      by (simp add: idxTxStatusKey_def idxTxStatusPrefix_def prefix_colon [simplified] status_row_ok_def)
    ultimately show "k \<in> ?R" using r(1,2) by (auto simp: rows_where_def row_at_key idxTxStatusKey_def idxTxStatusPrefix_def)
  qed
  show "?R \<subseteq> ?L"
  proof
    fix k assume "k \<in> ?R"
    then obtain t q where t: "k = idxTxStatusPrefix st @ t" "row_at m t = Some q" "ss_Status q = st"
      by (auto simp: rows_where_def)
    have "k \<in> set (status_index_keys q)"
      using t row_at_TxID [OF assms(1) t(2)] by (simp add: status_index_keys_def idxTxStatusKey_def idxTxStatusPrefix_def)
    then have "m k \<noteq> None"
      using tx.row_entry [of m t q k] assms(1) t(2) by (simp add: status_consistent_def row_at_key)
    then show "k \<in> ?L" using t(1) by simp
  qed
qed

lemma emit_rows_all:
  assumes "uncancelled ctx" and "\<And>t. readStoredStatus pb d t = Inr (row_at m t)"
  shows "emit_rows pb d ctx i scan st kvs = (i + length kvs,
    map row_of (filter (\<lambda>q. ss_Status q = st \<and> Keep scan st (ss_BlockHeight q)) (List.map_filter (\<lambda>kv. row_at m (lastSegment (fst kv))) kvs)),
    None)"
proof (induction kvs arbitrary: i)
  case (Cons kv kvs)
  obtain key v where kv: "kv = (key, v)" by (rule prod.exhaust)
  show ?case
    unfolding kv emit_rows.simps Cons.IH assms(2) using uncancelledD [OF assms(1)]
    by (cases "row_at m (lastSegment key)") (simp_all add: List.map_filter_simps)
qed (simp add: List.map_filter_simps)

lemma set_map_filter_iff: "y \<in> set (List.map_filter f xs) \<longleftrightarrow> (\<exists>x \<in> set xs. f x = Some y)"
  by (induction xs) (auto simp: List.map_filter_simps split: option.splits)

lemma emit_rows_set:
  assumes "uncancelled ctx" and "\<And>t. readStoredStatus pb d t = Inr (row_at m t)"
  shows "\<exists>j rows. emit_rows pb d ctx i scan st kvs = (j, rows, None) \<and>
    set rows = row_of ` {q. \<exists>k \<in> fst ` set kvs. row_at m (lastSegment k) = Some q \<and> ss_Status q = st \<and> Keep scan st (ss_BlockHeight q)}"
proof (intro exI conjI, rule emit_rows_all [OF assms])
  have "{q \<in> set (List.map_filter (\<lambda>kv. row_at m (lastSegment (fst kv))) kvs). ss_Status q = st \<and> Keep scan st (ss_BlockHeight q)} =
      {q. \<exists>k \<in> fst ` set kvs. row_at m (lastSegment k) = Some q \<and> ss_Status q = st \<and> Keep scan st (ss_BlockHeight q)}"
    unfolding set_map_filter_iff by blast
  then show "set (map row_of (filter (\<lambda>q. ss_Status q = st \<and> Keep scan st (ss_BlockHeight q))
        (List.map_filter (\<lambda>kv. row_at m (lastSegment (fst kv))) kvs))) =
      row_of ` {q. \<exists>k \<in> fst ` set kvs. row_at m (lastSegment k) = Some q \<and> ss_Status q = st \<and> Keep scan st (ss_BlockHeight q)}"
    unfolding set_map set_filter by simp
qed

lemma trackerStatuses_colon_free: "st \<in> set TrackerStatuses \<Longrightarrow> colon_free st"
proof -
  assume "st \<in> set TrackerStatuses"
  then have "st \<in> set AllStatuses" by (simp add: TrackerStatuses_def trackerStatuses_def)
  moreover have "list_all colon_free AllStatuses" by (simp add: AllStatuses_def colon_free_def status_defs)
  ultimately show ?thesis by (simp only: list_all_iff)
qed

lemma status_segment: "status_consistent m \<Longrightarrow> row_at m t \<noteq> None \<Longrightarrow> lastSegment (idxTxStatusPrefix st @ t) = t"
  using row_at_TxID [of m t] by (auto simp: status_row_ok_def idxTxStatusPrefix_def lastSegment_key3 [simplified])

lemma emit_statuses_set:
  assumes "pebble_ok pb view" and "pebble_up pb" and "status_consistent (view d)" and "uncancelled ctx"
  shows "set sts \<subseteq> set TrackerStatuses \<Longrightarrow> \<exists>rows. emit_statuses pb d ctx i scan sts = (rows, None) \<and>
    set rows = row_of ` {q. row_at (view d) (ss_TxID q) = Some q \<and> ss_Status q \<in> set sts \<and> Keep scan (ss_Status q) (ss_BlockHeight q)}"
proof (induction sts arbitrary: i)
  case (Cons st sts)
  have cf: "colon_free st" using Cons.prems trackerStatuses_colon_free by simp
  obtain kvs where kvs: "scan_prefix pb d (idxTxStatusPrefix st) = Inr kvs" by (rule scan_up [OF assms(2)])
  have keys: "fst ` set kvs = (\<lambda>t. idxTxStatusPrefix st @ t) ` rows_where (view d) (\<lambda>q. ss_Status q = st)"
    using scan_prefix_keys [OF assms(1) kvs] status_index_entries [OF assms(3) cf] by simp
  obtain j rows where e: "emit_rows pb d ctx i scan st kvs = (j, rows, None)"
    "set rows = row_of ` {q. \<exists>k \<in> fst ` set kvs. row_at (view d) (lastSegment k) = Some q \<and> ss_Status q = st \<and> Keep scan st (ss_BlockHeight q)}"
    using emit_rows_set [OF assms(4) readStoredStatus_up [OF assms(1-3)], where i = i and kvs = kvs and st = st and scan = scan] by blast
  have seg: "(\<exists>k \<in> fst ` set kvs. row_at (view d) (lastSegment k) = Some q \<and> ss_Status q = st \<and> Keep scan st (ss_BlockHeight q)) \<longleftrightarrow>
      row_at (view d) (ss_TxID q) = Some q \<and> ss_Status q = st \<and> Keep scan st (ss_BlockHeight q)"
    (is "?L \<longleftrightarrow> ?R") for q
  proof
    assume ?L
    then obtain t where t: "row_at (view d) t \<noteq> None" "row_at (view d) (lastSegment (idxTxStatusPrefix st @ t)) = Some q"
      "ss_Status q = st" "Keep scan st (ss_BlockHeight q)" unfolding keys rows_where_def by blast
    have "lastSegment (idxTxStatusPrefix st @ t) = t" by (rule status_segment [OF assms(3) t(1)])
    then have "row_at (view d) t = Some q" using t(2) by simp
    then show ?R using t(3,4) row_at_TxID(1) [OF assms(3)] by simp
  next
    assume R: ?R
    then have "ss_TxID q \<in> rows_where (view d) (\<lambda>q. ss_Status q = st)" by (simp add: rows_where_def)
    then have k: "idxTxStatusPrefix st @ ss_TxID q \<in> fst ` set kvs" unfolding keys by (rule imageI)
    have "lastSegment (idxTxStatusPrefix st @ ss_TxID q) = ss_TxID q" by (rule status_segment [OF assms(3)]) (simp add: R)
    with R k show ?L by (intro bexI [OF _ k]) simp
  qed
  obtain rows' where IH: "emit_statuses pb d ctx j scan sts = (rows', None)"
    "set rows' = row_of ` {q. row_at (view d) (ss_TxID q) = Some q \<and> ss_Status q \<in> set sts \<and> Keep scan (ss_Status q) (ss_BlockHeight q)}"
    using Cons.IH [of j, OF _] Cons.prems by auto
  have "emit_statuses pb d ctx i scan (st # sts) = (rows @ rows', None)" using kvs e(1) IH(1) by simp
  moreover have "set (rows @ rows') =
      row_of ` {q. row_at (view d) (ss_TxID q) = Some q \<and> ss_Status q \<in> set (st # sts) \<and> Keep scan (ss_Status q) (ss_BlockHeight q)}"
    unfolding set_append e(2) IH(2) seg image_Un [symmetric] by (rule arg_cong [where f = "(`) row_of"]) auto
  ultimately show ?case by blast
qed simp

section \<open>Hydration is exact\<close>

lemma load_map_snoc:
  "load_map parse scan (xs @ [y]) t = (case parse (tr_TxID y) of
       Some hash \<Rightarrow> if Keep scan (tr_Status y) (tr_BlockHeight y)
                    then fmupd hash \<lparr>tt_Status = tr_Status y, tt_MinedHeight = tr_BlockHeight y\<rparr> (load_map parse scan xs t)
                    else load_map parse scan xs t
     | None \<Rightarrow> load_map parse scan xs t)"
  unfolding load_map_def by (simp only: fold_append fold_simps comp_apply)

definition hash_unique :: "(string \<Rightarrow> 'h option) \<Rightarrow> tracker_row list \<Rightarrow> 'h \<Rightarrow> bool" where
  "hash_unique parse rows h \<longleftrightarrow>
     (\<forall>r \<in> set rows. \<forall>r' \<in> set rows. parse (tr_TxID r) = Some h \<longrightarrow> parse (tr_TxID r') = Some h \<longrightarrow> r = r')"

lemma load_map_lookup:
  assumes "hash_unique parse rows h"
  shows "r \<in> set rows \<Longrightarrow> parse (tr_TxID r) = Some h \<Longrightarrow> Keep scan (tr_Status r) (tr_BlockHeight r) \<Longrightarrow>
      fmlookup (load_map parse scan rows t) h = Some \<lparr>tt_Status = tr_Status r, tt_MinedHeight = tr_BlockHeight r\<rparr>"
    and "(\<And>r. r \<in> set rows \<Longrightarrow> parse (tr_TxID r) = Some h \<Longrightarrow> \<not> Keep scan (tr_Status r) (tr_BlockHeight r)) \<Longrightarrow>
      fmlookup (load_map parse scan rows t) h = fmlookup t h"
proof -
  show "r \<in> set rows \<Longrightarrow> parse (tr_TxID r) = Some h \<Longrightarrow> Keep scan (tr_Status r) (tr_BlockHeight r) \<Longrightarrow>
      fmlookup (load_map parse scan rows t) h = Some \<lparr>tt_Status = tr_Status r, tt_MinedHeight = tr_BlockHeight r\<rparr>"
    using assms
  proof (induction rows rule: rev_induct)
    case (snoc y ys)
    show ?case
    proof (cases "parse (tr_TxID y) = Some h")
      case True
      then have "y = r" using snoc.prems(1,2,4) by (auto simp: hash_unique_def)
      then show ?thesis using True snoc.prems(3) by (simp add: load_map_snoc)
    next
      case False
      then have "r \<in> set ys" using snoc.prems(1,2) by auto
      then have "fmlookup (load_map parse scan ys t) h = Some \<lparr>tt_Status = tr_Status r, tt_MinedHeight = tr_BlockHeight r\<rparr>"
        using snoc.IH snoc.prems(2,3,4) by (simp add: hash_unique_def)
      then show ?thesis using False by (auto simp: load_map_snoc split: option.splits)
    qed
  qed simp
  show "(\<And>r. r \<in> set rows \<Longrightarrow> parse (tr_TxID r) = Some h \<Longrightarrow> \<not> Keep scan (tr_Status r) (tr_BlockHeight r)) \<Longrightarrow>
      fmlookup (load_map parse scan rows t) h = fmlookup t h"
  proof (induction rows rule: rev_induct)
    case Nil
    show ?case by (simp add: load_map_def)
  next
    case (snoc y ys)
    then show ?case by (auto simp: load_map_snoc split: option.splits)
  qed
qed

definition parse_injective :: "(string \<Rightarrow> 'h option) \<Rightarrow> kv \<Rightarrow> bool" where
  "parse_injective parse m \<longleftrightarrow>
     (\<forall>t t'. row_at m t \<noteq> None \<longrightarrow> row_at m t' \<noteq> None \<longrightarrow> parse t \<noteq> None \<longrightarrow> parse t = parse t' \<longrightarrow> t = t')"

lemma parse_injectiveD:
  "parse_injective parse m \<Longrightarrow> row_at m t = Some q \<Longrightarrow> row_at m t' = Some q' \<Longrightarrow> parse t = Some h \<Longrightarrow> parse t' = Some h \<Longrightarrow> t = t'"
  unfolding parse_injective_def by simp

lemma Keep_tracked: "Keep scan st h \<Longrightarrow> st \<in> set TrackerStatuses"
  by (simp add: Keep_def TracksStatus_def TrackerStatuses_def split: if_splits)

text \<open>
  C21. Hydration is exact: when different stored transactions have different hashes, loading the tracker
  from the embedded store with a scan reports no error, gives every stored transaction the scan keeps
  its status and height, and leaves every other entry of the tracker as it was.
\<close>

theorem hydration_exact:
  assumes "pebble_ok pb view" and "pebble_up pb" and "status_consistent (view d)" and "uncancelled ctx"
    and "parse_injective parse (view d)"
    and "LoadFromStore parse (IterateTrackerRows pb ctx scan d) scan tracker = ((stats, err), tracker')"
  shows "err = None \<and>
    (\<forall>t q h. row_at (view d) t = Some q \<longrightarrow> parse t = Some h \<longrightarrow> Keep scan (ss_Status q) (ss_BlockHeight q) \<longrightarrow>
       fmlookup tracker' h = Some \<lparr>tt_Status = ss_Status q, tt_MinedHeight = ss_BlockHeight q\<rparr>) \<and>
    (\<forall>h. (\<forall>t q. row_at (view d) t = Some q \<longrightarrow> parse t = Some h \<longrightarrow> \<not> Keep scan (ss_Status q) (ss_BlockHeight q)) \<longrightarrow>
       fmlookup tracker' h = fmlookup tracker h)"
proof -
  let ?R = "{q. row_at (view d) (ss_TxID q) = Some q \<and> ss_Status q \<in> set TrackerStatuses \<and> Keep scan (ss_Status q) (ss_BlockHeight q)}"
  obtain rows where e: "emit_statuses pb d ctx 1 scan TrackerStatuses = (rows, None)" "set rows = row_of ` ?R"
    using emit_statuses_set [OF assms(1-4) order_refl, of 1 scan] by blast
  have em: "emitted pb ctx scan d = (rows, None)" using e(1) uncancelledD [OF assms(4)] by (simp add: emitted_def)
  have load: "tracker' = load_map parse scan rows tracker" "err = None"
    using store_rows.load_exact [of parse pb ctx scan d scan loadFromStoreBatchSize tracker] assms(6) em by (simp_all add: LoadFromStore_def)
  have inj: "hash_unique parse rows h" for h
    unfolding hash_unique_def
  proof (intro ballI impI)
    fix r r' assume r: "r \<in> set rows" "r' \<in> set rows" "parse (tr_TxID r) = Some h" "parse (tr_TxID r') = Some h"
    obtain q q' where q: "r = row_of q" "r' = row_of q'" "row_at (view d) (ss_TxID q) = Some q" "row_at (view d) (ss_TxID q') = Some q'"
      using r(1,2) unfolding e(2) by (elim imageE CollectE conjE)
    have "ss_TxID q = ss_TxID q'"
      by (rule parse_injectiveD [OF assms(5) q(3,4)]) (use q(1,2) r(3,4) in \<open>simp_all add: row_of_def\<close>)
    then have "Some q = Some q'" using q(3,4) by (simp only:)
    then show "r = r'" unfolding q(1,2) by simp
  qed
  have emitted_row: "row_of q \<in> set rows" if "row_at (view d) t = Some q" "Keep scan (ss_Status q) (ss_BlockHeight q)" for t q
    unfolding e(2)
  proof (intro imageI CollectI conjI)
    show "row_at (view d) (ss_TxID q) = Some q" using that(1) by (simp only: row_at_TxID(1) [OF assms(3) that(1)])
  qed (fact Keep_tracked [OF that(2)] that(2))+
  have "fmlookup tracker' h = Some \<lparr>tt_Status = ss_Status q, tt_MinedHeight = ss_BlockHeight q\<rparr>"
    if "row_at (view d) t = Some q" "parse t = Some h" "Keep scan (ss_Status q) (ss_BlockHeight q)" for t q h
  proof -
    have r: "parse (tr_TxID (row_of q)) = Some h" "Keep scan (tr_Status (row_of q)) (tr_BlockHeight (row_of q))"
      using that row_at_TxID(1) [OF assms(3) that(1)] by (simp_all add: row_of_def)
    show ?thesis
      unfolding load(1) using load_map_lookup(1) [OF inj emitted_row [OF that(1,3)] r, of tracker] by (simp add: row_of_def)
  qed
  moreover have "fmlookup tracker' h = fmlookup tracker h"
    if "\<forall>t q. row_at (view d) t = Some q \<longrightarrow> parse t = Some h \<longrightarrow> \<not> Keep scan (ss_Status q) (ss_BlockHeight q)" for h
    unfolding load(1)
  proof (rule load_map_lookup(2) [OF inj])
    fix r assume "r \<in> set rows" "parse (tr_TxID r) = Some h"
    then obtain q where q: "r = row_of q" "row_at (view d) (ss_TxID q) = Some q" "parse (ss_TxID q) = Some h"
      unfolding e(2) by (elim imageE CollectE conjE) (simp add: row_of_def)
    have "\<not> Keep scan (ss_Status q) (ss_BlockHeight q)" using that q(2,3) by (elim allE impE) assumption+
    then show "\<not> Keep scan (tr_Status r) (tr_BlockHeight r)" unfolding q(1) by (simp add: row_of_def)
  qed
  ultimately show ?thesis by (intro conjI load(2) allI impI)
qed

theorem hydration_exact_witness:
  "fmlookup (snd (LoadFromStore Some (IterateTrackerRows mem (\<lambda>_. False) (NewTrackerScan 0 False) sample_db) (NewTrackerScan 0 False) fmempty)) ''t1'' =
     Some \<lparr>tt_Status = StatusMined, tt_MinedHeight = 0\<rparr>"
proof -
  obtain stats err t where l: "LoadFromStore Some (IterateTrackerRows mem (\<lambda>_. False) (NewTrackerScan 0 False) sample_db) (NewTrackerScan 0 False) fmempty = ((stats, err), t)"
    by (metis prod.exhaust)
  have inj: "parse_injective Some (map_of sample_db)" by (simp add: parse_injective_def)
  have keep: "Keep (NewTrackerScan 0 False) StatusMined 0" by (simp add: Keep_def tracked_samples)
  have h: "ss_BlockHeight (sample_row ''t1'' StatusMined ''b'') = 0" by (simp add: sample_row_def fromModel_def empty_status_def)
  from hydration_exact [OF mem_ok mem_up sample_db_view(1) uncancelled_never inj l]
  have "row_at (map_of sample_db) ''t1'' = Some (sample_row ''t1'' StatusMined ''b'') \<longrightarrow> Some ''t1'' = Some ''t1'' \<longrightarrow>
      Keep (NewTrackerScan 0 False) (ss_Status (sample_row ''t1'' StatusMined ''b'')) (ss_BlockHeight (sample_row ''t1'' StatusMined ''b'')) \<longrightarrow>
      fmlookup t ''t1'' = Some \<lparr>tt_Status = ss_Status (sample_row ''t1'' StatusMined ''b''), tt_MinedHeight = ss_BlockHeight (sample_row ''t1'' StatusMined ''b'')\<rparr>"
    by (elim conjE allE)
  then have "fmlookup t ''t1'' = Some \<lparr>tt_Status = StatusMined, tt_MinedHeight = 0\<rparr>"
    using sample_db_view(2) keep h by simp
  then show ?thesis unfolding l by (simp add: h)
qed

end
