(* ===== verification/Pebble_Blocks.thy ===== *)
theory Pebble_Blocks
  imports Pebble_Status "HOL-Library.Product_Lexorder"
begin

text \<open>
  The block rows of the embedded store (\<open>store/pebble/pebble.go\<close>, "Block processing status"), the
  retained sets of expected subtrees, and the STUMP rows. Conventions as in \<open>Pebble_Status\<close>; the shard
  lock of a block makes each read-modify-write of its row one step.
\<close>

section \<open>Rows\<close>

definition blockToModel :: "storedBlockProcessing \<Rightarrow> block_processing_status" where
  "blockToModel b = \<lparr>bp_BlockHash = bk_BlockHash b, bp_BlockHeight = bk_BlockHeight b,
     bp_HeaderSeenAt = time_of (bk_HeaderSeenUnixNs b), bp_ProcessedAt = time_of (bk_ProcessedUnixNs b),
     bp_BUMPBuiltAt = time_of (bk_BUMPBuiltUnixNs b), bp_Status = bk_Status b,
     bp_OrphanedAt = (if bk_OrphanedAtUnixNs b \<noteq> 0 \<and> bk_Status b = BlockStatusOrphaned
                      then Some (bk_OrphanedAtUnixNs b) else None),
     bp_ReconciledAt = time_of (bk_ReconciledAtUnixNs b)\<rparr>"

definition readBlockProc :: "'db pebble \<Rightarrow> 'db \<Rightarrow> block_hash \<Rightarrow> storedBlockProcessing option result" where
  "readBlockProc pb d blockHash =
     (case pb_get pb d (blockProcKey blockHash) of
        Inl e \<Rightarrow> Inl e
      | Inr None \<Rightarrow> Inr None
      | Inr (Some v) \<Rightarrow> (case v of PBlock b \<Rightarrow> Inr (Some b) | _ \<Rightarrow> Inl Unparsable))"

definition block_ops :: "storedBlockProcessing option \<Rightarrow> storedBlockProcessing \<Rightarrow> batch_op list" where
  "block_ops prev cur =
     (case prev of
        Some p \<Rightarrow> if bk_BlockHeight p \<noteq> bk_BlockHeight cur
                  then [Del (idxBlockProcHeightKey (bk_BlockHeight p) (bk_BlockHash p))] else []
      | None \<Rightarrow> []) @
     [Put (blockProcKey (bk_BlockHash cur)) (PBlock cur), Put (idxBlockProcHeightKey (bk_BlockHeight cur) (bk_BlockHash cur)) PNil]"

definition writeBlockProc ::
    "'db pebble \<Rightarrow> storedBlockProcessing option \<Rightarrow> storedBlockProcessing \<Rightarrow> 'r \<Rightarrow> 'db \<Rightarrow> 'r result \<times> 'db" where
  "writeBlockProc pb prev cur r d = commit_then pb d (block_ops prev cur) r"

section \<open>Milestones\<close>

text \<open>The row literal the milestone writers start from.\<close>

definition new_block :: "block_hash \<Rightarrow> nat \<Rightarrow> storedBlockProcessing" where
  "new_block blockHash blockHeight = \<lparr>bk_BlockHash = blockHash, bk_BlockHeight = blockHeight, bk_HeaderSeenUnixNs = 0,
     bk_ProcessedUnixNs = 0, bk_BUMPBuiltUnixNs = 0, bk_Status = BlockStatusActive, bk_OrphanedAtUnixNs = 0,
     bk_ReconciledAtUnixNs = 0\<rparr>"

definition header_seen_row :: "block_hash \<Rightarrow> nat \<Rightarrow> unix_ns \<Rightarrow> storedBlockProcessing option \<Rightarrow> storedBlockProcessing" where
  "header_seen_row blockHash blockHeight seenNs prev =
     (let cur = (case prev of
            None \<Rightarrow> new_block blockHash blockHeight
          | Some p \<Rightarrow> (new_block blockHash blockHeight)\<lparr>bk_HeaderSeenUnixNs := bk_HeaderSeenUnixNs p,
              bk_ProcessedUnixNs := bk_ProcessedUnixNs p, bk_BUMPBuiltUnixNs := bk_BUMPBuiltUnixNs p,
              bk_OrphanedAtUnixNs := bk_OrphanedAtUnixNs p\<rparr>)
      in if bk_HeaderSeenUnixNs cur = 0 then cur\<lparr>bk_HeaderSeenUnixNs := seenNs\<rparr> else cur)"

definition UpsertBlockHeaderSeen ::
    "'db pebble \<Rightarrow> ctx \<Rightarrow> block_hash \<Rightarrow> nat \<Rightarrow> unix_ns option \<Rightarrow> 'db \<Rightarrow> unit result \<times> 'db" where
  "UpsertBlockHeaderSeen pb ctx blockHash blockHeight seenAt d =
     (if ctx 0 then (Inl Cancelled, d)
      else read_then (readBlockProc pb d blockHash) d (\<lambda>prev.
        writeBlockProc pb prev (header_seen_row blockHash blockHeight (UnixNano seenAt) prev) () d))"

definition processed_row :: "block_hash \<Rightarrow> nat \<Rightarrow> unix_ns \<Rightarrow> storedBlockProcessing option \<Rightarrow> storedBlockProcessing" where
  "processed_row blockHash blockHeight processedNs prev =
     (let cur = (new_block blockHash blockHeight)\<lparr>bk_ProcessedUnixNs := processedNs\<rparr>
      in case prev of
           Some p \<Rightarrow> cur\<lparr>bk_BlockHeight := bk_BlockHeight p, bk_HeaderSeenUnixNs := bk_HeaderSeenUnixNs p,
             bk_BUMPBuiltUnixNs := bk_BUMPBuiltUnixNs p, bk_Status := bk_Status p,
             bk_OrphanedAtUnixNs := bk_OrphanedAtUnixNs p, bk_ReconciledAtUnixNs := bk_ReconciledAtUnixNs p\<rparr>
         | None \<Rightarrow> cur\<lparr>bk_HeaderSeenUnixNs := processedNs\<rparr>)"

definition MarkBlockProcessed ::
    "'db pebble \<Rightarrow> ctx \<Rightarrow> block_hash \<Rightarrow> nat \<Rightarrow> unix_ns option \<Rightarrow> 'db \<Rightarrow> unit result \<times> 'db" where
  "MarkBlockProcessed pb ctx blockHash blockHeight processedAt d =
     (if ctx 0 then (Inl Cancelled, d)
      else read_then (readBlockProc pb d blockHash) d (\<lambda>prev.
        writeBlockProc pb prev (processed_row blockHash blockHeight (UnixNano processedAt) prev) () d))"

definition ClearBlockProcessed :: "'db pebble \<Rightarrow> ctx \<Rightarrow> block_hash \<Rightarrow> 'db \<Rightarrow> unit result \<times> 'db" where
  "ClearBlockProcessed pb ctx blockHash d =
     (if ctx 0 then (Inl Cancelled, d)
      else read_then (readBlockProc pb d blockHash) d (\<lambda>prev.
        case prev of
          None \<Rightarrow> (Inr (), d)
        | Some p \<Rightarrow> writeBlockProc pb prev (p\<lparr>bk_ProcessedUnixNs := 0\<rparr>) () d))"

definition bump_built_row :: "block_hash \<Rightarrow> nat \<Rightarrow> unix_ns \<Rightarrow> storedBlockProcessing option \<Rightarrow> storedBlockProcessing" where
  "bump_built_row blockHash blockHeight builtNs prev =
     (let cur = (new_block blockHash blockHeight)\<lparr>bk_BUMPBuiltUnixNs := builtNs\<rparr>
      in case prev of
           Some p \<Rightarrow> cur\<lparr>bk_BlockHeight := bk_BlockHeight p, bk_HeaderSeenUnixNs := bk_HeaderSeenUnixNs p,
             bk_ProcessedUnixNs := bk_ProcessedUnixNs p, bk_Status := bk_Status p,
             bk_OrphanedAtUnixNs := bk_OrphanedAtUnixNs p, bk_ReconciledAtUnixNs := bk_ReconciledAtUnixNs p\<rparr>
         | None \<Rightarrow> cur\<lparr>bk_HeaderSeenUnixNs := builtNs\<rparr>)"

definition MarkBlockBUMPBuilt ::
    "'db pebble \<Rightarrow> ctx \<Rightarrow> block_hash \<Rightarrow> nat \<Rightarrow> unix_ns option \<Rightarrow> 'db \<Rightarrow> unit result \<times> 'db" where
  "MarkBlockBUMPBuilt pb ctx blockHash blockHeight builtAt d =
     (if ctx 0 then (Inl Cancelled, d)
      else read_then (readBlockProc pb d blockHash) d (\<lambda>prev.
        writeBlockProc pb prev (bump_built_row blockHash blockHeight (UnixNano builtAt) prev) () d))"

section \<open>Expected subtrees\<close>

definition readBlockExpected :: "'db pebble \<Rightarrow> 'db \<Rightarrow> block_hash \<Rightarrow> int list result" where
  "readBlockExpected pb d blockHash =
     (case pb_get pb d (blockExpectedKey blockHash) of
        Inl e \<Rightarrow> Inl e
      | Inr None \<Rightarrow> Inr []
      | Inr (Some v) \<Rightarrow> (case v of PExpected out \<Rightarrow> Inr out | _ \<Rightarrow> Inl Unparsable))"

text \<open>\<open>slices.Compact\<close> after \<open>slices.Sort\<close>.\<close>

definition AddBlockExpectedSubtrees :: "'db pebble \<Rightarrow> ctx \<Rightarrow> block_hash \<Rightarrow> int list \<Rightarrow> 'db \<Rightarrow> unit result \<times> 'db" where
  "AddBlockExpectedSubtrees pb ctx blockHash indices d =
     (if ctx 0 then (Inl Cancelled, d)
      else if indices = [] then (Inr (), d)
      else read_then (readBlockProc pb d blockHash) d (\<lambda>row.
        case row of
          None \<Rightarrow> (Inr (), d)
        | Some _ \<Rightarrow> read_then (readBlockExpected pb d blockHash) d (\<lambda>cur.
            commit_then pb d [Put (blockExpectedKey blockHash) (PExpected (remdups_adj (sort (cur @ indices))))] ())))"

definition GetBlockExpectedSubtrees :: "'db pebble \<Rightarrow> ctx \<Rightarrow> block_hash \<Rightarrow> 'db \<Rightarrow> int list result" where
  "GetBlockExpectedSubtrees pb ctx blockHash d = (if ctx 0 then Inl Cancelled else readBlockExpected pb d blockHash)"

definition ClearBlockExpectedSubtrees :: "'db pebble \<Rightarrow> ctx \<Rightarrow> block_hash \<Rightarrow> 'db \<Rightarrow> unit result \<times> 'db" where
  "ClearBlockExpectedSubtrees pb ctx blockHash d =
     (if ctx 0 then (Inl Cancelled, d) else commit_then pb d [Del (blockExpectedKey blockHash)] ())"

section \<open>Orphan generations\<close>

text \<open>Addition on \<open>int64\<close>.\<close>

definition wrap64 :: "int \<Rightarrow> int" where
  "wrap64 x = (x + 2 ^ 63) mod 2 ^ 64 - 2 ^ 63"

definition mintOrphanGeneration :: "unix_ns \<Rightarrow> unix_ns \<Rightarrow> unix_ns" where
  "mintOrphanGeneration prevUnixNs wantUnixNs = (if prevUnixNs \<ge> wantUnixNs then wrap64 (prevUnixNs + 1) else wantUnixNs)"

text \<open>One row of \<open>MarkBlocksOrphaned\<close>, under its shard lock: whether it went from another status to orphaned.\<close>

definition orphan_row :: "'db pebble \<Rightarrow> unix_ns \<Rightarrow> block_hash \<Rightarrow> 'db \<Rightarrow> bool result \<times> 'db" where
  "orphan_row pb gen h d =
     read_then (readBlockProc pb d h) d (\<lambda>prev.
       case prev of
         None \<Rightarrow> (Inr False, d)
       | Some p \<Rightarrow>
           if bk_Status p = BlockStatusOrphaned \<and> bk_OrphanedAtUnixNs p > gen then (Inr False, d)
           else writeBlockProc pb prev
                  (p\<lparr>bk_Status := BlockStatusOrphaned,
                     bk_OrphanedAtUnixNs := mintOrphanGeneration (bk_OrphanedAtUnixNs p) gen, bk_ReconciledAtUnixNs := 0\<rparr>)
                  (bk_Status p \<noteq> BlockStatusOrphaned) d)"

fun orphan_loop ::
    "'db pebble \<Rightarrow> ctx \<Rightarrow> nat \<Rightarrow> unix_ns \<Rightarrow> nat \<Rightarrow> block_hash list \<Rightarrow> 'db \<Rightarrow> (nat \<times> store_error option) \<times> 'db" where
  "orphan_loop pb ctx i gen transitions [] d = ((transitions, None), d)"
| "orphan_loop pb ctx i gen transitions (h # hs) d =
     (if ctx i then ((transitions, Some Cancelled), d)
      else case orphan_row pb gen h d of
             (Inl e, d') \<Rightarrow> ((transitions, Some e), d')
           | (Inr moved, d') \<Rightarrow> orphan_loop pb ctx (Suc i) gen (if moved then transitions + 1 else transitions) hs d')"

definition MarkBlocksOrphaned ::
    "'db pebble \<Rightarrow> ctx \<Rightarrow> block_hash list \<Rightarrow> unix_ns option \<Rightarrow> 'db \<Rightarrow> (nat \<times> store_error option) \<times> 'db" where
  "MarkBlocksOrphaned pb ctx blockHashes orphanedAt d =
     (if ctx 0 then ((0, Some Cancelled), d) else orphan_loop pb ctx 1 (UnixNano orphanedAt) 0 blockHashes d)"

text \<open>The guard the three compare-and-set writers share: the row is orphaned with the caller's generation.\<close>

definition cas_holds :: "unix_ns option \<Rightarrow> storedBlockProcessing \<Rightarrow> bool" where
  "cas_holds orphanedAt p \<longleftrightarrow>
     bk_Status p = BlockStatusOrphaned \<and> (orphanedAt = None \<or> bk_OrphanedAtUnixNs p = UnixNano orphanedAt)"

definition MarkBlockReconciled ::
    "'db pebble \<Rightarrow> ctx \<Rightarrow> block_hash \<Rightarrow> unix_ns option \<Rightarrow> unix_ns option \<Rightarrow> 'db \<Rightarrow> bool result \<times> 'db" where
  "MarkBlockReconciled pb ctx blockHash orphanedAt at d =
     (if ctx 0 then (Inl Cancelled, d)
      else read_then (readBlockProc pb d blockHash) d (\<lambda>prev.
        case prev of
          None \<Rightarrow> (Inr False, d)
        | Some p \<Rightarrow>
            if \<not> cas_holds orphanedAt p then (Inr False, d)
            else writeBlockProc pb prev (p\<lparr>bk_ReconciledAtUnixNs := UnixNano at\<rparr>) True d))"

definition RequeueOrphanedBlock ::
    "'db pebble \<Rightarrow> ctx \<Rightarrow> block_hash \<Rightarrow> unix_ns option \<Rightarrow> 'db \<Rightarrow> bool result \<times> 'db" where
  "RequeueOrphanedBlock pb ctx blockHash orphanedAt d =
     (if ctx 0 then (Inl Cancelled, d)
      else read_then (readBlockProc pb d blockHash) d (\<lambda>prev.
        case prev of
          None \<Rightarrow> (Inr False, d)
        | Some p \<Rightarrow>
            if \<not> cas_holds orphanedAt p then (Inr False, d)
            else if bk_ReconciledAtUnixNs p = 0 then (Inr True, d)
            else writeBlockProc pb prev (p\<lparr>bk_ReconciledAtUnixNs := 0\<rparr>) True d))"

definition ReactivateBlock ::
    "'db pebble \<Rightarrow> ctx \<Rightarrow> block_hash \<Rightarrow> nat \<Rightarrow> unix_ns option \<Rightarrow> 'db \<Rightarrow> bool result \<times> 'db" where
  "ReactivateBlock pb ctx blockHash blockHeight orphanedAt d =
     (if ctx 0 then (Inl Cancelled, d)
      else read_then (readBlockProc pb d blockHash) d (\<lambda>prev.
        case prev of
          None \<Rightarrow> (Inr False, d)
        | Some p \<Rightarrow>
            if \<not> cas_holds orphanedAt p then (Inr False, d)
            else writeBlockProc pb prev
                   (p\<lparr>bk_BlockHeight := blockHeight, bk_Status := BlockStatusActive, bk_ReconciledAtUnixNs := 0\<rparr>) True d))"

text \<open>One row of \<open>MarkBlocksParked\<close>, under its shard lock.\<close>

definition park_row :: "'db pebble \<Rightarrow> block_hash \<Rightarrow> 'db \<Rightarrow> unit result \<times> 'db" where
  "park_row pb h d =
     read_then (readBlockProc pb d h) d (\<lambda>prev.
       case prev of
         None \<Rightarrow> (Inr (), d)
       | Some p \<Rightarrow>
           if bk_Status p \<noteq> BlockStatusActive then (Inr (), d)
           else writeBlockProc pb prev (p\<lparr>bk_Status := BlockStatusParked\<rparr>) () d)"

fun park_loop :: "'db pebble \<Rightarrow> ctx \<Rightarrow> nat \<Rightarrow> block_hash list \<Rightarrow> 'db \<Rightarrow> unit result \<times> 'db" where
  "park_loop pb ctx i [] d = (Inr (), d)"
| "park_loop pb ctx i (h # hs) d =
     (if ctx i then (Inl Cancelled, d)
      else case park_row pb h d of
             (Inl e, d') \<Rightarrow> (Inl e, d')
           | (Inr _, d') \<Rightarrow> park_loop pb ctx (Suc i) hs d')"

definition MarkBlocksParked :: "'db pebble \<Rightarrow> ctx \<Rightarrow> block_hash list \<Rightarrow> 'db \<Rightarrow> unit result \<times> 'db" where
  "MarkBlocksParked pb ctx blockHashes d = (if ctx 0 then (Inl Cancelled, d) else park_loop pb ctx 1 blockHashes d)"

section \<open>Queries\<close>

definition hasBUMP :: "'db pebble \<Rightarrow> 'db \<Rightarrow> block_hash \<Rightarrow> bool" where
  "hasBUMP pb d blockHash = (case pb_get pb d (bumpKey blockHash) of Inr (Some _) \<Rightarrow> True | _ \<Rightarrow> False)"

text \<open>
  The table scan of \<open>ListOrphanedBlocksToReconcile\<close>: the queued rows in key order, and the active
  rows, from which \<open>activeByHeight\<close> is read off.
\<close>

fun orphan_scan ::
    "ctx \<Rightarrow> nat \<Rightarrow> storedBlockProcessing list \<Rightarrow> storedBlockProcessing list \<Rightarrow> (bytes \<times> payload) list
      \<Rightarrow> (storedBlockProcessing list \<times> storedBlockProcessing list) result" where
  "orphan_scan ctx i rows actives [] = Inr (rows, actives)"
| "orphan_scan ctx i rows actives ((_, v) # kvs) =
     (if ctx i then Inl Cancelled
      else case v of
             PBlock b \<Rightarrow>
               if bk_Status b = BlockStatusActive then orphan_scan ctx (Suc i) rows (actives @ [b]) kvs
               else if bk_Status b = BlockStatusOrphaned \<and> bk_ReconciledAtUnixNs b = 0
               then orphan_scan ctx (Suc i) (rows @ [b]) actives kvs
               else orphan_scan ctx (Suc i) rows actives kvs
           | _ \<Rightarrow> orphan_scan ctx (Suc i) rows actives kvs)"

definition heightReanchorable :: "'db pebble \<Rightarrow> 'db \<Rightarrow> storedBlockProcessing list \<Rightarrow> nat \<Rightarrow> bool" where
  "heightReanchorable pb d actives height =
     list_ex (\<lambda>b. hasBUMP pb d (bk_BlockHash b)) (filter (\<lambda>b. bk_BlockHeight b = height) actives)"

text \<open>\<open>sort.SliceStable\<close> by "re-anchorable first, then the older generation" is a stable sort by that key.\<close>

definition reconcile_key :: "'db pebble \<Rightarrow> 'db \<Rightarrow> storedBlockProcessing list \<Rightarrow> storedBlockProcessing \<Rightarrow> bool \<times> int" where
  "reconcile_key pb d actives r = (\<not> heightReanchorable pb d actives (bk_BlockHeight r), bk_OrphanedAtUnixNs r)"

definition ListOrphanedBlocksToReconcile ::
    "'db pebble \<Rightarrow> ctx \<Rightarrow> int \<Rightarrow> 'db \<Rightarrow> block_processing_status list result" where
  "ListOrphanedBlocksToReconcile pb ctx limit d =
     (if ctx 0 then Inl Cancelled
      else if limit \<le> 0 then Inl BadLimit
      else case scan_prefix pb d prefixBlockProc of
             Inl e \<Rightarrow> Inl e
           | Inr kvs \<Rightarrow>
               (case orphan_scan ctx 1 [] [] kvs of
                  Inl e \<Rightarrow> Inl e
                | Inr (rows, actives) \<Rightarrow>
                    Inr (map blockToModel (take (nat limit) (sort_key (reconcile_key pb d actives) rows)))))"

definition GetBlockProcessingStatus :: "'db pebble \<Rightarrow> ctx \<Rightarrow> block_hash \<Rightarrow> 'db \<Rightarrow> block_processing_status result" where
  "GetBlockProcessingStatus pb ctx blockHash d =
     (if ctx 0 then Inl Cancelled
      else case readBlockProc pb d blockHash of
             Inl e \<Rightarrow> Inl e
           | Inr None \<Rightarrow> Inl ErrNotFound
           | Inr (Some stored) \<Rightarrow> Inr (blockToModel stored))"

fun tip_loop :: "'db pebble \<Rightarrow> 'db \<Rightarrow> ctx \<Rightarrow> nat \<Rightarrow> (bytes \<times> payload) list \<Rightarrow> nat result" where
  "tip_loop pb d ctx i [] = Inr 0"
| "tip_loop pb d ctx i ((key, _) # kvs) =
     (if ctx i then Inl Cancelled
      else case readBlockProc pb d (lastSegment key) of
             Inl e \<Rightarrow> Inl e
           | Inr None \<Rightarrow> tip_loop pb d ctx (Suc i) kvs
           | Inr (Some stored) \<Rightarrow>
               if bk_Status stored \<noteq> BlockStatusActive then tip_loop pb d ctx (Suc i) kvs
               else Inr (bk_BlockHeight stored))"

definition GetActiveTipBlockHeight :: "'db pebble \<Rightarrow> ctx \<Rightarrow> 'db \<Rightarrow> nat result" where
  "GetActiveTipBlockHeight pb ctx d =
     (if ctx 0 then Inl Cancelled
      else case scan_prefix pb d prefixIdxBlockProcHeight of
             Inl e \<Rightarrow> Inl e
           | Inr kvs \<Rightarrow> tip_loop pb d ctx 1 kvs)"

definition stale_row :: "unix_ns \<Rightarrow> nat \<Rightarrow> storedBlockProcessing \<Rightarrow> bool" where
  "stale_row threshold minHeight stored \<longleftrightarrow>
     bk_Status stored = BlockStatusActive \<and> bk_ProcessedUnixNs stored = 0 \<and>
     \<not> (bk_HeaderSeenUnixNs stored = 0 \<or> bk_HeaderSeenUnixNs stored \<ge> threshold) \<and> \<not> bk_BlockHeight stored < minHeight"

fun stale_loop ::
    "'db pebble \<Rightarrow> 'db \<Rightarrow> ctx \<Rightarrow> nat \<Rightarrow> unix_ns \<Rightarrow> nat \<Rightarrow> storedBlockProcessing list \<Rightarrow> (bytes \<times> payload) list
      \<Rightarrow> storedBlockProcessing list result" where
  "stale_loop pb d ctx i threshold minHeight candidates [] = Inr candidates"
| "stale_loop pb d ctx i threshold minHeight candidates ((key, _) # kvs) =
     (if ctx i then Inl Cancelled
      else case readBlockProc pb d (lastSegment key) of
             Inl e \<Rightarrow> Inl e
           | Inr None \<Rightarrow> stale_loop pb d ctx (Suc i) threshold minHeight candidates kvs
           | Inr (Some stored) \<Rightarrow>
               stale_loop pb d ctx (Suc i) threshold minHeight
                 (if stale_row threshold minHeight stored then candidates @ [stored] else candidates) kvs)"

text \<open>\<open>sort.Slice\<close> leaves the order of equal keys open, so the sort is the argument \<open>sort_slice\<close>.\<close>

definition ListStaleBlockProcessingStatus ::
    "'db pebble \<Rightarrow> ((storedBlockProcessing \<Rightarrow> int) \<Rightarrow> storedBlockProcessing list \<Rightarrow> storedBlockProcessing list)
      \<Rightarrow> ctx \<Rightarrow> unix_ns option \<Rightarrow> nat \<Rightarrow> int \<Rightarrow> 'db \<Rightarrow> block_processing_status list result" where
  "ListStaleBlockProcessingStatus pb sort_slice ctx olderThan minHeight limit d =
     (if ctx 0 then Inl Cancelled
      else if limit \<le> 0 then Inr []
      else case scan_prefix pb d prefixIdxBlockProcHeight of
             Inl e \<Rightarrow> Inl e
           | Inr kvs \<Rightarrow>
               (case stale_loop pb d ctx 1 (UnixNano olderThan) minHeight [] kvs of
                  Inl e \<Rightarrow> Inl e
                | Inr candidates \<Rightarrow>
                    Inr (map blockToModel (take (nat limit) (sort_slice bk_HeaderSeenUnixNs candidates)))))"

fun list_blocks_loop ::
    "'db pebble \<Rightarrow> 'db \<Rightarrow> ctx \<Rightarrow> nat \<Rightarrow> nat \<Rightarrow> block_processing_status list \<Rightarrow> (bytes \<times> payload) list
      \<Rightarrow> block_processing_status list \<times> store_error option" where
  "list_blocks_loop pb d ctx i limit out [] = (out, None)"
| "list_blocks_loop pb d ctx i limit out ((key, _) # kvs) =
     (if \<not> length out < limit then (out, None)
      else if ctx i then (out, Some Cancelled)
      else case readBlockProc pb d (lastSegment key) of
             Inl e \<Rightarrow> (out, Some e)
           | Inr None \<Rightarrow> list_blocks_loop pb d ctx (Suc i) limit out kvs
           | Inr (Some stored) \<Rightarrow> list_blocks_loop pb d ctx (Suc i) limit (out @ [blockToModel stored]) kvs)"

definition ListBlockProcessingStatus ::
    "'db pebble \<Rightarrow> ctx \<Rightarrow> nat \<Rightarrow> int \<Rightarrow> 'db \<Rightarrow> block_processing_status list \<times> store_error option" where
  "ListBlockProcessingStatus pb ctx beforeHeight limit d =
     (if ctx 0 then ([], Some Cancelled)
      else if limit \<le> 0 then ([], None)
      else let lower = (if beforeHeight > 0 then prefixIdxBlockProcHeight @ fmt016x (not64 (beforeHeight - 1)) @ '':''
                        else prefixIdxBlockProcHeight)
           in case pb_scan pb d lower (endOfPrefix prefixIdxBlockProcHeight) of
                Inl e \<Rightarrow> ([], Some e)
              | Inr kvs \<Rightarrow> list_blocks_loop pb d ctx 1 (nat limit) [] kvs)"

section \<open>STUMP rows\<close>

definition InsertStump :: "'db pebble \<Rightarrow> (bytes \<Rightarrow> bytes) \<Rightarrow> ctx \<Rightarrow> stump \<Rightarrow> 'db \<Rightarrow> unit result \<times> 'db" where
  "InsertStump pb sha256 ctx stump d =
     (if ctx 0 then (Inl Cancelled, d)
      else let (hash, s) = EnsureContentHash sha256 stump
           in commit_then pb d
                [Put (stumpKey (st_BlockHash s) (st_SubtreeIndex s) hash) (PStump s),
                 Put (idxStumpBlockKey (st_BlockHash s) (st_SubtreeIndex s) hash) PNil] ())"

fun stumps_loop ::
    "(bytes \<Rightarrow> bytes) \<Rightarrow> ctx \<Rightarrow> nat \<Rightarrow> stump list \<Rightarrow> (bytes \<times> payload) list \<Rightarrow> stump list \<times> store_error option" where
  "stumps_loop sha256 ctx i stumps [] = (stumps, None)"
| "stumps_loop sha256 ctx i stumps ((_, v) # kvs) =
     (if ctx i then (stumps, Some Cancelled)
      else case v of
             PStump st \<Rightarrow> stumps_loop sha256 ctx (Suc i) (stumps @ [snd (EnsureContentHash sha256 st)]) kvs
           | _ \<Rightarrow> ([], Some Unparsable))"

definition GetStumpsByBlockHash ::
    "'db pebble \<Rightarrow> (bytes \<Rightarrow> bytes) \<Rightarrow> ctx \<Rightarrow> block_hash \<Rightarrow> 'db \<Rightarrow> stump list \<times> store_error option" where
  "GetStumpsByBlockHash pb sha256 ctx blockHash d =
     (if ctx 0 then ([], Some Cancelled)
      else case scan_prefix pb d (stumpBlockPrefix blockHash) of
             Inl e \<Rightarrow> ([], Some e)
           | Inr kvs \<Rightarrow> stumps_loop sha256 ctx 1 [] kvs)"

definition DeleteStumpsByBlockHash :: "'db pebble \<Rightarrow> ctx \<Rightarrow> block_hash \<Rightarrow> 'db \<Rightarrow> unit result \<times> 'db" where
  "DeleteStumpsByBlockHash pb ctx blockHash d =
     (if ctx 0 then (Inl Cancelled, d)
      else read_then (scan_prefix pb d (stumpBlockPrefix blockHash)) d (\<lambda>rows.
        read_then (scan_prefix pb d (idxStumpBlockPrefix blockHash)) d (\<lambda>entries.
          commit_then pb d (map (\<lambda>kv. Del (fst kv)) (rows @ entries)) ())))"

end
