(* ===== verification/Pebble_Block_Rows.thy ===== *)
theory Pebble_Block_Rows
  imports Pebble_Blocks
begin

text \<open>
  Block rows and their height index as an instance of \<open>indexed_table\<close>, the shape of every write to the
  table, and the orphan generation: the compare-and-set token of the reconciler cannot be reused.
\<close>

section \<open>The block table\<close>

definition block_index_keys :: "storedBlockProcessing \<Rightarrow> bytes list" where
  "block_index_keys b = [idxBlockProcHeightKey (bk_BlockHeight b) (bk_BlockHash b)]"

definition block_row_ok :: "storedBlockProcessing \<Rightarrow> bool" where
  "block_row_ok b \<longleftrightarrow> colon_free (bk_BlockHash b) \<and> bk_BlockHeight b < 2 ^ 64"

definition is_block_index :: "bytes \<Rightarrow> bool" where
  "is_block_index k \<longleftrightarrow> prefix prefixIdxBlockProcHeight k"

definition block_consistent :: "kv \<Rightarrow> bool" where
  "block_consistent = table_consistent blockProcKey block_index_keys bk_BlockHash PBlock block_row_ok is_block_index"

lemma block_index_segment: "colon_free h \<Longrightarrow> lastSegment (idxBlockProcHeightKey n h) = h"
  using lastSegment_key [of h "prefixIdxBlockProcHeight @ fmt016x (not64 n)"] by (simp add: idxBlockProcHeightKey_def)

interpretation blk: indexed_table blockProcKey block_index_keys bk_BlockHash PBlock block_row_ok is_block_index lastSegment
proof unfold_locales
  show "blockProcKey a = blockProcKey b \<Longrightarrow> a = b" for a b by (simp add: blockProcKey_def)
  show "PBlock r = PBlock r' \<Longrightarrow> r = r'" for r r' by simp
  show "\<not> is_block_index (blockProcKey a)" for a by (simp add: blockProcKey_def is_block_index_def prefix_defs)
  show "k \<in> set (block_index_keys r) \<Longrightarrow> is_block_index k" for k r
    by (simp add: block_index_keys_def is_block_index_def idxBlockProcHeightKey_def)
  show "block_row_ok r \<Longrightarrow> k \<in> set (block_index_keys r) \<Longrightarrow> lastSegment k = bk_BlockHash r" for r k
    by (simp add: block_index_keys_def block_row_ok_def block_index_segment)
qed

definition block_at :: "kv \<Rightarrow> block_hash \<Rightarrow> storedBlockProcessing option" where
  "block_at m h = (case m (blockProcKey h) of Some (PBlock b) \<Rightarrow> Some b | _ \<Rightarrow> None)"

lemma block_at_key: "block_at m h = Some b \<longleftrightarrow> m (blockProcKey h) = Some (PBlock b)"
  by (auto simp: block_at_def split: option.splits payload.splits)

lemma block_at_row:
  assumes "block_consistent m" and "block_at m h = Some b"
  shows "bk_BlockHash b = h" and "block_row_ok b"
  using blk.mk_row [of m h b] assms by (simp_all add: block_consistent_def block_at_key)

lemma block_row_payload:
  assumes "block_consistent m" and "m (blockProcKey h) = Some p"
  shows "\<exists>b. p = PBlock b"
  using blk.row_wf [of m h p] assms unfolding block_consistent_def by metis

lemma readBlockProc_at:
  assumes "pebble_ok pb view" and "block_consistent (view d)" and "readBlockProc pb d h = Inr r"
  shows "r = block_at (view d) h" and "view d (blockProcKey h) = map_option PBlock r"
  using assms pebble_get [OF assms(1), of d "blockProcKey h"]
  by (auto simp: readBlockProc_def block_at_def split: sum.splits option.splits payload.splits)

lemma readBlockProc_up:
  assumes "pebble_ok pb view" and "pebble_up pb" and "block_consistent (view d)"
  shows "readBlockProc pb d h = Inr (block_at (view d) h)"
  using pebble_up_get [OF assms(1,2), of d "blockProcKey h"] block_row_payload [OF assms(3), of h]
  by (cases "view d (blockProcKey h)") (auto simp: readBlockProc_def block_at_def)

section \<open>Writes\<close>

text \<open>\<open>block_write T m m'\<close>: one block row is inserted or replaced by \<open>writeBlockProc\<close>, and \<open>T\<close> relates the row before to the row after.\<close>

definition block_write :: "(storedBlockProcessing option \<Rightarrow> storedBlockProcessing \<Rightarrow> bool) \<Rightarrow> kv \<Rightarrow> kv \<Rightarrow> bool" where
  "block_write T m m' \<longleftrightarrow> (\<exists>old new. T old new \<and> block_row_ok new \<and>
     m (blockProcKey (bk_BlockHash new)) = map_option PBlock old \<and> m' = apply_batch (block_ops old new) m)"

definition old_height_keys :: "storedBlockProcessing option \<Rightarrow> storedBlockProcessing \<Rightarrow> bytes list" where
  "old_height_keys old new = (case old of Some p \<Rightarrow> if bk_BlockHeight p \<noteq> bk_BlockHeight new
     then [idxBlockProcHeightKey (bk_BlockHeight p) (bk_BlockHash p)] else [] | None \<Rightarrow> [])"

lemma block_ops_rewrite:
  "block_ops old new = map Del (old_height_keys old new) @ [Put (blockProcKey (bk_BlockHash new)) (PBlock new)] @
     map (\<lambda>k. Put k PNil) (block_index_keys new)"
  by (auto simp: block_ops_def old_height_keys_def block_index_keys_def split: option.splits)

lemma block_write_consistent:
  assumes "block_consistent m" and "block_write T m m'"
  shows "block_consistent m'"
proof -
  obtain old new where w: "block_row_ok new" "m (blockProcKey (bk_BlockHash new)) = map_option PBlock old"
    and m': "m' = apply_batch (block_ops old new) m"
    using assms(2) unfolding block_write_def by blast
  have same: "bk_BlockHash q = bk_BlockHash new" if "old = Some q" for q
    using block_at_row(1) [OF assms(1), of "bk_BlockHash new" q] w(2) that by (simp add: block_at_key)
  show ?thesis
    unfolding block_consistent_def m' block_ops_rewrite
    by (rule blk.rewrite_consistent [OF assms(1) [unfolded block_consistent_def] w])
      (use same in \<open>auto simp: old_height_keys_def block_index_keys_def\<close>)
qed

lemma block_write_at:
  assumes "block_write T m m'"
  obtains old new where "T old new" "block_row_ok new" "block_at m (bk_BlockHash new) = old"
    "\<forall>h. block_at m' h = (if h = bk_BlockHash new then Some new else block_at m h)"
proof -
  obtain old new where w: "T old new" "block_row_ok new" "m (blockProcKey (bk_BlockHash new)) = map_option PBlock old"
    and m': "m' = apply_batch (block_ops old new) m"
    using assms unfolding block_write_def by blast
  have D: "set (old_height_keys old new) \<subseteq> Collect is_block_index"
    by (auto simp: old_height_keys_def is_block_index_def idxBlockProcHeightKey_def split: option.splits)
  have "m' (blockProcKey h) = (if h = bk_BlockHash new then Some (PBlock new) else m (blockProcKey h))" for h
    unfolding m' block_ops_rewrite by (rule blk.rewrite_lookup(1) [OF D])
  then have at: "\<forall>h. block_at m' h = (if h = bk_BlockHash new then Some new else block_at m h)"
    by (simp add: block_at_def)
  have "block_at m (bk_BlockHash new) = old" using w(3) by (cases old) (simp_all add: block_at_def)
  then show thesis using that [OF w(1,2) _ at] by blast
qed

text \<open>A block write leaves every key outside the table as it is.\<close>

definition block_space :: "bytes \<Rightarrow> bool" where
  "block_space k \<longleftrightarrow> prefix prefixBlockProc k \<or> is_block_index k"

lemma block_write_frame: "block_write T m m' \<Longrightarrow> \<not> block_space k \<Longrightarrow> m' k = m k"
  unfolding block_write_def
  by (elim exE conjE, simp only:, rule apply_batch_other)
    (auto simp: block_ops_def block_space_def blockProcKey_def is_block_index_def idxBlockProcHeightKey_def split: option.splits if_splits)

definition block_writes :: "(storedBlockProcessing option \<Rightarrow> storedBlockProcessing \<Rightarrow> bool) \<Rightarrow> kv \<Rightarrow> kv \<Rightarrow> bool" where
  "block_writes T m m' \<longleftrightarrow> m' = m \<or> block_write T m m'"

lemma block_writes_refl [simp]: "block_writes T m m"
  by (simp add: block_writes_def)

lemma block_writes_consistent: "block_consistent m \<Longrightarrow> block_writes T m m' \<Longrightarrow> block_consistent m'"
  unfolding block_writes_def using block_write_consistent by blast

lemma writeBlockProc_writes:
  assumes "pebble_ok pb view" and "view d (blockProcKey (bk_BlockHash new)) = map_option PBlock old" and "block_row_ok new"
    and "T old new" and "writeBlockProc pb old new r d = (res, d')"
  shows "block_writes T (view d) (view d')"
  using commit_then_view(1) [OF assms(1) assms(5) [unfolded writeBlockProc_def]] assms(2-4)
  unfolding block_writes_def block_write_def by (cases "isl res") auto

section \<open>The operations as writes\<close>

text \<open>
  How a write moves the orphan generation: a new row has none; an existing row keeps it, and is then
  orphaned only if it was; or the row is orphaned with a greater one, while the counter has room.
\<close>

definition gen_room :: "storedBlockProcessing \<Rightarrow> bool" where
  "gen_room p \<longleftrightarrow> - (2 ^ 63) \<le> bk_OrphanedAtUnixNs p \<and> bk_OrphanedAtUnixNs p < 2 ^ 63 - 1"

fun gen_step :: "storedBlockProcessing option \<Rightarrow> storedBlockProcessing \<Rightarrow> bool" where
  "gen_step None new \<longleftrightarrow> bk_OrphanedAtUnixNs new = 0 \<and> bk_Status new \<noteq> BlockStatusOrphaned"
| "gen_step (Some p) new \<longleftrightarrow>
     (bk_OrphanedAtUnixNs new = bk_OrphanedAtUnixNs p \<and> (bk_Status new = BlockStatusOrphaned \<longrightarrow> bk_Status p = BlockStatusOrphaned)) \<or>
     (bk_Status new = BlockStatusOrphaned \<and> (gen_room p \<longrightarrow> bk_OrphanedAtUnixNs p < bk_OrphanedAtUnixNs new))"

lemma mint_greater:
  assumes "gen_room p"
  shows "bk_OrphanedAtUnixNs p < mintOrphanGeneration (bk_OrphanedAtUnixNs p) want"
proof -
  have "(bk_OrphanedAtUnixNs p + 1 + 2 ^ 63) mod 2 ^ 64 = bk_OrphanedAtUnixNs p + 1 + 2 ^ 63"
    using assms by (intro mod_pos_pos_trivial) (auto simp: gen_room_def)
  then show ?thesis by (auto simp: mintOrphanGeneration_def wrap64_def)
qed

lemma active_not_orphaned: "BlockStatusActive \<noteq> BlockStatusOrphaned" "BlockStatusParked \<noteq> BlockStatusOrphaned"
  "BlockStatusOrphaned \<noteq> BlockStatusActive" "BlockStatusParked \<noteq> BlockStatusActive"
  by (simp_all add: BlockStatusActive_def BlockStatusOrphaned_def BlockStatusParked_def)

lemma read_then_cases:
  assumes "read_then r d f = (res, d')"
  obtains (failed) e where "r = Inl e" "res = Inl e" "d' = d" | (done_read) a where "r = Inr a" "f a = (res, d')"
  using assms by (cases r) (auto simp: read_then_def)

definition row_fits :: "block_hash \<Rightarrow> storedBlockProcessing option \<Rightarrow> storedBlockProcessing \<Rightarrow> bool" where
  "row_fits h prev cur \<longleftrightarrow> bk_BlockHash cur = h \<and> gen_step prev cur \<and>
     (bk_BlockHeight cur < 2 ^ 64 \<or> (case prev of None \<Rightarrow> False | Some p \<Rightarrow> bk_BlockHeight cur = bk_BlockHeight p))"

definition block_effect :: "('db \<Rightarrow> kv) \<Rightarrow> 'db \<Rightarrow> 'db \<Rightarrow> bool" where
  "block_effect view d d' \<longleftrightarrow> (block_consistent (view d) \<longrightarrow> block_writes gen_step (view d) (view d'))"

lemma block_effect_refl [simp]: "block_effect view d d"
  by (simp add: block_effect_def)

text \<open>A read of the row followed by a write of the row computed from it, or by nothing.\<close>

lemma block_read_write:
  assumes ok: "pebble_ok pb view" and h: "colon_free h"
    and f: "\<forall>prev. snd (f prev) = d \<or> (\<exists>cur r. f prev = writeBlockProc pb prev cur r d \<and>
      ((case prev of None \<Rightarrow> True | Some p \<Rightarrow> bk_BlockHash p = h) \<longrightarrow> row_fits h prev cur))"
  shows "block_effect view d (snd (read_then (readBlockProc pb d h) d f))"
  unfolding block_effect_def
proof
  assume c: "block_consistent (view d)"
  show "block_writes gen_step (view d) (view (snd (read_then (readBlockProc pb d h) d f)))"
  proof (cases "readBlockProc pb d h")
    case (Inr prev)
    note at = readBlockProc_at [OF ok c Inr]
    have own: "case prev of None \<Rightarrow> True | Some p \<Rightarrow> bk_BlockHash p = h"
      using block_at_row(1) [OF c, of h] at(1) by (auto split: option.splits)
    have eq: "read_then (readBlockProc pb d h) d f = f prev" by (simp add: read_then_def Inr)
    from f own consider "snd (f prev) = d" | cur r where "f prev = writeBlockProc pb prev cur r d" "row_fits h prev cur" by blast
    then show ?thesis
    proof cases
      case 2
      have ok_row: "block_row_ok cur"
        using 2(2) h block_at_row(2) [OF c, of h] at(1) by (auto simp: block_row_ok_def row_fits_def split: option.splits)
      have key: "view d (blockProcKey (bk_BlockHash cur)) = map_option PBlock prev" using at(2) 2(2) by (simp add: row_fits_def)
      have step: "gen_step prev cur" using 2(2) by (simp add: row_fits_def)
      show ?thesis
        unfolding eq 2(1) by (rule writeBlockProc_writes [where T = gen_step, OF ok key ok_row step surjective_pairing])
    qed (simp add: eq)
  qed (simp add: read_then_def)
qed

lemma block_checked:
  "block_effect view d (snd x) \<Longrightarrow> block_effect view d (snd (if c then (Inl Cancelled, d) else x))"
  by simp

lemma new_block_simps [simp]:
  "bk_BlockHash (new_block h n) = h" "bk_BlockHeight (new_block h n) = n" "bk_Status (new_block h n) = BlockStatusActive"
  "bk_OrphanedAtUnixNs (new_block h n) = 0"
  by (simp_all add: new_block_def)

lemma milestone_rows:
  "bk_BlockHash (header_seen_row h n t prev) = h" "bk_BlockHeight (header_seen_row h n t prev) = n"
  "bk_BlockHash (processed_row h n t prev) = h"
  "bk_BlockHeight (processed_row h n t prev) = (case prev of None \<Rightarrow> n | Some p \<Rightarrow> bk_BlockHeight p)"
  "bk_BlockHash (bump_built_row h n t prev) = h"
  "bk_BlockHeight (bump_built_row h n t prev) = (case prev of None \<Rightarrow> n | Some p \<Rightarrow> bk_BlockHeight p)"
  by (auto simp: header_seen_row_def processed_row_def bump_built_row_def Let_def split: option.splits)

lemma milestone_fields:
  "bk_Status (header_seen_row h n t prev) = BlockStatusActive"
  "bk_OrphanedAtUnixNs (header_seen_row h n t prev) = (case prev of None \<Rightarrow> 0 | Some p \<Rightarrow> bk_OrphanedAtUnixNs p)"
  "bk_Status (processed_row h n t prev) = (case prev of None \<Rightarrow> BlockStatusActive | Some p \<Rightarrow> bk_Status p)"
  "bk_OrphanedAtUnixNs (processed_row h n t prev) = (case prev of None \<Rightarrow> 0 | Some p \<Rightarrow> bk_OrphanedAtUnixNs p)"
  "bk_Status (bump_built_row h n t prev) = (case prev of None \<Rightarrow> BlockStatusActive | Some p \<Rightarrow> bk_Status p)"
  "bk_OrphanedAtUnixNs (bump_built_row h n t prev) = (case prev of None \<Rightarrow> 0 | Some p \<Rightarrow> bk_OrphanedAtUnixNs p)"
  by (auto simp: header_seen_row_def processed_row_def bump_built_row_def Let_def split: option.splits)

lemma milestone_gen:
  "gen_step prev (header_seen_row h n t prev)" "gen_step prev (processed_row h n t prev)"
  "gen_step prev (bump_built_row h n t prev)"
  by (cases prev; simp add: milestone_fields active_not_orphaned)+

lemma milestone_fits:
  assumes "n < 2 ^ 64"
  shows "row_fits h prev (header_seen_row h n t prev)" "row_fits h prev (processed_row h n t prev)"
    "row_fits h prev (bump_built_row h n t prev)"
  unfolding row_fits_def milestone_rows by (intro conjI refl milestone_gen; use assms in \<open>simp split: option.split\<close>)+

lemma milestone_writes:
  assumes "pebble_ok pb view" and "colon_free h" and "n < 2 ^ 64"
  shows "block_effect view d (snd (UpsertBlockHeaderSeen pb ctx h n t d))"
    and "block_effect view d (snd (MarkBlockProcessed pb ctx h n t d))"
    and "block_effect view d (snd (MarkBlockBUMPBuilt pb ctx h n t d))"
proof -
  have *: "block_effect view d (snd (if c then (Inl Cancelled, d)
      else read_then (readBlockProc pb d h) d (\<lambda>prev. writeBlockProc pb prev (row prev) () d)))"
    if "\<forall>prev. row_fits h prev (row prev)" for row c
    by (rule block_checked, rule block_read_write [OF assms(1,2)]) (use that in blast)
  show "block_effect view d (snd (UpsertBlockHeaderSeen pb ctx h n t d))"
    "block_effect view d (snd (MarkBlockProcessed pb ctx h n t d))"
    "block_effect view d (snd (MarkBlockBUMPBuilt pb ctx h n t d))"
    unfolding UpsertBlockHeaderSeen_def MarkBlockProcessed_def MarkBlockBUMPBuilt_def
    by (intro * allI milestone_fits [OF assms(3)])+
qed

lemma update_fits:
  assumes "case prev of None \<Rightarrow> True | Some p \<Rightarrow> bk_BlockHash p = h" and "prev = Some p"
  shows "row_fits h prev (p\<lparr>bk_ProcessedUnixNs := t\<rparr>)" "row_fits h prev (p\<lparr>bk_ReconciledAtUnixNs := t\<rparr>)"
    "n < 2 ^ 64 \<Longrightarrow> row_fits h prev (p\<lparr>bk_BlockHeight := n, bk_Status := BlockStatusActive, bk_ReconciledAtUnixNs := 0\<rparr>)"
    "row_fits h prev (p\<lparr>bk_Status := BlockStatusParked\<rparr>)"
    "row_fits h prev (p\<lparr>bk_Status := BlockStatusOrphaned,
       bk_OrphanedAtUnixNs := mintOrphanGeneration (bk_OrphanedAtUnixNs p) g, bk_ReconciledAtUnixNs := 0\<rparr>)"
  using assms mint_greater [of p] by (auto simp: row_fits_def active_not_orphaned)

text \<open>What may follow the read of an existing row \<open>p\<close>.\<close>

definition follows :: "'db pebble \<Rightarrow> 'db \<Rightarrow> block_hash \<Rightarrow> storedBlockProcessing \<Rightarrow> 'r result \<times> 'db \<Rightarrow> bool" where
  "follows pb d h p x \<longleftrightarrow> snd x = d \<or>
     (\<exists>cur r. x = writeBlockProc pb (Some p) cur r d \<and> (bk_BlockHash p = h \<longrightarrow> row_fits h (Some p) cur))"

lemma follows_keep: "follows pb d h p (r, d)"
  by (simp add: follows_def)

lemma follows_if: "follows pb d h p a \<Longrightarrow> follows pb d h p b \<Longrightarrow> follows pb d h p (if g then a else b)"
  by simp

lemma follows_write: "(bk_BlockHash p = h \<Longrightarrow> row_fits h (Some p) cur) \<Longrightarrow> follows pb d h p (writeBlockProc pb (Some p) cur r d)"
  unfolding follows_def by (rule disjI2, rule exI [where x = cur], rule exI [where x = r], rule conjI, rule refl, rule impI)

lemma block_update_write:
  assumes "pebble_ok pb view" and "colon_free h" and "\<forall>p. follows pb d h p (f (Some p) p)"
  shows "block_effect view d (snd (read_then (readBlockProc pb d h) d (\<lambda>prev. case prev of None \<Rightarrow> (r, d) | Some p \<Rightarrow> f prev p)))"
proof (rule block_read_write [OF assms(1,2)], rule allI)
  fix prev
  show "snd (case prev of None \<Rightarrow> (r, d) | Some p \<Rightarrow> f prev p) = d \<or>
      (\<exists>cur ra. (case prev of None \<Rightarrow> (r, d) | Some p \<Rightarrow> f prev p) = writeBlockProc pb prev cur ra d \<and>
        ((case prev of None \<Rightarrow> True | Some p \<Rightarrow> bk_BlockHash p = h) \<longrightarrow> row_fits h prev cur))"
  proof (cases prev)
    case (Some p)
    then show ?thesis using assms(3) by (simp add: follows_def)
  qed simp
qed

lemma update_writes:
  assumes "pebble_ok pb view" and "colon_free h"
  shows "block_effect view d (snd (ClearBlockProcessed pb ctx h d))"
    and "block_effect view d (snd (orphan_row pb g h d))"
    and "block_effect view d (snd (MarkBlockReconciled pb ctx h o' t d))"
    and "block_effect view d (snd (RequeueOrphanedBlock pb ctx h o' d))"
    and "n < 2 ^ 64 \<Longrightarrow> block_effect view d (snd (ReactivateBlock pb ctx h n o' d))"
    and "block_effect view d (snd (park_row pb h d))"
proof -
  note upd = block_update_write [OF assms]
  have own: "bk_BlockHash p = h \<Longrightarrow> row_fits h (Some p) (p\<lparr>bk_ProcessedUnixNs := t\<rparr>)"
    "bk_BlockHash p = h \<Longrightarrow> row_fits h (Some p) (p\<lparr>bk_ReconciledAtUnixNs := t\<rparr>)"
    "n < 2 ^ 64 \<Longrightarrow> bk_BlockHash p = h \<Longrightarrow>
       row_fits h (Some p) (p\<lparr>bk_BlockHeight := n, bk_Status := BlockStatusActive, bk_ReconciledAtUnixNs := 0\<rparr>)"
    "bk_BlockHash p = h \<Longrightarrow> row_fits h (Some p) (p\<lparr>bk_Status := BlockStatusParked\<rparr>)"
    "bk_BlockHash p = h \<Longrightarrow> row_fits h (Some p) (p\<lparr>bk_Status := BlockStatusOrphaned,
       bk_OrphanedAtUnixNs := mintOrphanGeneration (bk_OrphanedAtUnixNs p) g, bk_ReconciledAtUnixNs := 0\<rparr>)" for p t
    by (rule update_fits; simp)+
  show "block_effect view d (snd (ClearBlockProcessed pb ctx h d))"
    unfolding ClearBlockProcessed_def by (intro block_checked upd allI follows_if follows_keep follows_write own)
  show "block_effect view d (snd (orphan_row pb g h d))"
    unfolding orphan_row_def by (intro upd allI follows_if follows_keep follows_write own)
  show "block_effect view d (snd (MarkBlockReconciled pb ctx h o' t d))"
    unfolding MarkBlockReconciled_def by (intro block_checked upd allI follows_if follows_keep follows_write own)
  show "block_effect view d (snd (RequeueOrphanedBlock pb ctx h o' d))"
    unfolding RequeueOrphanedBlock_def by (intro block_checked upd allI follows_if follows_keep follows_write own)
  show "n < 2 ^ 64 \<Longrightarrow> block_effect view d (snd (ReactivateBlock pb ctx h n o' d))"
    unfolding ReactivateBlock_def by (intro block_checked upd allI follows_if follows_keep follows_write own)
  show "block_effect view d (snd (park_row pb h d))"
    unfolding park_row_def by (intro upd allI follows_if follows_keep follows_write own)
qed

section \<open>Interleavings\<close>

text \<open>Every operation that writes a block row, the batches one row at a time, on an engine that may fail.\<close>

inductive block_step :: "'db pebble \<Rightarrow> 'db \<Rightarrow> 'db \<Rightarrow> bool" for pb where
  header_seen: "colon_free h \<Longrightarrow> n < 2 ^ 64 \<Longrightarrow> block_step pb d (snd (UpsertBlockHeaderSeen pb ctx h n t d))"
| processed: "colon_free h \<Longrightarrow> n < 2 ^ 64 \<Longrightarrow> block_step pb d (snd (MarkBlockProcessed pb ctx h n t d))"
| bump_built: "colon_free h \<Longrightarrow> n < 2 ^ 64 \<Longrightarrow> block_step pb d (snd (MarkBlockBUMPBuilt pb ctx h n t d))"
| clear_processed: "colon_free h \<Longrightarrow> block_step pb d (snd (ClearBlockProcessed pb ctx h d))"
| orphan: "colon_free h \<Longrightarrow> block_step pb d (snd (orphan_row pb g h d))"
| reconciled: "colon_free h \<Longrightarrow> block_step pb d (snd (MarkBlockReconciled pb ctx h o' t d))"
| requeue: "colon_free h \<Longrightarrow> block_step pb d (snd (RequeueOrphanedBlock pb ctx h o' d))"
| reactivate: "colon_free h \<Longrightarrow> n < 2 ^ 64 \<Longrightarrow> block_step pb d (snd (ReactivateBlock pb ctx h n o' d))"
| park: "colon_free h \<Longrightarrow> block_step pb d (snd (park_row pb h d))"

lemma block_step_effect: "pebble_ok pb view \<Longrightarrow> block_step pb d d' \<Longrightarrow> block_effect view d d'"
  by (erule block_step.cases) (simp_all only: milestone_writes update_writes)

lemma block_steps_consistent:
  assumes "pebble_ok pb view" and "block_consistent (view d)" and "(block_step pb)\<^sup>*\<^sup>* d d'"
  shows "block_consistent (view d')"
  using assms(3,2)
proof (induction rule: rtranclp_induct)
  case (step d1 d2)
  then show ?case
    using block_step_effect [OF assms(1)] block_writes_consistent unfolding block_effect_def by blast
qed simp

lemma orphan_loop_steps: "list_all colon_free hs \<Longrightarrow> (block_step pb)\<^sup>*\<^sup>* d (snd (orphan_loop pb ctx i g n hs d))"
proof (induction hs arbitrary: i n d)
  case (Cons h hs)
  have row: "block_step pb d (snd (orphan_row pb g h d))" using Cons.prems by (simp add: block_step.orphan)
  obtain res d1 where o: "orphan_row pb g h d = (res, d1)" by (rule prod.exhaust)
  show ?case
  proof (cases res)
    case (Inl e)
    then show ?thesis using row o by (auto split: if_splits)
  next
    case (Inr moved)
    have "(block_step pb)\<^sup>*\<^sup>* d1 (snd (orphan_loop pb ctx (Suc i) g (if moved then n + 1 else n) hs d1))"
      by (rule Cons.IH) (use Cons.prems in simp)
    then show ?thesis
      using row o Inr by (cases "ctx i") (auto intro: converse_rtranclp_into_rtranclp [of "block_step pb"])
  qed
qed simp

lemma park_loop_steps: "list_all colon_free hs \<Longrightarrow> (block_step pb)\<^sup>*\<^sup>* d (snd (park_loop pb ctx i hs d))"
proof (induction hs arbitrary: i d)
  case (Cons h hs)
  have row: "block_step pb d (snd (park_row pb h d))" using Cons.prems by (simp add: block_step.park)
  obtain res d1 where o: "park_row pb h d = (res, d1)" by (rule prod.exhaust)
  show ?case
  proof (cases res)
    case (Inl e)
    then show ?thesis using row o by (auto split: if_splits)
  next
    case (Inr moved)
    have "(block_step pb)\<^sup>*\<^sup>* d1 (snd (park_loop pb ctx (Suc i) hs d1))"
      by (rule Cons.IH) (use Cons.prems in simp)
    then show ?thesis
      using row o Inr by (cases "ctx i") (auto intro: converse_rtranclp_into_rtranclp [of "block_step pb"])
  qed
qed simp

section \<open>Orphan generations are never reused\<close>

text \<open>A step taken while the generation counter of the block has room.\<close>

definition roomy_step :: "'db pebble \<Rightarrow> ('db \<Rightarrow> kv) \<Rightarrow> block_hash \<Rightarrow> 'db \<Rightarrow> 'db \<Rightarrow> bool" where
  "roomy_step pb view h d d' \<longleftrightarrow> block_step pb d d' \<and> (\<forall>p. block_at (view d) h = Some p \<longrightarrow> gen_room p)"

lemma roomy_step_gen:
  assumes "pebble_ok pb view" and "block_consistent (view d)" and "roomy_step pb view h d d'" and "block_at (view d) h = Some p"
  shows "\<exists>q. block_at (view d') h = Some q \<and> bk_OrphanedAtUnixNs p \<le> bk_OrphanedAtUnixNs q \<and>
    (bk_OrphanedAtUnixNs q = bk_OrphanedAtUnixNs p \<and> bk_Status q = BlockStatusOrphaned \<longrightarrow> bk_Status p = BlockStatusOrphaned)"
proof -
  have "block_writes gen_step (view d) (view d')"
    using block_step_effect [OF assms(1)] assms(2,3) by (simp add: block_effect_def roomy_step_def)
  then consider "view d' = view d" | "block_write gen_step (view d) (view d')" by (auto simp: block_writes_def)
  then show ?thesis
  proof cases
    case 2
    obtain old new where w: "gen_step old new" "block_at (view d) (bk_BlockHash new) = old"
      "\<forall>h. block_at (view d') h = (if h = bk_BlockHash new then Some new else block_at (view d) h)"
      by (rule block_write_at [OF 2])
    show ?thesis
    proof (cases "h = bk_BlockHash new")
      case True
      then have "old = Some p" using w(2) assms(4) by simp
      moreover have "gen_room p" using assms(3,4) by (simp add: roomy_step_def)
      ultimately show ?thesis using w(1,3) True by auto
    qed (use w(3) assms(4) in simp)
  qed (use assms(4) in simp)
qed

lemma roomy_run_gen:
  assumes "pebble_ok pb view" and "block_consistent (view d)" and "(roomy_step pb view h)\<^sup>*\<^sup>* d d'" and "block_at (view d) h = Some p"
  shows "block_consistent (view d') \<and> (\<exists>q. block_at (view d') h = Some q \<and> bk_OrphanedAtUnixNs p \<le> bk_OrphanedAtUnixNs q \<and>
    (bk_OrphanedAtUnixNs q = bk_OrphanedAtUnixNs p \<and> bk_Status q = BlockStatusOrphaned \<longrightarrow> bk_Status p = BlockStatusOrphaned))"
  using assms(3)
proof (induction rule: rtranclp_induct)
  case base
  show ?case using assms(2,4) by simp
next
  case (step d1 d2)
  then obtain q1 where c: "block_consistent (view d1)" and q1: "block_at (view d1) h = Some q1"
    "bk_OrphanedAtUnixNs p \<le> bk_OrphanedAtUnixNs q1"
    "bk_OrphanedAtUnixNs q1 = bk_OrphanedAtUnixNs p \<and> bk_Status q1 = BlockStatusOrphaned \<longrightarrow> bk_Status p = BlockStatusOrphaned"
    by blast
  from roomy_step_gen [OF assms(1) c step(2) q1(1)] obtain q2 where q2: "block_at (view d2) h = Some q2"
    "bk_OrphanedAtUnixNs q1 \<le> bk_OrphanedAtUnixNs q2"
    "bk_OrphanedAtUnixNs q2 = bk_OrphanedAtUnixNs q1 \<and> bk_Status q2 = BlockStatusOrphaned \<longrightarrow> bk_Status q1 = BlockStatusOrphaned"
    by blast
  have "block_consistent (view d2)"
    using block_steps_consistent [OF assms(1) c] step(2) by (simp add: roomy_step_def r_into_rtranclp)
  then show ?case using q1(2,3) q2 by auto
qed

lemma cas_result:
  assumes "pebble_ok pb view" and "block_consistent (view d)"
    and "MarkBlockReconciled pb ctx h (Some g) t d = (Inr True, d') \<or> RequeueOrphanedBlock pb ctx h (Some g) d = (Inr True, d') \<or>
      ReactivateBlock pb ctx h n (Some g) d = (Inr True, d')"
  shows "\<exists>p. block_at (view d) h = Some p \<and> bk_Status p = BlockStatusOrphaned \<and> bk_OrphanedAtUnixNs p = g"
proof -
  have "\<exists>p. readBlockProc pb d h = Inr (Some p) \<and> cas_holds (Some g) p"
    using assms(3)
    by (auto simp: MarkBlockReconciled_def RequeueOrphanedBlock_def ReactivateBlock_def read_then_def
        split: if_splits sum.splits option.splits)
  then obtain p where p: "readBlockProc pb d h = Inr (Some p)" "cas_holds (Some g) p" by blast
  have "block_at (view d) h = Some p" using readBlockProc_at(1) [OF assms(1,2) p(1)] by simp
  then show ?thesis using p(2) by (simp add: cas_holds_def UnixNano_def)
qed

text \<open>
  C13. The orphan generation is a safe compare-and-set token. Suppose a caller reads a block row and
  finds it orphaned with generation \<open>g\<close>, and after any interleaving of block operations, on an engine
  that may fail and while the counter has room, \<open>MarkBlockReconciled\<close>, \<open>RequeueOrphanedBlock\<close> or
  \<open>ReactivateBlock\<close> with that token reports that it applied. Then at every moment in between the block
  was orphaned with that same generation: it was never reactivated and never orphaned again.
\<close>

theorem orphan_token_no_aba:
  assumes "pebble_ok pb view" and "block_consistent (view d0)"
    and "GetBlockProcessingStatus pb ctx0 h d0 = Inr row" and "OrphanGeneration (Some row) = Some g"
    and "(roomy_step pb view h)\<^sup>*\<^sup>* d0 d1" and "(roomy_step pb view h)\<^sup>*\<^sup>* d1 d2"
    and "MarkBlockReconciled pb ctx h (Some g) t d2 = (Inr True, d3) \<or> RequeueOrphanedBlock pb ctx h (Some g) d2 = (Inr True, d3) \<or>
      ReactivateBlock pb ctx h n (Some g) d2 = (Inr True, d3)"
  shows "\<exists>p. block_at (view d1) h = Some p \<and> bk_Status p = BlockStatusOrphaned \<and> bk_OrphanedAtUnixNs p = g"
proof -
  have "\<exists>p0. readBlockProc pb d0 h = Inr (Some p0) \<and> row = blockToModel p0"
    using assms(3) by (auto simp: GetBlockProcessingStatus_def split: if_splits sum.splits option.splits)
  then obtain p0 where p0: "readBlockProc pb d0 h = Inr (Some p0)" "row = blockToModel p0" by blast
  have at0: "block_at (view d0) h = Some p0" using readBlockProc_at(1) [OF assms(1,2) p0(1)] by simp
  have g0: "bk_OrphanedAtUnixNs p0 = g"
    using assms(4) p0(2) by (simp add: OrphanGeneration_def blockToModel_def split: if_splits)
  from roomy_run_gen [OF assms(1,2,5) at0] obtain p1 where c1: "block_consistent (view d1)" and p1: "block_at (view d1) h = Some p1"
    "g \<le> bk_OrphanedAtUnixNs p1" using g0 by blast
  from roomy_run_gen [OF assms(1) c1 assms(6) p1(1)] obtain p2 where c2: "block_consistent (view d2)" and p2: "block_at (view d2) h = Some p2"
    "bk_OrphanedAtUnixNs p1 \<le> bk_OrphanedAtUnixNs p2"
    "bk_OrphanedAtUnixNs p2 = bk_OrphanedAtUnixNs p1 \<and> bk_Status p2 = BlockStatusOrphaned \<longrightarrow> bk_Status p1 = BlockStatusOrphaned"
    by blast
  from cas_result [OF assms(1) c2 assms(7)] have "bk_Status p2 = BlockStatusOrphaned" "bk_OrphanedAtUnixNs p2 = g"
    using p2(1) by auto
  then show ?thesis using p1 p2(2,3) by auto
qed

definition orphan_sample :: storedBlockProcessing where
  "orphan_sample = (new_block ''b'' 7)\<lparr>bk_Status := BlockStatusOrphaned, bk_OrphanedAtUnixNs := 5\<rparr>"

definition orphan_db :: "(bytes \<times> payload) list" where
  "orphan_db = fold mem_op (block_ops None orphan_sample) []"

lemma empty_block_consistent: "block_consistent Map.empty"
  by (simp add: block_consistent_def table_consistent_def)

lemma orphan_db_view: "block_consistent (map_of orphan_db)" "block_at (map_of orphan_db) ''b'' = Some orphan_sample"
proof -
  have w: "block_write (\<lambda>_ new. new = orphan_sample) (map_of []) (map_of orphan_db)"
    unfolding orphan_db_def mem_view block_write_def
    by (intro exI [of _ None] exI [of _ orphan_sample] conjI refl) (simp_all add: orphan_sample_def block_row_ok_def colon_free_def)
  show "block_consistent (map_of orphan_db)" by (rule block_write_consistent [OF _ w]) (simp add: empty_block_consistent)
  obtain new where "new = orphan_sample" "\<forall>h. block_at (map_of orphan_db) h = (if h = bk_BlockHash new then Some new else block_at (map_of []) h)"
    using block_write_at [OF w] by metis
  then show "block_at (map_of orphan_db) ''b'' = Some orphan_sample" by (simp add: orphan_sample_def)
qed

lemma mem_write: "writeBlockProc mem prev cur r d = (Inr r, fold mem_op (block_ops prev cur) d)"
  by (simp add: writeBlockProc_def commit_then_def mem_def)

theorem orphan_token_no_aba_witness:
  "\<exists>p. block_at (map_of (snd (ClearBlockProcessed mem (\<lambda>_. False) ''b'' orphan_db))) ''b'' = Some p \<and>
     bk_Status p = BlockStatusOrphaned \<and> bk_OrphanedAtUnixNs p = 5"
proof -
  define d1 where "d1 = snd (ClearBlockProcessed mem (\<lambda>_. False) ''b'' orphan_db)"
  have read: "readBlockProc mem d h = Inr (block_at (map_of d) h)" if "block_consistent (map_of d)" for d h
    by (rule readBlockProc_up [OF mem_ok mem_up that])
  have st: "GetBlockProcessingStatus mem (\<lambda>_. False) ''b'' orphan_db = Inr (blockToModel orphan_sample)"
    by (simp add: GetBlockProcessingStatus_def read [OF orphan_db_view(1)] orphan_db_view(2))
  have g: "OrphanGeneration (Some (blockToModel orphan_sample)) = Some 5"
    by (simp add: OrphanGeneration_def blockToModel_def orphan_sample_def)
  have s: "roomy_step mem map_of ''b'' orphan_db d1"
    unfolding roomy_step_def d1_def using block_step.clear_processed [of "''b''" mem orphan_db]
    by (simp add: orphan_db_view(2) gen_room_def orphan_sample_def colon_free_def)
  have run: "(roomy_step mem map_of ''b'')\<^sup>*\<^sup>* orphan_db d1" using s by (rule r_into_rtranclp)
  from roomy_run_gen [OF mem_ok orphan_db_view(1) run orphan_db_view(2)] have c1: "block_consistent (map_of d1)" by blast
  have d1: "d1 = fold mem_op (block_ops (Some orphan_sample) orphan_sample) orphan_db"
    unfolding d1_def ClearBlockProcessed_def
    by (simp add: read [OF orphan_db_view(1)] orphan_db_view(2) read_then_def mem_write) (simp add: orphan_sample_def new_block_def)
  have w: "block_write (\<lambda>_ new. new = orphan_sample) (map_of orphan_db) (map_of d1)"
    unfolding d1 mem_view block_write_def using orphan_db_view(2) [unfolded block_at_key]
    by (intro exI [of _ "Some orphan_sample"] exI [of _ orphan_sample] conjI refl) (simp_all add: orphan_sample_def block_row_ok_def colon_free_def)
  obtain new where "new = orphan_sample" "\<forall>h. block_at (map_of d1) h = (if h = bk_BlockHash new then Some new else block_at (map_of orphan_db) h)"
    using block_write_at [OF w] by metis
  then have at1: "block_at (map_of d1) ''b'' = Some orphan_sample" by (simp add: orphan_sample_def)
  have "cas_holds (Some 5) orphan_sample" by (simp add: cas_holds_def orphan_sample_def UnixNano_def)
  then obtain d3 where "MarkBlockReconciled mem (\<lambda>_. False) ''b'' (Some 5) (Some 9) d1 = (Inr True, d3)"
    by (simp add: MarkBlockReconciled_def read [OF c1] at1 read_then_def mem_write)
  then show ?thesis
    using orphan_token_no_aba [OF mem_ok orphan_db_view(1) st g run rtranclp.rtrancl_refl] unfolding d1_def by blast
qed

end
