(* ===== verification/Pebble_Block_Queries.thy ===== *)
theory Pebble_Block_Queries
  imports Pebble_Block_Rows
begin

text \<open>
  The queries over block rows: the walk of the descending-height index, the active tip, the pages of
  \<open>ListBlockProcessingStatus\<close>, the stale rows, and the reconciler's work list.
\<close>

section \<open>The height index\<close>

definition height_key :: "storedBlockProcessing \<Rightarrow> bytes" where
  "height_key b = idxBlockProcHeightKey (bk_BlockHeight b) (bk_BlockHash b)"

text \<open>The stored block rows, and the same in index order: by descending height, then by hash.\<close>

definition stored_blocks :: "kv \<Rightarrow> storedBlockProcessing set" where
  "stored_blocks m = {b. block_at m (bk_BlockHash b) = Some b}"

definition blocks_desc :: "kv \<Rightarrow> storedBlockProcessing list" where
  "blocks_desc m = map (\<lambda>k. the (block_at m (lastSegment k))) (sorted_list_of_set {k. m k \<noteq> None \<and> is_block_index k})"

lemma block_ok: "block_consistent m \<Longrightarrow> b \<in> stored_blocks m \<Longrightarrow> block_row_ok b"
  unfolding stored_blocks_def using block_at_row(2) by blast

lemma height_key_segment: "block_row_ok b \<Longrightarrow> lastSegment (height_key b) = bk_BlockHash b"
  by (simp add: height_key_def block_index_segment block_row_ok_def)

lemma height_index_keys:
  assumes "block_consistent m"
  shows "{k. m k \<noteq> None \<and> is_block_index k} = height_key ` stored_blocks m"
    (is "?L = ?R")
proof
  show "?L \<subseteq> ?R"
  proof
    fix k assume "k \<in> ?L"
    then have k: "m k \<noteq> None" "is_block_index k" by auto
    obtain r where r: "m (blockProcKey (lastSegment k)) = Some (PBlock r)" "bk_BlockHash r = lastSegment k" "k \<in> set (block_index_keys r)"
      by (rule blk.entry_row [OF assms [unfolded block_consistent_def] k(2,1)])
    have "r \<in> stored_blocks m" using r(1,2) by (simp add: stored_blocks_def block_at_key)
    moreover have "k = height_key r" using r(3) by (simp add: block_index_keys_def height_key_def)
    ultimately show "k \<in> ?R" by blast
  qed
  show "?R \<subseteq> ?L"
  proof
    fix k assume "k \<in> ?R"
    then obtain r where r: "k = height_key r" "m (blockProcKey (bk_BlockHash r)) = Some (PBlock r)"
      by (auto simp: stored_blocks_def block_at_key)
    have "k \<in> set (block_index_keys r)" using r(1) by (simp add: block_index_keys_def height_key_def)
    then show "k \<in> ?L"
      using blk.row_entry [OF assms [unfolded block_consistent_def] r(2)] blk.ix_isix by blast
  qed
qed

lemma height_key_row: "block_consistent m \<Longrightarrow> b \<in> stored_blocks m \<Longrightarrow> the (block_at m (lastSegment (height_key b))) = b"
  using height_key_segment [OF block_ok] by (simp add: stored_blocks_def)

lemma height_key_less:
  assumes "bk_BlockHeight a < 2 ^ 64" and "bk_BlockHeight b < 2 ^ 64"
    and "bk_BlockHeight b < bk_BlockHeight a"
  shows "height_key a < height_key b"
proof -
  have "fmt016x (not64 (bk_BlockHeight a)) < fmt016x (not64 (bk_BlockHeight b))"
    using assms by (simp only: fmt016x_less [OF not64_range not64_range] not64_less)
  then show ?thesis by (simp add: height_key_def idxBlockProcHeightKey_def append_less_iff append_less_suffix)
qed

lemma height_key_mono:
  assumes "block_row_ok a" and "block_row_ok b" and "height_key a < height_key b"
  shows "bk_BlockHeight b \<le> bk_BlockHeight a"
  using height_key_less [of b a] assms by (fastforce simp: block_row_ok_def)

lemma blocks_desc_rows:
  assumes c: "block_consistent m" and fin: "finite {k. m k \<noteq> None \<and> is_block_index k}"
  shows "map height_key (blocks_desc m) = sorted_list_of_set {k. m k \<noteq> None \<and> is_block_index k}"
    and "set (blocks_desc m) = stored_blocks m"
    and "sorted_wrt (\<lambda>a b. bk_BlockHeight b \<le> bk_BlockHeight a) (blocks_desc m)"
    and "distinct (blocks_desc m)"
proof -
  let ?K = "{k. m k \<noteq> None \<and> is_block_index k}"
  have keyrow: "\<exists>b \<in> stored_blocks m. k = height_key b" if "k \<in> ?K" for k
    using that unfolding height_index_keys [OF c] by blast
  have inv: "height_key (the (block_at m (lastSegment k))) = k" if "k \<in> ?K" for k
    using keyrow [OF that] height_key_row [OF c] by auto
  show key_list: "map height_key (blocks_desc m) = sorted_list_of_set ?K"
    unfolding blocks_desc_def by (simp add: comp_def) (rule map_idI, use inv fin in auto)
  show rows: "set (blocks_desc m) = stored_blocks m"
  proof -
    have "set (blocks_desc m) = (\<lambda>k. the (block_at m (lastSegment k))) ` height_key ` stored_blocks m"
      unfolding blocks_desc_def using fin by (simp add: height_index_keys [OF c, symmetric])
    also have "\<dots> = stored_blocks m" using height_key_row [OF c] by (force simp: image_image)
    finally show ?thesis .
  qed
  have sorted: "sorted_wrt (<) (map height_key (blocks_desc m))" unfolding key_list by simp
  then have "sorted_wrt (\<lambda>a b. height_key a < height_key b) (blocks_desc m)" by (simp add: sorted_wrt_map)
  then show "sorted_wrt (\<lambda>a b. bk_BlockHeight b \<le> bk_BlockHeight a) (blocks_desc m)"
    by (rule sorted_wrt_mono_rel [rotated]) (use rows height_key_mono block_ok [OF c] in blast)
  show "distinct (blocks_desc m)"
    using sorted by (metis distinct_map strict_sorted_iff)
qed

section \<open>Walking it\<close>

text \<open>The walk reads the rows \<open>rs\<close>.\<close>

definition reads :: "'db pebble \<Rightarrow> 'db \<Rightarrow> (bytes \<times> payload) list \<Rightarrow> storedBlockProcessing list \<Rightarrow> bool" where
  "reads pb d kvs rs \<longleftrightarrow> list_all2 (\<lambda>kv r. readBlockProc pb d (lastSegment (fst kv)) = Inr (Some r)) kvs rs"

lemma tip_loop_reads:
  assumes "uncancelled ctx"
  shows "reads pb d kvs rs \<Longrightarrow> tip_loop pb d ctx i kvs =
    Inr (case filter (\<lambda>b. bk_Status b = BlockStatusActive) rs of [] \<Rightarrow> 0 | b # _ \<Rightarrow> bk_BlockHeight b)"
  unfolding reads_def
proof (induction kvs arbitrary: i rs)
  case (Cons kv kvs)
  obtain r rs' where r: "rs = r # rs'" "readBlockProc pb d (lastSegment (fst kv)) = Inr (Some r)"
    "list_all2 (\<lambda>kv r. readBlockProc pb d (lastSegment (fst kv)) = Inr (Some r)) kvs rs'"
    using Cons.prems by (auto simp: list_all2_Cons1)
  show ?case
    using Cons.IH [OF r(3)] r(1,2) uncancelledD [OF assms] by (cases kv) simp
qed simp

lemma list_blocks_loop_reads:
  assumes "uncancelled ctx"
  shows "reads pb d kvs rs \<Longrightarrow> length out \<le> limit \<Longrightarrow>
    list_blocks_loop pb d ctx i limit out kvs = (take limit (out @ map blockToModel rs), None)"
  unfolding reads_def
proof (induction kvs arbitrary: i rs out)
  case (Cons kv kvs)
  obtain r rs' where r: "rs = r # rs'" "readBlockProc pb d (lastSegment (fst kv)) = Inr (Some r)"
    "list_all2 (\<lambda>kv r. readBlockProc pb d (lastSegment (fst kv)) = Inr (Some r)) kvs rs'"
    using Cons.prems(1) by (auto simp: list_all2_Cons1)
  show ?case
    using Cons.IH [OF r(3), of "out @ [blockToModel r]"] Cons.prems(2) r(1,2) uncancelledD [OF assms] by (cases kv) simp
qed simp

lemma stale_loop_reads:
  assumes "uncancelled ctx"
  shows "reads pb d kvs rs \<Longrightarrow> stale_loop pb d ctx i t n acc kvs = Inr (acc @ filter (stale_row t n) rs)"
  unfolding reads_def
proof (induction kvs arbitrary: i rs acc)
  case (Cons kv kvs)
  obtain r rs' where r: "rs = r # rs'" "readBlockProc pb d (lastSegment (fst kv)) = Inr (Some r)"
    "list_all2 (\<lambda>kv r. readBlockProc pb d (lastSegment (fst kv)) = Inr (Some r)) kvs rs'"
    using Cons.prems by (auto simp: list_all2_Cons1)
  show ?case
    using Cons.IH [OF r(3)] r(1,2) uncancelledD [OF assms] by (cases kv) simp
qed simp

lemma reads_rows:
  assumes "pebble_ok pb view" and "pebble_up pb" and c: "block_consistent (view d)"
    and "map fst kvs = map height_key rs" and "set rs \<subseteq> stored_blocks (view d)"
  shows "reads pb d kvs rs"
proof -
  have "readBlockProc pb d (lastSegment (height_key r)) = Inr (Some r)" if "r \<in> set rs" for r
  proof -
    have "r \<in> stored_blocks (view d)" using that assms(5) by blast
    then show ?thesis
      using readBlockProc_up [OF assms(1,2) c] height_key_segment [OF block_ok [OF c]] by (simp add: stored_blocks_def)
  qed
  moreover have "length kvs = length rs" using assms(4) by (rule map_eq_imp_length_eq)
  moreover have "fst (kvs ! i) = height_key (rs ! i)" if "i < length rs" for i
    using that arg_cong [OF assms(4), of "\<lambda>xs. xs ! i"] calculation(2) by simp
  ultimately show ?thesis unfolding reads_def by (simp add: list_all2_conv_all_nth)
qed

text \<open>A scan of the index from \<open>lo\<close> on reads the rows from there on, and the index is finite.\<close>

lemma height_index_finite:
  assumes "pebble_ok pb view" and "pebble_up pb"
  shows "finite {k. view d k \<noteq> None \<and> is_block_index k}"
proof -
  obtain kvs where kvs: "scan_prefix pb d prefixIdxBlockProcHeight = Inr kvs" by (rule scan_up [OF assms(2)])
  have "{k. view d k \<noteq> None \<and> is_block_index k} = fst ` set kvs"
    using scan_prefix_keys [OF assms(1) kvs] by (simp add: is_block_index_def)
  then show ?thesis by simp
qed

lemma height_scan:
  assumes ok: "pebble_ok pb view" and up: "pebble_up pb" and c: "block_consistent (view d)"
    and scan: "pb_scan pb d lo (endOfPrefix prefixIdxBlockProcHeight) = Inr kvs" and lo: "prefixIdxBlockProcHeight \<le> lo"
  shows "reads pb d kvs (filter (\<lambda>b. lo \<le> height_key b) (blocks_desc (view d)))"
proof -
  let ?K = "{k. view d k \<noteq> None \<and> is_block_index k}"
  have fin: "finite ?K" by (rule height_index_finite [OF ok up])
  have mem: "(k, v) \<in> set kvs \<longleftrightarrow> view d k = Some v \<and> lo \<le> k \<and> below (endOfPrefix prefixIdxBlockProcHeight) k" for k v
    using ok scan by (simp add: pebble_ok_def)
  have srt: "sorted_wrt (<) (map fst kvs)" using ok scan by (simp add: pebble_ok_def)
  have "k \<in> fst ` set kvs \<longleftrightarrow> k \<in> ?K \<and> lo \<le> k" for k
  proof -
    have "k \<in> fst ` set kvs \<longleftrightarrow> (\<exists>v. (k, v) \<in> set kvs)" by force
    also have "\<dots> \<longleftrightarrow> view d k \<noteq> None \<and> lo \<le> k \<and> below (endOfPrefix prefixIdxBlockProcHeight) k" by (auto simp: mem)
    also have "\<dots> \<longleftrightarrow> k \<in> ?K \<and> lo \<le> k"
      unfolding is_block_index_def mem_Collect_eq endOfPrefix_range using order_trans [OF lo, of k] by blast
    finally show ?thesis .
  qed
  then have "set (map fst kvs) = set (filter ((\<le>) lo) (sorted_list_of_set ?K))" using fin by (simp only: set_map set_filter set_sorted_list_of_set) blast
  then have "map fst kvs = filter ((\<le>) lo) (sorted_list_of_set ?K)"
    using srt by (intro sorted_distinct_set_unique) (auto simp: strict_sorted_iff sorted_wrt_filter)
  also have "\<dots> = map height_key (filter (\<lambda>b. lo \<le> height_key b) (blocks_desc (view d)))"
    unfolding blocks_desc_rows(1) [OF c fin, symmetric] by (simp add: filter_map comp_def)
  finally show ?thesis
    by (rule reads_rows [OF ok up c]) (use blocks_desc_rows(2) [OF c fin] in auto)
qed

section \<open>The active tip\<close>

definition active_heights :: "kv \<Rightarrow> nat set" where
  "active_heights m = bk_BlockHeight ` {b \<in> stored_blocks m. bk_Status b = BlockStatusActive}"

lemma first_is_max:
  assumes "sorted_wrt (\<lambda>a b. f b \<le> f a) xs"
  shows "(case filter P xs of [] \<Rightarrow> 0 | x # _ \<Rightarrow> f x) = Max (insert (0 :: nat) (f ` {x \<in> set xs. P x}))"
proof (cases "filter P xs")
  case Nil
  then have "set (filter P xs) = {}" by simp
  then have "{x \<in> set xs. P x} = {}" unfolding set_filter .
  then show ?thesis unfolding Nil by (simp only: list.case image_empty) simp
next
  case (Cons y ys)
  have "sorted_wrt (\<lambda>a b. f b \<le> f a) (y # ys)" using assms Cons by (metis sorted_wrt_filter)
  then have "\<forall>x \<in> set (filter P xs). f x \<le> f y" using Cons by simp
  moreover have "y \<in> set (filter P xs)" using Cons by simp
  ultimately have "Max (insert 0 (f ` set (filter P xs))) = f y" by (intro Max_eqI) auto
  then have "Max (insert 0 (f ` {x \<in> set xs. P x})) = f y" unfolding set_filter .
  then show ?thesis unfolding Cons list.case by (rule sym)
qed

text \<open>
  On an engine that works, \<open>GetActiveTipBlockHeight\<close> returns the greatest height of an active block
  row, and 0 when there is none, although it only looks at the index until the first active row.
\<close>

theorem GetActiveTipBlockHeight_exact:
  assumes "pebble_ok pb view" and "pebble_up pb" and "block_consistent (view d)" and "uncancelled ctx"
  shows "GetActiveTipBlockHeight pb ctx d = Inr (Max (insert 0 (active_heights (view d))))"
proof -
  note fin = height_index_finite [OF assms(1,2), of d]
  obtain kvs where kvs: "scan_prefix pb d prefixIdxBlockProcHeight = Inr kvs" by (rule scan_up [OF assms(2)])
  have key_ge: "prefixIdxBlockProcHeight \<le> height_key b" for b
    using endOfPrefix_range [of prefixIdxBlockProcHeight "height_key b"] by (simp add: height_key_def idxBlockProcHeightKey_def)
  have "reads pb d kvs (blocks_desc (view d))"
    using height_scan [OF assms(1-3) kvs [unfolded scan_prefix_def] order_refl] key_ge by simp
  then have "GetActiveTipBlockHeight pb ctx d =
      Inr (case filter (\<lambda>b. bk_Status b = BlockStatusActive) (blocks_desc (view d)) of [] \<Rightarrow> 0 | b # _ \<Rightarrow> bk_BlockHeight b)"
    using tip_loop_reads [OF assms(4)] kvs uncancelledD [OF assms(4)] by (simp add: GetActiveTipBlockHeight_def)
  then show ?thesis
    unfolding first_is_max [OF blocks_desc_rows(3) [OF assms(3) fin]] blocks_desc_rows(2) [OF assms(3) fin] active_heights_def .
qed

theorem GetActiveTipBlockHeight_exact_witness:
  "GetActiveTipBlockHeight mem (\<lambda>_. False) (fold mem_op (block_ops None (new_block ''b'' 7)) []) = Inr 7"
proof -
  define d where "d = fold mem_op (block_ops None (new_block ''b'' 7)) []"
  have w: "block_write (\<lambda>_ new. new = new_block ''b'' 7) (map_of []) (map_of d)"
    unfolding d_def mem_view block_write_def
    by (intro exI [of _ None] exI [of _ "new_block ''b'' 7"] conjI refl) (simp_all add: block_row_ok_def colon_free_def)
  have c: "block_consistent (map_of d)" by (rule block_write_consistent [OF _ w]) (simp add: empty_block_consistent)
  obtain new where new: "new = new_block ''b'' 7" "\<forall>h. block_at (map_of d) h = (if h = bk_BlockHash new then Some new else block_at (map_of []) h)"
    using block_write_at [OF w] by metis
  have "block_at (map_of []) h = None" for h by (simp add: block_at_def)
  then have "stored_blocks (map_of d) = {new_block ''b'' 7}" using new by (auto simp: stored_blocks_def split: if_splits)
  then have "active_heights (map_of d) = {7}" by (simp add: active_heights_def cong: conj_cong)
  then show ?thesis
    unfolding d_def [symmetric] GetActiveTipBlockHeight_exact [OF mem_ok mem_up c uncancelled_never] by simp
qed

section \<open>Pages\<close>

lemma page_bound:
  assumes "block_row_ok b" and "0 < before" and "before < 2 ^ 64"
  shows "prefixIdxBlockProcHeight @ fmt016x (not64 (before - 1)) @ '':'' \<le> height_key b \<longleftrightarrow> bk_BlockHeight b < before"
    (is "?lo \<le> _ \<longleftrightarrow> _")
proof -
  let ?m = "not64 (before - 1)" and ?n = "not64 (bk_BlockHeight b)"
  have h: "bk_BlockHeight b < 2 ^ 64" "before - 1 < 2 ^ 64" using assms by (simp_all add: block_row_ok_def)
  have key: "height_key b = prefixIdxBlockProcHeight @ fmt016x ?n @ '':'' @ bk_BlockHash b"
    by (simp add: height_key_def idxBlockProcHeightKey_def)
  consider "bk_BlockHeight b = before - 1" | "bk_BlockHeight b < before - 1" | "before - 1 < bk_BlockHeight b" by linarith
  then show ?thesis
  proof cases
    case 1
    then have "height_key b = ?lo @ bk_BlockHash b" using key by simp
    then have "prefix ?lo (height_key b)" by simp
    then have "?lo \<le> height_key b" using endOfPrefix_range by blast
    then show ?thesis using 1 assms(2) by simp
  next
    case 2
    then have "fmt016x ?m < fmt016x ?n" by (simp only: fmt016x_less [OF not64_range not64_range] not64_less [OF h(2,1)])
    then have "?lo < height_key b" unfolding key append_less_iff by (rule append_less_suffix [rotated]) simp
    moreover have "bk_BlockHeight b < before" using 2 by linarith
    ultimately show ?thesis by (simp only: less_imp_le)
  next
    case 3
    then have "fmt016x ?n < fmt016x ?m" by (simp only: fmt016x_less [OF not64_range not64_range] not64_less [OF h(1,2)])
    then have "height_key b < ?lo" unfolding key append_less_iff by (rule append_less_suffix [rotated]) simp
    moreover have "\<not> bk_BlockHeight b < before" using 3 by linarith
    ultimately show ?thesis by (simp only: not_le [symmetric])
  qed
qed

definition below_height :: "nat \<Rightarrow> storedBlockProcessing \<Rightarrow> bool" where
  "below_height before b \<longleftrightarrow> before = 0 \<or> bk_BlockHeight b < before"

lemma ListBlockProcessingStatus_page:
  assumes "pebble_ok pb view" and "pebble_up pb" and "block_consistent (view d)" and "uncancelled ctx"
    and "before < 2 ^ 64" and "0 < limit"
  shows "ListBlockProcessingStatus pb ctx before limit d =
    (map blockToModel (take (nat limit) (filter (below_height before) (blocks_desc (view d)))), None)"
proof -
  note fin = height_index_finite [OF assms(1,2), of d]
  define lo where "lo = (if before > 0 then prefixIdxBlockProcHeight @ fmt016x (not64 (before - 1)) @ '':'' else prefixIdxBlockProcHeight)"
  have "prefix prefixIdxBlockProcHeight lo" by (simp add: lo_def)
  then have lo: "prefixIdxBlockProcHeight \<le> lo" using endOfPrefix_range by blast
  have key_ge: "prefixIdxBlockProcHeight \<le> height_key b" for b
    using endOfPrefix_range [of prefixIdxBlockProcHeight "height_key b"] by (simp add: height_key_def idxBlockProcHeightKey_def)
  have "\<not> isl (pb_scan pb d lo (endOfPrefix prefixIdxBlockProcHeight))" using assms(2) by (simp add: pebble_up_def)
  then obtain kvs where kvs: "pb_scan pb d lo (endOfPrefix prefixIdxBlockProcHeight) = Inr kvs"
    by (cases "pb_scan pb d lo (endOfPrefix prefixIdxBlockProcHeight)") simp_all
  have cut: "lo \<le> height_key b \<longleftrightarrow> below_height before b" if "b \<in> set (blocks_desc (view d))" for b
  proof (cases "before > 0")
    case True
    have "block_row_ok b" using that block_ok [OF assms(3)] blocks_desc_rows(2) [OF assms(3) fin] by simp
    then show ?thesis unfolding lo_def using page_bound [OF _ True assms(5)] True by (simp add: below_height_def)
  qed (use key_ge in \<open>simp add: lo_def below_height_def\<close>)
  have rd: "reads pb d kvs (filter (below_height before) (blocks_desc (view d)))"
    using height_scan [OF assms(1-3) kvs lo] cut by (simp cong: filter_cong)
  show ?thesis
    using list_blocks_loop_reads [OF assms(4) rd, of "[]" "nat limit" 1] kvs assms(6) uncancelledD [OF assms(4)]
    by (simp add: ListBlockProcessingStatus_def Let_def lo_def [symmetric] take_map)
qed

section \<open>The reconciler's work list\<close>

definition queued :: "storedBlockProcessing \<Rightarrow> bool" where
  "queued b \<longleftrightarrow> bk_Status b = BlockStatusOrphaned \<and> bk_ReconciledAtUnixNs b = 0"

text \<open>An active block of that height has a stored compound.\<close>

definition reanchorable :: "kv \<Rightarrow> nat \<Rightarrow> bool" where
  "reanchorable m n \<longleftrightarrow>
     (\<exists>b \<in> stored_blocks m. bk_Status b = BlockStatusActive \<and> bk_BlockHeight b = n \<and> m (bumpKey (bk_BlockHash b)) \<noteq> None)"

definition work_order :: "kv \<Rightarrow> storedBlockProcessing \<Rightarrow> storedBlockProcessing \<Rightarrow> bool" where
  "work_order m a b \<longleftrightarrow>
     (if reanchorable m (bk_BlockHeight a) = reanchorable m (bk_BlockHeight b)
      then bk_OrphanedAtUnixNs a \<le> bk_OrphanedAtUnixNs b else reanchorable m (bk_BlockHeight a))"

lemma orphan_scan_rows:
  assumes "uncancelled ctx"
  shows "map snd kvs = map PBlock bs \<Longrightarrow> orphan_scan ctx i rows actives kvs =
    Inr (rows @ filter queued bs, actives @ filter (\<lambda>b. bk_Status b = BlockStatusActive) bs)"
proof (induction kvs arbitrary: i rows actives bs)
  case (Cons kv kvs)
  obtain b bs' where b: "bs = b # bs'" "snd kv = PBlock b" "map snd kvs = map PBlock bs'" using Cons.prems by (cases bs) auto
  obtain k where kv: "kv = (k, PBlock b)" using b(2) by (cases kv) simp
  show ?case
    unfolding kv b(1) using Cons.IH [OF b(3)] uncancelledD [OF assms] by (simp add: queued_def active_not_orphaned)
qed simp

lemma block_table_scan:
  assumes "pebble_ok pb view" and "block_consistent (view d)" and "scan_prefix pb d prefixBlockProc = Inr kvs"
  obtains bs where "map snd kvs = map PBlock bs" "set bs = stored_blocks (view d)" "distinct bs"
proof -
  define bs where "bs = map (\<lambda>kv. case snd kv of PBlock b \<Rightarrow> b) kvs"
  have entry: "\<exists>b. snd kv = PBlock b \<and> fst kv = blockProcKey (bk_BlockHash b) \<and> b \<in> stored_blocks (view d)" if "kv \<in> set kvs" for kv
  proof -
    have kv: "view d (fst kv) = Some (snd kv)" "prefix prefixBlockProc (fst kv)"
      using scan_prefix_mem [OF assms(1,3), of "fst kv" "snd kv"] that by simp_all
    then obtain h where h: "fst kv = blockProcKey h" by (auto simp: prefix_def blockProcKey_def)
    obtain b where b: "snd kv = PBlock b" using block_row_payload [OF assms(2), of h "snd kv"] kv(1) h by auto
    then have at: "block_at (view d) h = Some b" using kv(1) h by (simp add: block_at_key)
    then show ?thesis using block_at_row(1) [OF assms(2) at] b h by (simp add: stored_blocks_def)
  qed
  have snds: "map snd kvs = map PBlock bs" unfolding bs_def using entry by fastforce
  have keys: "map fst kvs = map (\<lambda>b. blockProcKey (bk_BlockHash b)) bs" unfolding bs_def using entry by fastforce
  have "distinct (map fst kvs)" using scan_prefix_sorted [OF assms(1,3)] by (simp add: strict_sorted_iff)
  then have dist: "distinct bs" unfolding keys by (simp add: distinct_map)
  have "b \<in> set bs" if "b \<in> stored_blocks (view d)" for b
  proof -
    have "view d (blockProcKey (bk_BlockHash b)) = Some (PBlock b)" using that by (simp add: stored_blocks_def block_at_key)
    then have "(blockProcKey (bk_BlockHash b), PBlock b) \<in> set kvs"
      using scan_prefix_mem [OF assms(1,3)] by (simp add: blockProcKey_def)
    then show ?thesis unfolding bs_def by force
  qed
  moreover have "set bs \<subseteq> stored_blocks (view d)" unfolding bs_def using entry by fastforce
  ultimately have "set bs = stored_blocks (view d)" by blast
  then show thesis using that snds dist by blast
qed


lemma orphan_db_stored: "stored_blocks (map_of orphan_db) = {orphan_sample}"
proof -
  have "block_at (map_of orphan_db) h = (if h = ''b'' then Some orphan_sample else None)" for h
    using orphan_db_view(2) by (auto simp: orphan_db_def block_ops_def block_at_def orphan_sample_def blockProcKey_def idxBlockProcHeightKey_def prefix_defs)
  then show ?thesis by (auto simp: stored_blocks_def orphan_sample_def split: if_splits)
qed


end
