(* ===== verification/Paging.thy ===== *)
theory Paging
  imports Models
begin

text \<open>
  \<open>store/paging.go\<close>: the boundary-safe iteration over block rows in pages. The store's
  \<open>ListBlockProcessingStatus\<close> is the argument \<open>page\<close>, a function of the cursor and the limit, and the
  callback a step on the caller's state that may fail. The loop ends only because pages shrink, so it
  is a partial function whose result \<open>None\<close> would be a loop that does not end.
\<close>

definition forEachBlockProcessingMaxPage :: nat where
  "forEachBlockProcessingMaxPage = 2 ^ 16"

datatype 'e scan_error = ScanCancelled | BadPageSize | PageError 'e | FnError 'e | ScanIncomplete nat nat

text \<open>The inner loop over one page: it ends the scan with a result, or it goes on.\<close>

fun page_loop ::
    "nat \<Rightarrow> (block_processing_status \<Rightarrow> 's \<Rightarrow> 'e option \<times> 's) \<Rightarrow> block_processing_status list \<Rightarrow> 's
      \<Rightarrow> 'e scan_error option option \<times> 's" where
  "page_loop minHeight fn [] s = (None, s)"
| "page_loop minHeight fn (row # rows) s =
     (if bp_BlockHeight row < minHeight then (Some None, s)
      else case fn row s of
             (Some e, s') \<Rightarrow> (Some (Some (FnError e)), s')
           | (None, s') \<Rightarrow> page_loop minHeight fn rows s')"

partial_function (option) for_each_loop ::
    "(nat \<Rightarrow> bool) \<Rightarrow> (nat \<Rightarrow> nat \<Rightarrow> block_processing_status list \<times> 'e option) \<Rightarrow> nat
      \<Rightarrow> (block_processing_status \<Rightarrow> 's \<Rightarrow> 'e option \<times> 's) \<Rightarrow> nat \<Rightarrow> nat \<Rightarrow> nat \<Rightarrow> 's
      \<Rightarrow> ('e scan_error option \<times> 's) option" where
  "for_each_loop ctx page minHeight fn i before limit s =
     (if ctx i then Some (Some ScanCancelled, s)
      else case page before limit of
             (_, Some e) \<Rightarrow> Some (Some (PageError e), s)
           | (rows, None) \<Rightarrow>
               if rows = [] then Some (None, s)
               else (case page_loop minHeight fn rows s of
                       (Some r, s') \<Rightarrow> Some (r, s')
                     | (None, s') \<Rightarrow>
                         if length rows < limit then Some (None, s')
                         else if bp_BlockHeight (hd rows) = bp_BlockHeight (last rows) then
                           (if limit \<ge> forEachBlockProcessingMaxPage
                            then Some (Some (ScanIncomplete (bp_BlockHeight (last rows)) limit), s')
                            else for_each_loop ctx page minHeight fn (Suc i) before (limit * 2) s')
                         else if bp_BlockHeight (last rows) = 0 then Some (None, s')
                         else for_each_loop ctx page minHeight fn (Suc i) (bp_BlockHeight (last rows) + 1) limit s'))"

definition ForEachBlockProcessing ::
    "(nat \<Rightarrow> bool) \<Rightarrow> (nat \<Rightarrow> nat \<Rightarrow> block_processing_status list \<times> 'e option) \<Rightarrow> nat \<Rightarrow> int
      \<Rightarrow> (block_processing_status \<Rightarrow> 's \<Rightarrow> 'e option \<times> 's) \<Rightarrow> 's \<Rightarrow> ('e scan_error option \<times> 's) option" where
  "ForEachBlockProcessing ctx page minHeight pageSize fn s =
     (if pageSize \<le> 0 then Some (Some BadPageSize, s)
      else for_each_loop ctx page minHeight fn 0 0 (nat pageSize) s)"

section \<open>Pages of a list\<close>

text \<open>The contract of a pager: the rows below the cursor, newest first, cut at the limit; cursor 0 is no bound.\<close>

definition below_cursor :: "nat \<Rightarrow> block_processing_status \<Rightarrow> bool" where
  "below_cursor before r \<longleftrightarrow> before = 0 \<or> bp_BlockHeight r < before"

definition pages_of :: "(nat \<Rightarrow> nat \<Rightarrow> block_processing_status list \<times> 'e option) \<Rightarrow> block_processing_status list \<Rightarrow> bool" where
  "pages_of page rows \<longleftrightarrow>
     (\<forall>before limit. before < 2 ^ 64 \<longrightarrow> 0 < limit \<longrightarrow> page before limit = (take limit (filter (below_cursor before) rows), None)) \<and>
     sorted_wrt (\<lambda>a b. bp_BlockHeight b \<le> bp_BlockHeight a) rows \<and> (\<forall>r \<in> set rows. bp_BlockHeight r < 2 ^ 64)"

text \<open>A callback that never fails, and records what it sees.\<close>

definition record_row :: "block_processing_status \<Rightarrow> block_processing_status list \<Rightarrow> 'e option \<times> block_processing_status list" where
  "record_row r s = (None, s @ [r])"

lemma page_loop_record:
  "page_loop n record_row xs s =
     (if list_all (\<lambda>r. n \<le> bp_BlockHeight r) xs then None else Some None, s @ takeWhile (\<lambda>r. n \<le> bp_BlockHeight r) xs)"
  by (induction xs arbitrary: s) (auto simp: record_row_def)

lemma descending_takeWhile:
  assumes "sorted_wrt (\<lambda>a b. f b \<le> f a) xs"
  shows "set (takeWhile (\<lambda>x. n \<le> f x) xs) = {x \<in> set xs. (n :: nat) \<le> f x}"
  using assms by (induction xs) force+

text \<open>
  One page of a pager: everything up to its last height is in it, and its rows are in descending order
  below the cursor.
\<close>

lemma page_split:
  assumes "pages_of page rows" and "before < 2 ^ 64" and "0 < limit" and "page before limit = (xs, None)"
  shows "set xs \<subseteq> {r \<in> set rows. below_cursor before r}" and "sorted_wrt (\<lambda>a b. bp_BlockHeight b \<le> bp_BlockHeight a) xs"
    and "length xs < limit \<Longrightarrow> set xs = {r \<in> set rows. below_cursor before r}"
    and "xs \<noteq> [] \<Longrightarrow> r \<in> set rows \<Longrightarrow> below_cursor before r \<Longrightarrow> bp_BlockHeight (last xs) < bp_BlockHeight r \<Longrightarrow> r \<in> set xs"
    and "length xs \<le> limit" and "length (filter P xs) \<le> length (filter P rows)"
proof -
  define ys where "ys = filter (below_cursor before) rows"
  have xs: "xs = take limit ys" using assms by (simp add: pages_of_def ys_def)
  have desc: "sorted_wrt (\<lambda>a b. bp_BlockHeight b \<le> bp_BlockHeight a) ys"
    using assms(1) by (simp add: pages_of_def ys_def sorted_wrt_filter)
  show "set xs \<subseteq> {r \<in> set rows. below_cursor before r}" unfolding xs ys_def using set_take_subset by fastforce
  show "sorted_wrt (\<lambda>a b. bp_BlockHeight b \<le> bp_BlockHeight a) xs" unfolding xs using desc by (rule sorted_wrt_take)
  show "length xs < limit \<Longrightarrow> set xs = {r \<in> set rows. below_cursor before r}" unfolding xs by (simp add: ys_def)
  show "length xs \<le> limit" unfolding xs by simp
  have "length (filter P (take limit ys)) \<le> length (filter P (take limit ys @ drop limit ys))" unfolding filter_append length_append by (rule le_add1)
  also have "\<dots> = length (filter P (filter (below_cursor before) rows))" by (simp add: ys_def)
  also have "\<dots> \<le> length (filter P rows)" by (simp add: filter_filter conj_commute length_filter_le [of "below_cursor before" "filter P rows", simplified])
  finally show "length (filter P xs) \<le> length (filter P rows)" unfolding xs .
  assume ne: "xs \<noteq> []" and r: "r \<in> set rows" "below_cursor before r" "bp_BlockHeight (last xs) < bp_BlockHeight r"
  have "r \<notin> set (drop limit ys)"
  proof
    assume "r \<in> set (drop limit ys)"
    moreover have "sorted_wrt (\<lambda>a b. bp_BlockHeight b \<le> bp_BlockHeight a) (take limit ys @ drop limit ys)" using desc by simp
    ultimately have "bp_BlockHeight r \<le> bp_BlockHeight (last xs)"
      using last_in_set [OF ne] unfolding sorted_wrt_append xs by blast
    then show False using r(3) by simp
  qed
  moreover have "r \<in> set (take limit ys @ drop limit ys)" using r(1,2) by (simp add: ys_def)
  ultimately show "r \<in> set xs" unfolding xs by (simp only: set_append Un_iff) blast
qed

section \<open>The scan ends and is complete\<close>

definition cursor_rank :: "nat \<Rightarrow> nat" where
  "cursor_rank before = (if before = 0 then 2 ^ 64 else before)"

definition scan_done :: "block_processing_status list \<Rightarrow> nat \<Rightarrow> 'e scan_error option \<times> block_processing_status list \<Rightarrow> bool" where
  "scan_done rows n r \<longleftrightarrow> set (snd r) \<subseteq> {x \<in> set rows. n \<le> bp_BlockHeight x} \<and>
     ((fst r = None \<and> set (snd r) = {x \<in> set rows. n \<le> bp_BlockHeight x}) \<or>
      (\<exists>h l. fst r = Some (ScanIncomplete h l) \<and> forEachBlockProcessingMaxPage \<le> length (filter (\<lambda>x. bp_BlockHeight x = h) rows)))"

definition wanted :: "block_processing_status list \<Rightarrow> nat \<Rightarrow> block_processing_status set" where
  "wanted rows n = {x \<in> set rows. n \<le> bp_BlockHeight x}"

text \<open>What has been seen: only wanted rows, and all of those from the cursor on.\<close>

definition seen_to :: "block_processing_status list \<Rightarrow> nat \<Rightarrow> nat \<Rightarrow> block_processing_status list \<Rightarrow> bool" where
  "seen_to rows n before s \<longleftrightarrow> set s \<subseteq> wanted rows n \<and> {x \<in> wanted rows n. \<not> below_cursor before x} \<subseteq> set s"

lemma last_is_lowest:
  assumes "sorted_wrt (\<lambda>a b. f b \<le> f a) xs" and "y \<in> set xs"
  shows "f (last xs) \<le> (f y :: nat)" and "f y \<le> f (hd xs)"
  using assms by (induction xs) fastforce+

lemma for_each_stop:
  assumes pages: "pages_of page rows" and cur: "before < 2 ^ 64" "0 < limit" and s: "seen_to rows n before s"
    and xs: "page before limit = (xs, None)" and run: "\<forall>i. \<not> ctx i"
    and stop: "xs = [] \<or> \<not> list_all (\<lambda>r. n \<le> bp_BlockHeight r) xs \<or> length xs < limit"
  shows "\<exists>r. for_each_loop ctx page n record_row i before limit s = Some r \<and> scan_done rows n r"
proof -
  note split = page_split [OF pages cur xs]
  note lowest = last_is_lowest [OF split(2)]
  let ?keep = "takeWhile (\<lambda>r. n \<le> bp_BlockHeight r) xs"
  have keep: "set ?keep = {x \<in> set xs. n \<le> bp_BlockHeight x}" by (rule descending_takeWhile [OF split(2)])
  have "x \<in> set xs" if x: "x \<in> wanted rows n" "below_cursor before x" for x
  proof (cases "xs = [] \<or> length xs < limit")
    case True
    then have "length xs < limit" using cur(2) by auto
    then show ?thesis using x split(3) by (simp add: wanted_def)
  next
    case False
    then obtain y where y: "y \<in> set xs" "bp_BlockHeight y < n" using stop by (auto simp: list_all_iff)
    then show ?thesis using split(4) [of x] x lowest(1) [OF y(1)] False by (simp add: wanted_def)
  qed
  then have "wanted rows n \<subseteq> set (s @ ?keep)" using s keep by (auto simp: seen_to_def wanted_def)
  moreover have "set (s @ ?keep) \<subseteq> wanted rows n" using s keep split(1) by (auto simp: seen_to_def wanted_def)
  ultimately have "set (s @ ?keep) = {x \<in> set rows. n \<le> bp_BlockHeight x}" unfolding wanted_def by blast
  then have "scan_done rows n (None, s @ ?keep)" by (simp add: scan_done_def)
  moreover have "for_each_loop ctx page n record_row i before limit s = Some (None, s @ ?keep)"
    using run stop by (auto simp: for_each_loop.simps [of ctx page n record_row i before limit s] xs page_loop_record takeWhile_eq_all_conv list_all_iff)
  ultimately show ?thesis by blast
qed

text \<open>Otherwise the scan ends on a height with too many rows, or goes on with a smaller cursor or a larger page.\<close>

definition goes_on :: "nat \<Rightarrow> nat \<Rightarrow> nat \<Rightarrow> nat \<Rightarrow> bool" where
  "goes_on before limit before' limit' \<longleftrightarrow>
     ((cursor_rank before', 2 * forEachBlockProcessingMaxPage - limit'), (cursor_rank before, 2 * forEachBlockProcessingMaxPage - limit))
       \<in> less_than <*lex*> less_than"

lemma for_each_next:
  assumes pages: "pages_of page rows" and cur: "before < 2 ^ 64" "0 < limit" and s: "seen_to rows n before s"
    and xs: "page before limit = (xs, None)" and run: "\<forall>i. \<not> ctx i" and n: "0 < n"
    and full: "xs \<noteq> []" "list_all (\<lambda>r. n \<le> bp_BlockHeight r) xs" "length xs = limit"
  shows "(\<exists>r. for_each_loop ctx page n record_row i before limit s = Some r \<and> scan_done rows n r) \<or>
    (\<exists>before' limit'. for_each_loop ctx page n record_row i before limit s =
        for_each_loop ctx page n record_row (Suc i) before' limit' (s @ xs) \<and>
      goes_on before limit before' limit' \<and> before' < 2 ^ 64 \<and> 0 < limit' \<and> seen_to rows n before' (s @ xs))"
proof -
  note split = page_split [OF pages cur xs]
  let ?hd = "bp_BlockHeight (hd xs)" and ?last = "bp_BlockHeight (last xs)"
  have ends: "?last \<le> bp_BlockHeight y \<and> bp_BlockHeight y \<le> ?hd" if "y \<in> set xs" for y
    using last_is_lowest [OF split(2) that] by simp
  have all: "takeWhile (\<lambda>r. n \<le> bp_BlockHeight r) xs = xs" using full(2) by (simp add: takeWhile_eq_all_conv list_all_iff)
  have pos: "0 < ?last" using full(1,2) n by (simp add: list_all_iff) (metis last_in_set less_le_trans)
  have step: "for_each_loop ctx page n record_row i before limit s =
      (if ?hd = ?last then if limit \<ge> forEachBlockProcessingMaxPage then Some (Some (ScanIncomplete ?last limit), s @ xs)
         else for_each_loop ctx page n record_row (Suc i) before (limit * 2) (s @ xs)
       else for_each_loop ctx page n record_row (Suc i) (?last + 1) limit (s @ xs))"
    using run full pos by (simp add: for_each_loop.simps [of ctx page n record_row i before limit s] xs page_loop_record all)
  have sub: "set (s @ xs) \<subseteq> wanted rows n"
    using s split(1) full(2) by (auto simp: seen_to_def wanted_def list_all_iff)
  consider (crowd) "?hd = ?last" "limit \<ge> forEachBlockProcessingMaxPage"
    | (grow) "?hd = ?last" "limit < forEachBlockProcessingMaxPage" | (move) "?hd \<noteq> ?last" by linarith
  then show ?thesis
  proof cases
    case crowd
    have "filter (\<lambda>x. bp_BlockHeight x = ?last) xs = xs"
      by (rule filter_True) (use ends crowd(1) in \<open>auto intro: antisym\<close>)
    then have "limit \<le> length (filter (\<lambda>x. bp_BlockHeight x = ?last) rows)" using split(6) full(3) by metis
    moreover have r: "for_each_loop ctx page n record_row i before limit s = Some (Some (ScanIncomplete ?last limit), s @ xs)"
      using step crowd by simp
    ultimately show ?thesis
      using crowd(2) sub by - (rule disjI1, rule exI, rule conjI, rule r, auto simp: scan_done_def wanted_def)
  next
    case grow
    have "seen_to rows n before (s @ xs)" using s sub by (auto simp: seen_to_def)
    moreover have "goes_on before limit before (limit * 2)" using grow(2) cur(2) by (simp add: goes_on_def)
    ultimately show ?thesis using step grow cur by (intro disjI2 exI [of _ before] exI [of _ "limit * 2"]) simp
  next
    case move
    have hd: "?last < ?hd" using ends [OF last_in_set [OF full(1)]] move by simp
    have top: "hd xs \<in> set rows" "below_cursor before (hd xs)" using split(1) hd_in_set [OF full(1)] by auto
    have bound: "?hd < 2 ^ 64" using pages top(1) by (simp add: pages_of_def)
    have "x \<in> set (s @ xs)" if x: "x \<in> wanted rows n" "\<not> below_cursor (?last + 1) x" for x
      using x s split(4) [OF full(1), of x] by (cases "below_cursor before x") (auto simp: seen_to_def wanted_def below_cursor_def)
    then have "seen_to rows n (?last + 1) (s @ xs)" using sub by (auto simp: seen_to_def)
    moreover have "goes_on before limit (?last + 1) limit"
      using hd bound top(2) by (auto simp: goes_on_def cursor_rank_def below_cursor_def)
    ultimately show ?thesis using step move cur(2) hd bound by (intro disjI2 exI [of _ "?last + 1"] exI [of _ limit]) simp
  qed
qed

lemma for_each_loop_done:
  assumes pages: "pages_of page rows" and run: "\<forall>i. \<not> ctx i" and n: "0 < n"
  shows "before < 2 ^ 64 \<Longrightarrow> 0 < limit \<Longrightarrow> seen_to rows n before s \<Longrightarrow>
    \<exists>r. for_each_loop ctx page n record_row i before limit s = Some r \<and> scan_done rows n r"
proof (induction "(cursor_rank before, 2 * forEachBlockProcessingMaxPage - limit)" arbitrary: i before limit s
    rule: wf_induct_rule [OF wf_lex_prod [OF wf_less_than wf_less_than]])
  case (1 before limit i s)
  obtain xs where xs: "page before limit = (xs, None)" using pages 1(2,3) by (simp add: pages_of_def)
  note stop = for_each_stop [OF pages 1(2,3,4) xs run] and more = for_each_next [OF pages 1(2,3,4) xs run n]
  have len: "length xs \<le> limit" by (rule page_split(5) [OF pages 1(2,3) xs])
  show ?case
  proof (cases "xs = [] \<or> \<not> list_all (\<lambda>r. n \<le> bp_BlockHeight r) xs \<or> length xs < limit")
    case False
    then have full: "xs \<noteq> []" "list_all (\<lambda>r. n \<le> bp_BlockHeight r) xs" "length xs = limit" using len by auto
    from more [OF full, of i] show ?thesis
    proof (elim disjE exE conjE)
      fix before' limit'
      assume eq: "for_each_loop ctx page n record_row i before limit s = for_each_loop ctx page n record_row (Suc i) before' limit' (s @ xs)"
        and next': "goes_on before limit before' limit'" "before' < 2 ^ 64" "0 < limit'" "seen_to rows n before' (s @ xs)"
      show ?thesis unfolding eq by (rule 1(1) [OF next'(1) [unfolded goes_on_def] next'(2-4)])
    qed blast
  qed (rule stop)
qed

end
