(* ===== verification/Pebble_Paging.thy ===== *)
theory Pebble_Paging
  imports Pebble_Block_Queries Paging
begin

text \<open>
  The boundary-safe scan of \<open>store/paging.go\<close> over the pages of the embedded store.
\<close>

lemma blockToModel_height [simp]: "bp_BlockHeight (blockToModel b) = bk_BlockHeight b"
  by (simp add: blockToModel_def)

lemma pebble_pages:
  assumes "pebble_ok pb view" and "pebble_up pb" and "block_consistent (view d)" and "uncancelled ctx"
  shows "pages_of (\<lambda>before limit. ListBlockProcessingStatus pb ctx before (int limit) d) (map blockToModel (blocks_desc (view d)))"
proof -
  note rows = blocks_desc_rows [OF assms(3) height_index_finite [OF assms(1,2)]]
  have "below_cursor before \<circ> blockToModel = below_height before" for before
    by (simp add: fun_eq_iff below_cursor_def below_height_def)
  then have "ListBlockProcessingStatus pb ctx before (int limit) d =
      (take limit (filter (below_cursor before) (map blockToModel (blocks_desc (view d)))), None)"
    if "before < 2 ^ 64" "0 < limit" for before limit
    using ListBlockProcessingStatus_page [OF assms that(1), of "int limit"] that(2) by (simp add: filter_map take_map)
  moreover have "bk_BlockHeight b < 2 ^ 64" if "b \<in> set (blocks_desc (view d))" for b
    using block_ok [OF assms(3), of b] that rows(2) by (simp add: block_row_ok_def)
  ultimately show ?thesis using rows(3) by (simp add: pages_of_def sorted_wrt_map)
qed

text \<open>
  C14. The paged scan of block rows ends and is complete: over an engine that works, for a least height
  of at least 1 and any positive page size, \<open>ForEachBlockProcessing\<close> returns; either it has shown the
  callback exactly the rows of that height or above, the rows at page boundaries included, or it
  reports that some height has at least \<open>forEachBlockProcessingMaxPage\<close> rows.
\<close>

theorem ForEachBlockProcessing_complete:
  assumes "pebble_ok pb view" and "pebble_up pb" and "block_consistent (view d)" and "uncancelled ctx" and "uncancelled ctx'"
    and "0 < minHeight" and "0 < pageSize"
  shows "\<exists>err seen. ForEachBlockProcessing ctx' (\<lambda>before limit. ListBlockProcessingStatus pb ctx before (int limit) d) minHeight pageSize record_row [] =
      Some (err, seen) \<and>
    (err = None \<and> set seen = blockToModel ` {b \<in> stored_blocks (view d). minHeight \<le> bk_BlockHeight b} \<or>
     (\<exists>h l. err = Some (ScanIncomplete h l) \<and> forEachBlockProcessingMaxPage \<le> card {b \<in> stored_blocks (view d). bk_BlockHeight b = h}))"
proof -
  let ?page = "\<lambda>before limit. ListBlockProcessingStatus pb ctx before (int limit) d"
  let ?rows = "map blockToModel (blocks_desc (view d))"
  note rows = blocks_desc_rows [OF assms(3) height_index_finite [OF assms(1,2)]]
  have "\<forall>i. \<not> ctx' i" using assms(5) by (simp add: uncancelled_def)
  moreover have "seen_to ?rows minHeight 0 []" by (simp add: seen_to_def below_cursor_def)
  ultimately obtain r where r: "for_each_loop ctx' ?page minHeight record_row 0 0 (nat pageSize) [] = Some r" "scan_done ?rows minHeight r"
    using for_each_loop_done [OF pebble_pages [OF assms(1-4)] _ assms(6), of ctx' 0 "nat pageSize" "[]" 0] assms(7) by auto
  have want: "{x \<in> set ?rows. minHeight \<le> bp_BlockHeight x} = blockToModel ` {b \<in> stored_blocks (view d). minHeight \<le> bk_BlockHeight b}"
    using rows(2) by auto
  have count: "length (filter (\<lambda>x. bp_BlockHeight x = h) ?rows) = card {b \<in> stored_blocks (view d). bk_BlockHeight b = h}" for h
    using distinct_card [OF distinct_filter [OF rows(4)], of "\<lambda>b. bk_BlockHeight b = h"] rows(2) by (simp add: filter_map comp_def)
  have "ForEachBlockProcessing ctx' ?page minHeight pageSize record_row [] = Some (fst r, snd r)"
    using r(1) assms(7) by (simp add: ForEachBlockProcessing_def)
  then show ?thesis using r(2) unfolding scan_done_def want count by blast
qed

theorem ForEachBlockProcessing_complete_witness:
  "\<exists>seen. ForEachBlockProcessing (\<lambda>_. False) (\<lambda>before limit. ListBlockProcessingStatus mem (\<lambda>_. False) before (int limit) orphan_db) 1 2 record_row [] =
     Some (None, seen) \<and> set seen = {blockToModel orphan_sample}"
proof -
  have few: "\<not> forEachBlockProcessingMaxPage \<le> card {b \<in> {orphan_sample}. bk_BlockHeight b = h}" for h
  proof -
    have "card {b \<in> {orphan_sample}. bk_BlockHeight b = h} \<le> card {orphan_sample}" by (rule card_mono) auto
    then show ?thesis by (simp add: forEachBlockProcessingMaxPage_def)
  qed
  have "{b \<in> {orphan_sample}. 1 \<le> bk_BlockHeight b} = {orphan_sample}" by (auto simp: orphan_sample_def)
  then show ?thesis
    using ForEachBlockProcessing_complete [OF mem_ok mem_up orphan_db_view(1) uncancelled_never uncancelled_never, of 1 2]
    unfolding orphan_db_stored using few by auto
qed

definition row_at_height :: "string \<Rightarrow> nat \<Rightarrow> block_processing_status" where
  "row_at_height h n = blockToModel (new_block h n)"

definition three_rows :: "block_processing_status list" where
  "three_rows = [row_at_height ''a'' 1, row_at_height ''b'' 0, row_at_height ''c'' 0]"

definition page_of :: "block_processing_status list \<Rightarrow> nat \<Rightarrow> nat \<Rightarrow> block_processing_status list \<times> store_error option" where
  "page_of rows before limit = (take limit (filter (below_cursor before) rows), None)"

text \<open>
  C40. The rows at height 0 are the exception. With three rows, one of height 1 and two of height 0, a
  page size of 2 and no least height, the scan reports success after the first page and the callback
  never sees the third row: the loop ends at a page whose last height is 0 instead of including that
  height again, as it does for every other height.
\<close>

theorem height_zero_rows_skipped:
  "pages_of (page_of three_rows) three_rows \<and>
   ForEachBlockProcessing (\<lambda>_. False) (page_of three_rows) 0 2 record_row [] =
     Some (None, [row_at_height ''a'' 1, row_at_height ''b'' 0])"
proof -
  have "pages_of (page_of three_rows) three_rows"
    by (simp add: pages_of_def page_of_def three_rows_def row_at_height_def)
  moreover have "ForEachBlockProcessing (\<lambda>_. False) (page_of three_rows) 0 2 record_row [] =
      Some (None, [row_at_height ''a'' 1, row_at_height ''b'' 0])"
    by (simp add: ForEachBlockProcessing_def for_each_loop.simps page_of_def three_rows_def row_at_height_def below_cursor_def
        record_row_def numeral_2_eq_2)
  ultimately show ?thesis ..
qed

end
