(* ===== verification/Pebble_Submissions.thy ===== *)
theory Pebble_Submissions
  imports Pebble_Status
begin

text \<open>
  The submissions of the embedded store with their delivery state, the leases, and the registries of
  datahub endpoints and peer policies (\<open>store/pebble/pebble.go\<close>), with the validation of
  \<open>store/store.go\<close> and the token lookups of \<open>store/submissions.go\<close>.
\<close>

section \<open>Submissions\<close>

definition subToModel :: "storedSubmission \<Rightarrow> submission" where
  "subToModel s = \<lparr>sb_SubmissionID = sm_SubmissionID s, sb_TxID = sm_TxID s, sb_CallbackURL = sm_CallbackURL s,
     sb_CallbackToken = sm_CallbackToken s, sb_FullStatusUpdates = sm_FullStatusUpdates s,
     sb_LastDeliveredStatus = sm_LastDeliveredStatus s, sb_RetryCount = sm_RetryCount s,
     sb_NextRetryAt = time_of (sm_NextRetryUnixNs s), sb_Attempts = sm_Attempts s,
     sb_LastAttemptAt = time_of (sm_LastAttemptUnixNs s), sb_LastResult = sm_LastResult s,
     sb_CreatedAt = time_of (sm_CreatedUnixNs s)\<rparr>"

definition new_submission :: "submission \<Rightarrow> storedSubmission" where
  "new_submission sub = \<lparr>sm_SubmissionID = sb_SubmissionID sub, sm_TxID = sb_TxID sub, sm_CallbackURL = sb_CallbackURL sub,
     sm_CallbackToken = sb_CallbackToken sub, sm_FullStatusUpdates = sb_FullStatusUpdates sub,
     sm_LastDeliveredStatus = sb_LastDeliveredStatus sub, sm_RetryCount = sb_RetryCount sub, sm_NextRetryUnixNs = 0,
     sm_Attempts = 0, sm_LastAttemptUnixNs = 0, sm_LastResult = [], sm_CreatedUnixNs = stored_time (sb_CreatedAt sub)\<rparr>"

definition submission_ops :: "storedSubmission \<Rightarrow> batch_op list" where
  "submission_ops s =
     [Put (subKey (sm_SubmissionID s)) (PSub s)] @
     (if sm_TxID s \<noteq> [] then [Put (idxSubTxIDKey (sm_TxID s) (sm_SubmissionID s)) PNil] else []) @
     (if sm_CallbackToken s \<noteq> [] then [Put (idxSubTokenKey (sm_CallbackToken s) (sm_SubmissionID s)) PNil] else [])"

definition InsertSubmission :: "'db pebble \<Rightarrow> ctx \<Rightarrow> submission \<Rightarrow> 'db \<Rightarrow> unit result \<times> 'db" where
  "InsertSubmission pb ctx sub d =
     (if ctx 0 then (Inl Cancelled, d) else commit_then pb d (submission_ops (new_submission sub)) ())"

fun subs_loop ::
    "'db pebble \<Rightarrow> 'db \<Rightarrow> ctx \<Rightarrow> nat \<Rightarrow> nat \<Rightarrow> submission list \<Rightarrow> (bytes \<times> payload) list
      \<Rightarrow> (submission list \<times> store_error option) \<times> nat" where
  "subs_loop pb d ctx i limit subs [] = ((subs, None), i)"
| "subs_loop pb d ctx i limit subs ((key, _) # kvs) =
     (if ctx i then ((subs, Some Cancelled), i)
      else case pb_get pb d (subKey (lastSegment key)) of
             Inl e \<Rightarrow> ((subs, Some e), Suc i)
           | Inr None \<Rightarrow> subs_loop pb d ctx (Suc i) limit subs kvs
           | Inr (Some v) \<Rightarrow>
               (case v of
                  PSub ss \<Rightarrow>
                    if limit > 0 \<and> length subs \<ge> limit then (([], Some ErrReplayUnavailable), Suc i)
                    else subs_loop pb d ctx (Suc i) limit (subs @ [subToModel ss]) kvs
                | _ \<Rightarrow> subs_loop pb d ctx (Suc i) limit subs kvs))"

definition submissionsByIndexBounded ::
    "'db pebble \<Rightarrow> ctx \<Rightarrow> bytes \<Rightarrow> nat \<Rightarrow> 'db \<Rightarrow> (submission list \<times> store_error option) \<times> nat" where
  "submissionsByIndexBounded pb ctx p limit d =
     (if ctx 0 then (([], Some Cancelled), 1)
      else case scan_prefix pb d p of
             Inl e \<Rightarrow> (([], Some e), 1)
           | Inr kvs \<Rightarrow> subs_loop pb d ctx 1 limit [] kvs)"

definition submissionsByIndex :: "'db pebble \<Rightarrow> ctx \<Rightarrow> bytes \<Rightarrow> 'db \<Rightarrow> submission list \<times> store_error option" where
  "submissionsByIndex pb ctx p d = fst (submissionsByIndexBounded pb ctx p 0 d)"

definition GetSubmissionsByTxID :: "'db pebble \<Rightarrow> ctx \<Rightarrow> txid \<Rightarrow> 'db \<Rightarrow> submission list \<times> store_error option" where
  "GetSubmissionsByTxID pb ctx txid d = submissionsByIndex pb ctx (idxSubTxIDPrefix txid) d"

definition GetSubmissionsByToken :: "'db pebble \<Rightarrow> ctx \<Rightarrow> string \<Rightarrow> 'db \<Rightarrow> submission list \<times> store_error option" where
  "GetSubmissionsByToken pb ctx callbackToken d = submissionsByIndex pb ctx (idxSubTokenPrefix callbackToken) d"

fun distinct_tokens_loop :: "string list \<Rightarrow> submission list \<Rightarrow> string list" where
  "distinct_tokens_loop tokens [] = tokens"
| "distinct_tokens_loop tokens (sub # subs) =
     (if sb_CallbackToken sub = [] \<or> sb_CallbackToken sub \<in> set tokens then distinct_tokens_loop tokens subs
      else distinct_tokens_loop (tokens @ [sb_CallbackToken sub]) subs)"

definition DistinctTokens :: "submission list \<Rightarrow> string list" where
  "DistinctTokens subs = distinct_tokens_loop [] subs"

fun tokens_loop ::
    "ctx \<Rightarrow> nat \<Rightarrow> (txid \<Rightarrow> submission list \<times> store_error option) \<Rightarrow> (txid \<rightharpoonup> string list) \<Rightarrow> txid list \<Rightarrow> txid list
      \<Rightarrow> (txid \<rightharpoonup> string list) result" where
  "tokens_loop ctx i getByTxID out seen [] = Inr out"
| "tokens_loop ctx i getByTxID out seen (txid # txids) =
     (if ctx i then Inl Cancelled
      else if txid = [] \<or> txid \<in> set seen then tokens_loop ctx (Suc i) getByTxID out seen txids
      else case getByTxID txid of
             (_, Some e) \<Rightarrow> Inl e
           | (subs, None) \<Rightarrow>
               tokens_loop ctx (Suc i) getByTxID
                 (if DistinctTokens subs \<noteq> [] then out(txid \<mapsto> DistinctTokens subs) else out) (txid # seen) txids)"

definition TokensForTxIDsViaPerTxID ::
    "ctx \<Rightarrow> txid list \<Rightarrow> (txid \<Rightarrow> submission list \<times> store_error option) \<Rightarrow> (txid \<rightharpoonup> string list) result" where
  "TokensForTxIDsViaPerTxID ctx txids getByTxID = tokens_loop ctx 0 getByTxID Map.empty [] txids"

definition TokensForTxIDs :: "'db pebble \<Rightarrow> ctx \<Rightarrow> ctx \<Rightarrow> txid list \<Rightarrow> 'db \<Rightarrow> (txid \<rightharpoonup> string list) result" where
  "TokensForTxIDs pb ctx ctx' txids d = TokensForTxIDsViaPerTxID ctx txids (\<lambda>txid. GetSubmissionsByTxID pb ctx' txid d)"

section \<open>Replay of a token\<close>

definition maxTokenReplayScan :: nat where
  "maxTokenReplayScan = 250000"

text \<open>\<open>time.Time.Before\<close>; the zero time comes before every other.\<close>

fun time_before :: "unix_ns option \<Rightarrow> unix_ns option \<Rightarrow> bool" where
  "time_before _ None = False"
| "time_before None (Some _) = True"
| "time_before (Some a) (Some b) = (a < b)"

definition replay_projection :: "transaction_status \<Rightarrow> transaction_status" where
  "replay_projection st = empty_status\<lparr>ts_TxID := ts_TxID st, ts_Status := ts_Status st, ts_Timestamp := ts_Timestamp st,
     ts_BlockHash := ts_BlockHash st, ts_BlockHeight := ts_BlockHeight st\<rparr>"

definition replay_wanted :: "unix_ns option \<Rightarrow> status list \<Rightarrow> transaction_status \<Rightarrow> bool" where
  "replay_wanted since only st \<longleftrightarrow>
     \<not> (since \<noteq> None \<and> \<not> time_before since (ts_Timestamp st)) \<and> \<not> (only \<noteq> [] \<and> ts_Status st \<notin> set only)"

fun replay_loop ::
    "'db pebble \<Rightarrow> 'db \<Rightarrow> ctx \<Rightarrow> nat \<Rightarrow> unix_ns option \<Rightarrow> status list \<Rightarrow> txid list \<Rightarrow> transaction_status list \<Rightarrow> submission list
      \<Rightarrow> transaction_status list result" where
  "replay_loop pb d ctx i since only seen matched [] = Inr matched"
| "replay_loop pb d ctx i since only seen matched (sub # subs) =
     (if ctx i then Inl Cancelled
      else if sb_TxID sub \<in> set seen then replay_loop pb d ctx (Suc i) since only seen matched subs
      else replay_loop pb d ctx (Suc i) since only (sb_TxID sub # seen)
             (case readStatus pb d (sb_TxID sub) of
                Inr (Some st) \<Rightarrow> if replay_wanted since only st then matched @ [replay_projection st] else matched
              | _ \<Rightarrow> matched) subs)"

fun deliver_loop :: "(transaction_status \<Rightarrow> 's \<Rightarrow> store_error option \<times> 's) \<Rightarrow> transaction_status list \<Rightarrow> 's \<Rightarrow> store_error option \<times> 's" where
  "deliver_loop fn [] s = (None, s)"
| "deliver_loop fn (st # sts) s =
     (case fn st s of (Some e, s') \<Rightarrow> (Some e, s') | (None, s') \<Rightarrow> deliver_loop fn sts s')"

text \<open>\<open>sort.Slice\<close> by timestamp is the argument \<open>sort_slice\<close>: it leaves the order of equal times open.\<close>

definition IterateStatusesByToken ::
    "'db pebble \<Rightarrow> (transaction_status list \<Rightarrow> transaction_status list) \<Rightarrow> ctx \<Rightarrow> string \<Rightarrow> unix_ns option \<Rightarrow> status list
      \<Rightarrow> (transaction_status \<Rightarrow> 's \<Rightarrow> store_error option \<times> 's) \<Rightarrow> 'db \<Rightarrow> 's \<Rightarrow> store_error option \<times> 's" where
  "IterateStatusesByToken pb sort_slice ctx callbackToken since onlyStatuses fn d s =
     (case submissionsByIndexBounded pb ctx (idxSubTokenPrefix callbackToken) maxTokenReplayScan d of
        ((_, Some e), _) \<Rightarrow> (Some e, s)
      | ((subs, None), i) \<Rightarrow>
          (case replay_loop pb d ctx i since onlyStatuses [] [] subs of
             Inl e \<Rightarrow> (Some e, s)
           | Inr matched \<Rightarrow> deliver_loop fn (sort_slice matched) s))"

section \<open>Delivery state\<close>

definition readSubmission :: "'db pebble \<Rightarrow> 'db \<Rightarrow> string \<Rightarrow> storedSubmission option result" where
  "readSubmission pb d sid =
     (case pb_get pb d (subKey sid) of
        Inl e \<Rightarrow> Inl e
      | Inr None \<Rightarrow> Inr None
      | Inr (Some v) \<Rightarrow> (case v of PSub ss \<Rightarrow> Inr (Some ss) | _ \<Rightarrow> Inl Unparsable))"

text \<open>
  \<open>UpdateDeliveryStatus\<close> takes no lock between its read and its write, so the write is a step of its
  own, with the row the read returned.
\<close>

definition delivery_write ::
    "'db pebble \<Rightarrow> string \<Rightarrow> status \<Rightarrow> int \<Rightarrow> unix_ns option \<Rightarrow> storedSubmission \<Rightarrow> 'db \<Rightarrow> unit result \<times> 'db" where
  "delivery_write pb submissionID lastStatus retryCount nextRetry ss d =
     commit_then pb d [Put (subKey submissionID)
       (PSub (ss\<lparr>sm_LastDeliveredStatus := lastStatus, sm_RetryCount := retryCount, sm_NextRetryUnixNs := stored_time nextRetry\<rparr>))] ()"

definition UpdateDeliveryStatus ::
    "'db pebble \<Rightarrow> ctx \<Rightarrow> string \<Rightarrow> status \<Rightarrow> int \<Rightarrow> unix_ns option \<Rightarrow> 'db \<Rightarrow> unit result \<times> 'db" where
  "UpdateDeliveryStatus pb ctx submissionID lastStatus retryCount nextRetry d =
     (if ctx 0 then (Inl Cancelled, d)
      else read_then (readSubmission pb d submissionID) d (\<lambda>row.
        case row of
          None \<Rightarrow> (Inr (), d)
        | Some ss \<Rightarrow> delivery_write pb submissionID lastStatus retryCount nextRetry ss d))"

definition RecordDeliveryAttempt ::
    "'db pebble \<Rightarrow> ctx \<Rightarrow> string \<Rightarrow> unix_ns option \<Rightarrow> string \<Rightarrow> 'db \<Rightarrow> unit result \<times> 'db" where
  "RecordDeliveryAttempt pb ctx submissionID at result d =
     (if ctx 0 then (Inl Cancelled, d)
      else read_then (readSubmission pb d submissionID) d (\<lambda>row.
        case row of
          None \<Rightarrow> (Inr (), d)
        | Some ss \<Rightarrow>
            commit_then pb d [Put (subKey submissionID)
              (PSub (ss\<lparr>sm_Attempts := sm_Attempts ss + 1, sm_LastAttemptUnixNs := UnixNano at, sm_LastResult := result\<rparr>))] ()))"

definition UpdateDeliveryStatusCAS ::
    "'db pebble \<Rightarrow> ctx \<Rightarrow> string \<Rightarrow> status \<Rightarrow> status \<Rightarrow> 'db \<Rightarrow> bool result \<times> 'db" where
  "UpdateDeliveryStatusCAS pb ctx submissionID expected new d =
     (if ctx 0 then (Inl Cancelled, d)
      else read_then (readSubmission pb d submissionID) d (\<lambda>row.
        case row of
          None \<Rightarrow> (Inr False, d)
        | Some ss \<Rightarrow>
            if sm_LastDeliveredStatus ss \<noteq> expected then (Inr False, d)
            else commit_then pb d [Put (subKey submissionID)
                   (PSub (ss\<lparr>sm_LastDeliveredStatus := new, sm_RetryCount := 0, sm_NextRetryUnixNs := 0\<rparr>))] True))"

fun ready_subs_loop ::
    "ctx \<Rightarrow> nat \<Rightarrow> unix_ns \<Rightarrow> storedSubmission list \<Rightarrow> (bytes \<times> payload) list \<Rightarrow> storedSubmission list result" where
  "ready_subs_loop ctx i nowNs candidates [] = Inr candidates"
| "ready_subs_loop ctx i nowNs candidates ((_, v) # kvs) =
     (if ctx i then Inl Cancelled
      else ready_subs_loop ctx (Suc i) nowNs
             (case v of
                PSub ss \<Rightarrow>
                  if sm_RetryCount ss \<le> 0 \<or> sm_NextRetryUnixNs ss \<le> 0 \<or> sm_NextRetryUnixNs ss > nowNs then candidates
                  else candidates @ [ss]
              | _ \<Rightarrow> candidates) kvs)"

definition ListSubmissionsReadyForRetry ::
    "'db pebble \<Rightarrow> ((storedSubmission \<Rightarrow> int) \<Rightarrow> storedSubmission list \<Rightarrow> storedSubmission list) \<Rightarrow> ctx \<Rightarrow> unix_ns option \<Rightarrow> int \<Rightarrow> 'db
      \<Rightarrow> submission list result" where
  "ListSubmissionsReadyForRetry pb sort_slice ctx now limit d =
     (if limit \<le> 0 then Inr []
      else if ctx 0 then Inl Cancelled
      else case scan_prefix pb d prefixSub of
             Inl e \<Rightarrow> Inl e
           | Inr kvs \<Rightarrow>
               (case ready_subs_loop ctx 1 (UnixNano now) [] kvs of
                  Inl e \<Rightarrow> Inl e
                | Inr candidates \<Rightarrow> Inr (map subToModel (take (nat limit) (sort_slice sm_NextRetryUnixNs candidates)))))"

section \<open>Leases\<close>

text \<open>The result is the expiry, or the zero time when another holder has the lease.\<close>

definition TryAcquireOrRenew ::
    "'db pebble \<Rightarrow> ctx \<Rightarrow> unix_ns \<Rightarrow> string \<Rightarrow> string \<Rightarrow> int \<Rightarrow> 'db \<Rightarrow> unix_ns option result \<times> 'db" where
  "TryAcquireOrRenew pb ctx now name holder ttl d =
     (if ctx 0 then (Inl Cancelled, d)
      else read_then (pb_get pb d (leaseKey name)) d (\<lambda>v.
        if (case v of Some (PLease cur) \<Rightarrow> sl_Holder cur \<noteq> holder \<and> sl_ExpiresUnixNs cur > now | _ \<Rightarrow> False)
        then (Inr None, d)
        else commit_then pb d [Put (leaseKey name) (PLease \<lparr>sl_Holder = holder, sl_ExpiresUnixNs = now + ttl\<rparr>)] (Some (now + ttl))))"

definition Release :: "'db pebble \<Rightarrow> ctx \<Rightarrow> string \<Rightarrow> string \<Rightarrow> 'db \<Rightarrow> unit result \<times> 'db" where
  "Release pb ctx name holder d =
     (if ctx 0 then (Inl Cancelled, d)
      else read_then (pb_get pb d (leaseKey name)) d (\<lambda>v.
        case v of
          None \<Rightarrow> (Inr (), d)
        | Some p \<Rightarrow>
            if (case p of PLease cur \<Rightarrow> sl_Holder cur \<noteq> holder | _ \<Rightarrow> False) then (Inr (), d)
            else commit_then pb d [Del (leaseKey name)] ()))"

section \<open>Endpoints and peer policies\<close>

definition maxStorablePolicyValue :: nat where
  "maxStorablePolicyValue = 2 ^ 63 - 1"

record datahub_endpoint =
  dh_URL :: string
  dh_Network :: string
  dh_Source :: string
  dh_Policy :: "storedEndpointPolicy option"
  dh_LastSeen :: "unix_ns option"

definition validate_endpoint :: "storedEndpointPolicy \<Rightarrow> store_error option" where
  "validate_endpoint p =
     (if list_ex (\<lambda>v. v > maxStorablePolicyValue)
           [ep_MiningFeeSatoshis p, ep_MiningFeeBytes p, ep_MaxTxSizePolicy p, ep_MaxScriptSizePolicy p, ep_MaxTxSigopsCountsPolicy p]
      then Some ErrInvalidEndpointPolicy else None)"

definition existingEndpointPolicy :: "'db pebble \<Rightarrow> 'db \<Rightarrow> string \<Rightarrow> storedEndpointPolicy option" where
  "existingEndpointPolicy pb d url =
     (case pb_get pb d (datahubEndpointKey url) of Inr (Some (PEndpoint row)) \<Rightarrow> de_Policy row | _ \<Rightarrow> None)"

definition stored_endpoint :: "datahub_endpoint \<Rightarrow> storedEndpointPolicy option \<Rightarrow> storedDatahubEndpoint" where
  "stored_endpoint ep policy = \<lparr>de_URL = dh_URL ep, de_Network = dh_Network ep, de_Source = dh_Source ep, de_Policy = policy,
     de_LastSeenUnixNs = stored_time (dh_LastSeen ep)\<rparr>"

definition UpsertDatahubEndpoint :: "'db pebble \<Rightarrow> ctx \<Rightarrow> datahub_endpoint \<Rightarrow> 'db \<Rightarrow> unit result \<times> 'db" where
  "UpsertDatahubEndpoint pb ctx ep d =
     (if ctx 0 then (Inl Cancelled, d)
      else if dh_URL ep = [] then (Inl EmptyURL, d)
      else case dh_Policy ep of
             Some p \<Rightarrow>
               (case validate_endpoint p of
                  Some e \<Rightarrow> (Inl e, d)
                | None \<Rightarrow> commit_then pb d [Put (datahubEndpointKey (dh_URL ep)) (PEndpoint (stored_endpoint ep (Some p)))] ())
           | None \<Rightarrow>
               commit_then pb d
                 [Put (datahubEndpointKey (dh_URL ep)) (PEndpoint (stored_endpoint ep (existingEndpointPolicy pb d (dh_URL ep))))] ())"

definition endpointToModel :: "storedDatahubEndpoint \<Rightarrow> datahub_endpoint" where
  "endpointToModel row = \<lparr>dh_URL = de_URL row, dh_Network = de_Network row, dh_Source = de_Source row, dh_Policy = de_Policy row,
     dh_LastSeen = time_of (de_LastSeenUnixNs row)\<rparr>"

fun endpoints_loop ::
    "ctx \<Rightarrow> nat \<Rightarrow> string \<Rightarrow> datahub_endpoint list \<Rightarrow> (bytes \<times> payload) list \<Rightarrow> datahub_endpoint list \<times> store_error option" where
  "endpoints_loop ctx i network out [] = (out, None)"
| "endpoints_loop ctx i network out ((_, v) # kvs) =
     (if ctx i then (out, Some Cancelled)
      else endpoints_loop ctx (Suc i) network
             (case v of PEndpoint row \<Rightarrow> if de_Network row \<noteq> network then out else out @ [endpointToModel row] | _ \<Rightarrow> out) kvs)"

definition ListDatahubEndpoints :: "'db pebble \<Rightarrow> ctx \<Rightarrow> string \<Rightarrow> 'db \<Rightarrow> datahub_endpoint list \<times> store_error option" where
  "ListDatahubEndpoints pb ctx network d =
     (if ctx 0 then ([], Some Cancelled)
      else case scan_prefix pb d prefixDatahub of
             Inl e \<Rightarrow> ([], Some e)
           | Inr kvs \<Rightarrow> endpoints_loop ctx 1 network [] kvs)"

record peer_policy =
  pl_PeerID :: string
  pl_Network :: string
  pl_MiningFeeSatoshis :: nat
  pl_MiningFeeBytes :: nat
  pl_MaxTxSizePolicy :: nat
  pl_MaxScriptSizePolicy :: nat
  pl_LastSeen :: "unix_ns option"

definition validate_peer :: "peer_policy \<Rightarrow> store_error option" where
  "validate_peer pp =
     (if pl_PeerID pp = [] then Some ErrInvalidPeerPolicy
      else if pl_MiningFeeBytes pp = 0 then Some ErrInvalidPeerPolicy
      else if pl_MiningFeeSatoshis pp > maxStorablePolicyValue then Some ErrInvalidPeerPolicy
      else if pl_MiningFeeBytes pp > maxStorablePolicyValue then Some ErrInvalidPeerPolicy
      else if pl_MaxTxSizePolicy pp > maxStorablePolicyValue then Some ErrInvalidPeerPolicy
      else if pl_MaxScriptSizePolicy pp > maxStorablePolicyValue then Some ErrInvalidPeerPolicy
      else None)"

definition SanitizePolicySizes :: "peer_policy \<Rightarrow> peer_policy \<times> nat" where
  "SanitizePolicySizes pp =
     (let (p1, n1) = (if pl_MaxTxSizePolicy pp > maxStorablePolicyValue then (pp\<lparr>pl_MaxTxSizePolicy := 0\<rparr>, 1) else (pp, 0))
      in if pl_MaxScriptSizePolicy p1 > maxStorablePolicyValue then (p1\<lparr>pl_MaxScriptSizePolicy := 0\<rparr>, n1 + 1) else (p1, n1))"

definition UpsertPeerPolicy :: "'db pebble \<Rightarrow> ctx \<Rightarrow> peer_policy \<Rightarrow> 'db \<Rightarrow> unit result \<times> 'db" where
  "UpsertPeerPolicy pb ctx pp d =
     (if ctx 0 then (Inl Cancelled, d)
      else case validate_peer pp of
             Some e \<Rightarrow> (Inl e, d)
           | None \<Rightarrow>
               commit_then pb d [Put (peerPolicyKey (pl_PeerID pp))
                 (PPeer \<lparr>pp_PeerID = pl_PeerID pp, pp_Network = pl_Network pp, pp_MiningFeeSatoshis = pl_MiningFeeSatoshis pp,
                   pp_MiningFeeBytes = pl_MiningFeeBytes pp, pp_MaxTxSizePolicy = pl_MaxTxSizePolicy pp,
                   pp_MaxScriptSizePolicy = pl_MaxScriptSizePolicy pp, pp_LastSeenUnixNs = stored_time (pl_LastSeen pp)\<rparr>)] ())"

definition peerToModel :: "storedPeerPolicy \<Rightarrow> peer_policy" where
  "peerToModel row = \<lparr>pl_PeerID = pp_PeerID row, pl_Network = pp_Network row, pl_MiningFeeSatoshis = pp_MiningFeeSatoshis row,
     pl_MiningFeeBytes = pp_MiningFeeBytes row, pl_MaxTxSizePolicy = pp_MaxTxSizePolicy row,
     pl_MaxScriptSizePolicy = pp_MaxScriptSizePolicy row, pl_LastSeen = time_of (pp_LastSeenUnixNs row)\<rparr>"

fun peers_loop ::
    "ctx \<Rightarrow> nat \<Rightarrow> string \<Rightarrow> peer_policy list \<Rightarrow> (bytes \<times> payload) list \<Rightarrow> peer_policy list \<times> store_error option" where
  "peers_loop ctx i network out [] = (out, None)"
| "peers_loop ctx i network out ((_, v) # kvs) =
     (if ctx i then (out, Some Cancelled)
      else peers_loop ctx (Suc i) network
             (case v of PPeer row \<Rightarrow> if pp_Network row \<noteq> network then out else out @ [peerToModel row] | _ \<Rightarrow> out) kvs)"

definition ListPeerPolicies :: "'db pebble \<Rightarrow> ctx \<Rightarrow> string \<Rightarrow> 'db \<Rightarrow> peer_policy list \<times> store_error option" where
  "ListPeerPolicies pb ctx network d =
     (if ctx 0 then ([], Some Cancelled)
      else case scan_prefix pb d prefixPeerPolicy of
             Inl e \<Rightarrow> ([], Some e)
           | Inr kvs \<Rightarrow> peers_loop ctx 1 network [] kvs)"

end
