(* ===== verification/Pebble_Sub_Correct.thy ===== *)
theory Pebble_Sub_Correct
  imports Pebble_Submissions Pebble_Status_Correct
begin

text \<open>
  Submissions and their indexes as an instance of \<open>indexed_table\<close>, the scope of a token's replay, and
  the delivery claim: a delivery is claimed at most once, while an unlocked retry write can lose an
  attempt.
\<close>

section \<open>The submission table\<close>

definition sub_index_keys :: "storedSubmission \<Rightarrow> bytes list" where
  "sub_index_keys s =
     (if sm_TxID s \<noteq> [] then [idxSubTxIDKey (sm_TxID s) (sm_SubmissionID s)] else []) @
     (if sm_CallbackToken s \<noteq> [] then [idxSubTokenKey (sm_CallbackToken s) (sm_SubmissionID s)] else [])"

definition sub_row_ok :: "storedSubmission \<Rightarrow> bool" where
  "sub_row_ok s \<longleftrightarrow> colon_free (sm_SubmissionID s) \<and> colon_free (sm_TxID s)"

definition is_sub_index :: "bytes \<Rightarrow> bool" where
  "is_sub_index k \<longleftrightarrow> prefix ''idx:sub:'' k"

definition sub_consistent :: "kv \<Rightarrow> bool" where
  "sub_consistent = table_consistent subKey sub_index_keys sm_SubmissionID PSub sub_row_ok is_sub_index"

interpretation sub: indexed_table subKey sub_index_keys sm_SubmissionID PSub sub_row_ok is_sub_index lastSegment
proof unfold_locales
  show "subKey a = subKey b \<Longrightarrow> a = b" for a b by (simp add: subKey_def)
  show "PSub r = PSub r' \<Longrightarrow> r = r'" for r r' by simp
  show "\<not> is_sub_index (subKey a)" for a by (simp add: subKey_def is_sub_index_def prefix_defs)
  show "k \<in> set (sub_index_keys r) \<Longrightarrow> is_sub_index k" for k r
    by (auto simp: sub_index_keys_def is_sub_index_def idxSubTxIDKey_def idxSubTokenKey_def prefix_defs split: if_splits)
  show "sub_row_ok r \<Longrightarrow> k \<in> set (sub_index_keys r) \<Longrightarrow> lastSegment k = sm_SubmissionID r" for r k
    by (auto simp: sub_index_keys_def sub_row_ok_def idxSubTxIDKey_def idxSubTokenKey_def lastSegment_key3 [simplified] split: if_splits)
qed

definition sub_at :: "kv \<Rightarrow> string \<Rightarrow> storedSubmission option" where
  "sub_at m sid = (case m (subKey sid) of Some (PSub s) \<Rightarrow> Some s | _ \<Rightarrow> None)"

lemma sub_at_key: "sub_at m sid = Some s \<longleftrightarrow> m (subKey sid) = Some (PSub s)"
  by (auto simp: sub_at_def split: option.splits payload.splits)

definition stored_subs :: "kv \<Rightarrow> storedSubmission set" where
  "stored_subs m = {s. sub_at m (sm_SubmissionID s) = Some s}"

lemma sub_row:
  assumes "sub_consistent m" and "sub_at m sid = Some s"
  shows "sm_SubmissionID s = sid" and "sub_row_ok s"
  using sub.mk_row [of m sid s] assms by (simp_all add: sub_consistent_def sub_at_key)

lemma sub_ok: "sub_consistent m \<Longrightarrow> s \<in> stored_subs m \<Longrightarrow> sub_row_ok s"
  unfolding stored_subs_def using sub_row(2) by blast

lemma sub_payload:
  assumes "sub_consistent m" and "m (subKey sid) = Some p"
  shows "\<exists>s. p = PSub s"
  using sub.row_wf [of m sid p] assms unfolding sub_consistent_def by metis

lemma readSubmission_at:
  assumes "pebble_ok pb view" and "readSubmission pb d sid = Inr r"
  shows "r = sub_at (view d) sid" and "view d (subKey sid) = map_option PSub r"
  using assms pebble_get [OF assms(1), of d "subKey sid"]
  by (auto simp: readSubmission_def sub_at_def split: sum.splits option.splits payload.splits)

lemma readSubmission_up:
  assumes "pebble_ok pb view" and "pebble_up pb" and "sub_consistent (view d)"
  shows "readSubmission pb d sid = Inr (sub_at (view d) sid)"
  using pebble_up_get [OF assms(1,2), of d "subKey sid"] sub_payload [OF assms(3), of sid]
  by (cases "view d (subKey sid)") (auto simp: readSubmission_def sub_at_def)

section \<open>Walking an index\<close>

text \<open>The rows an index walk reads, in key order.\<close>

lemma index_entries:
  assumes "sub_consistent m" and "prefix ''idx:sub:'' p"
  shows "{k. m k \<noteq> None \<and> prefix p k} = {k. \<exists>s \<in> stored_subs m. k \<in> set (sub_index_keys s) \<and> prefix p k}"
proof -
  have "m k \<noteq> None \<longleftrightarrow> (\<exists>s \<in> stored_subs m. k \<in> set (sub_index_keys s))" if "prefix p k" for k
  proof
    assume k: "m k \<noteq> None"
    have ix: "is_sub_index k" using assms(2) that unfolding is_sub_index_def by (rule prefix_order.trans)
    obtain s where s: "m (subKey (lastSegment k)) = Some (PSub s)" "sm_SubmissionID s = lastSegment k" "k \<in> set (sub_index_keys s)"
      by (rule sub.entry_row [OF assms(1) [unfolded sub_consistent_def] ix k])
    then have "s \<in> stored_subs m" by (simp add: stored_subs_def sub_at_key)
    then show "\<exists>s \<in> stored_subs m. k \<in> set (sub_index_keys s)" using s(3) by blast
  next
    assume "\<exists>s \<in> stored_subs m. k \<in> set (sub_index_keys s)"
    then obtain s where s: "m (subKey (sm_SubmissionID s)) = Some (PSub s)" "k \<in> set (sub_index_keys s)"
      by (auto simp: stored_subs_def sub_at_key)
    show "m k \<noteq> None" by (rule sub.row_entry [OF assms(1) [unfolded sub_consistent_def] s])
  qed
  then show ?thesis by blast
qed

lemma subs_loop_all:
  assumes "uncancelled ctx" and "\<forall>kv \<in> set kvs. pb_get pb d (subKey (lastSegment (fst kv))) = Inr (Some (PSub (f (fst kv))))"
    and "limit = 0 \<or> length acc + length kvs \<le> limit"
  shows "subs_loop pb d ctx i limit acc kvs = ((acc @ map (subToModel \<circ> f \<circ> fst) kvs, None), i + length kvs)"
  using assms(2,3)
proof (induction kvs arbitrary: acc i)
  case (Cons kv kvs)
  have "subs_loop pb d ctx (Suc i) limit (acc @ [subToModel (f (fst kv))]) kvs =
      ((acc @ [subToModel (f (fst kv))] @ map (subToModel \<circ> f \<circ> fst) kvs, None), Suc i + length kvs)"
    using Cons.IH [of "acc @ [subToModel (f (fst kv))]" "Suc i"] Cons.prems by simp
  then show ?case using Cons.prems uncancelledD [OF assms(1), of i] by (cases kv) (auto simp: comp_def)
qed simp

text \<open>The submissions with an index entry under a prefix.\<close>

definition indexed_under :: "bytes \<Rightarrow> kv \<Rightarrow> storedSubmission set" where
  "indexed_under p m = {s \<in> stored_subs m. \<exists>k \<in> set (sub_index_keys s). prefix p k}"

lemma bounded_walk:
  assumes "pebble_ok pb view" and "pebble_up pb" and "sub_consistent (view d)" and "uncancelled ctx" and "prefix ''idx:sub:'' p"
    and "limit = 0 \<or> card {k. view d k \<noteq> None \<and> prefix p k} \<le> limit"
  shows "\<exists>subs i. submissionsByIndexBounded pb ctx p limit d = ((subs, None), i) \<and> set subs = subToModel ` indexed_under p (view d)"
proof -
  define f where "f = (\<lambda>k. the (sub_at (view d) (lastSegment k)))"
  obtain kvs where kvs: "scan_prefix pb d p = Inr kvs" by (rule scan_up [OF assms(2)])
  have keys: "fst ` set kvs = {k. \<exists>s \<in> stored_subs (view d). k \<in> set (sub_index_keys s) \<and> prefix p k}"
    using scan_prefix_keys [OF assms(1) kvs] index_entries [OF assms(3,5)] by simp
  have own: "lastSegment k = sm_SubmissionID s" "f k = s" if "s \<in> stored_subs (view d)" "k \<in> set (sub_index_keys s)" for k s
    using sub.ix_owner [OF sub_ok [OF assms(3) that(1)] that(2)] that(1) by (simp_all add: f_def stored_subs_def)
  have get: "pb_get pb d (subKey (lastSegment k)) = Inr (Some (PSub (f k)))" if k: "k \<in> fst ` set kvs" for k
  proof -
    obtain s where s: "s \<in> stored_subs (view d)" "k \<in> set (sub_index_keys s)" using k unfolding keys by blast
    have "view d (subKey (sm_SubmissionID s)) = Some (PSub s)" using s(1) by (simp add: stored_subs_def sub_at_key)
    then show ?thesis using own [OF s] pebble_up_get [OF assms(1,2)] by simp
  qed
  have "length kvs = card (fst ` set kvs)"
    using scan_prefix_sorted [OF assms(1) kvs] distinct_card [of "map fst kvs"] by (simp add: strict_sorted_iff)
  then have "limit = 0 \<or> length ([] :: submission list) + length kvs \<le> limit"
    using assms(6) scan_prefix_keys [OF assms(1) kvs] by simp
  then have "submissionsByIndexBounded pb ctx p limit d = ((map (subToModel \<circ> f \<circ> fst) kvs, None), 1 + length kvs)"
    unfolding submissionsByIndexBounded_def kvs using subs_loop_all [OF assms(4), of kvs pb d f limit "[]" 1] get uncancelledD [OF assms(4)] by simp
  moreover have "set (map (subToModel \<circ> f \<circ> fst) kvs) = subToModel ` indexed_under p (view d)"
  proof -
    have "f ` fst ` set kvs = indexed_under p (view d)"
      unfolding keys indexed_under_def using own(2) by (auto simp: image_iff) 
    then show ?thesis by (simp add: image_comp [symmetric] comp_def image_image) (metis image_image)
  qed
  ultimately show ?thesis by blast
qed

section \<open>The scope of a token\<close>

text \<open>A token's index range holds the entries of the token itself and of every token that extends it with a colon.\<close>

definition in_scope :: "string \<Rightarrow> string \<Rightarrow> bool" where
  "in_scope t u \<longleftrightarrow> u = t \<or> prefix (t @ '':'') u"

lemma token_prefix:
  assumes "colon_free sid"
  shows "prefix (t @ '':'') (u @ '':'' @ sid) \<longleftrightarrow> in_scope t u"
  using assms
proof (induction t arbitrary: u)
  case Nil
  then show ?case by (cases u) (auto simp: in_scope_def)
next
  case (Cons c t)
  show ?case
  proof (cases u)
    case Nil
    have "\<not> prefix (t @ '':'') sid" using Cons.prems by (auto simp: colon_free_def prefix_def)
    then show ?thesis using Nil by (auto simp: in_scope_def)
  next
    case (Cons b v)
    then show ?thesis using Cons.IH [OF Cons.prems, of v] by (auto simp: in_scope_def)
  qed
qed

lemma indexed_under_token:
  assumes "sub_consistent m"
  shows "indexed_under (idxSubTokenPrefix t) m = {s \<in> stored_subs m. sm_CallbackToken s \<noteq> [] \<and> in_scope t (sm_CallbackToken s)}"
proof -
  have "(\<exists>k \<in> set (sub_index_keys s). prefix (idxSubTokenPrefix t) k) \<longleftrightarrow> sm_CallbackToken s \<noteq> [] \<and> in_scope t (sm_CallbackToken s)"
    if "s \<in> stored_subs m" for s
  proof -
    have "colon_free (sm_SubmissionID s)" using sub_ok [OF assms that] by (simp add: sub_row_ok_def)
    note token = token_prefix [OF this, of t "sm_CallbackToken s"]
    have "prefix (idxSubTokenPrefix t) (idxSubTokenKey (sm_CallbackToken s) (sm_SubmissionID s)) \<longleftrightarrow> in_scope t (sm_CallbackToken s)"
      unfolding token [symmetric] by (simp add: idxSubTokenPrefix_def idxSubTokenKey_def)
    moreover have "\<not> prefix (idxSubTokenPrefix t) (idxSubTxIDKey x y)" for x y
      by (simp add: idxSubTokenPrefix_def idxSubTxIDKey_def prefix_defs)
    ultimately show ?thesis by (auto simp: sub_index_keys_def)
  qed
  then show ?thesis unfolding indexed_under_def by blast
qed

definition record_status :: "transaction_status \<Rightarrow> transaction_status list \<Rightarrow> store_error option \<times> transaction_status list" where
  "record_status st s = (None, s @ [st])"

lemma deliver_record: "deliver_loop record_status sts s = (None, s @ sts)"
  by (induction sts arbitrary: s) (simp_all add: record_status_def)

definition replayed :: "kv \<Rightarrow> unix_ns option \<Rightarrow> status list \<Rightarrow> txid set \<Rightarrow> transaction_status set" where
  "replayed m since only T = replay_projection ` {st. \<exists>t \<in> T. \<exists>q. row_at m t = Some q \<and> st = toModel q \<and> replay_wanted since only st}"

lemma replayed_insert:
  "replayed m since only (insert t T) = replayed m since only T \<union>
     (case row_at m t of Some q \<Rightarrow> if replay_wanted since only (toModel q) then {replay_projection (toModel q)} else {} | None \<Rightarrow> {})"
  unfolding replayed_def by (cases "row_at m t") auto

lemma replayed_Un: "replayed m since only (A \<union> B) = replayed m since only A \<union> replayed m since only B"
  unfolding replayed_def by blast

lemma replay_loop_set:
  assumes "pebble_ok pb view" and "pebble_up pb" and "status_consistent (view d)" and "uncancelled ctx"
    and "set matched = replayed (view d) since only (set seen)"
  shows "\<exists>out. replay_loop pb d ctx i since only seen matched subs = Inr out \<and>
    set out = replayed (view d) since only (set seen \<union> sb_TxID ` set subs)"
  using assms(5)
proof (induction subs arbitrary: i seen matched)
  case (Cons x xs)
  show ?case
  proof (cases "sb_TxID x \<in> set seen")
    case True
    then have "set seen \<union> sb_TxID ` set (x # xs) = set seen \<union> sb_TxID ` set xs" by auto
    then show ?thesis using Cons.IH [OF Cons.prems, of "Suc i"] True uncancelledD [OF assms(4), of i] by simp
  next
    case False
    define matched' where "matched' = (case readStatus pb d (sb_TxID x) of
        Inr (Some st) \<Rightarrow> if replay_wanted since only st then matched @ [replay_projection st] else matched | _ \<Rightarrow> matched)"
    have "set matched' = replayed (view d) since only (set (sb_TxID x # seen))"
      unfolding matched'_def readStatus_stored readStoredStatus_up [OF assms(1-3)] list.set(2) replayed_insert Cons.prems [symmetric]
      by (cases "row_at (view d) (sb_TxID x)") simp_all
    from Cons.IH [OF this, of "Suc i"] show ?thesis
      using False uncancelledD [OF assms(4), of i] by (simp add: matched'_def [symmetric] insert_commute)
  qed
qed simp

definition permutes_lists :: "('a list \<Rightarrow> 'a list) \<Rightarrow> bool" where
  "permutes_lists f \<longleftrightarrow> (\<forall>xs. mset (f xs) = mset xs)"


section \<open>Writes\<close>

lemma submission_ops_keys: "submission_ops s = map Del [] @ [Put (subKey (sm_SubmissionID s)) (PSub s)] @ map (\<lambda>k. Put k PNil) (sub_index_keys s)"
  by (simp add: submission_ops_def sub_index_keys_def)

text \<open>
  One submission row is inserted with its index entries, or replaced by one with the same entries, and
  \<open>T\<close> relates the row before to the row after.
\<close>

definition sub_write :: "(storedSubmission option \<Rightarrow> storedSubmission \<Rightarrow> bool) \<Rightarrow> kv \<Rightarrow> kv \<Rightarrow> bool" where
  "sub_write T m m' \<longleftrightarrow> (\<exists>old new. T old new \<and> sub_row_ok new \<and> m (subKey (sm_SubmissionID new)) = map_option PSub old \<and>
     ((old = None \<and> m' = apply_batch (submission_ops new) m) \<or>
      (\<exists>q. old = Some q \<and> sub_index_keys new = sub_index_keys q \<and> m' = m(subKey (sm_SubmissionID new) \<mapsto> PSub new))))"

lemma sub_write_consistent:
  assumes "sub_consistent m" and "sub_write T m m'"
  shows "sub_consistent m'"
proof -
  obtain old new where w: "sub_row_ok new" "m (subKey (sm_SubmissionID new)) = map_option PSub old"
    and m': "(old = None \<and> m' = apply_batch (submission_ops new) m) \<or>
      (\<exists>q. old = Some q \<and> sub_index_keys new = sub_index_keys q \<and> m' = m(subKey (sm_SubmissionID new) \<mapsto> PSub new))"
    using assms(2) unfolding sub_write_def by blast
  from m' show ?thesis
  proof (elim disjE exE conjE)
    assume e: "old = None" "m' = apply_batch (submission_ops new) m"
    show ?thesis
      unfolding sub_consistent_def e(2) submission_ops_keys
      by (rule sub.rewrite_consistent [OF assms(1) [unfolded sub_consistent_def] w]) (use e(1) in simp_all)
  next
    fix q assume q: "old = Some q" "sub_index_keys new = sub_index_keys q" "m' = m(subKey (sm_SubmissionID new) \<mapsto> PSub new)"
    show ?thesis
      using sub.overwrite_consistent [OF assms(1) [unfolded sub_consistent_def], of new q] w q by (simp add: sub_consistent_def)
  qed
qed

lemma sub_write_at:
  assumes "sub_write T m m'"
  obtains old new where "T old new" "sub_at m (sm_SubmissionID new) = old"
    "\<forall>x. sub_at m' x = (if x = sm_SubmissionID new then Some new else sub_at m x)"
proof -
  obtain old new where w: "T old new" "m (subKey (sm_SubmissionID new)) = map_option PSub old"
    and m': "(old = None \<and> m' = apply_batch (submission_ops new) m) \<or>
      (\<exists>q. old = Some q \<and> sub_index_keys new = sub_index_keys q \<and> m' = m(subKey (sm_SubmissionID new) \<mapsto> PSub new))"
    using assms unfolding sub_write_def by blast
  have "m' (subKey x) = (if x = sm_SubmissionID new then Some (PSub new) else m (subKey x))" for x
    using m'
  proof
    assume "old = None \<and> m' = apply_batch (submission_ops new) m"
    then show ?thesis unfolding submission_ops_keys using sub.rewrite_lookup(1) [of "[]"] by simp
  qed (auto simp: subKey_def)
  then have "\<forall>x. sub_at m' x = (if x = sm_SubmissionID new then Some new else sub_at m x)" by (simp add: sub_at_def)
  moreover have "sub_at m (sm_SubmissionID new) = old" using w(2) by (cases old) (simp_all add: sub_at_def)
  ultimately show thesis using that w(1) by blast
qed

definition sub_space :: "bytes \<Rightarrow> bool" where
  "sub_space k \<longleftrightarrow> prefix prefixSub k \<or> is_sub_index k"

lemma sub_write_frame:
  assumes "sub_write T m m'" and "\<not> sub_space k"
  shows "m' k = m k"
proof -
  have "k \<notin> op_key ` set (submission_ops s)" for s
    using assms(2) sub.ix_isix by (auto simp: submission_ops_keys sub_space_def subKey_def)
  moreover have "k \<noteq> subKey x" for x using assms(2) by (auto simp: sub_space_def subKey_def)
  ultimately show ?thesis using assms(1) unfolding sub_write_def by (auto simp: apply_batch_other)
qed

definition sample_sub :: storedSubmission where
  "sample_sub = (new_submission \<lparr>sb_SubmissionID = ''s1'', sb_TxID = ''t1'', sb_CallbackURL = [], sb_CallbackToken = ''a:b'',
     sb_FullStatusUpdates = False, sb_LastDeliveredStatus = [], sb_RetryCount = 0, sb_NextRetryAt = None, sb_Attempts = 0,
     sb_LastAttemptAt = None, sb_LastResult = [], sb_CreatedAt = None\<rparr>)"

definition sub_db :: "(bytes \<times> payload) list" where
  "sub_db = fold mem_op (submission_ops sample_sub) sample_db"

lemma sample_sub_simps [simp]:
  "sm_SubmissionID sample_sub = ''s1''" "sm_TxID sample_sub = ''t1''" "sm_CallbackToken sample_sub = ''a:b''"
  "sm_LastDeliveredStatus sample_sub = []" "sm_Attempts sample_sub = 0"
  by (simp_all add: sample_sub_def new_submission_def)

lemma sample_db_frame: "\<not> tx_space k \<Longrightarrow> map_of sample_db k = None"
  unfolding sample_db_def mem_view
  by (subst apply_batch_other) (auto simp: addStatusIndexes_keys tx_space_def txKey_def dest: tx_index_space)

lemma tx_sub_apart: "sub_space k \<Longrightarrow> \<not> tx_space k"
  by (auto simp: sub_space_def tx_space_def is_sub_index_def is_tx_index_def prefix_defs prefix_def)

lemma sub_db_write: "sub_write (\<lambda>_ new. new = sample_sub) (map_of sample_db) (map_of sub_db)"
proof -
  have "map_of sample_db (subKey ''s1'') = None" by (rule sample_db_frame, rule tx_sub_apart) (simp add: sub_space_def subKey_def)
  then show ?thesis
    unfolding sub_write_def sub_db_def mem_view
    by (intro exI [of _ None] exI [of _ sample_sub]) (simp add: sub_row_ok_def colon_free_def)
qed

lemma sub_db_view:
  "sub_consistent (map_of sub_db)" "status_consistent (map_of sub_db)" "stored_subs (map_of sub_db) = {sample_sub}"
  "row_at (map_of sub_db) ''t1'' = Some (sample_row ''t1'' StatusMined ''b'')"
proof -
  have none: "map_of sample_db k = None" if "sub_space k" for k using that tx_sub_apart sample_db_frame by blast
  have "sub_consistent (map_of sample_db)"
    unfolding sub_consistent_def table_consistent_def using none by (auto simp: sub_space_def subKey_def is_sub_index_def)
  then show "sub_consistent (map_of sub_db)" by (rule sub_write_consistent [OF _ sub_db_write])
  have frame: "map_of sub_db k = map_of sample_db k" if "tx_space k" for k
    using sub_write_frame [OF sub_db_write] tx_sub_apart that by blast
  then have tx: "map_of sub_db (txKey t) = map_of sample_db (txKey t)" for t by (simp add: tx_space_def txKey_def)
  show "status_consistent (map_of sub_db)"
    using sample_db_view(1) unfolding status_consistent_def
    by (subst table_frame [of "map_of sub_db" txKey "map_of sample_db" is_tx_index]) (use tx frame in \<open>auto simp: tx_space_def\<close>)
  show "row_at (map_of sub_db) ''t1'' = Some (sample_row ''t1'' StatusMined ''b'')"
    using sample_db_view(2) tx by (simp add: row_at_def)
  obtain new where new: "new = sample_sub" "\<forall>x. sub_at (map_of sub_db) x = (if x = sm_SubmissionID new then Some new else sub_at (map_of sample_db) x)"
    using sub_write_at [OF sub_db_write] by metis
  have "sub_at (map_of sample_db) x = None" for x using none by (simp add: sub_at_def sub_space_def subKey_def)
  then show "stored_subs (map_of sub_db) = {sample_sub}" using new by (auto simp: stored_subs_def split: if_splits)
qed


section \<open>Claims and attempts\<close>

text \<open>What the webhook workers do to one submission at a time under \<open>submissionMu\<close>: claim a delivery, or record an attempt.\<close>

datatype delivery_call = Claim status status | Attempt "unix_ns option" string

fun run_call :: "'db pebble \<Rightarrow> ctx \<Rightarrow> string \<Rightarrow> delivery_call \<Rightarrow> 'db \<Rightarrow> bool \<times> 'db" where
  "run_call pb ctx sid (Claim expected new) d = (case UpdateDeliveryStatusCAS pb ctx sid expected new d of (r, d') \<Rightarrow> (r = Inr True, d'))"
| "run_call pb ctx sid (Attempt at result) d = (False, snd (RecordDeliveryAttempt pb ctx sid at result d))"

fun run_calls :: "'db pebble \<Rightarrow> (nat \<Rightarrow> ctx) \<Rightarrow> string \<Rightarrow> delivery_call list \<Rightarrow> 'db \<Rightarrow> bool list" where
  "run_calls pb ctxs sid [] d = []"
| "run_calls pb ctxs sid (c # cs) d =
     (case run_call pb (ctxs 0) sid c d of (won, d') \<Rightarrow> won # run_calls pb (\<lambda>i. ctxs (Suc i)) sid cs d')"

definition delivered :: "kv \<Rightarrow> string \<Rightarrow> status option" where
  "delivered m sid = map_option sm_LastDeliveredStatus (sub_at m sid)"

lemma put_sub_at: "sub_at (m(subKey sid \<mapsto> PSub s)) sid = Some s"
  by (simp add: sub_at_def)

text \<open>The read-modify-write of one row that the delivery writers share.\<close>

definition sub_rmw ::
    "'db pebble \<Rightarrow> string \<Rightarrow> (storedSubmission \<Rightarrow> bool) \<Rightarrow> (storedSubmission \<Rightarrow> storedSubmission) \<Rightarrow> 'r \<Rightarrow> 'r \<Rightarrow> 'db \<Rightarrow> 'r result \<times> 'db" where
  "sub_rmw pb sid g f miss hit d =
     read_then (readSubmission pb d sid) d (\<lambda>row.
       case row of
         None \<Rightarrow> (Inr miss, d)
       | Some ss \<Rightarrow> if \<not> g ss then (Inr miss, d) else commit_then pb d [Put (subKey sid) (PSub (f ss))] hit)"

lemma sub_rmw_cases:
  assumes "pebble_ok pb view" and "sub_rmw pb sid g f miss hit d = (res, d')"
  obtains (kept) "view d' = view d" "isl res \<or> res = Inr miss"
    | (wrote) ss where "sub_at (view d) sid = Some ss" "g ss" "res = Inr hit" "view d' = (view d)(subKey sid \<mapsto> PSub (f ss))"
proof (cases "readSubmission pb d sid")
  case (Inl e)
  then show thesis using assms(2) kept by (auto simp: sub_rmw_def read_then_def)
next
  case (Inr row)
  note at = readSubmission_at(1) [OF assms(1) Inr]
  show thesis
  proof (cases "\<exists>ss. row = Some ss \<and> g ss")
    case True
    then obtain ss where ss: "row = Some ss" "g ss" by blast
    then have c: "commit_then pb d [Put (subKey sid) (PSub (f ss))] hit = (res, d')"
      using assms(2) Inr by (simp add: sub_rmw_def read_then_def)
    show thesis
    proof (cases "isl res")
      case True
      then show thesis using kept commit_then_view(1) [OF assms(1) c] by simp
    next
      case False
      then show thesis using wrote [of ss] ss at commit_then_view [OF assms(1) c] by simp
    qed
  next
    case False
    then show thesis using kept assms(2) Inr by (cases row) (auto simp: sub_rmw_def read_then_def)
  qed
qed

lemma CAS_rmw:
  "UpdateDeliveryStatusCAS pb ctx sid expected new d = (if ctx 0 then (Inl Cancelled, d)
     else sub_rmw pb sid (\<lambda>ss. sm_LastDeliveredStatus ss = expected)
            (\<lambda>ss. ss\<lparr>sm_LastDeliveredStatus := new, sm_RetryCount := 0, sm_NextRetryUnixNs := 0\<rparr>) False True d)"
  by (simp add: UpdateDeliveryStatusCAS_def sub_rmw_def)

lemma Attempt_rmw:
  "RecordDeliveryAttempt pb ctx sid at result d = (if ctx 0 then (Inl Cancelled, d)
     else sub_rmw pb sid (\<lambda>_. True)
            (\<lambda>ss. ss\<lparr>sm_Attempts := sm_Attempts ss + 1, sm_LastAttemptUnixNs := UnixNano at, sm_LastResult := result\<rparr>) () () d)"
  unfolding RecordDeliveryAttempt_def sub_rmw_def not_True_eq_False if_False ..

lemma claim_effect:
  assumes "pebble_ok pb view" and "run_call pb ctx sid (Claim expected new) d = (won, d')"
  shows "if won then delivered (view d) sid = Some expected \<and> delivered (view d') sid = Some new
    else delivered (view d') sid = delivered (view d) sid"
proof -
  obtain res where u: "UpdateDeliveryStatusCAS pb ctx sid expected new d = (res, d')" "won \<longleftrightarrow> res = Inr True"
    using assms(2) by (auto split: prod.splits)
  show ?thesis
  proof (cases "ctx 0")
    case True
    then show ?thesis using u by (auto simp: CAS_rmw)
  next
    case False
    then have op: "sub_rmw pb sid (\<lambda>ss. sm_LastDeliveredStatus ss = expected)
        (\<lambda>ss. ss\<lparr>sm_LastDeliveredStatus := new, sm_RetryCount := 0, sm_NextRetryUnixNs := 0\<rparr>) False True d = (res, d')"
      using u(1) by (simp add: CAS_rmw)
    from assms(1) op show ?thesis
    proof (cases rule: sub_rmw_cases)
      case kept
      then show ?thesis using u(2) by (auto simp: delivered_def)
    next
      case (wrote ss)
      then show ?thesis using u(2) by (simp add: delivered_def put_sub_at)
    qed
  qed
qed

lemma attempt_effect:
  assumes "pebble_ok pb view"
  shows "delivered (view (snd (RecordDeliveryAttempt pb ctx sid at result d))) sid = delivered (view d) sid"
proof (cases "ctx 0")
  case False
  obtain res d' where r: "RecordDeliveryAttempt pb ctx sid at result d = (res, d')" by (rule prod.exhaust)
  then have op: "sub_rmw pb sid (\<lambda>_. True)
      (\<lambda>ss. ss\<lparr>sm_Attempts := sm_Attempts ss + 1, sm_LastAttemptUnixNs := UnixNano at, sm_LastResult := result\<rparr>) () () d = (res, d')"
    using False by (simp add: Attempt_rmw)
  from assms op show ?thesis
  proof (cases rule: sub_rmw_cases)
    case kept
    then show ?thesis using r by (simp add: delivered_def)
  next
    case (wrote ss)
    then show ?thesis using r by (simp add: delivered_def put_sub_at)
  qed
qed (simp add: Attempt_rmw)

lemma no_more_wins:
  assumes "pebble_ok pb view" and "\<forall>c \<in> set cs. \<forall>e n. c = Claim e n \<longrightarrow> e = expected" and "delivered (view d) sid \<noteq> Some expected"
  shows "True \<notin> set (run_calls pb ctxs sid cs d)"
  using assms(2,3)
proof (induction cs arbitrary: d ctxs)
  case (Cons c cs)
  obtain won d' where r: "run_call pb (ctxs 0) sid c d = (won, d')" by (rule prod.exhaust)
  have "\<not> won \<and> delivered (view d') sid = delivered (view d) sid"
  proof (cases c)
    case (Claim e n)
    then have "e = expected" using Cons.prems(1) by simp
    then show ?thesis using claim_effect [OF assms(1) r [unfolded Claim]] Cons.prems(2) by (simp split: if_splits)
  next
    case (Attempt at result)
    then show ?thesis using r attempt_effect [OF assms(1), of "ctxs 0" sid at result d] by simp
  qed
  then show ?case using Cons.IH [of d'] Cons.prems r by simp
qed simp

text \<open>
  C18. A delivery is claimed at most once: when any number of workers claim the same transition of one
  submission's delivered status with \<open>UpdateDeliveryStatusCAS\<close>, in any order, with attempts recorded in
  between and on an engine that may fail, at most one of the calls reports success.
\<close>

theorem claimed_at_most_once:
  assumes "pebble_ok pb view" and "expected \<noteq> new" and "set cs \<subseteq> {Claim expected new} \<union> {Attempt at result | at result. True}"
  shows "count_list (run_calls pb ctxs sid cs d) True \<le> 1"
  using assms(3)
proof (induction cs arbitrary: d ctxs)
  case (Cons c cs)
  obtain won d' where r: "run_call pb (ctxs 0) sid c d = (won, d')" by (rule prod.exhaust)
  show ?case
  proof (cases won)
    case True
    then have c: "c = Claim expected new" using r Cons.prems by auto
    then have "delivered (view d') sid \<noteq> Some expected"
      using claim_effect [OF assms(1) r [unfolded c]] True assms(2) by simp
    then have "True \<notin> set (run_calls pb (\<lambda>i. ctxs (Suc i)) sid cs d')"
      using Cons.prems by (intro no_more_wins [OF assms(1), of cs expected]) auto
    then have "count_list (run_calls pb (\<lambda>i. ctxs (Suc i)) sid cs d') True = 0" by (rule count_notin)
    then show ?thesis using r True by simp
  next
    case False
    then show ?thesis using Cons.IH [of "\<lambda>i. ctxs (Suc i)" d'] Cons.prems r by simp
  qed
qed simp

theorem claimed_at_most_once_witness:
  "count_list (run_calls mem (\<lambda>_ _. False) ''s1'' [Claim [] StatusMined, Attempt None [], Claim [] StatusMined] sub_db) True \<le> 1"
proof (rule claimed_at_most_once [OF mem_ok, where expected = "[]" and new = StatusMined])
  show "[] \<noteq> StatusMined" by (simp add: StatusMined_def)
qed simp

text \<open>
  C39. A retry write can lose an attempt. \<open>UpdateDeliveryStatus\<close> does not take the lock, so another
  worker's \<open>RecordDeliveryAttempt\<close> can run between its read and its write; the write then puts back the
  row it read, and the number of recorded attempts is what it was before.
\<close>

theorem retry_write_loses_attempt:
  assumes "pebble_ok pb view" and "pebble_up pb" and "sub_consistent (view d)" and "readSubmission pb d sid = Inr (Some ss)" and "\<not> ctx 0"
  shows "\<exists>d1 d2. RecordDeliveryAttempt pb ctx sid at result d = (Inr (), d1) \<and>
    delivery_write pb sid lastStatus retryCount nextRetry ss d1 = (Inr (), d2) \<and>
    map_option sm_Attempts (sub_at (view d1) sid) = Some (sm_Attempts ss + 1) \<and>
    map_option sm_Attempts (sub_at (view d2) sid) = Some (sm_Attempts ss)"
proof -
  define ops where "ops = [Put (subKey sid) (PSub (ss\<lparr>sm_Attempts := sm_Attempts ss + 1, sm_LastAttemptUnixNs := UnixNano at, sm_LastResult := result\<rparr>))]"
  obtain d1 where d1: "commit_then pb d ops () = (Inr (), d1)" "view d1 = apply_batch ops (view d)" by (rule commit_then_up [OF assms(1,2)])
  have rec: "RecordDeliveryAttempt pb ctx sid at result d = (Inr (), d1)"
    using d1(1) assms(4,5) by (simp add: RecordDeliveryAttempt_def read_then_def ops_def)
  define ops2 where "ops2 = [Put (subKey sid) (PSub (ss\<lparr>sm_LastDeliveredStatus := lastStatus, sm_RetryCount := retryCount, sm_NextRetryUnixNs := stored_time nextRetry\<rparr>))]"
  obtain d2 where d2: "commit_then pb d1 ops2 () = (Inr (), d2)" "view d2 = apply_batch ops2 (view d1)" by (rule commit_then_up [OF assms(1,2)])
  have w: "delivery_write pb sid lastStatus retryCount nextRetry ss d1 = (Inr (), d2)" using d2(1) by (simp add: delivery_write_def ops2_def)
  show ?thesis
    by (intro exI [of _ d1] exI [of _ d2] conjI rec w) (simp_all add: d1(2) d2(2) ops_def ops2_def put_sub_at)
qed

theorem retry_write_loses_attempt_witness:
  "\<exists>d1 d2. RecordDeliveryAttempt mem (\<lambda>_. False) ''s1'' None ''ok'' sub_db = (Inr (), d1) \<and>
     delivery_write mem ''s1'' StatusMined 1 None sample_sub d1 = (Inr (), d2) \<and>
     map_option sm_Attempts (sub_at (map_of d1) ''s1'') = Some 1 \<and> map_option sm_Attempts (sub_at (map_of d2) ''s1'') = Some 0"
proof -
  have "sample_sub \<in> stored_subs (map_of sub_db)" unfolding sub_db_view(3) by simp
  then have "sub_at (map_of sub_db) ''s1'' = Some sample_sub" by (simp add: stored_subs_def)
  then have "readSubmission mem sub_db ''s1'' = Inr (Some sample_sub)" using readSubmission_up [OF mem_ok mem_up sub_db_view(1)] by simp
  from retry_write_loses_attempt [OF mem_ok mem_up sub_db_view(1) this, of "\<lambda>_. False" None "''ok''" StatusMined 1 None] show ?thesis by simp
qed

end
