(* ===== verification/Pebble_Leases.thy ===== *)
theory Pebble_Leases
  imports Pebble_Submissions
begin

text \<open>
  The leases of the embedded store (\<open>TryAcquireOrRenew\<close> and \<open>Release\<close>): the process-wide mutex makes
  each call one step, so a run is a list of calls with the clock readings they made.
\<close>

datatype lease_call = Acquire string int | ReleaseBy string

fun caller :: "lease_call \<Rightarrow> string" where
  "caller (Acquire holder ttl) = holder"
| "caller (ReleaseBy holder) = holder"

record timed_call =
  lc_now :: unix_ns
  lc_ctx :: ctx
  lc_name :: string
  lc_call :: lease_call

definition lease_run1 :: "'db pebble \<Rightarrow> timed_call \<Rightarrow> 'db \<Rightarrow> 'db" where
  "lease_run1 pb c d =
     (case lc_call c of
        Acquire holder ttl \<Rightarrow> snd (TryAcquireOrRenew pb (lc_ctx c) (lc_now c) (lc_name c) holder ttl d)
      | ReleaseBy holder \<Rightarrow> snd (Release pb (lc_ctx c) (lc_name c) holder d))"

definition lease_at :: "kv \<Rightarrow> string \<Rightarrow> storedLease option" where
  "lease_at m name = (case m (leaseKey name) of Some (PLease l) \<Rightarrow> Some l | _ \<Rightarrow> None)"

lemma lease_at_key: "lease_at m name = Some l \<longleftrightarrow> m (leaseKey name) = Some (PLease l)"
  by (auto simp: lease_at_def split: option.splits payload.splits)

lemma leaseKey_inj: "leaseKey a = leaseKey b \<longleftrightarrow> a = b"
  by (simp add: leaseKey_def)

text \<open>While the lease is held and not expired, no call of another holder changes it.\<close>

lemma acquire_blocked:
  assumes "pebble_ok pb view" and "lease_at (view d) name = Some l" and "sl_Holder l \<noteq> holder" and "now < sl_ExpiresUnixNs l"
  shows "snd (TryAcquireOrRenew pb ctx now name holder ttl d) = d"
    and "fst (TryAcquireOrRenew pb ctx now name holder ttl d) \<noteq> Inr (Some x)"
proof -
  have "\<exists>r. TryAcquireOrRenew pb ctx now name holder ttl d = (r, d) \<and> r \<noteq> Inr (Some x)"
  proof (cases "ctx 0 \<or> isl (pb_get pb d (leaseKey name))")
    case True
    then show ?thesis by (cases "pb_get pb d (leaseKey name)") (auto simp: TryAcquireOrRenew_def read_then_def)
  next
    case False
    then obtain v where v: "pb_get pb d (leaseKey name) = Inr v" by (cases "pb_get pb d (leaseKey name)") auto
    then have "v = Some (PLease l)" using pebble_get [OF assms(1) v] assms(2) by (simp add: lease_at_key)
    then show ?thesis using v False assms(3,4) by (simp add: TryAcquireOrRenew_def read_then_def)
  qed
  then show "snd (TryAcquireOrRenew pb ctx now name holder ttl d) = d"
    "fst (TryAcquireOrRenew pb ctx now name holder ttl d) \<noteq> Inr (Some x)" by auto
qed

lemma release_blocked:
  assumes "pebble_ok pb view" and "lease_at (view d) name = Some l" and "sl_Holder l \<noteq> holder"
  shows "snd (Release pb ctx name holder d) = d"
proof (cases "ctx 0 \<or> isl (pb_get pb d (leaseKey name))")
  case True
  then show ?thesis by (cases "pb_get pb d (leaseKey name)") (auto simp: Release_def read_then_def)
next
  case False
  then obtain v where v: "pb_get pb d (leaseKey name) = Inr v" by (cases "pb_get pb d (leaseKey name)") auto
  then have "v = Some (PLease l)" using pebble_get [OF assms(1) v] assms(2) by (simp add: lease_at_key)
  then show ?thesis using v False assms(3) by (simp add: Release_def read_then_def)
qed

lemma commit_lease_other:
  assumes "pebble_ok pb view" and "op_key oper \<noteq> leaseKey name"
  shows "lease_at (view (snd (commit_then pb d [oper] r))) name = lease_at (view d) name"
proof -
  obtain res d' where c: "commit_then pb d [oper] r = (res, d')" by (rule prod.exhaust)
  have "apply_batch [oper] (view d) (leaseKey name) = view d (leaseKey name)"
    by (rule apply_batch_other) (use assms(2) in auto)
  then show ?thesis using commit_then_view(1) [OF assms(1) c] c by (simp add: lease_at_def)
qed

lemma other_name_kept:
  assumes "pebble_ok pb view" and "n \<noteq> name"
  shows "lease_at (view (snd (TryAcquireOrRenew pb ctx now n holder ttl d))) name = lease_at (view d) name"
    and "lease_at (view (snd (Release pb ctx n holder d))) name = lease_at (view d) name"
proof -
  have put: "lease_at (view (snd (commit_then pb d [Put (leaseKey n) p] r))) name = lease_at (view d) name" for p and r :: "unix_ns option"
    by (rule commit_lease_other [OF assms(1)]) (use assms(2) in \<open>simp add: leaseKey_inj\<close>)
  have del: "lease_at (view (snd (commit_then pb d [Del (leaseKey n)] ()))) name = lease_at (view d) name"
    by (rule commit_lease_other [OF assms(1)]) (use assms(2) in \<open>simp add: leaseKey_inj\<close>)
  show "lease_at (view (snd (TryAcquireOrRenew pb ctx now n holder ttl d))) name = lease_at (view d) name"
    unfolding TryAcquireOrRenew_def using put by (cases "pb_get pb d (leaseKey n)") (simp_all add: read_then_def)
  show "lease_at (view (snd (Release pb ctx n holder d))) name = lease_at (view d) name"
    unfolding Release_def using del by (cases "pb_get pb d (leaseKey n)") (auto simp: read_then_def split: option.split)
qed

lemma lease_run_kept:
  assumes "pebble_ok pb view"
    and "\<forall>c \<in> set cs. lc_name c = name \<longrightarrow> caller (lc_call c) \<noteq> sl_Holder l \<and> lc_now c < sl_ExpiresUnixNs l"
  shows "lease_at (view d) name = Some l \<Longrightarrow> lease_at (view (fold (lease_run1 pb) cs d)) name = Some l"
  using assms(2)
proof (induction cs arbitrary: d)
  case (Cons c cs)
  have "lease_at (view (lease_run1 pb c d)) name = Some l"
  proof (cases "lc_name c = name")
    case True
    then have "lease_run1 pb c d = d"
      using acquire_blocked(1) [OF assms(1) Cons.prems(1)] release_blocked [OF assms(1) Cons.prems(1)] Cons.prems(2)
      by (cases "lc_call c") (auto simp: lease_run1_def)
    then show ?thesis using Cons.prems(1) by simp
  next
    case False
    then show ?thesis
      using Cons.prems(1) other_name_kept [OF assms(1) False] by (cases "lc_call c") (simp_all add: lease_run1_def)
  qed
  then show ?case using Cons.IH Cons.prems(2) by simp
qed simp

lemma granted_row:
  assumes "pebble_ok pb view" and "TryAcquireOrRenew pb ctx now name holder ttl d = (Inr (Some e), d')"
  shows "e = now + ttl" and "lease_at (view d') name = Some \<lparr>sl_Holder = holder, sl_ExpiresUnixNs = e\<rparr>"
proof -
  define ops where "ops = [Put (leaseKey name) (PLease \<lparr>sl_Holder = holder, sl_ExpiresUnixNs = now + ttl\<rparr>)]"
  have c: "commit_then pb d ops (Some (now + ttl)) = (Inr (Some e), d')"
    using assms(2) by (auto simp: TryAcquireOrRenew_def read_then_def ops_def split: if_splits sum.splits)
  note v = commit_then_view [OF assms(1) c]
  show "e = now + ttl" using v(2) by simp
  then show "lease_at (view d') name = Some \<lparr>sl_Holder = holder, sl_ExpiresUnixNs = e\<rparr>"
    using v(1) by (simp add: ops_def lease_at_def)
qed

text \<open>
  C16. A lease has one holder at a time, and is not lost when its holder disappears. Once \<open>holder\<close> has
  been granted the lease until \<open>e\<close>, then after any calls on any leases, by anyone but that holder on that
  lease, on an engine that may fail and with clock readings before \<open>e\<close>, no other holder is granted it
  by a call that reads the clock before \<open>e\<close>; and on an engine that works any holder is granted it by a
  call that reads the clock at \<open>e\<close> or later.
\<close>

theorem lease_exclusive:
  assumes "pebble_ok pb view" and "TryAcquireOrRenew pb ctx now name holder ttl d = (Inr (Some e), d0)"
    and "\<forall>c \<in> set cs. lc_name c = name \<longrightarrow> caller (lc_call c) \<noteq> holder \<and> lc_now c < e"
    and "d1 = fold (lease_run1 pb) cs d0"
  shows "(other \<noteq> holder \<and> now' < e \<longrightarrow> (\<forall>x. fst (TryAcquireOrRenew pb ctx' now' name other ttl' d1) \<noteq> Inr (Some x))) \<and>
    (pebble_up pb \<and> \<not> ctx' 0 \<and> e \<le> now' \<longrightarrow> fst (TryAcquireOrRenew pb ctx' now' name other ttl' d1) = Inr (Some (now' + ttl')))"
proof -
  let ?l = "\<lparr>sl_Holder = holder, sl_ExpiresUnixNs = e\<rparr>"
  have l: "lease_at (view d1) name = Some ?l"
    unfolding assms(4) by (rule lease_run_kept [OF assms(1) _ granted_row(2) [OF assms(1,2)]]) (use assms(3) in simp)
  have "fst (TryAcquireOrRenew pb ctx' now' name other ttl' d1) = Inr (Some (now' + ttl'))"
    if "pebble_up pb" "\<not> ctx' 0" "e \<le> now'"
  proof -
    have "pb_get pb d1 (leaseKey name) = Inr (Some (PLease ?l))"
      using pebble_up_get [OF assms(1) that(1)] l by (simp add: lease_at_key)
    moreover have "fst (commit_then pb d1 ops r) = Inr r" for ops and r :: "int option"
      by (rule commit_then_up [OF assms(1) that(1), of d1 ops r]) simp
    ultimately show ?thesis using that by (simp add: TryAcquireOrRenew_def read_then_def)
  qed
  then show ?thesis using acquire_blocked(2) [OF assms(1) l] by auto
qed

theorem lease_exclusive_witness:
  "fst (TryAcquireOrRenew mem (\<lambda>_. False) 15 ''reorg'' ''b'' 10 (snd (TryAcquireOrRenew mem (\<lambda>_. False) 10 ''reorg'' ''a'' 10 []))) \<noteq> Inr (Some 25)"
proof -
  have "TryAcquireOrRenew mem (\<lambda>_. False) 10 ''reorg'' ''a'' 10 [] =
      (Inr (Some 20), snd (TryAcquireOrRenew mem (\<lambda>_. False) 10 ''reorg'' ''a'' 10 []))"
    by (simp add: TryAcquireOrRenew_def read_then_def mem_def commit_then_def)
  from lease_exclusive [OF mem_ok this, of "[]" _ "''b''" 15 "\<lambda>_. False" 10, OF _ refl] show ?thesis by simp
qed

end
