(* ===== verification/Bump_Cache.thy ===== *)
theory Bump_Cache
  imports Compound_Index Models "HOL-Library.Multiset"
begin

text \<open>
  \<open>store/bumpcache/bumpcache.go\<close>: the bounded cache of parsed compounds. The code between a lock and its
  unlock is one operation on the state; the fills of one block may overlap with each other and with
  invalidations, which is what the generation tokens are for.

  The LRU list (hashicorp/golang-lru simplelru) is the parameter \<open>L\<close>, with its documented behaviour as
  the hypothesis \<open>lru_ok\<close>: the entries by recency, moved to the front on use, and the oldest evicted
  when the capacity is exceeded; an operation returns the entries its eviction callback ran on. The
  singleflight group only restricts which fills overlap, and allows all that an invalidation releases:
  here any number of fills may overlap. Generation numbers are natural numbers, since a \<open>uint64\<close> that is
  only counted up while a fill is running does not wrap.
\<close>

section \<open>The LRU list\<close>

record ('l, 'v) lru =
  lru_Get :: "'l \<Rightarrow> string \<Rightarrow> 'v option \<times> 'l"
  lru_Add :: "'l \<Rightarrow> string \<Rightarrow> 'v \<Rightarrow> 'l \<times> 'v list"
  lru_Remove :: "'l \<Rightarrow> string \<Rightarrow> 'l \<times> 'v list"
  lru_RemoveOldest :: "'l \<Rightarrow> 'l \<times> 'v list"
  lru_Len :: "'l \<Rightarrow> nat"

definition drop_key :: "string \<Rightarrow> (string \<times> 'v) list \<Rightarrow> (string \<times> 'v) list" where
  "drop_key k es = filter (\<lambda>e. fst e \<noteq> k) es"

text \<open>\<open>entries\<close> lists the contents, the most recently used first.\<close>

definition lru_ok :: "nat \<Rightarrow> ('l, 'v) lru \<Rightarrow> ('l \<Rightarrow> (string \<times> 'v) list) \<Rightarrow> bool" where
  "lru_ok cap L entries \<longleftrightarrow>
     (\<forall>l k. fst (lru_Get L l k) = map_of (entries l) k \<and>
        entries (snd (lru_Get L l k)) =
          (case map_of (entries l) k of None \<Rightarrow> entries l | Some v \<Rightarrow> (k, v) # drop_key k (entries l))) \<and>
     (\<forall>l k v. k \<notin> fst ` set (entries l) \<longrightarrow>
        entries (fst (lru_Add L l k v)) = take cap ((k, v) # entries l) \<and> snd (lru_Add L l k v) = map snd (drop cap ((k, v) # entries l))) \<and>
     (\<forall>l k. entries (fst (lru_Remove L l k)) = drop_key k (entries l) \<and>
        snd (lru_Remove L l k) = map snd (filter (\<lambda>e. fst e = k) (entries l))) \<and>
     (\<forall>l. entries (fst (lru_RemoveOldest L l)) = butlast (entries l) \<and>
        snd (lru_RemoveOldest L l) = (if entries l = [] then [] else [snd (last (entries l))])) \<and>
     (\<forall>l. lru_Len L l = length (entries l))"

section \<open>The cache\<close>

record ('l, 'r) bump_cache =
  bc_maxLeaves :: int
  bc_lru :: 'l
  bc_totalLeaves :: int
  bc_gen :: "string \<rightharpoonup> nat"
  bc_inflight :: "string \<rightharpoonup> int"
  bc_refreshed :: 'r

definition maxEntries :: nat where "maxEntries = 16"
definition maxTotalLeaves :: int where "maxTotalLeaves = 512 * 1024"
definition refreshInterval :: int where "refreshInterval = 5000000000"

text \<open>Reading a Go map: a missing key reads as zero.\<close>

definition gen_of :: "('l, 'r) bump_cache \<Rightarrow> string \<Rightarrow> nat" where
  "gen_of c b = (case bc_gen c b of None \<Rightarrow> 0 | Some g \<Rightarrow> g)"

definition inflight_of :: "('l, 'r) bump_cache \<Rightarrow> string \<Rightarrow> int" where
  "inflight_of c b = (case bc_inflight c b of None \<Rightarrow> 0 | Some n \<Rightarrow> n)"

definition newWithLimits :: "'l \<Rightarrow> 'r \<Rightarrow> int \<Rightarrow> ('l, 'r) bump_cache" where
  "newWithLimits emptyLRU emptyRefreshed leaves = \<lparr>bc_maxLeaves = leaves, bc_lru = emptyLRU, bc_totalLeaves = 0,
     bc_gen = Map.empty, bc_inflight = Map.empty, bc_refreshed = emptyRefreshed\<rparr>"

text \<open>The eviction callback.\<close>

definition evicted :: "'h CompoundIndex list \<Rightarrow> ('l, 'r) bump_cache \<Rightarrow> ('l, 'r) bump_cache" where
  "evicted vs c = c\<lparr>bc_totalLeaves := bc_totalLeaves c - sum_list (map (\<lambda>v. int (ci_leaves v)) vs)\<rparr>"

definition lru_op :: "'l \<times> 'h CompoundIndex list \<Rightarrow> ('l, 'r) bump_cache \<Rightarrow> ('l, 'r) bump_cache" where
  "lru_op res c = evicted (snd res) (c\<lparr>bc_lru := fst res\<rparr>)"

definition cache_lookup ::
    "('l, 'h CompoundIndex) lru \<Rightarrow> ('l, 'r) bump_cache \<Rightarrow> string \<Rightarrow> 'h CompoundIndex option \<times> ('l, 'r) bump_cache" where
  "cache_lookup L c b = (case lru_Get L (bc_lru c) b of (v, l) \<Rightarrow> (v, c\<lparr>bc_lru := l\<rparr>))"

definition cache_Remove :: "('l, 'h CompoundIndex) lru \<Rightarrow> ('l, 'r) bump_cache \<Rightarrow> string \<Rightarrow> ('l, 'r) bump_cache" where
  "cache_Remove L c b =
     (let c1 = lru_op (lru_Remove L (bc_lru c) b) c
      in if inflight_of c1 b > 0 then c1\<lparr>bc_gen := (bc_gen c1)(b \<mapsto> gen_of c1 b + 1)\<rparr> else c1)"

definition beginFill :: "('l, 'r) bump_cache \<Rightarrow> string \<Rightarrow> nat \<times> ('l, 'r) bump_cache" where
  "beginFill c b = (gen_of c b, c\<lparr>bc_inflight := (bc_inflight c)(b \<mapsto> inflight_of c b + 1)\<rparr>)"

text \<open>The eviction loop of \<open>endFill\<close>; each round removes an entry, so the length of the list is fuel enough.\<close>

fun evict_loop :: "('l, 'h CompoundIndex) lru \<Rightarrow> nat \<Rightarrow> ('l, 'r) bump_cache \<Rightarrow> ('l, 'r) bump_cache" where
  "evict_loop L 0 c = c"
| "evict_loop L (Suc n) c =
     (if bc_totalLeaves c > bc_maxLeaves c \<and> lru_Len L (bc_lru c) > 1
      then evict_loop L n (lru_op (lru_RemoveOldest L (bc_lru c)) c) else c)"

definition install :: "('l, 'h CompoundIndex) lru \<Rightarrow> ('l, 'r) bump_cache \<Rightarrow> string \<Rightarrow> 'h CompoundIndex \<Rightarrow> ('l, 'r) bump_cache" where
  "install L c b idx =
     (let c1 = lru_op (lru_Remove L (bc_lru c) b) c;
          c2 = lru_op (lru_Add L (bc_lru c1) b idx) c1;
          c3 = c2\<lparr>bc_totalLeaves := bc_totalLeaves c2 + int (ci_leaves idx)\<rparr>
      in evict_loop L (lru_Len L (bc_lru c3)) c3)"

definition deregister :: "('l, 'r) bump_cache \<Rightarrow> string \<Rightarrow> ('l, 'r) bump_cache" where
  "deregister c b =
     (let c1 = c\<lparr>bc_inflight := (bc_inflight c)(b \<mapsto> inflight_of c b - 1)\<rparr>
      in if inflight_of c1 b \<le> 0
         then c1\<lparr>bc_inflight := (bc_inflight c1)(b := None), bc_gen := (bc_gen c1)(b := None)\<rparr> else c1)"

definition endFill ::
    "('l, 'h CompoundIndex) lru \<Rightarrow> ('l, 'r) bump_cache \<Rightarrow> string \<Rightarrow> 'h CompoundIndex option \<Rightarrow> nat \<Rightarrow> ('l, 'r) bump_cache" where
  "endFill L c b idx token =
     (let stale = (gen_of c b \<noteq> token); c1 = deregister c b
      in case idx of None \<Rightarrow> c1 | Some i \<Rightarrow> if stale then c1 else install L c1 b i)"

text \<open>What a fill makes of the bytes it fetched.\<close>

definition built_from :: "'h sdk \<Rightarrow> bytes option \<Rightarrow> 'h CompoundIndex option" where
  "built_from sdk data = (case data of None \<Rightarrow> None | Some bs \<Rightarrow> if bs = [] then None else IndexCompound sdk bs)"

section \<open>The operations without interference\<close>

text \<open>\<open>fetch\<close> is what the fetch function returns; \<open>None\<close> is an error.\<close>

definition cache_index ::
    "'h sdk \<Rightarrow> ('l, 'h CompoundIndex) lru \<Rightarrow> ('l, 'r) bump_cache \<Rightarrow> string \<Rightarrow> bytes option \<Rightarrow> 'h CompoundIndex option \<times> ('l, 'r) bump_cache" where
  "cache_index sdk L c b fetch =
     (case cache_lookup L c b of
        (Some idx, c1) \<Rightarrow> (Some idx, c1)
      | (None, c1) \<Rightarrow>
          (case cache_lookup L c1 b of
             (Some idx, c2) \<Rightarrow> (Some idx, c2)
           | (None, c2) \<Rightarrow>
               (case beginFill c2 b of
                  (token, c3) \<Rightarrow> (built_from sdk fetch, endFill L c3 b (built_from sdk fetch) token))))"

definition claimRefresh :: "('r, unix_ns) lru \<Rightarrow> ('l, 'r) bump_cache \<Rightarrow> unix_ns \<Rightarrow> string \<Rightarrow> bool \<times> ('l, 'r) bump_cache" where
  "claimRefresh R c now b =
     (case lru_Get R (bc_refreshed c) b of
        (prev, r) \<Rightarrow>
          if (case prev of Some t \<Rightarrow> now - t < refreshInterval | None \<Rightarrow> False) then (False, c\<lparr>bc_refreshed := r\<rparr>)
          else (True, c\<lparr>bc_refreshed := fst (lru_Add R r b now)\<rparr>))"

definition pathFor ::
    "'h sdk \<Rightarrow> ('l, 'h CompoundIndex) lru \<Rightarrow> ('r, unix_ns) lru \<Rightarrow> unix_ns \<Rightarrow> string \<Rightarrow> txid \<Rightarrow> bytes option
      \<Rightarrow> ('l, 'r) bump_cache \<Rightarrow> bytes option \<times> ('l, 'r) bump_cache" where
  "pathFor sdk L R now b txid fetch c =
     (case cache_lookup L c b of
        (None, c1) \<Rightarrow>
          (case cache_index sdk L c1 b fetch of
             (None, c2) \<Rightarrow> (None, c2)
           | (Some idx, c2) \<Rightarrow> (MinimalPathBytes sdk idx txid, c2))
      | (Some idx, c1) \<Rightarrow>
          (case MinimalPathBytes sdk idx txid of
             Some path \<Rightarrow> (Some path, c1)
           | None \<Rightarrow>
               (case claimRefresh R c1 now b of
                  (False, c2) \<Rightarrow> (None, c2)
                | (True, c2) \<Rightarrow>
                    (case cache_index sdk L (cache_Remove L c2 b) b fetch of
                       (None, c3) \<Rightarrow> (None, c3)
                     | (Some idx', c3) \<Rightarrow> (MinimalPathBytes sdk idx' txid, c3)))))"

text \<open>A nil path is the empty byte string of the status record.\<close>

definition path_bytes :: "bytes option \<Rightarrow> bytes" where
  "path_bytes p = (case p of None \<Rightarrow> [] | Some bs \<Rightarrow> bs)"

definition Enrich ::
    "'h sdk \<Rightarrow> ('l, 'h CompoundIndex) lru \<Rightarrow> ('r, unix_ns) lru \<Rightarrow> unix_ns \<Rightarrow> transaction_status \<Rightarrow> bytes option
      \<Rightarrow> ('l, 'r) bump_cache \<Rightarrow> transaction_status \<times> ('l, 'r) bump_cache" where
  "Enrich sdk L R now st fetch c =
     (if ts_MerklePath st \<noteq> [] \<or> ts_BlockHash st = [] then (st, c)
      else if ts_Status st \<noteq> StatusMined \<and> ts_Status st \<noteq> StatusImmutable then (st, c)
      else case pathFor sdk L R now (ts_BlockHash st) (ts_TxID st) fetch c of
             (path, c') \<Rightarrow> (st\<lparr>ts_MerklePath := path_bytes path\<rparr>, c'))"

definition MinimalPath ::
    "'h sdk \<Rightarrow> ('l, 'h CompoundIndex) lru \<Rightarrow> ('r, unix_ns) lru \<Rightarrow> unix_ns \<Rightarrow> string \<Rightarrow> txid \<Rightarrow> bytes option
      \<Rightarrow> ('l, 'r) bump_cache \<Rightarrow> bytes option \<times> ('l, 'r) bump_cache" where
  "MinimalPath sdk L R now b txid fetch c =
     (if b = [] \<or> txid = [] then (None, c) else pathFor sdk L R now b txid fetch c)"

section \<open>The laws of the list\<close>

lemma drop_key_set: "set (drop_key k es) = {e \<in> set es. fst e \<noteq> k}"
  by (simp add: drop_key_def)

lemma drop_key_id: "k \<notin> fst ` set es \<Longrightarrow> drop_key k es = es"
  by (induction es) (auto simp: drop_key_def)

lemma drop_key_distinct: "distinct (map fst es) \<Longrightarrow> distinct (map fst (drop_key k es))"
  unfolding drop_key_def by (rule distinct_map_filter)

lemma drop_key_length: "length es \<le> n \<Longrightarrow> length (drop_key k es) \<le> n"
  unfolding drop_key_def by (rule le_trans [OF length_filter_le])

lemma lru_get:
  assumes "lru_ok cap L entries" and dist: "distinct (map fst (entries l))"
  shows "fst (lru_Get L l k) = map_of (entries l) k"
    and "set (entries (snd (lru_Get L l k))) = set (entries l)"
    and "mset (entries (snd (lru_Get L l k))) = mset (entries l)"
proof -
  have get: "entries (snd (lru_Get L l k)) =
      (case map_of (entries l) k of None \<Rightarrow> entries l | Some v \<Rightarrow> (k, v) # drop_key k (entries l))"
    using assms(1) by (simp add: lru_ok_def)
  show "fst (lru_Get L l k) = map_of (entries l) k" using assms(1) by (simp add: lru_ok_def)
  have move: "mset ((k, v) # drop_key k es) = mset es" if "map_of es k = Some v" "distinct (map fst es)" for v es
    using that
  proof (induction es)
    case (Cons e es)
    show ?case
    proof (cases "fst e = k")
      case True
      have "drop_key k es = es" using Cons.prems(2) True by (intro drop_key_id) auto
      then show ?thesis using True Cons.prems(1) by (cases e) (simp add: drop_key_def)
    next
      case False
      then show ?thesis using Cons by (cases e) (simp add: drop_key_def add_mset_commute)
    qed
  qed simp
  show ms: "mset (entries (snd (lru_Get L l k))) = mset (entries l)"
  proof (cases "map_of (entries l) k")
    case None then show ?thesis using get by simp
  next
    case (Some v)
    show ?thesis unfolding get using move [OF Some dist] Some by simp
  qed
  then show "set (entries (snd (lru_Get L l k))) = set (entries l)" by (metis set_mset_mset)
qed

lemma lru_remove:
  assumes "lru_ok cap L entries"
  shows "entries (fst (lru_Remove L l k)) = drop_key k (entries l)"
    and "snd (lru_Remove L l k) = map snd (filter (\<lambda>e. fst e = k) (entries l))"
  using assms by (simp_all add: lru_ok_def)

lemma lru_oldest:
  assumes "lru_ok cap L entries"
  shows "entries (fst (lru_RemoveOldest L l)) = butlast (entries l)"
    and "snd (lru_RemoveOldest L l) = (if entries l = [] then [] else [snd (last (entries l))])"
  using assms by (simp_all add: lru_ok_def)

lemma lru_add:
  assumes "lru_ok cap L entries" and "k \<notin> fst ` set (entries l)"
  shows "entries (fst (lru_Add L l k v)) = take cap ((k, v) # entries l)"
    and "snd (lru_Add L l k v) = map snd (drop cap ((k, v) # entries l))"
  using assms by (simp_all add: lru_ok_def)

lemma lru_len: "lru_ok cap L entries \<Longrightarrow> lru_Len L l = length (entries l)"
  by (simp add: lru_ok_def)

section \<open>The leaf budget\<close>

definition leaf_sum :: "(string \<times> 'h CompoundIndex) list \<Rightarrow> int" where
  "leaf_sum es = sum_list (map (\<lambda>e. int (ci_leaves (snd e))) es)"

lemma leaf_sum_simps [simp]:
  "leaf_sum [] = 0" "leaf_sum (e # es) = int (ci_leaves (snd e)) + leaf_sum es"
  "leaf_sum (xs @ ys) = leaf_sum xs + leaf_sum ys"
  by (simp_all add: leaf_sum_def)

lemma leaf_sum_values: "sum_list (map (\<lambda>v. int (ci_leaves v)) (map snd es)) = leaf_sum es"
  by (simp add: leaf_sum_def o_def)

lemma leaf_sum_mset: "mset xs = mset ys \<Longrightarrow> leaf_sum xs = leaf_sum ys"
proof -
  assume "mset xs = mset ys"
  then have "mset (map (\<lambda>e. int (ci_leaves (snd e))) xs) = mset (map (\<lambda>e. int (ci_leaves (snd e))) ys)" by simp
  then show ?thesis unfolding leaf_sum_def by (metis sum_mset_sum_list)
qed

lemma leaf_sum_split: "leaf_sum (drop_key k es) = leaf_sum es - leaf_sum (filter (\<lambda>e. fst e = k) es)"
  by (induction es) (auto simp: drop_key_def)

lemma leaf_sum_butlast: "es \<noteq> [] \<Longrightarrow> leaf_sum (butlast es) = leaf_sum es - int (ci_leaves (snd (last es)))"
  by (induction es rule: rev_induct) auto

lemma leaf_sum_take: "leaf_sum (take n es) = leaf_sum es - leaf_sum (drop n es)"
proof -
  have "leaf_sum (take n es @ drop n es) = leaf_sum (take n es) + leaf_sum (drop n es)" by (rule leaf_sum_simps(3))
  then show ?thesis by simp
qed

text \<open>The leaf counter is exact, and over the budget only with a single entry.\<close>

definition counted :: "nat \<Rightarrow> ('l \<Rightarrow> (string \<times> 'h CompoundIndex) list) \<Rightarrow> ('l, 'r) bump_cache \<Rightarrow> bool" where
  "counted cap entries c \<longleftrightarrow> distinct (map fst (entries (bc_lru c))) \<and> length (entries (bc_lru c)) \<le> cap \<and>
     bc_totalLeaves c = leaf_sum (entries (bc_lru c))"

definition within_budget :: "('l \<Rightarrow> (string \<times> 'h CompoundIndex) list) \<Rightarrow> ('l, 'r) bump_cache \<Rightarrow> bool" where
  "within_budget entries c \<longleftrightarrow> bc_totalLeaves c \<le> bc_maxLeaves c \<or> length (entries (bc_lru c)) \<le> 1"

lemma lru_op_fields [simp]:
  "bc_gen (lru_op res c) = bc_gen c" "bc_inflight (lru_op res c) = bc_inflight c"
  "bc_maxLeaves (lru_op res c) = bc_maxLeaves c" "bc_refreshed (lru_op res c) = bc_refreshed c"
  "bc_lru (lru_op res c) = fst res"
  by (simp_all add: lru_op_def evicted_def)

lemma lru_op_total:
  "bc_totalLeaves (lru_op res c) = bc_totalLeaves c - sum_list (map (\<lambda>v. int (ci_leaves v)) (snd res))"
  by (simp add: lru_op_def evicted_def)

lemma remove_op_counted:
  assumes "lru_ok cap L entries" and "counted cap entries c"
  shows "counted cap entries (lru_op (lru_Remove L (bc_lru c) b) c)"
  using assms(2) unfolding counted_def lru_op_total lru_op_fields lru_remove [OF assms(1)] leaf_sum_values
  by (simp add: leaf_sum_split drop_key_distinct drop_key_length)

lemma oldest_op_counted:
  assumes "lru_ok cap L entries" and "counted cap entries c"
  shows "counted cap entries (lru_op (lru_RemoveOldest L (bc_lru c)) c)"
  using assms(2) unfolding counted_def lru_op_total lru_op_fields lru_oldest [OF assms(1)]
  by (auto simp: leaf_sum_butlast map_butlast distinct_butlast)

text \<open>The loop ends with its guard false.\<close>

lemma evict_loop_done:
  assumes "lru_ok cap L entries" and "length (entries (bc_lru c)) \<le> n"
  shows "within_budget entries (evict_loop L n c)"
  using assms(2)
proof (induction n arbitrary: c)
  case 0
  then show ?case by (simp add: within_budget_def)
next
  case (Suc n)
  show ?case
  proof (cases "bc_totalLeaves c > bc_maxLeaves c \<and> lru_Len L (bc_lru c) > 1")
    case True
    have "length (entries (bc_lru (lru_op (lru_RemoveOldest L (bc_lru c)) c))) \<le> n"
      using Suc.prems by (simp add: lru_oldest [OF assms(1)])
    then show ?thesis using Suc.IH True by simp
  next
    case False
    then show ?thesis by (auto simp: within_budget_def lru_len [OF assms(1)])
  qed
qed

lemma evict_loop_fields [simp]:
  "bc_gen (evict_loop L n c) = bc_gen c" "bc_inflight (evict_loop L n c) = bc_inflight c"
  "bc_maxLeaves (evict_loop L n c) = bc_maxLeaves c" "bc_refreshed (evict_loop L n c) = bc_refreshed c"
  by (induction n arbitrary: c) simp_all

lemma evict_loop_counted:
  assumes "lru_ok cap L entries" and "counted cap entries c"
  shows "counted cap entries (evict_loop L n c)"
  using assms(2) by (induction n arbitrary: c) (simp_all add: oldest_op_counted [OF assms(1)])

lemma evict_loop_subset:
  assumes "lru_ok cap L entries"
  shows "set (entries (bc_lru (evict_loop L n c))) \<subseteq> set (entries (bc_lru c))"
proof (induction n arbitrary: c)
  case (Suc n)
  have "set (entries (bc_lru (lru_op (lru_RemoveOldest L (bc_lru c)) c))) \<subseteq> set (entries (bc_lru c))"
    by (auto simp: lru_oldest [OF assms] dest: in_set_butlastD)
  with Suc [of "lru_op (lru_RemoveOldest L (bc_lru c)) c"] show ?case by auto
qed simp

lemma drop_key_fresh: "k \<notin> fst ` set (drop_key k es)"
  by (auto simp: drop_key_def)

lemma install_fields [simp]:
  "bc_gen (install L c b idx) = bc_gen c" "bc_inflight (install L c b idx) = bc_inflight c"
  "bc_maxLeaves (install L c b idx) = bc_maxLeaves c" "bc_refreshed (install L c b idx) = bc_refreshed c"
  by (simp_all add: install_def Let_def)

lemma install_entries:
  assumes "lru_ok cap L entries"
  shows "set (entries (bc_lru (install L c b idx))) \<subseteq> insert (b, idx) {e \<in> set (entries (bc_lru c)). fst e \<noteq> b}"
proof -
  let ?l = "fst (lru_Remove L (bc_lru c) b)"
  have removed: "entries ?l = drop_key b (entries (bc_lru c))" by (rule lru_remove(1) [OF assms])
  have "entries (fst (lru_Add L ?l b idx)) = take cap ((b, idx) # entries ?l)"
    by (rule lru_add(1) [OF assms]) (simp only: removed drop_key_fresh not_False_eq_True)
  then have "set (entries (fst (lru_Add L ?l b idx))) \<subseteq> set ((b, idx) # drop_key b (entries (bc_lru c)))"
    unfolding removed by (simp only: set_take_subset)
  then have added: "set (entries (fst (lru_Add L ?l b idx))) \<subseteq> insert (b, idx) {e \<in> set (entries (bc_lru c)). fst e \<noteq> b}"
    by (simp add: drop_key_set)
  show ?thesis unfolding install_def Let_def
    by (rule subset_trans [OF evict_loop_subset [OF assms]]) (simp add: added)
qed

lemma install_counted:
  assumes "lru_ok cap L entries" and "counted cap entries c"
  shows "counted cap entries (install L c b idx)" and "within_budget entries (install L c b idx)"
proof -
  define c1 where "c1 = lru_op (lru_Remove L (bc_lru c) b) c"
  define c2 where "c2 = lru_op (lru_Add L (bc_lru c1) b idx) c1"
  define c3 where "c3 = c2\<lparr>bc_totalLeaves := bc_totalLeaves c2 + int (ci_leaves idx)\<rparr>"
  have inst: "install L c b idx = evict_loop L (lru_Len L (bc_lru c3)) c3"
    by (simp add: install_def Let_def c1_def c2_def c3_def)
  have c1: "counted cap entries c1" unfolding c1_def by (rule remove_op_counted [OF assms])
  have fresh: "b \<notin> fst ` set (entries (bc_lru c1))"
    by (simp add: c1_def lru_remove [OF assms(1)] drop_key_fresh)
  have "bc_totalLeaves c3 = leaf_sum (entries (bc_lru c3))"
    using c1 unfolding counted_def
    by (simp add: c3_def c2_def lru_op_total lru_add [OF assms(1) fresh] leaf_sum_values leaf_sum_take del: map_map)
  moreover have "entries (bc_lru c3) = take cap ((b, idx) # entries (bc_lru c1))"
    by (simp add: c3_def c2_def lru_add [OF assms(1) fresh])
  moreover have "distinct (map fst (take cap ((b, idx) # entries (bc_lru c1))))"
    unfolding take_map [symmetric] by (rule distinct_take) (use c1 fresh in \<open>auto simp: counted_def\<close>)
  ultimately have "counted cap entries c3" by (simp add: counted_def)
  then show "counted cap entries (install L c b idx)" unfolding inst by (rule evict_loop_counted [OF assms(1)])
  show "within_budget entries (install L c b idx)" unfolding inst
    by (rule evict_loop_done [OF assms(1)]) (simp add: lru_len [OF assms(1)])
qed

section \<open>A list as the LRU\<close>

text \<open>The documented behaviour on an association list; it keeps a capacity of its own.\<close>

definition list_lru :: "nat \<Rightarrow> ((string \<times> 'v) list, 'v) lru" where
  "list_lru cap = \<lparr>
     lru_Get = (\<lambda>l k. case map_of l k of None \<Rightarrow> (None, l) | Some v \<Rightarrow> (Some v, (k, v) # drop_key k l)),
     lru_Add = (\<lambda>l k v. (take cap ((k, v) # drop_key k l), map snd (drop cap ((k, v) # drop_key k l)))),
     lru_Remove = (\<lambda>l k. (drop_key k l, map snd (filter (\<lambda>e. fst e = k) l))),
     lru_RemoveOldest = (\<lambda>l. (butlast l, if l = [] then [] else [snd (last l)])),
     lru_Len = length\<rparr>"

lemma list_lru_ok: "lru_ok cap (list_lru cap) (\<lambda>l. l)"
  by (auto simp: lru_ok_def list_lru_def drop_key_id split: option.splits)

end
