(* ===== verification/Bump_Cache_Correct.thy ===== *)
theory Bump_Cache_Correct
  imports Bump_Cache
begin

text \<open>
  The BUMP cache under interference. The state of the system is the cache, the stored compounds, the fills
  that are running and the blocks whose compound has been written but whose invalidation has not run yet. A
  step is one critical section of the cache, one read or one write of the store. Whatever the order of the
  steps, an entry is the index of the stored compound unless an invalidation of its block is still to come,
  and the leaf counter is exact and over the budget for a single entry at most.
\<close>

section \<open>The system\<close>

record fill =
  fl_block :: string
  fl_token :: nat
  fl_read :: "bytes option option"

record ('l, 'r) cache_sys =
  cs_cache :: "('l, 'r) bump_cache"
  cs_store :: "string \<Rightarrow> bytes option"
  cs_fills :: "fill multiset"
  cs_pending :: "string multiset"

inductive cache_step ::
    "'h sdk \<Rightarrow> ('l, 'h CompoundIndex) lru \<Rightarrow> ('r, unix_ns) lru \<Rightarrow> ('l, 'r) cache_sys \<Rightarrow> ('l, 'r) cache_sys \<Rightarrow> bool"
  for sdk L R where
  written: "cache_step sdk L R s (s\<lparr>cs_store := (cs_store s)(b := v), cs_pending := add_mset b (cs_pending s)\<rparr>)"
| invalidated: "cs_pending s = add_mset b P \<Longrightarrow>
    cache_step sdk L R s (s\<lparr>cs_cache := cache_Remove L (cs_cache s) b, cs_pending := P\<rparr>)"
| claimed: "cache_step sdk L R s (s\<lparr>cs_cache := snd (claimRefresh R (cs_cache s) now b)\<rparr>)"
| dropped: "cache_step sdk L R s (s\<lparr>cs_cache := cache_Remove L (cs_cache s) b\<rparr>)"
| looked_up: "cache_step sdk L R s (s\<lparr>cs_cache := snd (cache_lookup L (cs_cache s) b)\<rparr>)"
| begun: "cache_step sdk L R s (s\<lparr>cs_cache := snd (beginFill (cs_cache s) b),
    cs_fills := add_mset \<lparr>fl_block = b, fl_token = fst (beginFill (cs_cache s) b), fl_read = None\<rparr> (cs_fills s)\<rparr>)"
| fetched: "cs_fills s = add_mset f F \<Longrightarrow> fl_read f = None \<Longrightarrow>
    cache_step sdk L R s (s\<lparr>cs_fills := add_mset (f\<lparr>fl_read := Some (cs_store s (fl_block f))\<rparr>) F\<rparr>)"
| ended: "cs_fills s = add_mset f F \<Longrightarrow> fl_read f = Some data \<Longrightarrow>
    cache_step sdk L R s (s\<lparr>cs_cache := endFill L (cs_cache s) (fl_block f) (built_from sdk data) (fl_token f), cs_fills := F\<rparr>)"
| aborted: "cs_fills s = add_mset f F \<Longrightarrow>
    cache_step sdk L R s (s\<lparr>cs_cache := endFill L (cs_cache s) (fl_block f) None (fl_token f), cs_fills := F\<rparr>)"

definition cache_start :: "'l \<Rightarrow> 'r \<Rightarrow> int \<Rightarrow> (string \<Rightarrow> bytes option) \<Rightarrow> ('l, 'r) cache_sys" where
  "cache_start l r leaves db = \<lparr>cs_cache = newWithLimits l r leaves, cs_store = db, cs_fills = {#}, cs_pending = {#}\<rparr>"

section \<open>What the critical sections change\<close>

lemma remove_gen:
  "gen_of (cache_Remove L c b) b' = (if b' = b \<and> inflight_of c b > 0 then gen_of c b + 1 else gen_of c b')"
  "inflight_of (cache_Remove L c b) b' = inflight_of c b'"
  by (auto simp: cache_Remove_def Let_def gen_of_def inflight_of_def)

lemma remove_lru: "bc_lru (cache_Remove L c b) = fst (lru_Remove L (bc_lru c) b)"
  by (simp add: cache_Remove_def Let_def)

lemma begin_gen:
  "gen_of (snd (beginFill c b)) b' = gen_of c b'" "fst (beginFill c b) = gen_of c b"
  "inflight_of (snd (beginFill c b)) b' = (if b' = b then inflight_of c b + 1 else inflight_of c b')"
  "bc_lru (snd (beginFill c b)) = bc_lru c"
  by (auto simp: beginFill_def gen_of_def inflight_of_def)

lemma deregister_fields [simp]:
  "bc_lru (deregister c b) = bc_lru c" "bc_totalLeaves (deregister c b) = bc_totalLeaves c"
  "bc_maxLeaves (deregister c b) = bc_maxLeaves c"
  by (simp_all add: deregister_def Let_def)

lemma end_gen:
  "gen_of (endFill L c b idx token) b' = (if b' = b \<and> inflight_of c b \<le> 1 then 0 else gen_of c b')"
  "inflight_of (endFill L c b idx token) b' =
     (if b' = b then if inflight_of c b \<le> 1 then 0 else inflight_of c b - 1 else inflight_of c b')"
  by (auto simp: endFill_def deregister_def Let_def gen_of_def inflight_of_def split: option.splits if_splits)

lemma end_entries:
  assumes "lru_ok cap L entries"
  shows "set (entries (bc_lru (endFill L c b idx token))) \<subseteq>
    set (entries (bc_lru c)) \<union> {(b, i) | i. idx = Some i \<and> token = gen_of c b}"
  using install_entries [OF assms, of "deregister c b" b]
  by (auto simp: endFill_def Let_def split: option.splits)

lemma lookup_cache:
  assumes "lru_ok cap L entries" and "counted cap entries c"
  shows "mset (entries (bc_lru (snd (cache_lookup L c b)))) = mset (entries (bc_lru c))"
    and "fst (cache_lookup L c b) = map_of (entries (bc_lru c)) b"
  using lru_get [OF assms(1), of "bc_lru c" b] assms(2)
  by (simp_all add: cache_lookup_def counted_def case_prod_unfold)

lemma lookup_fields [simp]:
  "bc_gen (snd (cache_lookup L c b)) = bc_gen c" "bc_inflight (snd (cache_lookup L c b)) = bc_inflight c"
  "bc_totalLeaves (snd (cache_lookup L c b)) = bc_totalLeaves c" "bc_maxLeaves (snd (cache_lookup L c b)) = bc_maxLeaves c"
  by (simp_all add: cache_lookup_def split: prod.splits)

lemma claim_fields [simp]:
  "bc_gen (snd (claimRefresh R c now b)) = bc_gen c" "bc_inflight (snd (claimRefresh R c now b)) = bc_inflight c"
  "bc_totalLeaves (snd (claimRefresh R c now b)) = bc_totalLeaves c" "bc_maxLeaves (snd (claimRefresh R c now b)) = bc_maxLeaves c"
  "bc_lru (snd (claimRefresh R c now b)) = bc_lru c"
  by (simp_all add: claimRefresh_def split: prod.splits)

section \<open>The leaf budget\<close>

definition budgeted :: "nat \<Rightarrow> ('l \<Rightarrow> (string \<times> 'h CompoundIndex) list) \<Rightarrow> ('l, 'r) bump_cache \<Rightarrow> bool" where
  "budgeted cap entries c \<longleftrightarrow> counted cap entries c \<and> within_budget entries c"

lemma budgeted_cong:
  "bc_totalLeaves c' = bc_totalLeaves c \<Longrightarrow> bc_maxLeaves c' = bc_maxLeaves c \<Longrightarrow>
   mset (entries (bc_lru c')) = mset (entries (bc_lru c)) \<Longrightarrow> budgeted cap entries c \<Longrightarrow> budgeted cap entries c'"
proof -
  assume eq: "bc_totalLeaves c' = bc_totalLeaves c" "bc_maxLeaves c' = bc_maxLeaves c"
    and ms: "mset (entries (bc_lru c')) = mset (entries (bc_lru c))" and old: "budgeted cap entries c"
  have "length (entries (bc_lru c')) = length (entries (bc_lru c))" using ms by (metis size_mset)
  moreover have "distinct (map fst (entries (bc_lru c')))"
  proof (rule iffD1 [OF mset_eq_imp_distinct_iff])
    show "mset (map fst (entries (bc_lru c))) = mset (map fst (entries (bc_lru c')))" using ms by simp
    show "distinct (map fst (entries (bc_lru c)))" using old by (simp add: budgeted_def counted_def)
  qed
  ultimately show ?thesis using eq old leaf_sum_mset [OF ms]
    by (auto simp: budgeted_def counted_def within_budget_def)
qed

lemma leaf_sum_nonneg: "0 \<le> leaf_sum es"
  by (induction es) simp_all

lemma remove_budgeted:
  assumes ok: "lru_ok cap L entries" and old: "budgeted cap entries c"
  shows "budgeted cap entries (cache_Remove L c b)"
proof -
  let ?c1 = "lru_op (lru_Remove L (bc_lru c) b) c"
  have cnt: "counted cap entries ?c1"
    by (rule remove_op_counted [OF ok]) (use old in \<open>simp add: budgeted_def\<close>)
  have "leaf_sum (drop_key b (entries (bc_lru c))) \<le> leaf_sum (entries (bc_lru c))"
    using leaf_sum_nonneg by (simp add: leaf_sum_split)
  moreover have "length (drop_key b (entries (bc_lru c))) \<le> length (entries (bc_lru c))"
    by (simp add: drop_key_def)
  ultimately have "within_budget entries ?c1" using cnt old
    by (auto simp: budgeted_def within_budget_def counted_def lru_remove [OF ok])
  with cnt have "budgeted cap entries ?c1" by (simp add: budgeted_def)
  then show ?thesis unfolding cache_Remove_def Let_def by (auto intro: budgeted_cong [of _ ?c1])
qed

lemma end_budgeted:
  assumes ok: "lru_ok cap L entries" and old: "budgeted cap entries c"
  shows "budgeted cap entries (endFill L c b idx token)"
proof -
  have dereg: "budgeted cap entries (deregister c b)" by (rule budgeted_cong [OF _ _ _ old]) simp_all
  then have "counted cap entries (deregister c b)" by (simp add: budgeted_def)
  from install_counted [OF ok this]
  have "budgeted cap entries (install L (deregister c b) b i)" for i by (simp add: budgeted_def)
  then show ?thesis using dereg by (auto simp: endFill_def Let_def split: option.splits)
qed

lemma step_budgeted:
  assumes "lru_ok cap L entries" and "cache_step sdk L R s s'" and "budgeted cap entries (cs_cache s)"
  shows "budgeted cap entries (cs_cache s')"
  using assms(2)
proof (cases rule: cache_step.cases)
  case (looked_up b)
  have "counted cap entries (cs_cache s)" using assms(3) by (simp add: budgeted_def)
  from lookup_cache(1) [OF assms(1) this] show ?thesis
    unfolding looked_up by (auto intro: budgeted_cong [OF _ _ _ assms(3)])
next
  case (begun b)
  show ?thesis unfolding begun by (rule budgeted_cong [OF _ _ _ assms(3)]) (simp_all add: beginFill_def)
next
  case (claimed now b)
  show ?thesis unfolding claimed by (rule budgeted_cong [OF _ _ _ assms(3)]) simp_all
qed (simp_all add: assms(3) remove_budgeted [OF assms(1,3)] end_budgeted [OF assms(1,3)])

section \<open>Coherence\<close>

text \<open>
  Three invariants: the fills of a block are counted; a token is at most the generation, and the bytes read
  under a current token are the stored ones or the block is still to be invalidated; an entry is the index of
  the stored bytes or its block is still to be invalidated.
\<close>

definition registered :: "('l, 'r) cache_sys \<Rightarrow> bool" where
  "registered s \<longleftrightarrow>
     (\<forall>b. inflight_of (cs_cache s) b = int (size (filter_mset (\<lambda>f. fl_block f = b) (cs_fills s))))"

definition fill_current :: "('l, 'r) cache_sys \<Rightarrow> fill \<Rightarrow> bool" where
  "fill_current s f \<longleftrightarrow> fl_token f \<le> gen_of (cs_cache s) (fl_block f) \<and>
     (\<forall>data. fl_read f = Some data \<longrightarrow> fl_token f = gen_of (cs_cache s) (fl_block f) \<longrightarrow>
        fl_block f \<in># cs_pending s \<or> data = cs_store s (fl_block f))"

definition entry_current :: "'h sdk \<Rightarrow> ('l, 'r) cache_sys \<Rightarrow> string \<times> 'h CompoundIndex \<Rightarrow> bool" where
  "entry_current sdk s e \<longleftrightarrow> fst e \<in># cs_pending s \<or> built_from sdk (cs_store s (fst e)) = Some (snd e)"

definition coherent :: "'h sdk \<Rightarrow> ('l \<Rightarrow> (string \<times> 'h CompoundIndex) list) \<Rightarrow> ('l, 'r) cache_sys \<Rightarrow> bool" where
  "coherent sdk entries s \<longleftrightarrow> registered s \<and> (\<forall>f. f \<in># cs_fills s \<longrightarrow> fill_current s f) \<and>
     (\<forall>e. e \<in> set (entries (bc_lru (cs_cache s))) \<longrightarrow> entry_current sdk s e)"

lemma coherentI:
  assumes "registered s" and "\<And>f. f \<in># cs_fills s \<Longrightarrow> fill_current s f"
    and "\<And>e. e \<in> set (entries (bc_lru (cs_cache s))) \<Longrightarrow> entry_current sdk s e"
  shows "coherent sdk entries s"
  using assms by (simp add: coherent_def)

lemma coherent_entry: "coherent sdk entries s \<Longrightarrow> e \<in> set (entries (bc_lru (cs_cache s))) \<Longrightarrow> entry_current sdk s e"
  unfolding coherent_def by blast

lemma coherent_fill: "coherent sdk entries s \<Longrightarrow> f \<in># cs_fills s \<Longrightarrow> fill_current s f"
  unfolding coherent_def by blast

lemma registered_positive:
  assumes "registered s" and "f \<in># cs_fills s"
  shows "inflight_of (cs_cache s) (fl_block f) > 0"
proof -
  have "f \<in># filter_mset (\<lambda>g. fl_block g = fl_block f) (cs_fills s)" using assms(2) by simp
  then have "0 < size (filter_mset (\<lambda>g. fl_block g = fl_block f) (cs_fills s))"
    by (metis empty_iff nonempty_has_size set_mset_empty)
  then show ?thesis using assms(1) by (simp add: registered_def)
qed

text \<open>An invalidation leaves every registered token of the block behind.\<close>

lemma remove_coherent:
  assumes ok: "lru_ok cap L entries" and old: "coherent sdk entries s"
    and pend: "\<forall>x. x \<in># cs_pending s \<longrightarrow> x = b \<or> x \<in># P"
  shows "coherent sdk entries (s\<lparr>cs_cache := cache_Remove L (cs_cache s) b, cs_pending := P\<rparr>)" (is "coherent _ _ ?s")
proof (rule coherentI)
  have reg: "registered s" using old by (simp add: coherent_def)
  then show "registered ?s" by (simp add: registered_def remove_gen)
  fix f assume f: "f \<in># cs_fills ?s"
  then have cur: "fill_current s f" using old by (simp add: coherent_def)
  show "fill_current ?s f"
  proof (cases "fl_block f = b")
    case True
    have "inflight_of (cs_cache s) b > 0" using registered_positive [OF reg, of f] f True by simp
    then have "gen_of (cs_cache ?s) b = gen_of (cs_cache s) b + 1" by (simp add: remove_gen)
    then show ?thesis using cur True by (simp add: fill_current_def)
  next
    case False
    then show ?thesis using cur pend by (auto simp: fill_current_def remove_gen)
  qed
next
  fix e assume "e \<in> set (entries (bc_lru (cs_cache ?s)))"
  then have e: "e \<in> set (entries (bc_lru (cs_cache s)))" "fst e \<noteq> b"
    by (simp_all add: remove_lru lru_remove [OF ok] drop_key_set)
  then have "entry_current sdk s e" by (intro coherent_entry [OF old])
  then show "entry_current sdk ?s e" using e(2) pend by (auto simp: entry_current_def)
qed

lemma end_coherent:
  assumes ok: "lru_ok cap L entries" and old: "coherent sdk entries s" and fills: "cs_fills s = add_mset f F"
    and idx: "\<And>i. idx = Some i \<Longrightarrow> \<exists>data. fl_read f = Some data \<and> built_from sdk data = Some i"
  shows "coherent sdk entries (s\<lparr>cs_cache := endFill L (cs_cache s) (fl_block f) idx (fl_token f), cs_fills := F\<rparr>)"
    (is "coherent _ _ ?s")
proof (rule coherentI)
  let ?count = "\<lambda>b M. int (size (filter_mset (\<lambda>g. fl_block g = b) M))"
  have reg: "inflight_of (cs_cache s) b = ?count b (add_mset f F)" for b
    using old by (simp add: coherent_def registered_def fills)
  show "registered ?s" unfolding registered_def by (auto simp: end_gen reg)
  have cur: "fill_current s g" if "g \<in># add_mset f F" for g
    by (rule coherent_fill [OF old]) (use that fills in simp)
  fix g assume g: "g \<in># cs_fills ?s"
  have "gen_of (cs_cache ?s) (fl_block g) = gen_of (cs_cache s) (fl_block g)"
  proof (cases "fl_block g = fl_block f")
    case True
    have "g \<in># filter_mset (\<lambda>h. fl_block h = fl_block f) F" using g True by simp
    then have "0 < size (filter_mset (\<lambda>h. fl_block h = fl_block f) F)" by (metis empty_iff nonempty_has_size set_mset_empty)
    moreover have "inflight_of (cs_cache s) (fl_block f) = 1 + ?count (fl_block f) F" by (simp add: reg)
    ultimately have "\<not> inflight_of (cs_cache s) (fl_block f) \<le> 1" by linarith
    then show ?thesis by (simp add: end_gen)
  qed (simp add: end_gen)
  then show "fill_current ?s g" using cur [of g] g by (simp add: fill_current_def)
next
  fix e assume "e \<in> set (entries (bc_lru (cs_cache ?s)))"
  then consider (kept) "e \<in> set (entries (bc_lru (cs_cache s)))"
    | (new) i where "e = (fl_block f, i)" "idx = Some i" "fl_token f = gen_of (cs_cache s) (fl_block f)"
    using end_entries [OF ok, of "cs_cache s" "fl_block f" idx "fl_token f"] by auto
  then show "entry_current sdk ?s e"
  proof cases
    case kept
    then have "entry_current sdk s e" by (rule coherent_entry [OF old])
    then show ?thesis by (simp add: entry_current_def)
  next
    case new
    from idx [OF new(2)] obtain data where data: "fl_read f = Some data" "built_from sdk data = Some i" by blast
    have "fill_current s f" using old by (simp add: coherent_def fills)
    then have "fl_block f \<in># cs_pending s \<or> data = cs_store s (fl_block f)"
      using data(1) new(3) by (simp add: fill_current_def)
    then show ?thesis using data(2) new(1) by (auto simp: entry_current_def)
  qed
qed

text \<open>Steps that touch neither the generations nor the entries.\<close>

lemma quiet_coherent:
  assumes "coherent sdk entries s" and "bc_gen c = bc_gen (cs_cache s)" and "bc_inflight c = bc_inflight (cs_cache s)"
    and "set (entries (bc_lru c)) = set (entries (bc_lru (cs_cache s)))"
  shows "coherent sdk entries (s\<lparr>cs_cache := c\<rparr>)"
proof -
  have "gen_of c = gen_of (cs_cache s)" "inflight_of c = inflight_of (cs_cache s)"
    using assms(2,3) by (auto simp: gen_of_def inflight_of_def fun_eq_iff)
  then show ?thesis using assms(1,4)
    by (simp add: coherent_def registered_def fill_current_def entry_current_def)
qed

lemma written_coherent:
  assumes "coherent sdk entries s"
  shows "coherent sdk entries (s\<lparr>cs_store := (cs_store s)(b := v), cs_pending := add_mset b (cs_pending s)\<rparr>)"
  using assms by (auto simp: coherent_def registered_def fill_current_def entry_current_def)

lemma begun_coherent:
  assumes "coherent sdk entries s"
  shows "coherent sdk entries (s\<lparr>cs_cache := snd (beginFill (cs_cache s) b),
    cs_fills := add_mset \<lparr>fl_block = b, fl_token = fst (beginFill (cs_cache s) b), fl_read = None\<rparr> (cs_fills s)\<rparr>)"
  using assms by (auto simp: coherent_def registered_def fill_current_def entry_current_def begin_gen)

lemma fetched_coherent:
  assumes "coherent sdk entries s" and "cs_fills s = add_mset f F"
  shows "coherent sdk entries (s\<lparr>cs_fills := add_mset (f\<lparr>fl_read := Some (cs_store s (fl_block f))\<rparr>) F\<rparr>)"
  using assms by (auto simp: coherent_def registered_def fill_current_def entry_current_def)

lemma step_coherent:
  assumes ok: "lru_ok cap L entries" and step: "cache_step sdk L R s s'"
    and bud: "budgeted cap entries (cs_cache s)" and old: "coherent sdk entries s"
  shows "coherent sdk entries s'"
  using step
proof (cases rule: cache_step.cases)
  case (written b v)
  show ?thesis unfolding written by (rule written_coherent [OF old])
next
  case (invalidated b P)
  show ?thesis unfolding invalidated(1) by (rule remove_coherent [OF ok old]) (simp add: invalidated(2))
next
  case (claimed now b)
  show ?thesis unfolding claimed by (rule quiet_coherent [OF old]) simp_all
next
  case (dropped b)
  have "coherent sdk entries (s\<lparr>cs_cache := cache_Remove L (cs_cache s) b, cs_pending := cs_pending s\<rparr>)"
    by (rule remove_coherent [OF ok old]) simp
  then show ?thesis unfolding dropped by simp
next
  case (looked_up b)
  have "counted cap entries (cs_cache s)" using bud by (simp add: budgeted_def)
  from lookup_cache(1) [OF ok this, of b]
  have "set (entries (bc_lru (snd (cache_lookup L (cs_cache s) b)))) = set (entries (bc_lru (cs_cache s)))"
    by (rule mset_eq_setD)
  then show ?thesis unfolding looked_up by (intro quiet_coherent [OF old]) simp_all
next
  case (begun b)
  show ?thesis unfolding begun by (rule begun_coherent [OF old])
next
  case (fetched f F)
  show ?thesis unfolding fetched(1) by (rule fetched_coherent [OF old fetched(2)])
next
  case (ended f F data)
  show ?thesis unfolding ended(1) by (rule end_coherent [OF ok old ended(2)]) (simp add: ended(3))
next
  case (aborted f F)
  show ?thesis unfolding aborted(1) by (rule end_coherent [OF ok old aborted(2)]) simp
qed

lemma reachable_coherent:
  assumes ok: "lru_ok cap L entries" and empty: "entries l = []"
    and run: "(cache_step sdk L R)\<^sup>*\<^sup>* (cache_start l r leaves db) s" and pos: "0 \<le> leaves"
  shows "budgeted cap entries (cs_cache s) \<and> coherent sdk entries s"
  using run
proof (induction rule: rtranclp_induct)
  case base
  show ?case using empty pos
    by (simp add: cache_start_def newWithLimits_def budgeted_def counted_def within_budget_def coherent_def
        registered_def inflight_of_def)
next
  case (step s s')
  then show ?case using step_budgeted [OF ok step(2)] step_coherent [OF ok step(2)] by blast
qed

section \<open>Reads without interference\<close>

definition cache_current ::
    "nat \<Rightarrow> 'h sdk \<Rightarrow> ('l \<Rightarrow> (string \<times> 'h CompoundIndex) list) \<Rightarrow> (string \<Rightarrow> bytes option) \<Rightarrow> ('l, 'r) bump_cache \<Rightarrow> bool" where
  "cache_current cap sdk entries db c \<longleftrightarrow> budgeted cap entries c \<and>
     (\<forall>e. e \<in> set (entries (bc_lru c)) \<longrightarrow> built_from sdk (db (fst e)) = Some (snd e))"

lemma current_entry:
  "cache_current cap sdk entries db c \<Longrightarrow> (b, idx) \<in> set (entries (bc_lru c)) \<Longrightarrow> built_from sdk (db b) = Some idx"
  unfolding cache_current_def by fastforce

lemma current_subset:
  assumes "cache_current cap sdk entries db c" and "budgeted cap entries c'"
    and "set (entries (bc_lru c')) \<subseteq> set (entries (bc_lru c))"
  shows "cache_current cap sdk entries db c'"
  using assms unfolding cache_current_def by blast

lemma lookup_current:
  assumes ok: "lru_ok cap L entries" and cur: "cache_current cap sdk entries db c"
  shows "cache_current cap sdk entries db (snd (cache_lookup L c b))"
    and "fst (cache_lookup L c b) = Some idx \<Longrightarrow> built_from sdk (db b) = Some idx"
proof -
  have bud: "budgeted cap entries c" using cur by (simp add: cache_current_def)
  then have cnt: "counted cap entries c" by (simp add: budgeted_def)
  note look = lookup_cache [OF ok cnt, of b]
  show "cache_current cap sdk entries db (snd (cache_lookup L c b))"
  proof (rule current_subset [OF cur])
    show "budgeted cap entries (snd (cache_lookup L c b))" by (rule budgeted_cong [OF _ _ look(1) bud]) simp_all
    show "set (entries (bc_lru (snd (cache_lookup L c b)))) \<subseteq> set (entries (bc_lru c))"
      using mset_eq_setD [OF look(1)] by simp
  qed
  assume "fst (cache_lookup L c b) = Some idx"
  then have "map_of (entries (bc_lru c)) b = Some idx" by (simp only: look(2))
  then show "built_from sdk (db b) = Some idx" by (rule current_entry [OF cur map_of_SomeD])
qed

lemma remove_current:
  assumes ok: "lru_ok cap L entries" and cur: "cache_current cap sdk entries db c"
  shows "cache_current cap sdk entries (db(b := v)) (cache_Remove L c b)"
proof -
  have bud: "budgeted cap entries c" using cur by (simp add: cache_current_def)
  show ?thesis unfolding cache_current_def
  proof (intro conjI allI impI)
    show "budgeted cap entries (cache_Remove L c b)" by (rule remove_budgeted [OF ok bud])
    fix e assume "e \<in> set (entries (bc_lru (cache_Remove L c b)))"
    then have e: "e \<in> set (entries (bc_lru c))" "fst e \<noteq> b"
      by (simp_all add: remove_lru lru_remove [OF ok] drop_key_set)
    then have "built_from sdk (db (fst e)) = Some (snd e)" by (intro current_entry [OF cur]) simp
    then show "built_from sdk ((db(b := v)) (fst e)) = Some (snd e)" using e(2) by simp
  qed
qed

text \<open>A fetch returns the stored bytes or fails.\<close>

lemma fill_current_ends:
  assumes ok: "lru_ok cap L entries" and cur: "cache_current cap sdk entries db c" and fetch: "fetch = None \<or> fetch = db b"
  shows "cache_current cap sdk entries db (endFill L (snd (beginFill c b)) b (built_from sdk fetch) token)"
proof -
  have bud: "budgeted cap entries c" using cur by (simp add: cache_current_def)
  have "budgeted cap entries (snd (beginFill c b))" by (rule budgeted_cong [OF _ _ _ bud]) (simp_all add: beginFill_def)
  from end_budgeted [OF ok this]
  have bud': "budgeted cap entries (endFill L (snd (beginFill c b)) b (built_from sdk fetch) token)" .
  have "built_from sdk fetch = Some i \<Longrightarrow> built_from sdk (db b) = Some i" for i
    using fetch by (auto simp: built_from_def)
  then have "built_from sdk (db (fst e)) = Some (snd e)"
    if "e \<in> set (entries (bc_lru (endFill L (snd (beginFill c b)) b (built_from sdk fetch) token)))" for e
    using that end_entries [OF ok, of "snd (beginFill c b)" b "built_from sdk fetch" token] cur
    unfolding cache_current_def begin_gen(4) by auto
  then show ?thesis using bud' by (simp add: cache_current_def)
qed

lemma index_current:
  assumes ok: "lru_ok cap L entries" and cur: "cache_current cap sdk entries db c" and fetch: "fetch = None \<or> fetch = db b"
  shows "cache_current cap sdk entries db (snd (cache_index sdk L c b fetch))"
    and "fetch = db b \<Longrightarrow> fst (cache_index sdk L c b fetch) = built_from sdk (db b)"
proof -
  obtain o1 c1 where l1: "cache_lookup L c b = (o1, c1)" by (rule prod.exhaust)
  obtain o2 c2 where l2: "cache_lookup L c1 b = (o2, c2)" by (rule prod.exhaust)
  have c1: "cache_current cap sdk entries db c1" using lookup_current(1) [OF ok cur, of b] by (simp add: l1)
  have c2: "cache_current cap sdk entries db c2" using lookup_current(1) [OF ok c1, of b] by (simp add: l2)
  have o1: "o1 = Some idx \<Longrightarrow> built_from sdk (db b) = Some idx" for idx
    using lookup_current(2) [OF ok cur, of b idx] by (simp add: l1)
  have o2: "o2 = Some idx \<Longrightarrow> built_from sdk (db b) = Some idx" for idx
    using lookup_current(2) [OF ok c1, of b idx] by (simp add: l2)
  have index: "cache_index sdk L c b fetch =
    (case o1 of Some idx \<Rightarrow> (Some idx, c1) | None \<Rightarrow>
      (case o2 of Some idx \<Rightarrow> (Some idx, c2) | None \<Rightarrow>
        (built_from sdk fetch, endFill L (snd (beginFill c2 b)) b (built_from sdk fetch) (fst (beginFill c2 b)))))"
    by (simp add: cache_index_def l1 l2 case_prod_unfold split: option.splits)
  show "cache_current cap sdk entries db (snd (cache_index sdk L c b fetch))"
    unfolding index using c1 c2 fill_current_ends [OF ok c2 fetch] by (simp split: option.splits)
  show "fst (cache_index sdk L c b fetch) = built_from sdk (db b)" if "fetch = db b"
    unfolding index using o1 o2 that by (simp split: option.splits)
qed

lemma claim_current:
  assumes "cache_current cap sdk entries db c"
  shows "cache_current cap sdk entries db (snd (claimRefresh R c now b))"
proof (rule current_subset [OF assms])
  show "budgeted cap entries (snd (claimRefresh R c now b))"
    by (rule budgeted_cong [of _ c]) (use assms in \<open>simp_all add: cache_current_def\<close>)
qed simp

text \<open>The proof a read serves is the one of the stored compound, whether it was cached, missing or refreshed.\<close>

definition stored_path :: "'h sdk \<Rightarrow> bytes option \<Rightarrow> txid \<Rightarrow> bytes option" where
  "stored_path sdk data txid = Option.bind (built_from sdk data) (\<lambda>idx. MinimalPathBytes sdk idx txid)"

lemma pathFor_exact:
  assumes ok: "lru_ok cap L entries" and cur: "cache_current cap sdk entries db c" and fetch: "fetch = None \<or> fetch = db b"
  shows "cache_current cap sdk entries db (snd (pathFor sdk L R now b txid fetch c))"
    and "fetch = db b \<Longrightarrow> fst (pathFor sdk L R now b txid fetch c) = stored_path sdk (db b) txid"
proof -
  obtain o1 c1 where l1: "cache_lookup L c b = (o1, c1)" by (rule prod.exhaust)
  have c1: "cache_current cap sdk entries db c1" using lookup_current(1) [OF ok cur, of b] by (simp add: l1)
  have o1: "o1 = Some idx \<Longrightarrow> built_from sdk (db b) = Some idx" for idx
    using lookup_current(2) [OF ok cur, of b idx] by (simp add: l1)
  obtain claim c2 where cl: "claimRefresh R c1 now b = (claim, c2)" by (rule prod.exhaust)
  have c2: "cache_current cap sdk entries db c2" using claim_current [OF c1, of R now b] by (simp add: cl)
  have c3: "cache_current cap sdk entries db (cache_Remove L c2 b)"
    using remove_current [OF ok c2, of b "db b"] by simp
  obtain x1 d1 where e1: "cache_index sdk L c1 b fetch = (x1, d1)" by (rule prod.exhaust)
  obtain x3 d3 where e3: "cache_index sdk L (cache_Remove L c2 b) b fetch = (x3, d3)" by (rule prod.exhaust)
  note i1 = index_current [OF ok c1 fetch, unfolded e1] and i3 = index_current [OF ok c3 fetch, unfolded e3]
  have path: "pathFor sdk L R now b txid fetch c =
    (case o1 of
       None \<Rightarrow> (Option.bind x1 (\<lambda>idx. MinimalPathBytes sdk idx txid), d1)
     | Some idx \<Rightarrow>
         (case MinimalPathBytes sdk idx txid of Some p \<Rightarrow> (Some p, c1)
          | None \<Rightarrow> if claim then (Option.bind x3 (\<lambda>idx. MinimalPathBytes sdk idx txid), d3) else (None, c2)))"
    unfolding pathFor_def l1 prod.case cl
    by (cases o1; cases claim; cases x1; cases x3) (simp_all add: e1 e3 split: option.splits)
  show "cache_current cap sdk entries db (snd (pathFor sdk L R now b txid fetch c))"
    unfolding path using c1 c2 i1(1) i3(1) by (simp split: option.splits)
  show "fst (pathFor sdk L R now b txid fetch c) = stored_path sdk (db b) txid" if "fetch = db b"
    unfolding path using o1 i1(2) i3(2) that by (auto simp: stored_path_def split: option.splits)
qed

section \<open>Properties\<close>

text \<open>A run: a fill starts, reads the store and installs its index.\<close>

type_synonym sample_sys = "((string \<times> nat CompoundIndex) list, (string \<times> unix_ns) list) cache_sys"

definition run_start :: sample_sys where
  "run_start = cache_start [] [] 100 (\<lambda>b. if b = ''blk'' then Some ''bump'' else None)"

definition run_begun :: sample_sys where
  "run_begun = run_start\<lparr>cs_cache := snd (beginFill (cs_cache run_start) ''blk''),
     cs_fills := add_mset \<lparr>fl_block = ''blk'', fl_token = fst (beginFill (cs_cache run_start) ''blk''), fl_read = None\<rparr> (cs_fills run_start)\<rparr>"

definition run_fill :: fill where
  "run_fill = \<lparr>fl_block = ''blk'', fl_token = 0, fl_read = Some (Some ''bump'')\<rparr>"

definition run_ended :: sample_sys where
  "run_ended = run_begun\<lparr>cs_cache := endFill (list_lru maxEntries) (cs_cache run_begun) (fl_block run_fill)
     (built_from sample_sdk (Some ''bump'')) (fl_token run_fill), cs_fills := {#}\<rparr>"

lemma run_begun_fill: "cs_fills run_begun = {#\<lparr>fl_block = ''blk'', fl_token = 0, fl_read = None\<rparr>#}"
  by (simp add: run_begun_def run_start_def cache_start_def begin_gen newWithLimits_def gen_of_def)

lemma sample_run: "(cache_step sample_sdk (list_lru maxEntries) (list_lru maxEntries))\<^sup>*\<^sup>* run_start run_ended"
proof -
  let ?step = "cache_step sample_sdk (list_lru maxEntries) (list_lru maxEntries :: (_, unix_ns) lru)"
  have "?step run_start run_begun" unfolding run_begun_def by (rule cache_step.begun)
  moreover have "?step run_begun (run_begun\<lparr>cs_fills := {#run_fill#}\<rparr>)"
    using cache_step.fetched [OF run_begun_fill, of sample_sdk "list_lru maxEntries" "list_lru maxEntries"]
    by (simp add: run_fill_def run_begun_def run_start_def cache_start_def)
  moreover have "?step (run_begun\<lparr>cs_fills := {#run_fill#}\<rparr>) run_ended"
    using cache_step.ended [of "run_begun\<lparr>cs_fills := {#run_fill#}\<rparr>" run_fill "{#}" "Some ''bump''"]
    by (simp add: run_ended_def run_fill_def)
  ultimately show ?thesis by (meson converse_rtranclp_into_rtranclp rtranclp.rtrancl_refl)
qed

lemma run_ended_entries: "bc_lru (cs_cache run_ended) = [(''blk'', index_path sample_path)]"
  by (simp add: run_ended_def run_fill_def endFill_def deregister_def run_begun_def run_start_def cache_start_def beginFill_def
      newWithLimits_def gen_of_def inflight_of_def built_from_def IndexCompound_def sample_sdk_def install_def
      list_lru_def drop_key_def lru_op_def evicted_def maxEntries_def Let_def sample_path_def index_path_def)

text \<open>
  C7. Whatever the interleaving of reads, fills, refreshes, writes of the store and invalidations, and however
  many fills of one block overlap, a cached entry is the index of the compound that is stored now, unless the
  invalidation that follows a write of its block has still to run.
\<close>

theorem cache_coherent:
  assumes "lru_ok cap L entries" and "entries l = []" and "0 \<le> leaves"
    and "(cache_step sdk L R)\<^sup>*\<^sup>* (cache_start l r leaves db) s"
    and "(b, idx) \<in> set (entries (bc_lru (cs_cache s)))" and "b \<notin># cs_pending s"
  shows "built_from sdk (cs_store s b) = Some idx"
  using coherent_entry [OF conjunct2 [OF reachable_coherent [OF assms(1,2,4,3)]] assms(5)] assms(6)
  by (simp add: entry_current_def)

theorem cache_coherent_witness: "built_from sample_sdk (cs_store run_ended ''blk'') = Some (index_path sample_path)"
proof (rule cache_coherent [OF list_lru_ok, where l = "[]" and leaves = 100])
  show "(cache_step sample_sdk (list_lru maxEntries) (list_lru maxEntries))\<^sup>*\<^sup>*
      (cache_start [] [] 100 (\<lambda>b. if b = ''blk'' then Some ''bump'' else None)) run_ended"
    using sample_run unfolding run_start_def .
  show "''blk'' \<notin># cs_pending run_ended"
    by (simp add: run_ended_def run_begun_def run_start_def cache_start_def)
qed (simp_all add: run_ended_entries)

text \<open>
  In every reachable state the leaf counter of the cache is the sum of the leaves of its entries, there are
  at most as many entries as the LRU holds, each block has one, and the counter exceeds the budget only when a
  single compound is cached.
\<close>

theorem cache_budget:
  assumes "lru_ok cap L entries" and "entries l = []" and "0 \<le> leaves"
    and "(cache_step sdk L R)\<^sup>*\<^sup>* (cache_start l r leaves db) s"
  shows "let es = entries (bc_lru (cs_cache s)); used = bc_totalLeaves (cs_cache s) in
    used = leaf_sum es \<and> length es \<le> cap \<and> distinct (map fst es) \<and>
    (used \<le> bc_maxLeaves (cs_cache s) \<or> length es \<le> 1)"
  using conjunct1 [OF reachable_coherent [OF assms(1,2,4,3)]]
  unfolding Let_def budgeted_def counted_def within_budget_def by auto

theorem cache_budget_witness: "bc_totalLeaves (cs_cache run_ended) = leaf_sum [(''blk'', index_path sample_path)]"
proof -
  have start: "(cache_step sample_sdk (list_lru maxEntries) (list_lru maxEntries))\<^sup>*\<^sup>*
      (cache_start [] [] 100 (\<lambda>b. if b = ''blk'' then Some ''bump'' else None)) run_ended"
    using sample_run unfolding run_start_def .
  from cache_budget [OF list_lru_ok _ _ start] show ?thesis by (simp add: run_ended_entries)
qed

end
