(* ===== verification/Pebble_Bump.thy ===== *)
theory Pebble_Bump
  imports Bump_Cache_Correct Pebble_Status_Correct
begin

text \<open>
  The compound-BUMP operations of \<open>store/pebble/pebble.go\<close> and the status read that attaches proofs. Their
  state is the database and the BUMP cache. The clock is read at most once per path lookup; lookups of one
  call are numbered by the place they stand at.
\<close>

section \<open>Operations\<close>

record ('db, 'l, 'r) bump_store =
  bs_db :: 'db
  bs_cache :: "('l, 'r) bump_cache"

definition InsertBUMP ::
    "'db pebble \<Rightarrow> ('l, 'h CompoundIndex) lru \<Rightarrow> ctx \<Rightarrow> block_hash \<Rightarrow> nat \<Rightarrow> bytes
      \<Rightarrow> ('db, 'l, 'r) bump_store \<Rightarrow> unit result \<times> ('db, 'l, 'r) bump_store" where
  "InsertBUMP pb L ctx blockHash blockHeight bumpData s =
     (if ctx 0 then (Inl Cancelled, s)
      else case pb_commit pb (bs_db s) [Put (bumpKey blockHash) (PBump \<lparr>bm_BlockHeight = blockHeight, bm_BumpData = bumpData\<rparr>)] of
             (Some e, d) \<Rightarrow> (Inl e, s\<lparr>bs_db := d\<rparr>)
           | (None, d) \<Rightarrow> (Inr (), s\<lparr>bs_db := d, bs_cache := cache_Remove L (bs_cache s) blockHash\<rparr>))"

text \<open>\<open>GetBUMP\<close> at its i-th look at the context.\<close>

definition GetBUMP_at :: "'db pebble \<Rightarrow> ctx \<Rightarrow> nat \<Rightarrow> block_hash \<Rightarrow> 'db \<Rightarrow> (nat \<times> bytes) result" where
  "GetBUMP_at pb ctx i blockHash d =
     (if ctx i then Inl Cancelled
      else case pb_get pb d (bumpKey blockHash) of
             Inl e \<Rightarrow> Inl e
           | Inr None \<Rightarrow> Inl ErrNotFound
           | Inr (Some v) \<Rightarrow> (case v of PBump b \<Rightarrow> Inr (bm_BlockHeight b, bm_BumpData b) | _ \<Rightarrow> Inl Unparsable))"

definition GetBUMP :: "'db pebble \<Rightarrow> ctx \<Rightarrow> block_hash \<Rightarrow> 'db \<Rightarrow> (nat \<times> bytes) result" where
  "GetBUMP pb ctx blockHash d = GetBUMP_at pb ctx 0 blockHash d"

definition DeleteBUMPByBlockHash ::
    "'db pebble \<Rightarrow> ('l, 'h CompoundIndex) lru \<Rightarrow> ctx \<Rightarrow> block_hash
      \<Rightarrow> ('db, 'l, 'r) bump_store \<Rightarrow> unit result \<times> ('db, 'l, 'r) bump_store" where
  "DeleteBUMPByBlockHash pb L ctx blockHash s =
     (if ctx 0 then (Inl Cancelled, s)
      else case pb_commit pb (bs_db s) [Del (bumpKey blockHash)] of
             (Some e, d) \<Rightarrow> (Inl e, s\<lparr>bs_db := d\<rparr>)
           | (None, d) \<Rightarrow> (Inr (), s\<lparr>bs_db := d, bs_cache := cache_Remove L (bs_cache s) blockHash\<rparr>))"

text \<open>The closure handed to the cache: the bytes, or an error.\<close>

definition fetch_bump :: "'db pebble \<Rightarrow> ctx \<Rightarrow> nat \<Rightarrow> block_hash \<Rightarrow> 'db \<Rightarrow> bytes option" where
  "fetch_bump pb ctx i blockHash d = (case GetBUMP_at pb ctx i blockHash d of Inl _ \<Rightarrow> None | Inr (_, data) \<Rightarrow> Some data)"

definition enrichMerklePath ::
    "'db pebble \<Rightarrow> 'h sdk \<Rightarrow> ('l, 'h CompoundIndex) lru \<Rightarrow> ('r, unix_ns) lru \<Rightarrow> ctx \<Rightarrow> nat \<Rightarrow> unix_ns \<Rightarrow> 'db
      \<Rightarrow> transaction_status \<Rightarrow> ('l, 'r) bump_cache \<Rightarrow> transaction_status \<times> ('l, 'r) bump_cache" where
  "enrichMerklePath pb sdk L R ctx i now d st c = Enrich sdk L R now st (fetch_bump pb ctx i (ts_BlockHash st) d) c"

definition EnrichMerklePath ::
    "'db pebble \<Rightarrow> 'h sdk \<Rightarrow> ('l, 'h CompoundIndex) lru \<Rightarrow> ('r, unix_ns) lru \<Rightarrow> ctx \<Rightarrow> unix_ns
      \<Rightarrow> transaction_status \<Rightarrow> ('db, 'l, 'r) bump_store \<Rightarrow> transaction_status \<times> ('db, 'l, 'r) bump_store" where
  "EnrichMerklePath pb sdk L R ctx now st s =
     (case enrichMerklePath pb sdk L R ctx 0 now (bs_db s) st (bs_cache s) of (st', c) \<Rightarrow> (st', s\<lparr>bs_cache := c\<rparr>))"

fun orphaned_proofs_loop ::
    "'db pebble \<Rightarrow> 'h sdk \<Rightarrow> ('l, 'h CompoundIndex) lru \<Rightarrow> ('r, unix_ns) lru \<Rightarrow> ctx \<Rightarrow> nat \<Rightarrow> (nat \<Rightarrow> unix_ns) \<Rightarrow> 'db
      \<Rightarrow> txid \<Rightarrow> orphaned_anchor list \<Rightarrow> ('l, 'r) bump_cache \<Rightarrow> orphaned_anchor list \<times> ('l, 'r) bump_cache" where
  "orphaned_proofs_loop pb sdk L R ctx i clock d txid [] c = ([], c)"
| "orphaned_proofs_loop pb sdk L R ctx i clock d txid (e # es) c =
     (if path_bytes (oa_MerklePath e) \<noteq> [] \<or> oa_BlockHash e = []
      then case orphaned_proofs_loop pb sdk L R ctx (Suc i) clock d txid es c of (es', c') \<Rightarrow> (e # es', c')
      else case MinimalPath sdk L R (clock i) (oa_BlockHash e) txid (fetch_bump pb ctx i (oa_BlockHash e) d) c of
             (path, c1) \<Rightarrow>
               (case orphaned_proofs_loop pb sdk L R ctx (Suc i) clock d txid es c1 of
                  (es', c') \<Rightarrow> (e\<lparr>oa_MerklePath := path\<rparr> # es', c')))"

definition enrichOrphanedProofs ::
    "'db pebble \<Rightarrow> 'h sdk \<Rightarrow> ('l, 'h CompoundIndex) lru \<Rightarrow> ('r, unix_ns) lru \<Rightarrow> ctx \<Rightarrow> nat \<Rightarrow> (nat \<Rightarrow> unix_ns) \<Rightarrow> 'db
      \<Rightarrow> transaction_status \<Rightarrow> ('l, 'r) bump_cache \<Rightarrow> transaction_status \<times> ('l, 'r) bump_cache" where
  "enrichOrphanedProofs pb sdk L R ctx i clock d st c =
     (case orphaned_proofs_loop pb sdk L R ctx i clock d (ts_TxID st) (ts_OrphanedProofs st) c of
        (es, c') \<Rightarrow> (st\<lparr>ts_OrphanedProofs := es\<rparr>, c'))"

definition GetStatus ::
    "'db pebble \<Rightarrow> 'h sdk \<Rightarrow> ('l, 'h CompoundIndex) lru \<Rightarrow> ('r, unix_ns) lru \<Rightarrow> ctx \<Rightarrow> (nat \<Rightarrow> unix_ns) \<Rightarrow> txid
      \<Rightarrow> ('db, 'l, 'r) bump_store \<Rightarrow> transaction_status option result \<times> ('db, 'l, 'r) bump_store" where
  "GetStatus pb sdk L R ctx clock txid s =
     (if ctx 0 then (Inl Cancelled, s)
      else case readStatus pb (bs_db s) txid of
             Inl e \<Rightarrow> (Inl e, s)
           | Inr None \<Rightarrow> (Inr None, s)
           | Inr (Some st) \<Rightarrow>
               (case enrichMerklePath pb sdk L R ctx 1 (clock 1) (bs_db s) st (bs_cache s) of
                  (st1, c1) \<Rightarrow>
                    (case enrichOrphanedProofs pb sdk L R ctx 2 clock (bs_db s) st1 c1 of
                       (st2, c2) \<Rightarrow> (Inr (Some st2), s\<lparr>bs_cache := c2\<rparr>))))"

section \<open>The cache follows the database\<close>

definition bump_at :: "kv \<Rightarrow> block_hash \<Rightarrow> bytes option" where
  "bump_at m b = (case m (bumpKey b) of Some (PBump v) \<Rightarrow> Some (bm_BumpData v) | _ \<Rightarrow> None)"

lemma fetch_bump_cases:
  "pebble_ok pb view \<Longrightarrow> fetch_bump pb ctx i b d = None \<or> fetch_bump pb ctx i b d = bump_at (view d) b"
  using pebble_get [of pb view d "bumpKey b"]
  by (auto simp: fetch_bump_def GetBUMP_at_def bump_at_def split: sum.splits option.splits payload.splits)

lemma fetch_bump_up:
  "pebble_ok pb view \<Longrightarrow> pebble_up pb \<Longrightarrow> uncancelled ctx \<Longrightarrow> fetch_bump pb ctx i b d = bump_at (view d) b"
  by (simp add: fetch_bump_def GetBUMP_at_def bump_at_def pebble_up_get uncancelledD split: option.splits payload.splits)

lemma bumpKey_inj: "bumpKey a = bumpKey b \<longleftrightarrow> a = b"
  by (simp add: bumpKey_def)

lemma bump_at_put: "bump_at (m(bumpKey b \<mapsto> PBump v)) = (bump_at m)(b := Some (bm_BumpData v))"
  by (rule ext) (simp add: bump_at_def bumpKey_inj)

lemma bump_at_del: "bump_at (m(bumpKey b := None)) = (bump_at m)(b := None)"
  by (rule ext) (simp add: bump_at_def bumpKey_inj)

text \<open>
  The calls on an open store: those of this theory, and any other operation, which leaves the stored
  compounds and the cache alone.
\<close>

inductive bump_step ::
    "'db pebble \<Rightarrow> ('db \<Rightarrow> kv) \<Rightarrow> 'h sdk \<Rightarrow> ('l, 'h CompoundIndex) lru \<Rightarrow> ('r, unix_ns) lru
      \<Rightarrow> ('db, 'l, 'r) bump_store \<Rightarrow> ('db, 'l, 'r) bump_store \<Rightarrow> bool"
  for pb view sdk L R where
  inserted: "bump_step pb view sdk L R s (snd (InsertBUMP pb L ctx b h data s))"
| deleted: "bump_step pb view sdk L R s (snd (DeleteBUMPByBlockHash pb L ctx b s))"
| status_read: "bump_step pb view sdk L R s (snd (GetStatus pb sdk L R ctx clock t s))"
| enriched: "bump_step pb view sdk L R s (snd (EnrichMerklePath pb sdk L R ctx now st s))"
| elsewhere: "bump_at (view d) = bump_at (view (bs_db s)) \<Longrightarrow> bump_step pb view sdk L R s (s\<lparr>bs_db := d\<rparr>)"

definition bump_current ::
    "nat \<Rightarrow> ('db \<Rightarrow> kv) \<Rightarrow> 'h sdk \<Rightarrow> ('l \<Rightarrow> (string \<times> 'h CompoundIndex) list) \<Rightarrow> ('db, 'l, 'r) bump_store \<Rightarrow> bool" where
  "bump_current cap view sdk entries s \<longleftrightarrow> cache_current cap sdk entries (bump_at (view (bs_db s))) (bs_cache s)"

lemma bump_write_current:
  assumes pb: "pebble_ok pb view" and ok: "lru_ok cap L entries" and cur: "bump_current cap view sdk entries s"
    and upd: "bump_at (apply_op op (view (bs_db s))) = (bump_at (view (bs_db s)))(b := v)"
  shows "bump_current cap view sdk entries (snd (case pb_commit pb (bs_db s) [op] of
    (Some e, d) \<Rightarrow> (Inl e, s\<lparr>bs_db := d\<rparr>)
  | (None, d) \<Rightarrow> (Inr (), s\<lparr>bs_db := d, bs_cache := cache_Remove L (bs_cache s) b\<rparr>)))"
proof -
  obtain r d where commit: "pb_commit pb (bs_db s) [op] = (r, d)" by (rule prod.exhaust)
  have view: "view d = (if r = None then apply_op op (view (bs_db s)) else view (bs_db s))"
    using pebble_commit [OF pb, of "bs_db s" "[op]"] by (simp add: commit apply_batch_def)
  show ?thesis
  proof (cases r)
    case None
    have "cache_current cap sdk entries ((bump_at (view (bs_db s)))(b := v)) (cache_Remove L (bs_cache s) b)"
      by (rule remove_current [OF ok]) (use cur in \<open>simp add: bump_current_def\<close>)
    then show ?thesis by (simp add: commit None view upd bump_current_def)
  next
    case (Some e)
    then show ?thesis using cur by (simp add: commit view bump_current_def)
  qed
qed

lemma enrich_current:
  assumes pb: "pebble_ok pb view" and ok: "lru_ok cap L entries"
    and cur: "cache_current cap sdk entries (bump_at (view d)) c"
  shows "cache_current cap sdk entries (bump_at (view d)) (snd (enrichMerklePath pb sdk L R ctx i now d st c))"
  using cur pathFor_exact(1) [OF ok cur fetch_bump_cases [OF pb], of R now "ts_BlockHash st" "ts_TxID st" ctx i]
  by (simp add: enrichMerklePath_def Enrich_def case_prod_unfold)

lemma proofs_current:
  assumes pb: "pebble_ok pb view" and ok: "lru_ok cap L entries"
    and cur: "cache_current cap sdk entries (bump_at (view d)) c"
  shows "cache_current cap sdk entries (bump_at (view d)) (snd (orphaned_proofs_loop pb sdk L R ctx i clock d txid es c))"
  using cur
proof (induction es arbitrary: i c)
  case (Cons e es)
  have path: "cache_current cap sdk entries (bump_at (view d))
      (snd (MinimalPath sdk L R (clock i) (oa_BlockHash e) txid (fetch_bump pb ctx i (oa_BlockHash e) d) c))"
    using Cons.prems pathFor_exact(1) [OF ok Cons.prems fetch_bump_cases [OF pb], of R "clock i" "oa_BlockHash e" txid ctx i]
    by (simp add: MinimalPath_def)
  show ?case using Cons.IH [OF Cons.prems] Cons.IH [OF path] by (simp add: case_prod_unfold)
qed simp

lemma status_current:
  assumes pb: "pebble_ok pb view" and ok: "lru_ok cap L entries" and cur: "bump_current cap view sdk entries s"
  shows "bump_current cap view sdk entries (snd (GetStatus pb sdk L R ctx clock t s))"
proof -
  have c: "cache_current cap sdk entries (bump_at (view (bs_db s))) (bs_cache s)" using cur by (simp add: bump_current_def)
  note first = enrich_current [OF pb ok c]
  show ?thesis using cur proofs_current [OF pb ok first]
    by (simp add: GetStatus_def enrichOrphanedProofs_def bump_current_def case_prod_unfold split: sum.splits option.splits)
qed

lemma step_current:
  assumes pb: "pebble_ok pb view" and ok: "lru_ok cap L entries"
    and step: "bump_step pb view sdk L R s s'" and cur: "bump_current cap view sdk entries s"
  shows "bump_current cap view sdk entries s'"
  using step
proof (cases rule: bump_step.cases)
  case (inserted ctx b h data)
  show ?thesis unfolding inserted InsertBUMP_def
    using cur bump_write_current [OF pb ok cur, of "Put (bumpKey b) (PBump \<lparr>bm_BlockHeight = h, bm_BumpData = data\<rparr>)" b "Some data"]
    by (simp add: bump_at_put)
next
  case (deleted ctx b)
  show ?thesis unfolding deleted DeleteBUMPByBlockHash_def
    using cur bump_write_current [OF pb ok cur, of "Del (bumpKey b)" b None] by (simp add: bump_at_del)
next
  case (status_read ctx clock t)
  show ?thesis unfolding status_read by (rule status_current [OF pb ok cur])
next
  case (enriched ctx now st)
  show ?thesis unfolding enriched
    using enrich_current [OF pb ok, of sdk "bs_db s" "bs_cache s" R ctx 0 now st] cur
    by (simp add: EnrichMerklePath_def bump_current_def case_prod_unfold)
next
  case (elsewhere d)
  then show ?thesis using cur by (simp add: bump_current_def)
qed

lemma opened_current:
  assumes "pebble_ok pb view" and "lru_ok cap L entries" and "entries l = []" and "0 \<le> leaves"
    and "(bump_step pb view sdk L R)\<^sup>*\<^sup>* \<lparr>bs_db = d, bs_cache = newWithLimits l r leaves\<rparr> s"
  shows "bump_current cap view sdk entries s"
  using assms(5)
proof (induction rule: rtranclp_induct)
  case base
  show ?case using assms(3,4)
    by (simp add: bump_current_def cache_current_def newWithLimits_def budgeted_def counted_def within_budget_def)
next
  case (step s s')
  show ?case by (rule step_current [OF assms(1,2) step(2,3)])
qed

section \<open>The proofs a status read serves\<close>

definition with_path :: "'h sdk \<Rightarrow> (block_hash \<Rightarrow> bytes option) \<Rightarrow> transaction_status \<Rightarrow> transaction_status" where
  "with_path sdk bumps st =
     (if ts_MerklePath st = [] \<and> ts_BlockHash st \<noteq> [] \<and> (ts_Status st = StatusMined \<or> ts_Status st = StatusImmutable)
      then st\<lparr>ts_MerklePath := path_bytes (stored_path sdk (bumps (ts_BlockHash st)) (ts_TxID st))\<rparr> else st)"

definition with_proof :: "'h sdk \<Rightarrow> (block_hash \<Rightarrow> bytes option) \<Rightarrow> txid \<Rightarrow> orphaned_anchor \<Rightarrow> orphaned_anchor" where
  "with_proof sdk bumps t e =
     (if path_bytes (oa_MerklePath e) = [] \<and> oa_BlockHash e \<noteq> []
      then e\<lparr>oa_MerklePath := if t = [] then None else stored_path sdk (bumps (oa_BlockHash e)) t\<rparr> else e)"

definition with_proofs :: "'h sdk \<Rightarrow> (block_hash \<Rightarrow> bytes option) \<Rightarrow> transaction_status \<Rightarrow> transaction_status" where
  "with_proofs sdk bumps st =
     (let st1 = with_path sdk bumps st
      in st1\<lparr>ts_OrphanedProofs := map (with_proof sdk bumps (ts_TxID st)) (ts_OrphanedProofs st)\<rparr>)"

lemma enrich_exact:
  assumes pb: "pebble_ok pb view" and up: "pebble_up pb" and ctx: "uncancelled ctx" and ok: "lru_ok cap L entries"
    and cur: "cache_current cap sdk entries (bump_at (view d)) c"
  shows "fst (enrichMerklePath pb sdk L R ctx i now d st c) = with_path sdk (bump_at (view d)) st"
  using pathFor_exact(2) [OF ok cur, of "bump_at (view d) (ts_BlockHash st)" "ts_BlockHash st" R now "ts_TxID st"]
  by (auto simp: enrichMerklePath_def Enrich_def with_path_def case_prod_unfold fetch_bump_up [OF pb up ctx])

lemma proofs_exact:
  assumes pb: "pebble_ok pb view" and up: "pebble_up pb" and ctx: "uncancelled ctx" and ok: "lru_ok cap L entries"
    and cur: "cache_current cap sdk entries (bump_at (view d)) c"
  shows "fst (orphaned_proofs_loop pb sdk L R ctx i clock d t es c) = map (with_proof sdk (bump_at (view d)) t) es"
  using cur
proof (induction es arbitrary: i c)
  case (Cons e es)
  note path = pathFor_exact [OF ok Cons.prems, of "bump_at (view d) (oa_BlockHash e)" "oa_BlockHash e" R "clock i" t]
  have mp: "MinimalPath sdk L R (clock i) (oa_BlockHash e) t (fetch_bump pb ctx i (oa_BlockHash e) d) c =
    (if oa_BlockHash e = [] \<or> t = [] then (None, c)
     else (stored_path sdk (bump_at (view d) (oa_BlockHash e)) t,
           snd (pathFor sdk L R (clock i) (oa_BlockHash e) t (bump_at (view d) (oa_BlockHash e)) c)))"
    by (simp add: MinimalPath_def fetch_bump_up [OF pb up ctx] prod_eq_iff path(2))
  have rest: "fst (orphaned_proofs_loop pb sdk L R ctx (Suc i) clock d t es
      (snd (pathFor sdk L R (clock i) (oa_BlockHash e) t (bump_at (view d) (oa_BlockHash e)) c))) =
    map (with_proof sdk (bump_at (view d)) t) es"
    by (rule Cons.IH [OF path(1)]) simp
  note same = Cons.IH [OF Cons.prems]
  have none: "t = [] \<Longrightarrow> map (with_proof sdk (bump_at (view d)) []) es = fst (orphaned_proofs_loop pb sdk L R ctx (Suc i) clock d [] es c)"
    using same [of "Suc i"] by simp
  show ?case unfolding orphaned_proofs_loop.simps mp
    by (cases "t = []") (auto simp: with_proof_def [of _ _ _ e] case_prod_unfold same rest none)
qed simp

lemma readStatus_row:
  assumes "pebble_ok pb view" and "pebble_up pb" and "row_at (view d) t = Some row"
  shows "readStatus pb d t = Inr (Some (toModel row))"
  using assms(3) by (simp add: readStatus_def pebble_up_get [OF assms(1,2)] row_at_key)

text \<open>A store with one mined transaction and the compound of its block.\<close>

definition mined_sample :: storedStatus where
  "mined_sample = (fromModel empty_status)\<lparr>ss_TxID := ''tx'', ss_Status := StatusMined, ss_BlockHash := ''blk'',
     ss_BlockHeight := 7\<rparr>"

definition bump_db :: "(bytes \<times> payload) list" where
  "bump_db = [(txKey ''tx'', PStatus mined_sample)]"

definition sample_store :: "((bytes \<times> payload) list, (string \<times> nat CompoundIndex) list, (string \<times> unix_ns) list) bump_store" where
  "sample_store = \<lparr>bs_db = bump_db, bs_cache = newWithLimits [] [] 100\<rparr>"

definition stored_sample :: "((bytes \<times> payload) list, (string \<times> nat CompoundIndex) list, (string \<times> unix_ns) list) bump_store" where
  "stored_sample = snd (InsertBUMP mem (list_lru maxEntries :: (_, nat CompoundIndex) lru) (\<lambda>_. False) ''blk'' 7 ''bump'' sample_store)"

text \<open>
  C10. On an open embedded store, after any sequence of writes and deletes of compounds, status reads and other
  operations, \<open>GetStatus\<close> returns the stored row with the proof that the compound stored now for its block gives
  when the transaction is mined, and with each orphaned anchor's proof from that block's stored compound: the
  cache never shows through.
\<close>

theorem GetStatus_proofs:
  assumes "pebble_ok pb view" and "pebble_up pb" and "uncancelled ctx" and "lru_ok cap L entries" and "entries l = []"
    and "0 \<le> leaves" and "(bump_step pb view sdk L R)\<^sup>*\<^sup>* \<lparr>bs_db = d, bs_cache = newWithLimits l r leaves\<rparr> s"
    and "row_at (view (bs_db s)) t = Some row"
  shows "fst (GetStatus pb sdk L R ctx clock t s) =
    Inr (Some (with_proofs sdk (bump_at (view (bs_db s))) (toModel row)))"
proof -
  let ?bumps = "bump_at (view (bs_db s))"
  have cur: "cache_current cap sdk entries ?bumps (bs_cache s)"
    using opened_current [OF assms(1,4,5,6,7)] by (simp add: bump_current_def)
  obtain st1 c1 where e1: "enrichMerklePath pb sdk L R ctx 1 (clock 1) (bs_db s) (toModel row) (bs_cache s) = (st1, c1)"
    by (rule prod.exhaust)
  have st1: "st1 = with_path sdk ?bumps (toModel row)"
    using enrich_exact [OF assms(1,2,3,4) cur, of R 1 "clock 1" "toModel row"] unfolding e1 by simp
  have c1: "cache_current cap sdk entries ?bumps c1"
    using enrich_current [OF assms(1,4) cur, of R ctx 1 "clock 1" "toModel row"] unfolding e1 by simp
  have "ts_TxID st1 = ts_TxID (toModel row)" "ts_OrphanedProofs st1 = ts_OrphanedProofs (toModel row)"
    by (simp_all add: st1 with_path_def)
  then show ?thesis
    using uncancelledD [OF assms(3), of 0] proofs_exact [OF assms(1,2,3,4) c1, of R 2 clock]
    by (simp add: GetStatus_def readStatus_row [OF assms(1,2,8)] e1 enrichOrphanedProofs_def case_prod_unfold
        with_proofs_def st1 [symmetric] Let_def del: One_nat_def)
qed

theorem GetStatus_proofs_witness:
  "fst (GetStatus mem sample_sdk (list_lru maxEntries) (list_lru maxEntries) (\<lambda>_. False) (\<lambda>_. 0) ''tx'' stored_sample) =
    Inr (Some (with_proofs sample_sdk (bump_at (map_of (bs_db stored_sample))) (toModel mined_sample)))"
proof (rule GetStatus_proofs [OF mem_ok mem_up uncancelled_never list_lru_ok, where l = "[]" and leaves = 100])
  show "(bump_step mem map_of sample_sdk (list_lru maxEntries) (list_lru maxEntries))\<^sup>*\<^sup>*
      \<lparr>bs_db = bump_db, bs_cache = newWithLimits [] [] 100\<rparr> stored_sample"
    using bump_step.inserted [of mem map_of sample_sdk "list_lru maxEntries" "list_lru maxEntries" sample_store "\<lambda>_. False" "''blk''" 7 "''bump''"]
    by (simp add: stored_sample_def sample_store_def r_into_rtranclp)
  show "row_at (map_of (bs_db stored_sample)) ''tx'' = Some mined_sample"
    by (simp add: stored_sample_def InsertBUMP_def sample_store_def bump_db_def mem_def row_at_key txKey_def bumpKey_def
        prefixTx_def prefixBump_def)
qed simp_all

end
