(* ===== verification/Finality.thy ===== *)
theory Finality
  imports Go_Prelude "HOL-Library.Word"
begin

text \<open>
  \<open>finality/finality.go\<close> and \<open>finality/mtp.go\<close>: the lock-time gate at intake. Heights, lock times and
  timestamps are 32-bit words, as in the source. The chain source (go-chaintracks) is a parameter: its answers
  during one call. Clock readings are arguments, in nanoseconds; logging and the metrics hook are left out.
\<close>

unbundle bit_operations_syntax

section \<open>The rule\<close>

type_synonym u32 = "32 word"

text \<open>What the check reads of a go-sdk transaction: the input sequence numbers and the lock time.\<close>

record lock_tx =
  lt_Sequences :: "u32 list"
  lt_LockTime :: u32

definition lockTimeThreshold :: u32 where "lockTimeThreshold = 500000000"
definition targetBlockSeconds :: nat where "targetBlockSeconds = 600"
definition DefaultSequenceNumber :: u32 where "DefaultSequenceNumber = 0xffffffff"

record NotFinalError =
  nf_LockTime :: u32
  nf_HeightBased :: bool
  nf_NextBlockHeight :: u32
  nf_MedianTimePast :: u32

datatype finality_error = NoInputs | NotFinal NotFinalError

definition IsTransactionFinal :: "lock_tx \<Rightarrow> u32 \<Rightarrow> u32 \<Rightarrow> finality_error option" where
  "IsTransactionFinal tx nextBlockHeight medianTimePast =
     (if lt_Sequences tx = [] then Some NoInputs
      else if list_all (\<lambda>s. s = DefaultSequenceNumber) (lt_Sequences tx) then None
      else if lt_LockTime tx = 0 then None
      else if lt_LockTime tx < lockTimeThreshold then
        if nextBlockHeight > lt_LockTime tx then None
        else Some (NotFinal \<lparr>nf_LockTime = lt_LockTime tx, nf_HeightBased = True,
               nf_NextBlockHeight = nextBlockHeight, nf_MedianTimePast = medianTimePast\<rparr>)
      else if medianTimePast > lt_LockTime tx then None
      else Some (NotFinal \<lparr>nf_LockTime = lt_LockTime tx, nf_HeightBased = False,
             nf_NextBlockHeight = nextBlockHeight, nf_MedianTimePast = medianTimePast\<rparr>))"

text \<open>The numbers the message of an error renders: the blocks and the seconds that remain, in \<open>uint64\<close>.\<close>

definition remaining :: "NotFinalError \<Rightarrow> 64 word" where
  "remaining e =
     ucast (nf_LockTime e) + 1 - ucast (if nf_HeightBased e then nf_NextBlockHeight e else nf_MedianTimePast e)"

definition remaining_seconds :: "NotFinalError \<Rightarrow> 64 word" where
  "remaining_seconds e =
     (if nf_HeightBased e then remaining e * of_nat targetBlockSeconds else remaining e)"

definition humanizeSeconds :: "64 word \<Rightarrow> string" where
  "humanizeSeconds seconds =
     (let minutes = unat ((seconds + 59) div 60)
      in if minutes < 60 then dec minutes @ ''m''
         else if minutes < 24 * 60 then
           if minutes mod 60 = 0 then dec (minutes div 60) @ ''h''
           else dec (minutes div 60) @ ''h'' @ dec (minutes mod 60) @ ''m''
         else let days = minutes div (24 * 60); hours = (minutes mod (24 * 60)) div 60
              in if hours = 0 then dec days @ ''d'' else dec days @ ''d'' @ dec hours @ ''h'')"

section \<open>The checker\<close>

record 'b snapshot =
  sn_tipHash :: 'b
  sn_tipHeight :: u32
  sn_mtp :: u32
  sn_fetchedAt :: int

text \<open>The zero snapshot, whose \<open>fetchedAt\<close> is the zero time, is \<open>None\<close>.\<close>

record 'b Checker =
  ck_reader :: bool
  ck_heightReader :: bool
  ck_ttl :: int
  ck_snap :: "'b snapshot option"

definition mtpWindow :: u32 where "mtpWindow = 11"
definition defaultTTL :: int where "defaultTTL = 15000000000"

definition NewChecker :: "bool \<Rightarrow> bool \<Rightarrow> int \<Rightarrow> 'b Checker option" where
  "NewChecker reader heightReader ttl =
     (if \<not> reader \<and> \<not> heightReader then None
      else Some \<lparr>ck_reader = reader, ck_heightReader = heightReader, ck_ttl = ttl, ck_snap = None\<rparr>)"

text \<open>
  What a call meets: its clock readings, the tip, the headers (a nil entry is \<open>None\<close>, an error no list), and the
  height source.
\<close>

record 'b chain_reads =
  cr_since :: int
  cr_now :: int
  cr_tip :: "('b \<times> u32) option"
  cr_headers :: "u32 \<Rightarrow> u32 \<Rightarrow> u32 option list option"
  cr_height :: "nat option"

definition header_window :: "u32 \<Rightarrow> u32 \<times> u32" where
  "header_window height =
     (if height \<ge> mtpWindow - 1 then (height - (mtpWindow - 1), mtpWindow) else (0, height + 1))"

definition median_of :: "u32 list \<Rightarrow> u32" where
  "median_of ts = sort ts ! (length ts div 2)"

definition fetch_headers :: "'b chain_reads \<Rightarrow> 'b \<Rightarrow> u32 \<Rightarrow> 'b Checker \<Rightarrow> (u32 \<times> u32) option \<times> 'b Checker" where
  "fetch_headers rd hash height c =
     (case header_window height of (start, n) \<Rightarrow>
        (case cr_headers rd start n of
           None \<Rightarrow> (None, c)
         | Some headers \<Rightarrow>
             (let timestamps = List.map_filter (\<lambda>h. h) headers
              in if timestamps = [] then (None, c)
                 else let median = median_of timestamps
                      in if median = 0 then (None, c)
                         else (Some (height, median),
                               c\<lparr>ck_snap := Some \<lparr>sn_tipHash = hash, sn_tipHeight = height, sn_mtp = median, sn_fetchedAt = cr_now rd\<rparr>\<rparr>))))"

definition chainState :: "'b chain_reads \<Rightarrow> 'b Checker \<Rightarrow> (u32 \<times> u32) option \<times> 'b Checker" where
  "chainState rd c =
     (if (case ck_snap c of Some sn \<Rightarrow> cr_since rd - sn_fetchedAt sn < ck_ttl c | None \<Rightarrow> False)
      then (map_option (\<lambda>sn. (sn_tipHeight sn, sn_mtp sn)) (ck_snap c), c)
      else case cr_tip rd of
             None \<Rightarrow> (None, c)
           | Some (hash, height) \<Rightarrow>
               (case ck_snap c of
                  Some sn \<Rightarrow>
                    if hash = sn_tipHash sn
                    then (Some (sn_tipHeight sn, sn_mtp sn), c\<lparr>ck_snap := Some (sn\<lparr>sn_fetchedAt := cr_now rd\<rparr>)\<rparr>)
                    else fetch_headers rd hash height c
                | None \<Rightarrow> fetch_headers rd hash height c))"

definition lockTimeIrrelevant :: "lock_tx \<Rightarrow> bool" where
  "lockTimeIrrelevant tx \<longleftrightarrow> lt_LockTime tx = 0 \<or> list_all (\<lambda>s. s = DefaultSequenceNumber) (lt_Sequences tx)"

definition nextHeightU32 :: "nat \<Rightarrow> u32" where
  "nextHeightU32 height = (if height \<ge> unat (NOT 0 :: u32) then NOT 0 else of_nat height + 1)"

definition checkHeightOnly :: "'b chain_reads \<Rightarrow> lock_tx \<Rightarrow> 'b Checker \<Rightarrow> finality_error option" where
  "checkHeightOnly rd tx c =
     (if \<not> ck_heightReader c then None
      else if lt_LockTime tx \<ge> lockTimeThreshold then None
      else case cr_height rd of
             None \<Rightarrow> None
           | Some height \<Rightarrow> if height = 0 then None else IsTransactionFinal tx (nextHeightU32 height) 0)"

definition Check :: "'b chain_reads \<Rightarrow> lock_tx \<Rightarrow> 'b Checker option \<Rightarrow> finality_error option \<times> 'b Checker option" where
  "Check rd tx c =
     (case c of
        None \<Rightarrow> (None, None)
      | Some ck \<Rightarrow>
          if lockTimeIrrelevant tx then (None, c)
          else if ck_reader ck then
            (case chainState rd ck of
               (Some (tipHeight, mtp), ck') \<Rightarrow> (IsTransactionFinal tx (tipHeight + 1) mtp, Some ck')
             | (None, ck') \<Rightarrow> (checkHeightOnly rd tx ck', Some ck'))
          else (checkHeightOnly rd tx ck, c))"

section \<open>Remaining time\<close>

text \<open>An error is only built when something remains, so the subtraction does not wrap.\<close>

lemma unat_widen: "unat (ucast (x :: u32) :: 64 word) = unat x"
proof -
  have "unat x < 2 ^ 32" using unsigned_less [of x] by simp
  then show ?thesis by (simp add: unsigned_ucast_eq take_bit_nat_eq_self)
qed

lemma remaining_exact:
  assumes "IsTransactionFinal tx h m = Some (NotFinal e)"
  shows "unat (remaining e) = unat (nf_LockTime e) + 1 - unat (if nf_HeightBased e then nf_NextBlockHeight e else nf_MedianTimePast e)"
    and "0 < unat (remaining e)"
proof -
  let ?now = "if nf_HeightBased e then nf_NextBlockHeight e else nf_MedianTimePast e"
  have le: "?now \<le> nf_LockTime e" using assms by (auto simp: IsTransactionFinal_def split: if_splits)
  then have le': "unat ?now \<le> unat (nf_LockTime e)" by (simp add: word_le_nat_alt)
  have bound: "unat (nf_LockTime e) < 2 ^ 32" using unsigned_less [of "nf_LockTime e"] by simp
  have lock: "unat (ucast (nf_LockTime e) + 1 :: 64 word) = unat (nf_LockTime e) + 1"
    using bound by (simp add: unat_word_ariths unat_widen)
  have now: "unat (ucast ?now :: 64 word) = unat ?now" by (simp add: unat_widen)
  have "(ucast ?now :: 64 word) \<le> ucast (nf_LockTime e) + 1"
    unfolding word_le_nat_alt lock now using le' by simp
  from unat_sub [OF this] show eq: "unat (remaining e) = unat (nf_LockTime e) + 1 - unat ?now"
    unfolding remaining_def lock now .
  show "0 < unat (remaining e)" unfolding eq using le' by linarith
qed

section \<open>The median of the chain\<close>

text \<open>
  A reader of one chain: \<open>chain hash\<close> are the timestamps of the chain that ends in the block, from the
  genesis block on. During a call the reader answers from the chain of the tip it reports, or fails.
\<close>

definition honest :: "('b \<Rightarrow> u32 list) \<Rightarrow> 'b chain_reads \<Rightarrow> bool" where
  "honest chain rd \<longleftrightarrow> (\<forall>hash height. cr_tip rd = Some (hash, height) \<longrightarrow>
     length (chain hash) = unat height + 1 \<and> length (chain hash) < 2 ^ 32 \<and>
     (\<forall>start n hs. cr_headers rd start n = Some hs \<longrightarrow> hs = map Some (take (unat n) (drop (unat start) (chain hash)))))"

text \<open>The median-time-past of BIP113: the median of the last eleven timestamps.\<close>

definition mtp_of :: "u32 list \<Rightarrow> u32" where
  "mtp_of ts = median_of (drop (length ts - 11) ts)"

lemma window_tail:
  assumes "length ts = unat height + 1" and "length ts < 2 ^ 32" and "header_window height = (start, n)"
  shows "take (unat n) (drop (unat start) ts) = drop (length ts - 11) ts"
proof (cases "height \<ge> 10")
  case True
  then have "start = height - 10" "n = 11" using assms(3) by (simp_all add: header_window_def mtpWindow_def)
  then have "unat start = unat height - 10" "unat n = 11" using unat_sub [OF True] by simp_all
  moreover have "unat height \<ge> 10" using True by (simp add: word_le_nat_alt)
  ultimately show ?thesis using assms(1) by simp
next
  case False
  then have "start = 0" "n = height + 1" using assms(3) by (simp_all add: header_window_def mtpWindow_def)
  moreover have "unat (height + 1) = unat height + 1" using assms(1,2) by (simp add: unat_word_ariths)
  moreover have "unat height < 10" using False by (simp add: word_le_nat_alt)
  ultimately show ?thesis using assms(1) by simp
qed

lemma map_filter_Some: "List.map_filter (\<lambda>h. h) (map Some xs) = xs"
  by (induction xs) (simp_all add: List.map_filter_def)

lemma fetch_headers_exact:
  assumes "honest chain rd" and "cr_tip rd = Some (hash, height)"
    and "fetch_headers rd hash height c = (Some (h, m), c')"
  shows "h = height" and "m = mtp_of (chain hash)"
    and "c' = c\<lparr>ck_snap := Some \<lparr>sn_tipHash = hash, sn_tipHeight = height, sn_mtp = m, sn_fetchedAt = cr_now rd\<rparr>\<rparr>"
proof -
  obtain start n where w: "header_window height = (start, n)" by (rule prod.exhaust)
  have len: "length (chain hash) = unat height + 1" "length (chain hash) < 2 ^ 32"
    using assms(1,2) by (simp_all add: honest_def)
  have hs: "List.map_filter (\<lambda>h. h) hs = drop (length (chain hash) - 11) (chain hash)"
    if "cr_headers rd start n = Some hs" for hs
  proof -
    have "hs = map Some (take (unat n) (drop (unat start) (chain hash)))"
      using assms(1,2) that unfolding honest_def by blast
    then show ?thesis by (simp only: map_filter_Some window_tail [OF len w])
  qed
  show "h = height" "m = mtp_of (chain hash)"
    "c' = c\<lparr>ck_snap := Some \<lparr>sn_tipHash = hash, sn_tipHeight = height, sn_mtp = m, sn_fetchedAt = cr_now rd\<rparr>\<rparr>"
    using assms(3) hs
    by (auto simp: fetch_headers_def w mtp_of_def Let_def split: option.splits if_splits)
qed

lemma fetch_headers_none: "fetch_headers rd hash height c = (None, c') \<Longrightarrow> c' = c"
  by (auto simp: fetch_headers_def Let_def split: option.splits if_splits prod.splits)

section \<open>Runs of the gate\<close>

fun run_checks :: "('b chain_reads \<times> lock_tx) list \<Rightarrow> 'b Checker option \<Rightarrow> 'b Checker option" where
  "run_checks [] c = c"
| "run_checks ((rd, tx) # calls) c = run_checks calls (snd (Check rd tx c))"

text \<open>A tip that was read in the call, or in one that ended less than the ttl ago, with its height and median.\<close>

definition seen_tip :: "('b \<Rightarrow> u32 list) \<Rightarrow> 'b chain_reads \<Rightarrow> 'b \<Rightarrow> u32 \<Rightarrow> u32 \<Rightarrow> bool" where
  "seen_tip chain r hash h m \<longleftrightarrow> cr_tip r = Some (hash, h) \<and> m = mtp_of (chain hash)"

definition snap_ok :: "('b \<Rightarrow> u32 list) \<Rightarrow> 'b chain_reads list \<Rightarrow> 'b Checker \<Rightarrow> bool" where
  "snap_ok chain rds c \<longleftrightarrow> (\<forall>sn. ck_snap c = Some sn \<longrightarrow>
     (\<exists>r. r \<in> set rds \<and> cr_now r = sn_fetchedAt sn \<and> seen_tip chain r (sn_tipHash sn) (sn_tipHeight sn) (sn_mtp sn)))"

lemma honest_height:
  assumes "honest chain r" "cr_tip r = Some (hash, h)" "honest chain r'" "cr_tip r' = Some (hash, h')"
  shows "h = h'"
proof -
  have "unat h = unat h'" using assms by (simp add: honest_def)
  then show ?thesis by (rule unsigned_word_eqI)
qed

lemma chainState_ok:
  assumes snap: "snap_ok chain rds c" and honest: "\<And>r. r \<in> set (rd # rds) \<Longrightarrow> honest chain r"
    and res: "chainState rd c = (res, c')"
  shows "snap_ok chain (rd # rds) c'" and "ck_ttl c' = ck_ttl c"
    and "res = Some (h, m) \<Longrightarrow> \<exists>r hash. seen_tip chain r hash h m \<and> (r = rd \<or> r \<in> set rds \<and> cr_since rd - cr_now r < ck_ttl c)"
proof -
  have keep: "snap_ok chain (rd # rds) c" using snap by (fastforce simp: snap_ok_def)
  have all: "snap_ok chain (rd # rds) c' \<and> ck_ttl c' = ck_ttl c \<and> (\<forall>h m. res = Some (h, m) \<longrightarrow>
    (\<exists>r hash. seen_tip chain r hash h m \<and> (r = rd \<or> r \<in> set rds \<and> cr_since rd - cr_now r < ck_ttl c)))"
  proof (cases "case ck_snap c of Some sn \<Rightarrow> cr_since rd - sn_fetchedAt sn < ck_ttl c | None \<Rightarrow> False")
    case True
    then obtain sn where sn: "ck_snap c = Some sn" "cr_since rd - sn_fetchedAt sn < ck_ttl c" by (auto split: option.splits)
    have eq: "res = Some (sn_tipHeight sn, sn_mtp sn)" "c' = c" using res sn by (simp_all add: chainState_def)
    from snap sn(1) obtain r where "r \<in> set rds" "cr_now r = sn_fetchedAt sn" "seen_tip chain r (sn_tipHash sn) (sn_tipHeight sn) (sn_mtp sn)"
      unfolding snap_ok_def by blast
    then show ?thesis using eq keep sn(2) by auto
  next
    case stale: False
    have fetched: ?thesis if tip: "cr_tip rd = Some (hash, height)" and f: "fetch_headers rd hash height c = (res, c')" for hash height
    proof (cases res)
      case None
      then show ?thesis using fetch_headers_none [of rd hash height c c'] f keep by simp
    next
      case (Some p)
      then obtain h m where p: "res = Some (h, m)" by (cases p) auto
      note ex = fetch_headers_exact [OF honest tip, of c h m c'] 
      have "seen_tip chain rd hash h m" "snap_ok chain (rd # rds) c'" "ck_ttl c' = ck_ttl c"
        using ex f p tip by (auto simp: seen_tip_def snap_ok_def)
      then show ?thesis using p by auto
    qed
    show ?thesis
    proof (cases "cr_tip rd")
      case None
      then show ?thesis using res stale keep by (simp add: chainState_def)
    next
      case (Some t)
      then obtain hash height where tip: "cr_tip rd = Some (hash, height)" by (cases t) auto
      show ?thesis
      proof (cases "\<exists>sn. ck_snap c = Some sn \<and> hash = sn_tipHash sn")
        case False
        then have "fetch_headers rd hash height c = (res, c')" using res stale tip by (auto simp: chainState_def split: option.splits)
        then show ?thesis by (rule fetched [OF tip])
      next
        case True
        then obtain sn where sn: "ck_snap c = Some sn" "hash = sn_tipHash sn" by blast
        have eq: "res = Some (sn_tipHeight sn, sn_mtp sn)" "c' = c\<lparr>ck_snap := Some (sn\<lparr>sn_fetchedAt := cr_now rd\<rparr>)\<rparr>"
          using res stale tip sn by (simp_all add: chainState_def)
        from snap sn(1) obtain r where r: "r \<in> set rds" "seen_tip chain r (sn_tipHash sn) (sn_tipHeight sn) (sn_mtp sn)"
          unfolding snap_ok_def by blast
        have "height = sn_tipHeight sn"
          using honest_height [OF honest tip honest, of r "sn_tipHeight sn"] r sn(2) by (simp add: seen_tip_def)
        then have "seen_tip chain rd hash (sn_tipHeight sn) (sn_mtp sn)" using r(2) tip sn(2) by (simp add: seen_tip_def)
        then show ?thesis using eq sn(2) by (auto simp: snap_ok_def)
      qed
    qed
  qed
  then show "snap_ok chain (rd # rds) c'" "ck_ttl c' = ck_ttl c" by blast+
  show "res = Some (h, m) \<Longrightarrow> \<exists>r hash. seen_tip chain r hash h m \<and> (r = rd \<or> r \<in> set rds \<and> cr_since rd - cr_now r < ck_ttl c)"
    using all by blast
qed

lemma chainState_reader: "ck_reader (snd (chainState rd c)) = ck_reader c"
  by (auto simp: chainState_def fetch_headers_def Let_def split: option.splits prod.splits if_splits)

lemma check_reader: "\<exists>c'. snd (Check rd tx (Some c)) = Some c' \<and> ck_reader c' = ck_reader c"
  using chainState_reader [of rd c] by (auto simp: Check_def split: option.splits prod.splits)

lemma check_snap:
  assumes "snap_ok chain rds c" and "\<And>r. r \<in> set (rd # rds) \<Longrightarrow> honest chain r"
  shows "\<exists>c'. snd (Check rd tx (Some c)) = Some c' \<and> snap_ok chain (rd # rds) c' \<and> ck_ttl c' = ck_ttl c"
proof -
  obtain res c' where st: "chainState rd c = (res, c')" by (rule prod.exhaust)
  have "snap_ok chain (rd # rds) c" using assms(1) by (fastforce simp: snap_ok_def)
  then show ?thesis using chainState_ok(1,2) [OF assms st] by (auto simp: Check_def st split: option.splits)
qed

lemma run_snap:
  assumes "snap_ok chain rds c" and "\<And>r. r \<in> set rds \<union> fst ` set calls \<Longrightarrow> honest chain r"
  shows "\<exists>c'. run_checks calls (Some c) = Some c' \<and> snap_ok chain (rev (map fst calls) @ rds) c' \<and> ck_ttl c' = ck_ttl c"
  using assms
proof (induction calls arbitrary: rds c)
  case (Cons call calls)
  obtain rd tx where call: "call = (rd, tx)" by (rule prod.exhaust)
  have h: "\<And>r. r \<in> set (rd # rds) \<Longrightarrow> honest chain r" using Cons.prems(2) by (auto simp: call)
  from check_snap [OF Cons.prems(1) h, where tx = tx] obtain c1 where
    c1: "snd (Check rd tx (Some c)) = Some c1" "snap_ok chain (rd # rds) c1" "ck_ttl c1 = ck_ttl c" by blast
  have "\<exists>c'. run_checks calls (Some c1) = Some c' \<and> snap_ok chain (rev (map fst calls) @ rd # rds) c' \<and> ck_ttl c' = ck_ttl c1"
    by (rule Cons.IH [OF c1(2)]) (use Cons.prems(2) in \<open>auto simp: call\<close>)
  then show ?case using c1 by (simp add: call)
qed simp

text \<open>A chain of one-minute blocks, an honest reader of it at the block of height 20, and two transactions.\<close>

definition minute_chain :: "nat \<Rightarrow> u32 list" where
  "minute_chain n = map (\<lambda>i. of_nat (1000000000 + 60 * i)) [0 ..< n + 1]"

definition minute_reads :: "int \<Rightarrow> nat \<Rightarrow> nat chain_reads" where
  "minute_reads now n = \<lparr>cr_since = now, cr_now = now, cr_tip = Some (n, of_nat n),
     cr_headers = (\<lambda>start k. Some (map Some (take (unat k) (drop (unat start) (minute_chain n))))), cr_height = None\<rparr>"

lemma minute_honest: "n < 1000 \<Longrightarrow> honest minute_chain (minute_reads now n)"
  by (simp add: honest_def minute_reads_def minute_chain_def unat_of_nat)

text \<open>
  C22. In any sequence of intake checks against a chain source that answers from the chain of the tip it
  reports, the verdict on a transaction whose lock time matters is the consensus rule at the height and the
  median-time-past of a tip that this call read, or that a call read which ended less than the snapshot's
  lifetime ago; otherwise no chain state could be had in this call, and the verdict is the height-only one.
\<close>

theorem Check_verdict:
  assumes "list_all (honest chain) (rd # map fst calls)"
    and "NewChecker True hr ttl = Some c" and "\<not> lockTimeIrrelevant tx" and "run_checks calls (Some c) = Some c'"
  shows "(\<exists>r hash h. r \<in> insert rd (fst ` set calls) \<and> (r = rd \<or> cr_since rd - cr_now r < ttl) \<and> cr_tip r = Some (hash, h) \<and>
      fst (Check rd tx (Some c')) = IsTransactionFinal tx (h + 1) (mtp_of (chain hash))) \<or>
    (fst (chainState rd c') = None \<and> fst (Check rd tx (Some c')) = checkHeightOnly rd tx c')"
proof -
  have honest: "r \<in> insert rd (fst ` set calls) \<Longrightarrow> honest chain r" for r using assms(1) by (auto simp: list_all_iff)
  have c: "snap_ok chain [] c" "ck_ttl c = ttl" "ck_reader c" using assms(2) by (auto simp: NewChecker_def snap_ok_def)
  have reader: "run_checks cs (Some k) = Some k' \<Longrightarrow> ck_reader k' = ck_reader k" for cs k k'
  proof (induction cs arbitrary: k)
    case (Cons call cs)
    obtain r t where call: "call = (r, t)" by (rule prod.exhaust)
    obtain k1 where k1: "snd (Check r t (Some k)) = Some k1" "ck_reader k1 = ck_reader k"
      using check_reader [of r t k] by blast
    then show ?case using Cons by (simp add: call)
  qed simp
  from run_snap [OF c(1), of calls] honest assms(4)
  have c': "snap_ok chain (rev (map fst calls)) c'" "ck_ttl c' = ttl" using c(2) by auto
  have rd': "ck_reader c'" using reader [OF assms(4)] c(3) by simp
  obtain res c2 where st: "chainState rd c' = (res, c2)" by (rule prod.exhaust)
  show ?thesis
  proof (cases res)
    case None
    have "c2 = c'" using st None
      by (auto simp: chainState_def fetch_headers_def Let_def split: option.splits prod.splits if_splits)
    then show ?thesis using st None assms(3) rd' by (simp add: Check_def)
  next
    case (Some p)
    then obtain h m where p: "res = Some (h, m)" by (cases p) auto
    have "\<And>r. r \<in> set (rd # rev (map fst calls)) \<Longrightarrow> honest chain r" using honest by auto
    from chainState_ok(3) [OF c'(1) this st p]
    obtain r hash where r: "seen_tip chain r hash h m" "r = rd \<or> r \<in> fst ` set calls \<and> cr_since rd - cr_now r < ttl"
      by (auto simp: c'(2))
    then have "fst (Check rd tx (Some c')) = IsTransactionFinal tx (h + 1) (mtp_of (chain hash))"
      using st p assms(3) rd' by (simp add: Check_def seen_tip_def)
    then show ?thesis using r by (auto simp: seen_tip_def)
  qed
qed

theorem Check_verdict_witness:
  "let tx = \<lparr>lt_Sequences = [0], lt_LockTime = 100\<rparr>; rd = minute_reads 10000000000 21;
       c = \<lparr>ck_reader = True, ck_heightReader = False, ck_ttl = defaultTTL, ck_snap = None\<rparr>;
       c' = the (run_checks [(minute_reads 0 20, tx)] (Some c))
   in (\<exists>r hash h. r \<in> insert rd {minute_reads 0 20} \<and> (r = rd \<or> cr_since rd - cr_now r < defaultTTL) \<and>
        cr_tip r = Some (hash, h) \<and> fst (Check rd tx (Some c')) = IsTransactionFinal tx (h + 1) (mtp_of (minute_chain hash))) \<or>
      (fst (chainState rd c') = None \<and> fst (Check rd tx (Some c')) = checkHeightOnly rd tx c')"
proof -
  define tx where "tx = \<lparr>lt_Sequences = [0], lt_LockTime = 100\<rparr>"
  define c :: "nat Checker" where "c = \<lparr>ck_reader = True, ck_heightReader = False, ck_ttl = defaultTTL, ck_snap = None\<rparr>"
  have a: "list_all (honest minute_chain) (minute_reads 10000000000 21 # map fst [(minute_reads 0 20, tx)])"
    using minute_honest by simp
  have b: "NewChecker True False defaultTTL = Some c" by (simp add: NewChecker_def c_def)
  have t: "\<not> lockTimeIrrelevant tx" by (simp add: lockTimeIrrelevant_def tx_def DefaultSequenceNumber_def)
  have r: "run_checks [(minute_reads 0 20, tx)] (Some c) = Some (the (run_checks [(minute_reads 0 20, tx)] (Some c)))"
    using check_reader [of "minute_reads 0 20" tx c] by auto
  show ?thesis unfolding Let_def tx_def [symmetric] c_def [symmetric]
    using Check_verdict [OF a b t r] by (simp only: list.set image_insert image_empty fst_conv)
qed

end
