(* ===== verification/Teranode_Client.thy ===== *)
theory Teranode_Client
  imports Go_Prelude "HOL-Library.AList"
begin

text \<open>
  \<open>teranode/client.go\<close>: the reading of a \<open>/txs\<close> response and the circuit breaker of the endpoints. The
  regular expressions the source compiles are matchers on the text, and a search finds the leftmost
  non-overlapping matches as package \<open>regexp\<close> does. An HTTP exchange is its outcome (no response, or a status
  code with the body that could be read); the transport, the probe timers, logging and metrics are left out.
\<close>

section \<open>Searching a line\<close>

text \<open>A matcher gives the length of the match at the start of a text.\<close>

type_synonym matcher = "string \<Rightarrow> nat option"

function find_all :: "matcher \<Rightarrow> string \<Rightarrow> string list" where
  "find_all m [] = []"
| "find_all m (c # s) =
     (case m (c # s) of
        Some (Suc n) \<Rightarrow> take (Suc n) (c # s) # find_all m (drop n s)
      | _ \<Rightarrow> find_all m s)"
  by pat_completeness auto

termination by (relation "measure (\<lambda>(m, s). length s)") auto

definition find_first :: "matcher \<Rightarrow> string \<Rightarrow> string option" where
  "find_first m s = (case find_all m s of [] \<Rightarrow> None | x # _ \<Rightarrow> Some x)"

definition hex_digit :: "char \<Rightarrow> bool" where
  "hex_digit c \<longleftrightarrow> fromHexChar c \<noteq> None"

definition dec_digit :: "char \<Rightarrow> bool" where
  "dec_digit c \<longleftrightarrow> (48 :: nat) \<le> of_char c \<and> of_char c \<le> (57 :: nat)"

definition upper_letter :: "char \<Rightarrow> bool" where
  "upper_letter c \<longleftrightarrow> (65 :: nat) \<le> of_char c \<and> of_char c \<le> (90 :: nat)"

definition hex64 :: matcher where
  "hex64 s = (if length s \<ge> 64 \<and> list_all hex_digit (take 64 s) then Some 64 else None)"

section \<open>The failure list of a response\<close>

definition txsFailureHeader :: string where
  "txsFailureHeader = ''Failed to process transactions:''"

definition txsTxidPattern :: matcher where
  "txsTxidPattern = hex64"

definition wrapper :: string where "wrapper = ''[ProcessTransaction]['' "

definition txsWrappedTxidPattern :: matcher where
  "txsWrappedTxidPattern s =
     (if prefix wrapper s \<and> hex64 (drop (length wrapper) s) = Some 64 \<and> prefix '']'' (drop (length wrapper + 64) s)
      then Some (length wrapper + 65) else None)"

text \<open>The hash a line names: the one in the wrapper, or the first one in it.\<close>

definition line_key :: "string \<Rightarrow> string option" where
  "line_key line =
     (case find_first txsWrappedTxidPattern line of
        Some m \<Rightarrow> Some (take 64 (drop (length wrapper) m))
      | None \<Rightarrow> find_first txsTxidPattern line)"

text \<open>The keyed lines are a Go map, written as an association list with distinct keys.\<close>

record TxsFailures =
  tf_ByKey :: "(string \<times> string) list"
  tf_Unkeyed :: "string list"

definition tf_Len :: "TxsFailures option \<Rightarrow> nat" where
  "tf_Len f = (case f of None \<Rightarrow> 0 | Some t \<Rightarrow> length (tf_ByKey t) + length (tf_Unkeyed t))"

definition Keyed :: "TxsFailures option \<Rightarrow> (string \<times> string) list" where
  "Keyed f = (case f of None \<Rightarrow> [] | Some t \<Rightarrow> tf_ByKey t)"

definition newline :: char where "newline = char_of (10 :: nat)"

definition trim_right :: "char \<Rightarrow> string \<Rightarrow> string" where
  "trim_right c s = rev (dropWhile (\<lambda>x. x = c) (rev s))"

fun split_on :: "char \<Rightarrow> string \<Rightarrow> string list" where
  "split_on c [] = [[]]"
| "split_on c (x # s) = (if x = c then [] # split_on c s else case split_on c s of [] \<Rightarrow> [[x]] | l # ls \<Rightarrow> (x # l) # ls)"

fun parse_lines :: "string list \<Rightarrow> TxsFailures \<Rightarrow> TxsFailures" where
  "parse_lines [] out = out"
| "parse_lines (line # lines) out =
     (if line = [] then parse_lines lines out
      else case line_key line of
             None \<Rightarrow> parse_lines lines (out\<lparr>tf_Unkeyed := tf_Unkeyed out @ [line]\<rparr>)
           | Some txid \<Rightarrow> parse_lines lines (out\<lparr>tf_ByKey := AList.update (str_lower txid) line (tf_ByKey out)\<rparr>))"

definition parseTxsFailures :: "bytes \<Rightarrow> TxsFailures option" where
  "parseTxsFailures body =
     (let text = trim_right newline body
      in if text = [] then None
         else case split_on newline text of
                [] \<Rightarrow> None
              | header # lines \<Rightarrow>
                  if header \<noteq> txsFailureHeader then None
                  else let out = parse_lines lines \<lparr>tf_ByKey = [], tf_Unkeyed = []\<rparr>
                       in if tf_Len (Some out) = 0 then None else Some out)"

section \<open>Submitting a batch\<close>

definition white :: "char \<Rightarrow> bool" where
  "white c \<longleftrightarrow> of_char c \<in> {9, 10, 11, 12, 13, 32 :: nat}"

definition TrimSpace :: "string \<Rightarrow> string" where
  "TrimSpace s = rev (dropWhile white (rev (dropWhile white s)))"

definition txsBatchLimitBodies :: "string list" where
  "txsBatchLimitBodies = [''Invalid request body: too many transactions'', ''Invalid request body: too much data'',
     ''Invalid request body: too many submissions'']"

definition isTxsBatchLimitBody :: "bytes \<Rightarrow> bool" where
  "isTxsBatchLimitBody body \<longleftrightarrow> TrimSpace body \<in> set txsBatchLimitBodies"

text \<open>
  The outcome of the exchange: the request could not be built or got no response, or a status with the body,
  \<open>None\<close> when reading it failed. A cancelled request is told apart because the caller asks for it.
\<close>

datatype exchange = NoResponse string bool | Response nat "bytes option"

datatype submit_error = Transport string bool | ErrBatchTooLarge string | UnexpectedStatus string

definition status_text :: "nat \<Rightarrow> bytes \<Rightarrow> string" where
  "status_text code body = ''unexpected status code '' @ dec code @ '': '' @ body"

definition SubmitTransactions :: "exchange \<Rightarrow> nat \<times> TxsFailures option \<times> submit_error option" where
  "SubmitTransactions ex =
     (case ex of
        NoResponse e cancelled \<Rightarrow> (0, None, Some (Transport e cancelled))
      | Response code body \<Rightarrow>
          if code = 200 then (code, None, None)
          else if code = 413 then (code, None, Some (ErrBatchTooLarge (''batch too large: '' @ status_text code (case body of None \<Rightarrow> [] | Some b \<Rightarrow> b))))
          else case body of
                 None \<Rightarrow> (code, None, Some (UnexpectedStatus (''unexpected status code '' @ dec code @ '': reading response body'')))
               | Some b \<Rightarrow>
                   (case parseTxsFailures b of
                      Some f \<Rightarrow> (code, Some f, Some (UnexpectedStatus (''unexpected status code '' @ dec code)))
                    | None \<Rightarrow>
                        if code = 400 \<and> isTxsBatchLimitBody b
                        then (code, None, Some (ErrBatchTooLarge (''batch too large: '' @ status_text code b)))
                        else (code, None, Some (UnexpectedStatus (status_text code b)))))"

section \<open>The circuit breaker\<close>

datatype healthState = stateHealthy | stateUnhealthy
datatype healthSource = sourceConfigured | sourceDiscovered

record endpointHealth =
  consecutiveFailures :: nat
  consecutiveBroadcastFailures :: nat
  consecutiveProbeFailures :: nat
  lastFailure :: "unix_ns option"
  eh_state :: healthState
  eh_source :: healthSource

record tn_client =
  tn_endpoints :: "string list"
  tn_health :: "string \<rightharpoonup> endpointHealth"
  failureThreshold :: nat
  broadcastFailureThreshold :: nat
  minHealthyEndpoints :: int
  belowThreshold :: bool

definition normalizeURL :: "string \<Rightarrow> string" where
  "normalizeURL u = (if u \<noteq> [] \<and> last u = CHR ''/'' then butlast u else u)"

definition seeded :: "healthSource \<Rightarrow> endpointHealth" where
  "seeded src = \<lparr>consecutiveFailures = 0, consecutiveBroadcastFailures = 0, consecutiveProbeFailures = 0,
     lastFailure = None, eh_state = stateHealthy, eh_source = src\<rparr>"

text \<open>The dedup set \<open>seen\<close> holds the keys of \<open>health\<close>: both are only extended together.\<close>

fun add_endpoints :: "healthSource \<Rightarrow> string list \<Rightarrow> tn_client \<Rightarrow> nat \<times> tn_client" where
  "add_endpoints src [] c = (0, c)"
| "add_endpoints src (u # us) c =
     (let n = normalizeURL u
      in if n = [] \<or> tn_health c n \<noteq> None then add_endpoints src us c
         else case add_endpoints src us (c\<lparr>tn_endpoints := tn_endpoints c @ [n], tn_health := (tn_health c)(n \<mapsto> seeded src)\<rparr>) of
                (added, c') \<Rightarrow> (Suc added, c'))"

definition AddEndpoints :: "string list \<Rightarrow> tn_client \<Rightarrow> nat \<times> tn_client" where
  "AddEndpoints = add_endpoints sourceDiscovered"

definition defaultFailureThreshold :: nat where "defaultFailureThreshold = 3"
definition defaultBroadcastFailureThreshold :: nat where "defaultBroadcastFailureThreshold = 10"

definition NewClient :: "string list \<Rightarrow> int \<Rightarrow> int \<Rightarrow> int \<Rightarrow> tn_client" where
  "NewClient endpoints ft bft minHealthy =
     snd (add_endpoints sourceConfigured endpoints
       \<lparr>tn_endpoints = [], tn_health = Map.empty,
        failureThreshold = (if ft \<le> 0 then defaultFailureThreshold else nat ft),
        broadcastFailureThreshold = (if bft \<le> 0 then defaultBroadcastFailureThreshold else nat bft),
        minHealthyEndpoints = (if minHealthy < 0 then 0 else minHealthy), belowThreshold = False\<rparr>)"

definition GetEndpoints :: "tn_client \<Rightarrow> string list" where
  "GetEndpoints c = tn_endpoints c"

definition is_healthy :: "tn_client \<Rightarrow> string \<Rightarrow> bool" where
  "is_healthy c ep \<longleftrightarrow> (case tn_health c ep of None \<Rightarrow> False | Some h \<Rightarrow> eh_state h = stateHealthy)"

definition GetHealthyEndpoints :: "tn_client \<Rightarrow> string list" where
  "GetHealthyEndpoints c = filter (is_healthy c) (tn_endpoints c)"

record EndpointStatus =
  es_URL :: string
  es_Source :: string
  es_Healthy :: bool

definition GetEndpointStatuses :: "tn_client \<Rightarrow> EndpointStatus list" where
  "GetEndpointStatuses c =
     List.map_filter (\<lambda>ep. map_option (\<lambda>h. \<lparr>es_URL = ep,
       es_Source = (if eh_source h = sourceDiscovered then ''discovered'' else ''configured''),
       es_Healthy = (eh_state h = stateHealthy)\<rparr>) (tn_health c ep)) (tn_endpoints c)"

definition recomputeBelowThresholdLocked :: "tn_client \<Rightarrow> tn_client" where
  "recomputeBelowThresholdLocked c =
     (if minHealthyEndpoints c \<le> 0 then c
      else c\<lparr>belowThreshold := int (length (GetHealthyEndpoints c)) < minHealthyEndpoints c\<rparr>)"

text \<open>The shape of the recording operations: an unknown URL is ignored.\<close>

definition on_health :: "string \<Rightarrow> (tn_client \<Rightarrow> endpointHealth \<Rightarrow> endpointHealth) \<Rightarrow> tn_client \<Rightarrow> tn_client" where
  "on_health url f c =
     (case tn_health c (normalizeURL url) of
        None \<Rightarrow> c
      | Some h \<Rightarrow> recomputeBelowThresholdLocked (c\<lparr>tn_health := (tn_health c)(normalizeURL url \<mapsto> f c h)\<rparr>))"

definition reset_health :: "endpointHealth \<Rightarrow> endpointHealth" where
  "reset_health h = h\<lparr>consecutiveFailures := 0, consecutiveBroadcastFailures := 0, consecutiveProbeFailures := 0,
     eh_state := stateHealthy\<rparr>"

definition RecordSuccess :: "string \<Rightarrow> tn_client \<Rightarrow> tn_client" where
  "RecordSuccess url = on_health url (\<lambda>c h. reset_health h)"

definition trip :: "bool \<Rightarrow> endpointHealth \<Rightarrow> endpointHealth" where
  "trip reached h = (if eh_state h = stateHealthy \<and> reached then h\<lparr>eh_state := stateUnhealthy\<rparr> else h)"

definition RecordFailure :: "unix_ns \<Rightarrow> string \<Rightarrow> tn_client \<Rightarrow> tn_client" where
  "RecordFailure now url = on_health url (\<lambda>c h.
     trip (consecutiveFailures h + 1 \<ge> failureThreshold c)
       (h\<lparr>consecutiveFailures := consecutiveFailures h + 1, lastFailure := Some now\<rparr>))"

definition RecordBroadcastFailure :: "unix_ns \<Rightarrow> string \<Rightarrow> tn_client \<Rightarrow> tn_client" where
  "RecordBroadcastFailure now url = on_health url (\<lambda>c h.
     trip (consecutiveBroadcastFailures h + 1 \<ge> broadcastFailureThreshold c)
       (h\<lparr>consecutiveBroadcastFailures := consecutiveBroadcastFailures h + 1, lastFailure := Some now\<rparr>))"

definition recordProbeFailure :: "unix_ns \<Rightarrow> string \<Rightarrow> tn_client \<Rightarrow> tn_client" where
  "recordProbeFailure now url = on_health url (\<lambda>c h.
     trip (consecutiveProbeFailures h + 1 \<ge> failureThreshold c)
       (h\<lparr>consecutiveProbeFailures := consecutiveProbeFailures h + 1, lastFailure := Some now\<rparr>))"

text \<open>On a healthy endpoint the count below the minimum is not recomputed; nothing it depends on changes.\<close>

definition recordProbeSuccess :: "string \<Rightarrow> tn_client \<Rightarrow> tn_client" where
  "recordProbeSuccess url c =
     (case tn_health c (normalizeURL url) of
        None \<Rightarrow> c
      | Some h \<Rightarrow>
          if eh_state h = stateUnhealthy then on_health url (\<lambda>c h. reset_health h) c
          else c\<lparr>tn_health := (tn_health c)(normalizeURL url \<mapsto> h\<lparr>consecutiveProbeFailures := 0\<rparr>)\<rparr>)"

definition probeEndpoint :: "unix_ns \<Rightarrow> string \<Rightarrow> bool \<Rightarrow> tn_client \<Rightarrow> tn_client" where
  "probeEndpoint now url responded c = (if responded then recordProbeSuccess url c else recordProbeFailure now url c)"

definition refreshOnce :: "string list option \<Rightarrow> tn_client \<Rightarrow> tn_client" where
  "refreshOnce urls c = (case urls of None \<Rightarrow> c | Some us \<Rightarrow> snd (AddEndpoints us c))"

section \<open>The breaker is exact\<close>

text \<open>
  An endpoint is sidelined exactly when one of its three counters has reached its threshold, the health table
  covers exactly the registered endpoints, and no endpoint is registered twice.
\<close>

definition tripped :: "tn_client \<Rightarrow> endpointHealth \<Rightarrow> bool" where
  "tripped c h \<longleftrightarrow> consecutiveFailures h \<ge> failureThreshold c \<or>
     consecutiveBroadcastFailures h \<ge> broadcastFailureThreshold c \<or> consecutiveProbeFailures h \<ge> failureThreshold c"

definition client_ok :: "tn_client \<Rightarrow> bool" where
  "client_ok c \<longleftrightarrow> distinct (tn_endpoints c) \<and> dom (tn_health c) = set (tn_endpoints c) \<and>
     0 < failureThreshold c \<and> 0 < broadcastFailureThreshold c \<and>
     (\<forall>ep h. tn_health c ep = Some h \<longrightarrow> (eh_state h = stateUnhealthy \<longleftrightarrow> tripped c h))"

inductive client_step :: "tn_client \<Rightarrow> tn_client \<Rightarrow> bool" where
  added: "client_step c (snd (AddEndpoints us c))"
| succeeded: "client_step c (RecordSuccess url c)"
| unreachable: "client_step c (RecordFailure now url c)"
| refused: "client_step c (RecordBroadcastFailure now url c)"
| probed: "client_step c (probeEndpoint now url responded c)"
| refreshed: "client_step c (refreshOnce urls c)"

lemma recompute_fields [simp]:
  "tn_endpoints (recomputeBelowThresholdLocked c) = tn_endpoints c"
  "tn_health (recomputeBelowThresholdLocked c) = tn_health c"
  "failureThreshold (recomputeBelowThresholdLocked c) = failureThreshold c"
  "broadcastFailureThreshold (recomputeBelowThresholdLocked c) = broadcastFailureThreshold c"
  by (simp_all add: recomputeBelowThresholdLocked_def)

lemma not_healthy: "eh_state h \<noteq> stateHealthy \<longleftrightarrow> eh_state h = stateUnhealthy"
  by (cases "eh_state h") simp_all

lemma client_okI:
  assumes "client_ok c" and "tn_endpoints c' = tn_endpoints c" and "dom (tn_health c') = dom (tn_health c)"
    and "failureThreshold c' = failureThreshold c" and "broadcastFailureThreshold c' = broadcastFailureThreshold c"
    and "\<And>ep h. tn_health c' ep = Some h \<Longrightarrow> (eh_state h = stateUnhealthy) = tripped c h"
  shows "client_ok c'"
  using assms by (simp add: client_ok_def tripped_def)

lemma on_health_ok:
  assumes ok: "client_ok c"
    and f: "\<And>h. (eh_state h = stateUnhealthy) = tripped c h \<Longrightarrow> (eh_state (f c h) = stateUnhealthy) = tripped c (f c h)"
  shows "client_ok (on_health url f c)"
proof (cases "tn_health c (normalizeURL url)")
  case None
  then show ?thesis using ok by (simp add: on_health_def)
next
  case (Some h)
  have old: "tn_health c ep = Some g \<Longrightarrow> (eh_state g = stateUnhealthy) = tripped c g" for ep g
    using ok by (simp add: client_ok_def)
  show ?thesis unfolding on_health_def Some option.case
    by (rule client_okI [OF ok]) (use Some old f [OF old [OF Some]] in \<open>auto split: if_splits\<close>)
qed

lemma reset_not_tripped:
  "client_ok c \<Longrightarrow> (eh_state (reset_health h) = stateUnhealthy) = tripped c (reset_health h)"
  by (simp add: reset_health_def tripped_def client_ok_def)

lemma add_endpoints_ok: "client_ok c \<Longrightarrow> client_ok (snd (add_endpoints src us c))"
proof (induction us arbitrary: c)
  case (Cons u us)
  let ?n = "normalizeURL u"
  let ?c = "c\<lparr>tn_endpoints := tn_endpoints c @ [?n], tn_health := (tn_health c)(?n \<mapsto> seeded src)\<rparr>"
  show ?case
  proof (cases "?n = [] \<or> tn_health c ?n \<noteq> None")
    case True
    then show ?thesis using Cons by (simp add: Let_def)
  next
    case False
    then have "?n \<notin> dom (tn_health c)" by auto
    then have "client_ok ?c" using Cons.prems
      by (auto simp: client_ok_def tripped_def seeded_def split: if_splits)
    from Cons.IH [OF this] show ?thesis using False by (simp add: Let_def case_prod_unfold)
  qed
qed simp

lemma NewClient_ok: "client_ok (NewClient eps ft bft m)"
  unfolding NewClient_def
  by (rule add_endpoints_ok) (simp add: client_ok_def defaultFailureThreshold_def defaultBroadcastFailureThreshold_def)

lemma probe_ok: "client_ok c \<Longrightarrow> client_ok (probeEndpoint now url responded c)"
proof -
  assume ok: "client_ok c"
  have failed: "client_ok (recordProbeFailure now url c)" unfolding recordProbeFailure_def
    by (rule on_health_ok [OF ok]) (auto simp: trip_def tripped_def not_healthy)
  have "client_ok (recordProbeSuccess url c)"
  proof (cases "tn_health c (normalizeURL url)")
    case None
    then show ?thesis using ok by (simp add: recordProbeSuccess_def)
  next
    case (Some h)
    show ?thesis
    proof (cases "eh_state h = stateUnhealthy")
      case True
      then show ?thesis unfolding recordProbeSuccess_def Some option.case
        using on_health_ok [OF ok, of "\<lambda>c h. reset_health h"] reset_not_tripped [OF ok] by simp
    next
      case False
      have "\<not> tripped c h" using ok Some False by (simp add: client_ok_def)
      then have "\<not> tripped c (h\<lparr>consecutiveProbeFailures := 0\<rparr>)" using ok by (simp add: tripped_def client_ok_def)
      then show ?thesis unfolding recordProbeSuccess_def Some option.case using False
        by (auto intro!: client_okI [OF ok] simp: Some dom_def split: if_splits) (use ok in \<open>auto simp: client_ok_def\<close>)
    qed
  qed
  then show ?thesis using failed by (simp add: probeEndpoint_def)
qed

lemma client_step_ok: "client_step c c' \<Longrightarrow> client_ok c \<Longrightarrow> client_ok c'"
proof (induction rule: client_step.induct)
  case (added c us)
  then show ?case by (simp add: AddEndpoints_def add_endpoints_ok)
next
  case (succeeded c url)
  then show ?case unfolding RecordSuccess_def by (intro on_health_ok) (simp_all add: reset_not_tripped)
next
  case (unreachable c now url)
  then show ?case unfolding RecordFailure_def by (intro on_health_ok) (auto simp: trip_def tripped_def not_healthy)
next
  case (refused c now url)
  then show ?case unfolding RecordBroadcastFailure_def by (intro on_health_ok) (auto simp: trip_def tripped_def not_healthy)
next
  case (probed c now url responded)
  then show ?case by (rule probe_ok [rotated])
next
  case (refreshed c urls)
  then show ?case by (cases urls) (simp_all add: refreshOnce_def AddEndpoints_def add_endpoints_ok)
qed

text \<open>
  C25. After any sequence of registrations, refreshes, broadcast outcomes and probes of a new client, the
  endpoints offered for a broadcast are, in registration order and without repetition, the registered ones
  none of whose three failure counters has reached its threshold.
\<close>

theorem breaker_exact:
  assumes "client_step\<^sup>*\<^sup>* (NewClient eps ft bft m) c"
  shows "GetHealthyEndpoints c =
      filter (\<lambda>ep. case tn_health c ep of None \<Rightarrow> False | Some h \<Rightarrow>
        consecutiveFailures h < failureThreshold c \<and> consecutiveBroadcastFailures h < broadcastFailureThreshold c \<and>
        consecutiveProbeFailures h < failureThreshold c) (GetEndpoints c) \<and>
    distinct (GetEndpoints c)"
proof -
  have ok: "client_ok c" using assms
    by (induction rule: rtranclp_induct) (auto intro: NewClient_ok client_step_ok)
  have "is_healthy c ep \<longleftrightarrow> (case tn_health c ep of None \<Rightarrow> False | Some h \<Rightarrow>
      consecutiveFailures h < failureThreshold c \<and> consecutiveBroadcastFailures h < broadcastFailureThreshold c \<and>
      consecutiveProbeFailures h < failureThreshold c)" for ep
  proof (cases "tn_health c ep")
    case (Some h)
    have "(eh_state h = stateUnhealthy) = tripped c h" using ok Some by (simp add: client_ok_def)
    then have "(eh_state h = stateHealthy) = (\<not> tripped c h)" using not_healthy by blast
    then show ?thesis using Some by (simp add: is_healthy_def tripped_def not_le)
  qed (simp add: is_healthy_def)
  then have "is_healthy c = (\<lambda>ep. case tn_health c ep of None \<Rightarrow> False | Some h \<Rightarrow>
      consecutiveFailures h < failureThreshold c \<and> consecutiveBroadcastFailures h < broadcastFailureThreshold c \<and>
      consecutiveProbeFailures h < failureThreshold c)" by (rule ext)
  then show ?thesis using ok by (simp add: GetHealthyEndpoints_def GetEndpoints_def client_ok_def)
qed

theorem breaker_exact_witness:
  "let c = RecordFailure 3 ''a'' (RecordFailure 2 ''a'' (RecordFailure 1 ''a'' (NewClient [''a'', ''b/''] 0 0 1)))
   in GetHealthyEndpoints c =
      filter (\<lambda>ep. case tn_health c ep of None \<Rightarrow> False | Some h \<Rightarrow>
        consecutiveFailures h < failureThreshold c \<and> consecutiveBroadcastFailures h < broadcastFailureThreshold c \<and>
        consecutiveProbeFailures h < failureThreshold c) (GetEndpoints c) \<and>
    distinct (GetEndpoints c)"
  unfolding Let_def 
  by (rule breaker_exact) (rule rtranclp.intros client_step.unreachable)+

end
