(* ===== verification/Arc_Errors.thy ===== *)
theory Arc_Errors
  imports Go_Prelude
begin

text \<open>
  \<open>errors/errors.go\<close> (the ARC status codes and the error body) and the message classification of
  \<open>validator/errmap.go\<close>. The code of a teranode error comes from a package outside the sources and is the
  argument \<open>te\<close>.
\<close>

named_theorems arc_codes \<open>the ARC status codes\<close>

type_synonym StatusCode = int

definition StatusOK :: StatusCode where [arc_codes]: "StatusOK = 200"
definition StatusBadRequest :: StatusCode where [arc_codes]: "StatusBadRequest = 400"
definition StatusNotFound :: StatusCode where [arc_codes]: "StatusNotFound = 404"
definition StatusTxFormat :: StatusCode where [arc_codes]: "StatusTxFormat = 460"
definition StatusUnlockingScripts :: StatusCode where [arc_codes]: "StatusUnlockingScripts = 461"
definition StatusInputs :: StatusCode where [arc_codes]: "StatusInputs = 462"
definition StatusMalformed :: StatusCode where [arc_codes]: "StatusMalformed = 463"
definition StatusOutputs :: StatusCode where [arc_codes]: "StatusOutputs = 464"
definition StatusFees :: StatusCode where [arc_codes]: "StatusFees = 465"
definition StatusConflict :: StatusCode where [arc_codes]: "StatusConflict = 466"
definition StatusGeneric :: StatusCode where [arc_codes]: "StatusGeneric = 467"
definition StatusBeefInvalid :: StatusCode where [arc_codes]: "StatusBeefInvalid = 468"
definition StatusMerkleRoots :: StatusCode where [arc_codes]: "StatusMerkleRoots = 469"
definition StatusFrozenPolicy :: StatusCode where [arc_codes]: "StatusFrozenPolicy = 471"
definition StatusFrozenConsensus :: StatusCode where [arc_codes]: "StatusFrozenConsensus = 472"
definition StatusCumulativeFees :: StatusCode where [arc_codes]: "StatusCumulativeFees = 473"
definition StatusTxSize :: StatusCode where [arc_codes]: "StatusTxSize = 474"
definition StatusMinedAncestorsNotInBUMP :: StatusCode where [arc_codes]: "StatusMinedAncestorsNotInBUMP = 475"
definition StatusNotFinal :: StatusCode where [arc_codes]: "StatusNotFinal = 476"

definition arcDocURL :: string where
  "arcDocURL = ''https://bitcoin-sv.github.io/arc/#/errors?id=_''"

record ErrorFields =
  ef_Type :: string
  ef_Title :: string
  ef_Status :: int
  ef_Detail :: string
  ef_ExtraInfo :: "string option"

record ArcError =
  ae_Err :: string
  ae_StatusCode :: StatusCode
  ae_ExtraInfo :: string

definition ArcError_Error :: "ArcError \<Rightarrow> string" where
  "ArcError_Error e = (if ae_ExtraInfo e \<noteq> [] then ae_Err e @ '': '' @ ae_ExtraInfo e else ae_Err e)"

definition NewArcError :: "string \<Rightarrow> StatusCode \<Rightarrow> ArcError" where
  "NewArcError err code = \<lparr>ae_Err = err, ae_StatusCode = code, ae_ExtraInfo = []\<rparr>"

definition NewArcErrorWithInfo :: "string \<Rightarrow> StatusCode \<Rightarrow> string \<Rightarrow> ArcError" where
  "NewArcErrorWithInfo err code extraInfo = \<lparr>ae_Err = err, ae_StatusCode = code, ae_ExtraInfo = extraInfo\<rparr>"

definition apostrophe :: string where "apostrophe = [char_of (39 :: nat)]"

text \<open>Title and detail of the codes that have their own.\<close>

definition code_text :: "(StatusCode \<times> string \<times> string) list" where
  "code_text =
    [(StatusOK, ''OK'', ''Request successful''),
     (StatusBadRequest, ''Bad request'', ''The request seems to be malformed and cannot be processed''),
     (StatusNotFound, ''Not found'', ''The requested resource could not be found''),
     (StatusTxFormat, ''Not extended format'', ''Missing input scripts: Transaction could not be transformed to extended format''),
     (StatusUnlockingScripts, ''Malformed transaction'', ''Transaction unlocking scripts are invalid''),
     (StatusInputs, ''Invalid inputs'', ''Transaction is invalid because the inputs are non-existent or spent''),
     (StatusMalformed, ''Malformed transaction'', ''Transaction is malformed and cannot be processed''),
     (StatusOutputs, ''Invalid outputs'', ''Transaction is invalid because the outputs are non-existent or invalid''),
     (StatusFees, ''Fee too low'', ''Transaction fee is too low''),
     (StatusConflict, ''Conflicting tx found'', ''Transaction is valid, but there is a conflicting tx in the block template''),
     (StatusGeneric, ''Generic error'', ''Transaction could not be processed''),
     (StatusBeefInvalid, ''Invalid BEEF'', ''BEEF validation failed: BEEF invalid''),
     (StatusMerkleRoots, ''Merkle Roots validation failed'', ''BEEF validation failed: couldn'' @ apostrophe @ ''t verify Merkle Roots''),
     (StatusFrozenPolicy, ''Input Frozen'', ''Input Frozen (blacklist manager policy blacklisted)''),
     (StatusFrozenConsensus, ''Input Frozen'', ''Input Frozen (blacklist manager consensus blacklisted)''),
     (StatusCumulativeFees, ''Cumulative fee validation failed'', ''Cumulative fee validation failed''),
     (StatusTxSize, ''Transaction size validation failed'', ''Transaction size validation failed''),
     (StatusMinedAncestorsNotInBUMP, ''Mined ancestors not found in BUMPs'', ''BEEF validation failed: couldn'' @ apostrophe @ ''t find mined ancestor of the transaction in provided BUMPs''),
     (StatusNotFinal, ''Transaction not final'', ''Transaction nLockTime is in the future and input sequence numbers are not final; resubmit once the locktime expires'')]"

definition doc_type :: "StatusCode \<Rightarrow> string" where
  "doc_type status = arcDocURL @ (if status < 0 then ''-'' else []) @ dec (nat (abs status))"

definition NewErrorFields :: "StatusCode \<Rightarrow> string \<Rightarrow> ErrorFields" where
  "NewErrorFields status extraInfo =
     (let extra = (if extraInfo \<noteq> [] then Some extraInfo else None)
      in case map_of code_text status of
           Some (title, detail) \<Rightarrow>
             \<lparr>ef_Type = doc_type status, ef_Title = title, ef_Status = status, ef_Detail = detail, ef_ExtraInfo = extra\<rparr>
         | None \<Rightarrow>
             \<lparr>ef_Type = doc_type StatusGeneric, ef_Title = ''Generic error'', ef_Status = StatusGeneric,
              ef_Detail = ''Transaction could not be processed'', ef_ExtraInfo = extra\<rparr>)"

definition ToErrorFields :: "ArcError \<Rightarrow> ErrorFields" where
  "ToErrorFields e =
     (let fields = NewErrorFields (ae_StatusCode e) (ae_ExtraInfo e)
      in if ae_ExtraInfo e = [] then fields\<lparr>ef_ExtraInfo := None\<rparr> else fields)"

section \<open>Validator errors\<close>

definition classifyByMessage :: "string \<Rightarrow> ArcError" where
  "classifyByMessage msg =
     (let lower = str_lower msg; has = str_contains lower
      in NewArcErrorWithInfo msg
           (if has ''fee is too low'' \<or> has ''input satoshis is less than output'' then StatusFees
            else if has ''coinbase'' \<or> has ''bad-txns-inputs-too-large'' then StatusInputs
            else if has ''oversize'' \<or> has ''tx-size'' \<or> has ''too big'' then StatusTxSize
            else if has ''gobdk'' \<or> has ''script'' then StatusUnlockingScripts
            else StatusGeneric) msg)"

datatype tn_code = ERR_PROCESSING | ERR_INVALID_ARGUMENT | ERR_OTHER

definition mapTeranodeError :: "string option \<Rightarrow> bool \<Rightarrow> tn_code option \<Rightarrow> ArcError option" where
  "mapTeranodeError err missingSource te =
     (case err of
        None \<Rightarrow> None
      | Some msg \<Rightarrow>
          Some (if missingSource then NewArcErrorWithInfo msg StatusTxFormat msg
                else case te of
                       Some ERR_PROCESSING \<Rightarrow> NewArcErrorWithInfo msg StatusGeneric msg
                     | Some ERR_INVALID_ARGUMENT \<Rightarrow> NewArcErrorWithInfo msg StatusMalformed msg
                     | _ \<Rightarrow> classifyByMessage msg))"

text \<open>The body of an error whose code has a text reports that code.\<close>

lemma NewErrorFields_status:
  "ef_Status (NewErrorFields status x) = (if map_of code_text status = None then StatusGeneric else status)"
  by (simp add: NewErrorFields_def Let_def split: option.splits)

end
