(* ===== verification/Propagation_Verdict.thy ===== *)
theory Propagation_Verdict
  imports Teranode_Client Arc_Errors Models Dispatcher
begin

text \<open>
  How \<open>services/propagation/propagator.go\<close> reads Teranode's failure lines: the codes in a line, their ranking,
  the bucket a line belongs in, and the submitted transaction a line without its txid condemns. The parser of
  raw transactions (go-sdk) is the parameter \<open>spends_of\<close>, which gives the outpoints a transaction spends. The
  iteration order of a Go map is the order of the list a function is given.
\<close>

section \<open>Codes in a line\<close>

text \<open>\<open>strings.Cut\<close>: the text before the first separator, and whether there is one.\<close>

fun Cut :: "string \<Rightarrow> string \<Rightarrow> string \<times> bool" where
  "Cut [] sep = ([], sep = [])"
| "Cut (c # s) sep = (if prefix sep (c # s) then ([], True) else case Cut s sep of (before, found) \<Rightarrow> (c # before, found))"

text \<open>\<open>[A-Z][A-Z0-9_]* \(\d+\)\<close>\<close>

definition code_char :: "char \<Rightarrow> bool" where
  "code_char c \<longleftrightarrow> upper_letter c \<or> dec_digit c \<or> c = CHR ''_''"

definition teranodeNamedCode :: matcher where
  "teranodeNamedCode s =
     (case s of [] \<Rightarrow> None | c # t \<Rightarrow>
        if \<not> upper_letter c then None
        else let run = takeWhile code_char t; rest = drop (length run) t; digits = takeWhile dec_digit (drop 2 rest)
             in if prefix '' ('' rest \<and> digits \<noteq> [] \<and> prefix '')'' (drop (2 + length digits) rest)
                then Some (1 + length run + 2 + length digits + 1) else None)"

definition line_codes :: "string \<Rightarrow> string list" where
  "line_codes line = map (\<lambda>m. fst (Cut m '' ('')) (find_all teranodeNamedCode line)"

definition codeNameScore :: "string \<Rightarrow> int" where
  "codeNameScore name =
     (if name \<in> {''UTXO_SPENT'', ''TX_INVALID_DOUBLE_SPEND'', ''TX_CONFLICTING''} then 40
      else if name \<in> {''TX_INVALID'', ''TX_POLICY'', ''TX_LOCK_TIME'', ''TX_MISSING_PARENT'', ''TX_LOCKED'',
        ''TX_COINBASE_IMMATURE'', ''UTXO_FROZEN'', ''UTXO_NON_FINAL'', ''UTXO_INVALID_SIZE'', ''INVALID_ARGUMENT''} then 30
      else if name = ''PROCESSING'' then 20 else 25)"

definition verdictSpecificity :: "string \<Rightarrow> int" where
  "verdictSpecificity name =
     (if name \<in> {''UTXO_SPENT'', ''TX_INVALID_DOUBLE_SPEND'', ''TX_CONFLICTING''} then 50
      else if name \<in> {''TX_LOCKED'', ''UTXO_FROZEN'', ''TX_LOCK_TIME'', ''UTXO_NON_FINAL''} then 40
      else if name = ''TX_INVALID'' then 30
      else if name = ''PROCESSING'' then 10
      else if codeNameScore name = 30 then 20 else 15)"

definition rejectionLineScore :: "string \<Rightarrow> int" where
  "rejectionLineScore line =
     (let best = fold (\<lambda>name b. max b (codeNameScore name)) (line_codes line) (- 1)
      in if best \<ge> 0 then best
         else case Cut line '' ('' of (name, found) \<Rightarrow> if \<not> found then 0 else codeNameScore name)"

fun verdict_loop :: "string list \<Rightarrow> string \<times> int \<Rightarrow> string \<times> int" where
  "verdict_loop [] nb = nb"
| "verdict_loop (candidate # cs) (name, best) =
     verdict_loop cs (if verdictSpecificity candidate > best then (candidate, verdictSpecificity candidate) else (name, best))"

definition verdictCodeName :: "string \<Rightarrow> string \<times> bool" where
  "verdictCodeName line =
     (case verdict_loop (line_codes line) ([], - 1) of
        (name, best) \<Rightarrow> if best \<ge> 0 then (name, True) else Cut line '' ('')"

definition lineIsMissingParentCondition :: "string \<Rightarrow> bool" where
  "lineIsMissingParentCondition line \<longleftrightarrow> str_contains line ''TX_MISSING_PARENT ('' \<or> str_contains line ''TX_NOT_FOUND (''"

definition lineHasNestedTeranodeVerdict :: "string \<Rightarrow> bool" where
  "lineHasNestedTeranodeVerdict line \<longleftrightarrow> list_ex (\<lambda>name. name \<noteq> ''PROCESSING'') (line_codes line)"

definition lineIsOpaqueProcessing :: "string \<Rightarrow> bool" where
  "lineIsOpaqueProcessing line \<longleftrightarrow> str_contains line ''PROCESSING ('' \<and> \<not> lineHasNestedTeranodeVerdict line"

definition lineIsInfraCondition :: "string \<Rightarrow> bool" where
  "lineIsInfraCondition line \<longleftrightarrow>
     (case Cut line '' ('' of (name, found) \<Rightarrow> found \<and> name \<in> {''STORAGE_ERROR'', ''SERVICE_ERROR'', ''ERROR''})"

section \<open>The spender a conflict names\<close>

definition spent_by :: string where "spent_by = ''already spent by tx ''"

text \<open>\<open>(?i)already spent by tx ([0-9a-f]{64})\<close>, with the letters folded within ASCII.\<close>

definition competingSpenderPattern :: matcher where
  "competingSpenderPattern s =
     (if prefix spent_by (str_lower s) \<and> hex64 (drop (length spent_by) s) = Some 64
      then Some (length spent_by + 64) else None)"

fun distinct_append :: "'a list \<Rightarrow> 'a list \<Rightarrow> 'a list" where
  "distinct_append out [] = out"
| "distinct_append out (x # xs) = distinct_append (if x \<in> set out then out else out @ [x]) xs"

definition competingSpenders :: "string \<Rightarrow> string list" where
  "competingSpenders line =
     distinct_append [] (map (\<lambda>m. str_lower (drop (length spent_by) m)) (find_all competingSpenderPattern line))"

definition preferRejectionLine :: "string \<Rightarrow> string \<Rightarrow> string" where
  "preferRejectionLine current candidate =
     (if candidate = [] then current
      else if current = [] then candidate
      else let cand = rejectionLineScore candidate; cur = rejectionLineScore current
           in if cand > cur then candidate
              else if cand = cur \<and> competingSpenders candidate \<noteq> [] \<and> competingSpenders current = [] then candidate
              else current)"

definition bestUnplaceableLine :: "string \<Rightarrow> string list \<Rightarrow> string" where
  "bestUnplaceableLine bestAlien unkeyed = fold (\<lambda>line best. preferRejectionLine best line) unkeyed bestAlien"

section \<open>Client-facing classification\<close>

text \<open>The UTF-8 bytes of an em dash.\<close>

definition em_dash :: string where "em_dash = map char_of [226, 128, 148 :: nat]"

definition retryable_hint :: string where
  "retryable_hint = '' '' @ em_dash @ '' retryable: the transaction is not final against this peer'' @ apostrophe @
     ''s chain view; resubmit after the locktime expires''"

definition forbidden_hint :: string where
  "forbidden_hint = '' '' @ em_dash @ '' the peer answered HTTP 403 (forbidden): the transaction spends a frozen or '' @
     ''administratively blocked utxo. The peer'' @ apostrophe @ ''s error boundary does not surface the frozen-utxo '' @
     ''code itself, so this status is the whole of the available detail.''"

definition classifyFailureLine :: "string \<Rightarrow> nat \<Rightarrow> string \<times> int" where
  "classifyFailureLine line httpStatus =
     (case verdictCodeName line of
        (name, found) \<Rightarrow>
          if \<not> found then (line, 0)
          else if name \<in> {''TX_LOCK_TIME'', ''UTXO_NON_FINAL''} then (line @ retryable_hint, StatusNotFinal)
          else if name \<in> {''TX_CONFLICTING'', ''UTXO_SPENT'', ''TX_INVALID_DOUBLE_SPEND'', ''TX_LOCKED''} then (line, StatusConflict)
          else if name = ''TX_INVALID'' then (line, StatusGeneric)
          else if name = ''UTXO_FROZEN'' then (line, StatusFrozenPolicy)
          else if name = ''PROCESSING'' then
            if httpStatus = 403 then (line @ forbidden_hint, StatusFrozenPolicy) else (line, 0)
          else (line, 0))"

section \<open>Lines that name no submitted transaction\<close>

fun alien_loop :: "(string \<Rightarrow> bool) \<Rightarrow> (string \<times> string) list \<Rightarrow> nat \<times> string \<Rightarrow> nat \<times> string" where
  "alien_loop inBatch [] acc = acc"
| "alien_loop inBatch ((key, line) # fs) (n, best) =
     alien_loop inBatch fs (if \<not> inBatch key then (Suc n, preferRejectionLine best line) else (n, best))"

definition alienFailureLines :: "(string \<times> string) list \<Rightarrow> (string \<Rightarrow> bool) \<Rightarrow> nat \<times> string" where
  "alienFailureLines failures inBatch = alien_loop inBatch failures (0, [])"

text \<open>\<open>[0-9a-fA-F]{64}:[0-9]{1,10}\<close>\<close>

definition outpointRefPattern :: matcher where
  "outpointRefPattern s =
     (let digits = takeWhile dec_digit (drop 65 s)
      in if hex64 s = Some 64 \<and> prefix '':'' (drop 64 s) \<and> digits \<noteq> [] then Some (65 + min 10 (length digits)) else None)"

datatype owner = Owner nat | outpointOwnerAmbiguous

definition outpoint_key :: "string \<times> nat \<Rightarrow> string" where
  "outpoint_key op = str_lower (fst op) @ '':'' @ dec (snd op)"

fun own_inputs :: "nat \<Rightarrow> (string \<times> nat) list \<Rightarrow> (string \<rightharpoonup> owner) \<Rightarrow> (string \<rightharpoonup> owner)" where
  "own_inputs i [] owners = owners"
| "own_inputs i (op # ops) owners =
     own_inputs i ops
       (let key = outpoint_key op
        in case owners key of
             Some prev \<Rightarrow> if prev \<noteq> Owner i then owners(key \<mapsto> outpointOwnerAmbiguous) else owners(key \<mapsto> Owner i)
           | None \<Rightarrow> owners(key \<mapsto> Owner i))"

fun own_batch :: "(bytes \<Rightarrow> (string \<times> nat) list option) \<Rightarrow> nat \<Rightarrow> propagationMsg list \<Rightarrow> (string \<rightharpoonup> owner) \<Rightarrow> (string \<rightharpoonup> owner)" where
  "own_batch spends_of i [] owners = owners"
| "own_batch spends_of i (msg # msgs) owners =
     own_batch spends_of (Suc i) msgs
       (case spends_of (pm_RawTx msg) of None \<Rightarrow> owners | Some ops \<Rightarrow> own_inputs i ops owners)"

definition buildSubmittedOutpointIndex ::
    "(bytes \<Rightarrow> (string \<times> nat) list option) \<Rightarrow> propagationMsg list \<Rightarrow> (string \<rightharpoonup> owner)" where
  "buildSubmittedOutpointIndex spends_of batch = own_batch spends_of 0 batch Map.empty"

fun attribute_refs :: "(string \<rightharpoonup> owner) \<Rightarrow> string list \<Rightarrow> nat option \<Rightarrow> nat option" where
  "attribute_refs owners [] found = found"
| "attribute_refs owners (ref # refs) found =
     (case owners (str_lower ref) of
        Some (Owner idx) \<Rightarrow>
          (case found of
             Some f \<Rightarrow> if f \<noteq> idx then None else attribute_refs owners refs (Some idx)
           | None \<Rightarrow> attribute_refs owners refs (Some idx))
      | _ \<Rightarrow> attribute_refs owners refs found)"

definition attributeOneConflictLine :: "string \<Rightarrow> (string \<rightharpoonup> owner) \<Rightarrow> nat option" where
  "attributeOneConflictLine line owners = attribute_refs owners (find_all outpointRefPattern line) None"

fun attribute_loop :: "(string \<rightharpoonup> owner) \<Rightarrow> (string \<times> string) list \<Rightarrow> (nat \<times> string) list \<Rightarrow> (nat \<times> string) list" where
  "attribute_loop owners [] attributed = attributed"
| "attribute_loop owners ((key, line) # fs) attributed =
     (case attributeOneConflictLine line owners of
        None \<Rightarrow> attribute_loop owners fs attributed
      | Some idx \<Rightarrow>
          attribute_loop owners fs
            (AList.update idx
              (preferRejectionLine (case map_of attributed idx of None \<Rightarrow> [] | Some l \<Rightarrow> l) line) attributed))"

text \<open>The alien keys are taken in sorted order; with no failures or no owners nothing is attributed.\<close>

definition attributeConflictLines ::
    "(string \<times> string) list \<Rightarrow> (string \<Rightarrow> bool) \<Rightarrow> (string \<rightharpoonup> owner) \<Rightarrow> (nat \<times> string) list" where
  "attributeConflictLines failures inBatch owners =
     attribute_loop owners (sort_key fst (filter (\<lambda>f. \<not> inBatch (fst f)) failures)) []"

section \<open>Log lines\<close>

definition failureLinesForLog :: "((string \<times> string) list \<Rightarrow> (string \<times> string) list) \<Rightarrow> TxsFailures option \<Rightarrow> string list" where
  "failureLinesForLog iter failures =
     (if tf_Len failures = 0 then []
      else let lines = map snd (iter (Keyed failures)) @ (case failures of None \<Rightarrow> [] | Some f \<Rightarrow> tf_Unkeyed f)
           in take 8 (sort_key (\<lambda>l. - rejectionLineScore l) (sort lines)))"

end
