(* ===== verification/Propagation_Broadcast.thy ===== *)
theory Propagation_Broadcast
  imports Propagation_Verdict Chunking
begin

text \<open>
  The broadcast of \<open>services/propagation/propagator.go\<close>: one chunk is posted to every healthy endpoint, the
  answers are folded into votes per transaction, a chunk that drew a line nobody can be blamed for is split in
  halves and sent again, and the endpoints' circuit breakers are charged. What the network answers to a chunk is
  the argument \<open>net\<close>: the answers in order of arrival, after those that never came were dropped. Chunks that the
  source sends in parallel are sent one after the other here; they share nothing but the breaker.
\<close>

section \<open>Votes\<close>

record votes =
  acceptedByAny :: "bool list"
  rejectionLine :: "string list"
  missingParentLine :: "string list"
  infraLine :: "string list"
  rejectionStatus :: "nat list"

definition no_votes :: "nat \<Rightarrow> votes" where
  "no_votes n = \<lparr>acceptedByAny = replicate n False, rejectionLine = replicate n [], missingParentLine = replicate n [],
     infraLine = replicate n [], rejectionStatus = replicate n 0\<rparr>"

definition route :: "nat \<Rightarrow> string \<Rightarrow> nat \<Rightarrow> votes \<Rightarrow> votes" where
  "route idx line statusHint v =
     (if lineIsMissingParentCondition line \<or> (statusHint = 422 \<and> lineIsOpaqueProcessing line)
      then v\<lparr>missingParentLine := (missingParentLine v)[idx := preferRejectionLine (missingParentLine v ! idx) line]\<rparr>
      else if lineIsInfraCondition line \<or> (statusHint \<ge> 500 \<and> lineIsOpaqueProcessing line) \<or>
              (statusHint = 0 \<and> lineIsOpaqueProcessing line)
      then v\<lparr>infraLine := (infraLine v)[idx := preferRejectionLine (infraLine v ! idx) line]\<rparr>
      else let kept = preferRejectionLine (rejectionLine v ! idx) line;
               v1 = (if kept = line then v\<lparr>rejectionStatus := (rejectionStatus v)[idx := statusHint]\<rparr> else v)
           in v1\<lparr>rejectionLine := (rejectionLine v)[idx := kept]\<rparr>)"

fun route_all :: "(nat \<times> string) list \<Rightarrow> nat \<Rightarrow> votes \<Rightarrow> votes" where
  "route_all [] hint v = v"
| "route_all ((idx, line) # rest) hint v = route_all rest hint (route idx line hint v)"

text \<open>The walk over the batch for one peer's failure list.\<close>

fun keyed_loop :: "(string \<times> string) list \<Rightarrow> (nat \<times> string) list \<Rightarrow> nat \<Rightarrow> nat \<Rightarrow> nat \<Rightarrow> string list \<Rightarrow> votes \<Rightarrow> votes" where
  "keyed_loop keyed attributed unplaceable hint j [] v = v"
| "keyed_loop keyed attributed unplaceable hint j (lower # rest) v =
     keyed_loop keyed attributed unplaceable hint (Suc j) rest
       (case map_of keyed lower of
          Some line \<Rightarrow> route j line hint v
        | None \<Rightarrow>
            if map_of attributed j = None \<and> unplaceable = 0
            then v\<lparr>acceptedByAny := (acceptedByAny v)[j := True]\<rparr> else v)"

section \<open>One chunk, every endpoint\<close>

record endpointOutcome =
  eo_endpoint :: string
  eo_statusCode :: nat
  eo_shapeRejected :: bool

record peer_answer =
  pa_endpoint :: string
  pa_exchange :: exchange

definition isCanceledByBroadcast :: "bool \<Rightarrow> submit_error option \<Rightarrow> bool" where
  "isCanceledByBroadcast ctxDone err \<longleftrightarrow> ctxDone \<and> (case err of Some (Transport _ c) \<Rightarrow> c | _ \<Rightarrow> False)"

record tally =
  ty_votes :: votes
  ty_outcomes :: "endpointOutcome list"
  ty_anySuccess :: bool
  ty_successEndpoint :: string
  ty_needsNarrowing :: bool
  ty_sizeRejected :: bool
  ty_sizeReason :: string

definition size_reason :: "propagationMsg list \<Rightarrow> string \<Rightarrow> string" where
  "size_reason batch err = ''teranode rejected the batch as submitted ('' @ dec (length batch) @ '' txs, '' @
     dec (rawTxsBytes (map pm_RawTx batch)) @ '' bytes): '' @ err"

text \<open>
  A failure list: \<open>spends\<close> parses raw transactions, \<open>iter\<close> is the iteration order of the failure map.
\<close>

definition lower_txids :: "propagationMsg list \<Rightarrow> string list" where
  "lower_txids batch = map (\<lambda>m. str_lower (pm_TXID m)) batch"

definition in_batch :: "propagationMsg list \<Rightarrow> string \<Rightarrow> bool" where
  "in_batch batch key \<longleftrightarrow> key \<in> set (lower_txids batch)"

definition failure_votes ::
    "(bytes \<Rightarrow> (string \<times> nat) list option) \<Rightarrow> ((string \<times> string) list \<Rightarrow> (string \<times> string) list)
      \<Rightarrow> propagationMsg list \<Rightarrow> nat \<Rightarrow> TxsFailures \<Rightarrow> tally \<Rightarrow> tally" where
  "failure_votes spends iter batch statusCode f t =
     (let statusHint = (if tf_Len (Some f) = 1 then statusCode else 0);
          keyed = tf_ByKey f;
          (alienCount, bestAlien) = alienFailureLines (iter keyed) (in_batch batch);
          attributed = (if alienCount > 0
                        then attributeConflictLines keyed (in_batch batch) (buildSubmittedOutpointIndex spends batch) else []);
          unplaceable = (alienCount - length attributed) + length (tf_Unkeyed f);
          v1 = keyed_loop keyed attributed unplaceable statusHint 0 (lower_txids batch) (ty_votes t);
          v2 = route_all attributed statusHint v1;
          v3 = (if unplaceable > 0 \<and> length batch = 1
                then route 0 (bestUnplaceableLine bestAlien (tf_Unkeyed f)) statusHint v2 else v2)
      in t\<lparr>ty_votes := v3, ty_needsNarrowing := ty_needsNarrowing t \<or> unplaceable > 0\<rparr>)"

definition peer_votes ::
    "(bytes \<Rightarrow> (string \<times> nat) list option) \<Rightarrow> ((string \<times> string) list \<Rightarrow> (string \<times> string) list)
      \<Rightarrow> propagationMsg list \<Rightarrow> bool \<Rightarrow> peer_answer \<Rightarrow> tally \<Rightarrow> tally" where
  "peer_votes spends iter batch ctxDone p t =
     (case SubmitTransactions (pa_exchange p) of
        (code, failures, err) \<Rightarrow>
          if isCanceledByBroadcast ctxDone err then t
          else let shape = (case err of Some (ErrBatchTooLarge _) \<Rightarrow> True | _ \<Rightarrow> False);
                   t1 = t\<lparr>ty_outcomes := ty_outcomes t @ [\<lparr>eo_endpoint = pa_endpoint p, eo_statusCode = code, eo_shapeRejected = shape\<rparr>]\<rparr>
               in case err of
                    None \<Rightarrow>
                      t1\<lparr>ty_successEndpoint := (if ty_anySuccess t then ty_successEndpoint t else pa_endpoint p), ty_anySuccess := True,
                         ty_votes := (ty_votes t)\<lparr>acceptedByAny := replicate (length batch) True\<rparr>\<rparr>
                  | Some (ErrBatchTooLarge e) \<Rightarrow> t1\<lparr>ty_sizeRejected := True, ty_sizeReason := size_reason batch e\<rparr>
                  | Some _ \<Rightarrow> (case failures of None \<Rightarrow> t1 | Some f \<Rightarrow> if tf_Len failures = 0 then t1 else failure_votes spends iter batch code f t1))"

fun all_votes ::
    "(bytes \<Rightarrow> (string \<times> nat) list option) \<Rightarrow> ((string \<times> string) list \<Rightarrow> (string \<times> string) list)
      \<Rightarrow> propagationMsg list \<Rightarrow> bool \<Rightarrow> peer_answer list \<Rightarrow> tally \<Rightarrow> tally" where
  "all_votes spends iter batch ctxDone [] t = t"
| "all_votes spends iter batch ctxDone (p # ps) t =
     all_votes spends iter batch ctxDone ps (peer_votes spends iter batch ctxDone p t)"

definition unvoted :: "votes \<Rightarrow> nat \<Rightarrow> bool" where
  "unvoted v i \<longleftrightarrow> \<not> acceptedByAny v ! i \<and> rejectionLine v ! i = [] \<and> missingParentLine v ! i = [] \<and> infraLine v ! i = []"

definition size_votes :: "nat \<Rightarrow> tally \<Rightarrow> tally" where
  "size_votes n t =
     (if ty_sizeRejected t
      then t\<lparr>ty_needsNarrowing := ty_needsNarrowing t \<or> list_ex (unvoted (ty_votes t)) [0 ..< n],
             ty_votes := (ty_votes t)\<lparr>infraLine :=
               map (\<lambda>i. if unvoted (ty_votes t) i then ty_sizeReason t else infraLine (ty_votes t) ! i) [0 ..< n]\<rparr>\<rparr>
      else t)"

datatype txResultClass = ClassUnknown | ClassAccepted | ClassRejected | ClassRequeue | ClassMissingParent

record txResult =
  tr_class :: txResultClass
  tr_status :: "transaction_status option"
  tr_errMsg :: string
  tr_rawTx :: bytes
  tr_successEndpoint :: string

definition requeue_result :: "propagationMsg \<Rightarrow> string \<Rightarrow> txResult" where
  "requeue_result msg e = \<lparr>tr_class = ClassRequeue, tr_status = None, tr_errMsg = e, tr_rawTx = pm_RawTx msg, tr_successEndpoint = []\<rparr>"

definition makeRequeueResults :: "propagationMsg list \<Rightarrow> txResult list" where
  "makeRequeueResults batch = map (\<lambda>msg. requeue_result msg []) batch"

definition tx_result :: "unix_ns \<Rightarrow> string \<Rightarrow> votes \<Rightarrow> nat \<Rightarrow> propagationMsg \<Rightarrow> txResult" where
  "tx_result now successEndpoint v i msg =
     (if acceptedByAny v ! i then
        \<lparr>tr_class = ClassAccepted,
         tr_status = Some (empty_status\<lparr>ts_TxID := pm_TXID msg, ts_Status := StatusAcceptedByNetwork, ts_Timestamp := Some now\<rparr>),
         tr_errMsg = [], tr_rawTx = pm_RawTx msg, tr_successEndpoint = successEndpoint\<rparr>
      else if rejectionLine v ! i \<noteq> [] then
        (case classifyFailureLine (rejectionLine v ! i) (rejectionStatus v ! i) of
           (errMsg, arcCode) \<Rightarrow>
             \<lparr>tr_class = ClassRejected,
              tr_status = Some (empty_status\<lparr>ts_TxID := pm_TXID msg, ts_Status := StatusRejected, ts_StatusCode := arcCode,
                ts_Timestamp := Some now, ts_ExtraInfo := errMsg,
                ts_CompetingTxs := (if arcCode = StatusConflict then competingSpenders (rejectionLine v ! i) else [])\<rparr>),
              tr_errMsg = errMsg, tr_rawTx = pm_RawTx msg, tr_successEndpoint = []\<rparr>)
      else if missingParentLine v ! i \<noteq> [] then
        \<lparr>tr_class = ClassMissingParent, tr_status = None, tr_errMsg = missingParentLine v ! i, tr_rawTx = pm_RawTx msg, tr_successEndpoint = []\<rparr>
      else if infraLine v ! i \<noteq> [] then requeue_result msg (infraLine v ! i)
      else requeue_result msg [])"

section \<open>Charging the breakers\<close>

definition is_2xx :: "nat \<Rightarrow> bool" where "is_2xx code \<longleftrightarrow> 200 \<le> code \<and> code < 300"

definition charge_outcome :: "unix_ns \<Rightarrow> bool \<Rightarrow> endpointOutcome \<Rightarrow> tn_client \<Rightarrow> tn_client" where
  "charge_outcome now unanimousReject o1 c =
     (if eo_statusCode o1 = 0 then RecordFailure now (eo_endpoint o1) c
      else if is_2xx (eo_statusCode o1) then RecordSuccess (eo_endpoint o1) c
      else if eo_shapeRejected o1 then c
      else if unanimousReject then RecordSuccess (eo_endpoint o1) c
      else RecordBroadcastFailure now (eo_endpoint o1) c)"

definition unanimous :: "endpointOutcome list \<Rightarrow> bool" where
  "unanimous outcomes \<longleftrightarrow>
     \<not> list_ex (\<lambda>o1. \<not> eo_shapeRejected o1 \<and> is_2xx (eo_statusCode o1)) outcomes \<and>
     list_ex (\<lambda>o1. \<not> eo_shapeRejected o1 \<and> eo_statusCode o1 \<noteq> 0) outcomes"

definition recordBroadcastOutcomes :: "unix_ns \<Rightarrow> endpointOutcome list \<Rightarrow> tn_client \<Rightarrow> tn_client" where
  "recordBroadcastOutcomes now outcomes c = fold (charge_outcome now (unanimous outcomes)) outcomes c"

record broadcast_env =
  be_now :: unix_ns
  be_ctxDone :: bool
  be_iter :: "(string \<times> string) list \<Rightarrow> (string \<times> string) list"
  be_answers :: "peer_answer list"

definition empty_tally :: "nat \<Rightarrow> tally" where
  "empty_tally n = \<lparr>ty_votes = no_votes n, ty_outcomes = [], ty_anySuccess = False, ty_successEndpoint = [],
     ty_needsNarrowing = False, ty_sizeRejected = False, ty_sizeReason = []\<rparr>"

definition broadcastBatchToEndpoints ::
    "(bytes \<Rightarrow> (string \<times> nat) list option) \<Rightarrow> (string list \<Rightarrow> propagationMsg list \<Rightarrow> broadcast_env)
      \<Rightarrow> propagationMsg list \<Rightarrow> tn_client \<Rightarrow> txResult list \<times> string \<times> bool \<times> tn_client" where
  "broadcastBatchToEndpoints spends net batch c =
     (let endpoints = GetHealthyEndpoints c
      in if endpoints = [] then (makeRequeueResults batch, [], False, c)
         else let env = net endpoints batch; n = length batch;
                  t = size_votes n (all_votes spends (be_iter env) batch (be_ctxDone env) (be_answers env) (empty_tally n))
              in (map (\<lambda>i. tx_result (be_now env) (ty_successEndpoint t) (ty_votes t) i (batch ! i)) [0 ..< n],
                  ty_successEndpoint t, ty_needsNarrowing t, recordBroadcastOutcomes (be_now env) (ty_outcomes t) c))"

section \<open>Narrowing and chunks\<close>

text \<open>\<open>broadcastChunk\<close> and \<open>narrowChunk\<close>, which call each other on ever smaller chunks.\<close>

function broadcastChunk ::
    "(bytes \<Rightarrow> (string \<times> nat) list option) \<Rightarrow> (string list \<Rightarrow> propagationMsg list \<Rightarrow> broadcast_env)
      \<Rightarrow> propagationMsg list \<Rightarrow> tn_client \<Rightarrow> txResult list \<times> tn_client" where
  "broadcastChunk spends net chunk c =
     (case broadcastBatchToEndpoints spends net chunk c of
        (results, _, needsNarrowing, c1) \<Rightarrow>
          if needsNarrowing \<and> length chunk > 1
          then let mid = length chunk div 2
               in case broadcastChunk spends net (take mid chunk) c1 of
                    (out1, c2) \<Rightarrow>
                      (case broadcastChunk spends net (drop mid chunk) c2 of (out2, c3) \<Rightarrow> (out1 @ out2, c3))
          else (results, c1))"
  by pat_completeness auto

termination by (relation "measure (\<lambda>(spends, net, chunk, c). length chunk)") auto

declare broadcastChunk.simps [simp del]

fun chunks_loop ::
    "(bytes \<Rightarrow> (string \<times> nat) list option) \<Rightarrow> (string list \<Rightarrow> propagationMsg list \<Rightarrow> broadcast_env)
      \<Rightarrow> propagationMsg list list \<Rightarrow> tn_client \<Rightarrow> txResult list \<times> tn_client" where
  "chunks_loop spends net [] c = ([], c)"
| "chunks_loop spends net (chunk # rest) c =
     (case broadcastChunk spends net chunk c of
        (out1, c1) \<Rightarrow> (case chunks_loop spends net rest c1 of (out2, c2) \<Rightarrow> (out1 @ out2, c2)))"

definition broadcastInChunks ::
    "(bytes \<Rightarrow> (string \<times> nat) list option) \<Rightarrow> (string list \<Rightarrow> propagationMsg list \<Rightarrow> broadcast_env) \<Rightarrow> int \<Rightarrow> int
      \<Rightarrow> propagationMsg list \<Rightarrow> tn_client \<Rightarrow> txResult list \<times> tn_client" where
  "broadcastInChunks spends net teranodeBatchCap teranodeBatchBytesCap batch c =
     chunks_loop spends net
       (map (span_of batch) (planChunks (map pm_RawTx batch) teranodeBatchCap teranodeBatchBytesCap)) c"

end
