(* ===== verification/Propagation_Layers.thy ===== *)
theory Propagation_Layers
  imports Dispatcher "HOL-Library.Multiset" "HOL-Library.Sublist"
begin

text \<open>
  \<open>layerByDependency\<close> of \<open>services/propagation/reaper.go\<close>: the reaper cuts the transactions it rebroadcasts into
  layers so that no layer holds a transaction and one of its parents. The recursion of the source, a depth-first
  walk with a memo and a cycle guard, is given fuel; one unit more than there are messages is enough.
\<close>

section \<open>The walk\<close>

definition tx_index :: "propagationMsg list \<Rightarrow> txid \<Rightarrow> nat option" where
  "tx_index msgs t = find (\<lambda>i. pm_TXID (msgs ! i) = t) [0 ..< length msgs]"

type_synonym memo = "nat list \<times> nat list"

fun resolve :: "nat \<Rightarrow> propagationMsg list \<Rightarrow> nat \<Rightarrow> memo \<Rightarrow> (nat \<times> memo) option"
and resolve_parents :: "nat \<Rightarrow> propagationMsg list \<Rightarrow> nat \<Rightarrow> nat \<Rightarrow> txid list \<Rightarrow> memo \<Rightarrow> (nat \<times> memo) option" where
  "resolve 0 msgs i s = None"
| "resolve (Suc fuel) msgs i (depth, state) =
     (if state ! i = 2 then Some (depth ! i, depth, state)
      else if state ! i = 1 then Some (0, depth, state)
      else case resolve_parents fuel msgs i 0 (pm_InputTXIDs (msgs ! i)) (depth, state[i := 1]) of
             None \<Rightarrow> None
           | Some (best, depth', state') \<Rightarrow> Some (best, depth'[i := best], state'[i := 2]))"
| "resolve_parents fuel msgs i best [] s = Some (best, s)"
| "resolve_parents fuel msgs i best (p # ps) s =
     (case tx_index msgs p of
        None \<Rightarrow> resolve_parents fuel msgs i best ps s
      | Some j \<Rightarrow>
          if j = i then resolve_parents fuel msgs i best ps s
          else case resolve fuel msgs j s of
                 None \<Rightarrow> None
               | Some (d, s') \<Rightarrow> resolve_parents fuel msgs i (if d + 1 > best then d + 1 else best) ps s')"

fun resolve_all :: "nat \<Rightarrow> propagationMsg list \<Rightarrow> nat \<Rightarrow> nat list \<Rightarrow> memo \<Rightarrow> (nat \<times> memo) option" where
  "resolve_all fuel msgs maxDepth [] s = Some (maxDepth, s)"
| "resolve_all fuel msgs maxDepth (i # rest) s =
     (case resolve fuel msgs i s of
        None \<Rightarrow> None
      | Some (d, s') \<Rightarrow> resolve_all fuel msgs (if d > maxDepth then d else maxDepth) rest s')"

definition layer_at :: "propagationMsg list \<Rightarrow> nat list \<Rightarrow> nat \<Rightarrow> propagationMsg list" where
  "layer_at msgs depth k = map (\<lambda>i. msgs ! i) (filter (\<lambda>i. depth ! i = k) [0 ..< length msgs])"

definition layerByDependency :: "propagationMsg list \<Rightarrow> propagationMsg list list option" where
  "layerByDependency msgs =
     (if length msgs < 2 then Some [msgs]
      else let n = length msgs
           in case resolve_all (n + 1) msgs 0 [0 ..< n] (replicate n 0, replicate n 0) of
                None \<Rightarrow> None
              | Some (maxDepth, depth, _) \<Rightarrow> Some (map (layer_at msgs depth) [0 ..< maxDepth + 1]))"

section \<open>The memo only grows\<close>

definition edge :: "propagationMsg list \<Rightarrow> nat \<Rightarrow> nat \<Rightarrow> bool" where
  "edge msgs i j \<longleftrightarrow> i < length msgs \<and> j \<noteq> i \<and> (\<exists>p \<in> set (pm_InputTXIDs (msgs ! i)). tx_index msgs p = Some j)"

definition sized :: "nat \<Rightarrow> memo \<Rightarrow> bool" where
  "sized n s \<longleftrightarrow> length (fst s) = n \<and> length (snd s) = n \<and> set (snd s) \<subseteq> {0, 1, 2}"

definition grows :: "nat \<Rightarrow> memo \<Rightarrow> memo \<Rightarrow> bool" where
  "grows n s s' \<longleftrightarrow> sized n s' \<and>
     (\<forall>k < n. (snd s ! k \<noteq> 0 \<longrightarrow> snd s' ! k = snd s ! k \<and> fst s' ! k = fst s ! k) \<and> (snd s ! k = 0 \<longrightarrow> snd s' ! k \<noteq> 1))"

definition unvisited :: "memo \<Rightarrow> nat" where "unvisited s = card {k. k < length (snd s) \<and> snd s ! k = 0}"

lemma tx_index_bound: "tx_index msgs t = Some j \<Longrightarrow> j < length msgs \<and> pm_TXID (msgs ! j) = t"
  by (auto simp: tx_index_def find_Some_iff)

lemma grows_refl: "sized n s \<Longrightarrow> grows n s s"
  by (auto simp: grows_def)

lemma grows_trans: "grows n s s' \<Longrightarrow> grows n s' s'' \<Longrightarrow> grows n s s''"
  unfolding grows_def by metis

lemma grows_sized: "grows n s s' \<Longrightarrow> sized n s'"
  by (simp add: grows_def)

lemma grows_unvisited: "sized n s \<Longrightarrow> grows n s s' \<Longrightarrow> unvisited s' \<le> unvisited s"
  unfolding unvisited_def grows_def sized_def by (intro card_mono) auto

lemma sized_update: "sized n (depth, state) \<Longrightarrow> v \<in> {0, 1, 2} \<Longrightarrow> sized n (depth, state[i := v])"
  unfolding sized_def using set_update_subset_insert [of state i v] by auto

lemma unvisited_mark:
  assumes "sized n (depth, state)" and "i < n" and "state ! i = 0"
  shows "unvisited (depth, state[i := 1]) < unvisited (depth, state)"
  unfolding unvisited_def by (rule psubset_card_mono) (use assms in \<open>auto simp: sized_def nth_list_update split: if_splits\<close>)

text \<open>Marking a message in progress, growing, and closing it is growing.\<close>

lemma grows_close:
  assumes "sized n (depth, state)" and "i < n" and "state ! i = 0" and "grows n (depth, state[i := 1]) (depth', state')"
  shows "grows n (depth, state) (depth'[i := best], state'[i := 2])"
proof -
  have s': "sized n (depth', state'[i := 2])" using grows_sized [OF assms(4)] by (rule sized_update) simp
  then show ?thesis using assms unfolding grows_def sized_def by (auto simp: nth_list_update)
qed

lemma resolve_grows:
  shows "resolve fuel msgs i s = Some (d, s') \<Longrightarrow> i < length msgs \<Longrightarrow> sized (length msgs) s \<Longrightarrow>
      grows (length msgs) s s' \<and> (snd s ! i \<noteq> 1 \<longrightarrow> snd s' ! i = 2 \<and> d = fst s' ! i)"
    and "resolve_parents fuel msgs i best ps s = Some (best', s') \<Longrightarrow> i < length msgs \<Longrightarrow> sized (length msgs) s \<Longrightarrow>
      grows (length msgs) s s' \<and> best \<le> best'"
proof (induction fuel msgs i s and fuel msgs i best ps s arbitrary: d s' and best' s' rule: resolve_resolve_parents.induct)
  case (2 fuel msgs i depth state)
  show ?case
  proof (cases "state ! i = 2 \<or> state ! i = 1")
    case True
    then show ?thesis using 2 by (auto simp: grows_refl)
  next
    case False
    have zero: "state ! i = 0" using 2(3,4) False unfolding sized_def by (metis nth_mem insert_iff singletonD snd_conv subsetD)
    obtain best depth1 state1 where r: "resolve_parents fuel msgs i 0 (pm_InputTXIDs (msgs ! i)) (depth, state[i := 1]) = Some (best, depth1, state1)"
      and d: "d = best" "s' = (depth1[i := best], state1[i := 2])"
      using 2(2) False by (auto split: option.splits)
    have g: "grows (length msgs) (depth, state[i := 1]) (depth1, state1)"
      using 2(1) [OF _ _ r 2(3) sized_update [OF 2(4)]] False by auto
    show ?thesis using grows_close [OF 2(4,3) zero g, of best] d 2(3) grows_sized [OF g] by (auto simp: sized_def)
  qed
next
  case (4 fuel msgs i best p ps s)
  show ?case
  proof (cases "tx_index msgs p")
    case None
    then show ?thesis using 4 by simp
  next
    case (Some j)
    show ?thesis
    proof (cases "j = i")
      case True
      then show ?thesis using 4 Some by simp
    next
      case False
      obtain e s1 where r: "resolve fuel msgs j s = Some (e, s1)"
        and rest: "resolve_parents fuel msgs i (if e + 1 > best then e + 1 else best) ps s1 = Some (best', s')"
        using 4(5) Some False by (auto split: option.splits)
      have g: "grows (length msgs) s s1" using 4(3) [OF Some False r _ 4(7)] tx_index_bound [OF Some] by simp
      from 4(4) [OF Some False r refl rest 4(6) grows_sized [OF g]]
      have "grows (length msgs) s1 s' \<and> (if e + 1 > best then e + 1 else best) \<le> best'" by auto
      then show ?thesis using grows_trans [OF g] by (auto split: if_splits)
    qed
  qed
qed (auto simp: grows_refl)

section \<open>The fuel is enough\<close>

lemma resolve_returns:
  shows "unvisited s < fuel \<Longrightarrow> i < length msgs \<Longrightarrow> sized (length msgs) s \<Longrightarrow> resolve fuel msgs i s \<noteq> None"
    and "unvisited s < fuel \<Longrightarrow> i < length msgs \<Longrightarrow> sized (length msgs) s \<Longrightarrow> resolve_parents fuel msgs i best ps s \<noteq> None"
proof (induction fuel msgs i s and fuel msgs i best ps s rule: resolve_resolve_parents.induct)
  case (2 fuel msgs i depth state)
  show ?case
  proof (cases "state ! i = 2 \<or> state ! i = 1")
    case False
    then have zero: "state ! i = 0" using 2(3,4) unfolding sized_def by (metis nth_mem insert_iff singletonD snd_conv subsetD)
    have "unvisited (depth, state[i := 1]) < fuel" using unvisited_mark [OF 2(4,3) zero] 2(2) by simp
    then have "resolve_parents fuel msgs i 0 (pm_InputTXIDs (msgs ! i)) (depth, state[i := 1]) \<noteq> None"
      using 2(1) [OF _ _ _ 2(3) sized_update [OF 2(4)]] False by simp
    then show ?thesis using False by (auto split: option.splits)
  qed auto
next
  case (4 fuel msgs i best p ps s)
  show ?case
  proof (cases "\<exists>j. tx_index msgs p = Some j \<and> j \<noteq> i")
    case True
    then obtain j where j: "tx_index msgs p = Some j" "j \<noteq> i" by blast
    have jn: "j < length msgs" using tx_index_bound [OF j(1)] by simp
    obtain e s1 where r: "resolve fuel msgs j s = Some (e, s1)" using 4(3) [OF j 4(5) jn 4(7)] by auto
    have g: "grows (length msgs) s s1" using resolve_grows(1) [OF r jn 4(7)] by simp
    have "unvisited s1 < fuel" using grows_unvisited [OF 4(7) g] 4(5) by simp
    then show ?thesis using 4(4) [OF j r refl _ 4(6) grows_sized [OF g]] j r by simp
  next
    case False
    show ?thesis
    proof (cases "tx_index msgs p")
      case None
      then show ?thesis using 4(1) [OF None 4(5,6,7)] by simp
    next
      case (Some j)
      then show ?thesis using 4(2) [OF Some _ 4(5,6,7)] False by simp
    qed
  qed
qed auto

section \<open>Depths\<close>

definition settled_ok :: "propagationMsg list \<Rightarrow> memo \<Rightarrow> nat \<Rightarrow> bool" where
  "settled_ok msgs s i \<longleftrightarrow>
     (\<forall>j. edge msgs i j \<longrightarrow> snd s ! j = 2 \<and> fst s ! j < fst s ! i) \<and>
     (fst s ! i = 0 \<or> (\<exists>j. edge msgs i j \<and> fst s ! i = fst s ! j + 1))"

definition memo_ok :: "propagationMsg list \<Rightarrow> memo \<Rightarrow> bool" where
  "memo_ok msgs s \<longleftrightarrow> (\<forall>i < length msgs. snd s ! i = 2 \<longrightarrow> settled_ok msgs s i)"

definition above :: "(nat \<Rightarrow> nat) \<Rightarrow> nat \<Rightarrow> nat \<Rightarrow> memo \<Rightarrow> bool" where
  "above rank n r s \<longleftrightarrow> (\<forall>k < n. snd s ! k = 1 \<longrightarrow> r \<le> rank k)"

lemma edge_bound: "edge msgs i j \<Longrightarrow> j < length msgs"
  by (auto simp: edge_def dest: tx_index_bound)

lemma settled_grows:
  assumes "settled_ok msgs s i" and "grows (length msgs) s s'" and "i < length msgs" and "snd s ! i = 2"
  shows "settled_ok msgs s' i"
proof -
  have keep: "k < length msgs \<Longrightarrow> snd s ! k = 2 \<Longrightarrow> snd s' ! k = 2 \<and> fst s' ! k = fst s ! k" for k
    using assms(2) by (auto simp: grows_def)
  have old: "edge msgs i j \<Longrightarrow> snd s ! j = 2 \<and> fst s ! j < fst s ! i" for j using assms(1) by (simp add: settled_ok_def)
  have new: "edge msgs i j \<Longrightarrow> snd s' ! j = 2 \<and> fst s' ! j = fst s ! j" for j
    using keep [OF edge_bound, of i j] old [of j] by simp
  have i: "fst s' ! i = fst s ! i" using keep [OF assms(3,4)] by simp
  show ?thesis using assms(1) new old unfolding settled_ok_def i by force
qed

lemma above_grows:
  assumes "above rank n r s" and "grows n s s'"
  shows "above rank n r s'"
  unfolding above_def
proof (intro allI impI)
  fix k assume k: "k < n" "snd s' ! k = 1"
  have "snd s ! k \<noteq> 0" using assms(2) k by (auto simp: grows_def)
  then show "r \<le> rank k" using assms k by (auto simp: grows_def above_def)
qed

lemma settled_frame:
  assumes "settled_ok msgs (depth, state) k" and "k \<noteq> i" and "state ! i \<noteq> 2"
  shows "settled_ok msgs (depth[i := x], state[i := v]) k"
proof -
  have "edge msgs k j \<Longrightarrow> j \<noteq> i" for j using assms(1,3) by (auto simp: settled_ok_def)
  then show ?thesis using assms(1,2) unfolding settled_ok_def by (fastforce simp: nth_list_update)
qed

lemma memo_mark:
  assumes "memo_ok msgs (depth, state)" and "state ! i = 0" and "i < length state"
  shows "memo_ok msgs (depth, state[i := 1])"
  unfolding memo_ok_def
proof (intro allI impI)
  fix k assume k: "k < length msgs" "snd (depth, state[i := 1]) ! k = 2"
  then have "k \<noteq> i" using assms(3) by auto
  then show "settled_ok msgs (depth, state[i := 1]) k"
    using settled_frame [of msgs depth state k i "depth ! i" 1] assms(1,2) k by (simp add: memo_ok_def)
qed

lemma memo_close:
  assumes "memo_ok msgs (depth, state)" and "sized (length msgs) (depth, state)" and "i < length msgs" and "state ! i = 1"
    and "\<And>j. edge msgs i j \<Longrightarrow> state ! j = 2 \<and> depth ! j < best"
    and "best = 0 \<or> (\<exists>j. edge msgs i j \<and> best = depth ! j + 1)"
  shows "memo_ok msgs (depth[i := best], state[i := 2])"
  unfolding memo_ok_def
proof (intro allI impI)
  fix k assume k: "k < length msgs" "snd (depth[i := best], state[i := 2]) ! k = 2"
  show "settled_ok msgs (depth[i := best], state[i := 2]) k"
  proof (cases "k = i")
    case True
    have ne: "edge msgs i j \<Longrightarrow> j \<noteq> i" for j by (simp add: edge_def)
    have "edge msgs i j \<Longrightarrow> depth[i := best] ! j = depth ! j \<and> state[i := 2] ! j = state ! j" for j using ne [of j] by simp
    moreover have "depth[i := best] ! i = best" using assms(2,3) by (simp add: sized_def)
    ultimately show ?thesis unfolding True settled_ok_def using assms(5,6) by force
  next
    case False
    then show ?thesis using settled_frame [of msgs depth state k i best 2] assms(1,4) k by (simp add: memo_ok_def)
  qed
qed

lemma resolve_correct:
  assumes "\<And>i j. edge msgs i j \<Longrightarrow> rank j < rank i"
  shows "resolve fuel msgs i s = Some (d, s') \<Longrightarrow> i < length msgs \<Longrightarrow> sized (length msgs) s \<Longrightarrow> memo_ok msgs s \<Longrightarrow>
      above rank (length msgs) (Suc (rank i)) s \<Longrightarrow> memo_ok msgs s'"
    and "resolve_parents fuel msgs i best ps s = Some (best', s') \<Longrightarrow> i < length msgs \<Longrightarrow> sized (length msgs) s \<Longrightarrow> memo_ok msgs s \<Longrightarrow>
      above rank (length msgs) (rank i) s \<Longrightarrow> set ps \<subseteq> set (pm_InputTXIDs (msgs ! i)) \<Longrightarrow>
      memo_ok msgs s' \<and> (\<forall>p j. p \<in> set ps \<longrightarrow> tx_index msgs p = Some j \<longrightarrow> j \<noteq> i \<longrightarrow> snd s' ! j = 2 \<and> fst s' ! j < best') \<and>
      (best' = best \<or> (\<exists>j. edge msgs i j \<and> best' = fst s' ! j + 1))"
  using assms
proof (induction fuel msgs i s and fuel msgs i best ps s arbitrary: d s' and best' s' rule: resolve_resolve_parents.induct)
  case (2 fuel msgs i depth state)
  have "state ! i \<noteq> 1" using 2(3,6) by (force simp: above_def)
  show ?case
  proof (cases "state ! i = 2")
    case True
    then show ?thesis using 2 by auto
  next
    case False
    then have zero: "state ! i = 0" using 2(3,4) \<open>state ! i \<noteq> 1\<close> unfolding sized_def
      by (metis nth_mem insert_iff singletonD snd_conv subsetD)
    have len: "i < length state" using 2(3,4) by (simp add: sized_def)
    obtain best depth1 state1 where r: "resolve_parents fuel msgs i 0 (pm_InputTXIDs (msgs ! i)) (depth, state[i := 1]) = Some (best, depth1, state1)"
      and s': "s' = (depth1[i := best], state1[i := 2])"
      using 2(2) False \<open>state ! i \<noteq> 1\<close> by (auto split: option.splits)
    have mark: "sized (length msgs) (depth, state[i := 1])" using sized_update [OF 2(4)] by simp
    have above1: "above rank (length msgs) (rank i) (depth, state[i := 1])"
      using 2(6) len by (auto simp: above_def nth_list_update)
    have g: "grows (length msgs) (depth, state[i := 1]) (depth1, state1)" using resolve_grows(2) [OF r 2(3) mark] by simp
    then have "state1 ! i = 1" using 2(3) len by (auto simp: grows_def)
    moreover have ih: "memo_ok msgs (depth1, state1) \<and>
        (\<forall>p j. p \<in> set (pm_InputTXIDs (msgs ! i)) \<longrightarrow> tx_index msgs p = Some j \<longrightarrow> j \<noteq> i \<longrightarrow> state1 ! j = 2 \<and> depth1 ! j < best) \<and>
        (best = 0 \<or> (\<exists>j. edge msgs i j \<and> best = depth1 ! j + 1))"
      using 2(1) [OF False \<open>state ! i \<noteq> 1\<close> r 2(3) mark memo_mark [OF 2(5) zero len] above1 subset_refl 2(7)] by simp
    then have "edge msgs i j \<Longrightarrow> state1 ! j = 2 \<and> depth1 ! j < best" for j by (auto simp: edge_def)
    ultimately show ?thesis unfolding s' using ih grows_sized [OF g] 2(3) by (intro memo_close) auto
  qed
next
  case (4 fuel msgs i best p ps s)
  show ?case
  proof (cases "\<exists>j. tx_index msgs p = Some j \<and> j \<noteq> i")
    case False
    show ?thesis
    proof (cases "tx_index msgs p")
      case None
      then show ?thesis using 4(1) [OF None _ 4(6,7,8,9) _ 4(11)] 4(5,10) by simp
    next
      case (Some j)
      then show ?thesis using 4(2) [OF Some _ _ 4(6,7,8,9) _ 4(11)] 4(5,10) False by simp
    qed
  next
    case True
    then obtain j where j: "tx_index msgs p = Some j" "j \<noteq> i" by blast
    have jn: "j < length msgs" using tx_index_bound [OF j(1)] by simp
    have e: "edge msgs i j" using j 4(6,10) by (auto simp: edge_def)
    obtain x s1 where r: "resolve fuel msgs j s = Some (x, s1)"
      and rest: "resolve_parents fuel msgs i (if x + 1 > best then x + 1 else best) ps s1 = Some (best', s')"
      using 4(5) j by (auto split: option.splits)
    have above_j: "above rank (length msgs) (Suc (rank j)) s" using 4(9,11) e by (fastforce simp: above_def)
    then have "snd s ! j \<noteq> 1" using jn by (auto simp: above_def)
    then have g: "grows (length msgs) s s1" "snd s1 ! j = 2" "x = fst s1 ! j" using resolve_grows(1) [OF r jn 4(7)] by auto
    have ok1: "memo_ok msgs s1" by (rule 4(3) [OF j r jn 4(7,8) above_j 4(11)])
    have g': "grows (length msgs) s1 s'" "(if x + 1 > best then x + 1 else best) \<le> best'"
      using resolve_grows(2) [OF rest 4(6) grows_sized [OF g(1)]] by auto
    have s': "snd s' ! j = 2" "fst s' ! j = x" using g'(1) g(2,3) jn by (auto simp: grows_def)
    have "set ps \<subseteq> set (pm_InputTXIDs (msgs ! i))" using 4(10) by simp
    from 4(4) [OF j r refl rest 4(6) grows_sized [OF g(1)] ok1 above_grows [OF 4(9) g(1)] this 4(11)]
    have "memo_ok msgs s'" "\<forall>p j. p \<in> set ps \<longrightarrow> tx_index msgs p = Some j \<longrightarrow> j \<noteq> i \<longrightarrow> snd s' ! j = 2 \<and> fst s' ! j < best'"
      "best' = (if x + 1 > best then x + 1 else best) \<or> (\<exists>j. edge msgs i j \<and> best' = fst s' ! j + 1)" by blast+
    then show ?thesis using s' g'(2) e j(1) by (auto split: if_splits)
  qed
qed auto

section \<open>The layers\<close>

definition idle :: "nat \<Rightarrow> memo \<Rightarrow> bool" where
  "idle n s \<longleftrightarrow> (\<forall>k < n. snd s ! k \<noteq> 1)"

lemma idle_grows: "idle n s \<Longrightarrow> grows n s s' \<Longrightarrow> idle n s'"
  unfolding idle_def grows_def by (metis (no_types, lifting))

lemma resolve_all_correct:
  fixes rank :: "nat \<Rightarrow> nat"
  assumes "sized (length msgs) s" and "idle (length msgs) s" and "unvisited s < fuel" and "set is \<subseteq> {..< length msgs}"
  shows "\<exists>m' s'. resolve_all fuel msgs m is s = Some (m', s') \<and> grows (length msgs) s s' \<and> m \<le> m' \<and>
    (\<forall>i \<in> set is. snd s' ! i = 2 \<and> fst s' ! i \<le> m') \<and>
    ((\<forall>i j. edge msgs i j \<longrightarrow> rank j < rank i) \<longrightarrow> memo_ok msgs s \<longrightarrow> memo_ok msgs s')"
  using assms
proof (induction "is" arbitrary: m s)
  case Nil
  then show ?case by (simp add: grows_refl)
next
  case (Cons i rest)
  have i: "i < length msgs" and sub: "set rest \<subseteq> {..< length msgs}" using Cons.prems(4) by simp_all
  obtain d s1 where r: "resolve fuel msgs i s = Some (d, s1)" using resolve_returns(1) [OF Cons.prems(3) i Cons.prems(1)] by auto
  have "snd s ! i \<noteq> 1" using Cons.prems(2) i by (simp add: idle_def)
  then have g: "grows (length msgs) s s1" "snd s1 ! i = 2" "d = fst s1 ! i" using resolve_grows(1) [OF r i Cons.prems(1)] by auto
  have fuel: "unvisited s1 < fuel" using grows_unvisited [OF Cons.prems(1) g(1)] Cons.prems(3) by simp
  from Cons.IH [OF grows_sized [OF g(1)] idle_grows [OF Cons.prems(2) g(1)] fuel sub, of "if d > m then d else m"]
  obtain m' s' where rest: "resolve_all fuel msgs (if d > m then d else m) rest s1 = Some (m', s')" "grows (length msgs) s1 s'"
      "(if d > m then d else m) \<le> m'" "\<forall>i \<in> set rest. snd s' ! i = 2 \<and> fst s' ! i \<le> m'"
      "(\<forall>i j. edge msgs i j \<longrightarrow> rank j < rank i) \<longrightarrow> memo_ok msgs s1 \<longrightarrow> memo_ok msgs s'" by blast
  have keep: "snd s' ! i = 2" "fst s' ! i = d" using rest(2) g(2,3) i by (auto simp: grows_def)
  have above: "above rank (length msgs) (Suc (rank i)) s" using Cons.prems(2) by (simp add: above_def idle_def)
  have "memo_ok msgs s'" if ranked: "\<forall>i j. edge msgs i j \<longrightarrow> rank j < rank i" and "memo_ok msgs s"
  proof -
    have "memo_ok msgs s1" by (rule resolve_correct(1) [OF _ r i Cons.prems(1) that(2) above]) (use ranked in blast)
    then show ?thesis using rest(5) ranked by blast
  qed
  moreover have "m \<le> m'" "d \<le> m'" using rest(3) by (auto split: if_splits)
  ultimately show ?case using r rest(1,4) grows_trans [OF g(1) rest(2)] keep by auto
qed

lemma layers_partition:
  "mset (concat (map (\<lambda>k. map f (filter (\<lambda>i. d i = k) xs)) [0 ..< m])) = mset (map f (filter (\<lambda>i. d i < m) xs))"
proof (induction m)
  case (Suc m)
  have "mset (map f (filter (\<lambda>i. d i < Suc m) xs)) = mset (map f (filter (\<lambda>i. d i < m) xs)) + mset (map f (filter (\<lambda>i. d i = m) xs))"
    by (induction xs) (auto simp: less_Suc_eq)
  then show ?case using Suc by simp
qed simp

lemma layer_at_mem: "c \<in> set (layer_at msgs depth k) \<longleftrightarrow> (\<exists>i < length msgs. c = msgs ! i \<and> depth ! i = k)"
  by (auto simp: layer_at_def)

lemma layer_at_subseq: "subseq (layer_at msgs depth k) msgs"
proof -
  have "subseq (map ((!) msgs) (filter (\<lambda>i. depth ! i = k) [0 ..< length msgs])) (map ((!) msgs) [0 ..< length msgs])"
    by (intro subseq_map subseq_filter_left)
  then show ?thesis by (simp add: layer_at_def map_nth)
qed

lemma edge_iff:
  assumes "distinct (map pm_TXID msgs)" and "i < length msgs" and "j < length msgs"
  shows "edge msgs i j \<longleftrightarrow> j \<noteq> i \<and> pm_TXID (msgs ! j) \<in> set (pm_InputTXIDs (msgs ! i))"
proof -
  have "tx_index msgs p = Some j \<longleftrightarrow> pm_TXID (msgs ! j) = p" for p
  proof
    assume "pm_TXID (msgs ! j) = p"
    moreover have "k < j \<Longrightarrow> pm_TXID (msgs ! k) \<noteq> pm_TXID (msgs ! j)" for k
      using assms(1,3) nth_eq_iff_index_eq [of "map pm_TXID msgs" k j] by auto
    ultimately show "tx_index msgs p = Some j" using assms(3) by (auto simp: tx_index_def find_Some_iff intro!: exI [of _ j])
  qed (simp add: tx_index_bound)
  then show ?thesis using assms(2) by (auto simp: edge_def)
qed

text \<open>
  C19. Let no transaction of the batch spend itself through others. Then the walk returns and its layers hold
  every transaction of the batch exactly once, each layer in the order of the batch; the parents of a
  transaction that are in the batch are in earlier layers than it, and it is in the first layer after theirs.
\<close>

theorem layerByDependency_correct:
  fixes rank :: "propagationMsg \<Rightarrow> nat"
  assumes "distinct (map pm_TXID msgs)"
    and "\<And>c p. c \<in> set msgs \<Longrightarrow> p \<in> set msgs \<Longrightarrow> pm_TXID p \<in> set (pm_InputTXIDs c) \<Longrightarrow> rank p < rank c"
  shows "\<exists>layers. layerByDependency msgs = Some layers \<and> mset (concat layers) = mset msgs \<and>
    (\<forall>k c. k < length layers \<longrightarrow> c \<in> set (layers ! k) \<longrightarrow> subseq (layers ! k) msgs \<and>
      (\<forall>l p. l < length layers \<longrightarrow> p \<in> set (layers ! l) \<longrightarrow> pm_TXID p \<in> set (pm_InputTXIDs c) \<longrightarrow> l < k) \<and>
      (k = 0 \<or> (\<exists>p \<in> set (layers ! (k - 1)). pm_TXID p \<in> set (pm_InputTXIDs c))))"
proof (cases "length msgs < 2")
  case True
  then have "msgs = [] \<or> (\<exists>m. msgs = [m])" by (cases msgs) auto
  moreover have "m \<in> set msgs \<Longrightarrow> pm_TXID m \<notin> set (pm_InputTXIDs m)" for m using assms(2) [of m m] by auto
  ultimately show ?thesis by (auto simp: layerByDependency_def)
next
  case False
  let ?n = "length msgs" and ?s = "(replicate (length msgs) 0, replicate (length msgs) (0 :: nat))"
  have ranked: "edge msgs i j \<Longrightarrow> rank (msgs ! j) < rank (msgs ! i)" for i j
  proof -
    assume e: "edge msgs i j"
    then have ij: "i < ?n" "j < ?n" using edge_bound by (auto simp: edge_def)
    then have "pm_TXID (msgs ! j) \<in> set (pm_InputTXIDs (msgs ! i))" using e edge_iff [OF assms(1) ij] by simp
    then show "rank (msgs ! j) < rank (msgs ! i)" by (rule assms(2) [OF nth_mem [OF ij(1)] nth_mem [OF ij(2)]])
  qed
  have "{k. k < ?n \<and> replicate ?n (0 :: nat) ! k = 0} = {..< ?n}" by auto
  then have "unvisited ?s < ?n + 1" by (simp add: unvisited_def)
  moreover have "sized ?n ?s" "idle ?n ?s" "memo_ok msgs ?s" "set [0 ..< ?n] \<subseteq> {..< ?n}" by (auto simp: sized_def idle_def memo_ok_def)
  ultimately have "\<exists>m s'. resolve_all (?n + 1) msgs 0 [0 ..< ?n] ?s = Some (m, s') \<and>
      (\<forall>i \<in> set [0 ..< ?n]. snd s' ! i = 2 \<and> fst s' ! i \<le> m) \<and> memo_ok msgs s'"
    using resolve_all_correct [of msgs ?s "?n + 1" "[0 ..< ?n]" 0 "\<lambda>i. rank (msgs ! i)"] ranked by blast
  then obtain m s' where r: "resolve_all (?n + 1) msgs 0 [0 ..< ?n] ?s = Some (m, s')"
      and deep: "\<And>i. i < ?n \<Longrightarrow> snd s' ! i = 2 \<and> fst s' ! i \<le> m" and ok: "memo_ok msgs s'" by auto
  obtain depth state where s': "s' = (depth, state)" by (rule prod.exhaust)
  let ?layers = "map (layer_at msgs depth) [0 ..< m + 1]"
  have "layerByDependency msgs = Some ?layers" using False r by (simp add: layerByDependency_def s')
  moreover have "mset (concat ?layers) = mset msgs"
  proof -
    have "filter (\<lambda>i. depth ! i < m + 1) [0 ..< ?n] = [0 ..< ?n]" using deep by (auto simp: s' filter_id_conv less_Suc_eq_le)
    then have "mset (concat (map (\<lambda>k. map ((!) msgs) (filter (\<lambda>i. depth ! i = k) [0 ..< ?n])) [0 ..< m + 1])) = mset msgs"
      using layers_partition [of "(!) msgs" "\<lambda>i. depth ! i" "[0 ..< ?n]" "m + 1"] by (simp only: map_nth)
    then show ?thesis unfolding layer_at_def .
  qed
  moreover have "(\<forall>l p. l < m + 1 \<longrightarrow> p \<in> set (layer_at msgs depth l) \<longrightarrow> pm_TXID p \<in> set (pm_InputTXIDs c) \<longrightarrow> l < k) \<and>
      (k = 0 \<or> (\<exists>p \<in> set (layer_at msgs depth (k - 1)). pm_TXID p \<in> set (pm_InputTXIDs c)))"
    if c: "c \<in> set (layer_at msgs depth k)" for k c
  proof -
    obtain i where i: "i < ?n" "c = msgs ! i" "depth ! i = k" using c by (auto simp: layer_at_mem)
    have settled: "settled_ok msgs (depth, state) i" using ok deep [OF i(1)] i(1) by (simp add: memo_ok_def s')
    show ?thesis
    proof (intro conjI allI impI)
      fix l p assume p: "l < m + 1" "p \<in> set (layer_at msgs depth l)" "pm_TXID p \<in> set (pm_InputTXIDs c)"
      then obtain j where j: "j < ?n" "p = msgs ! j" "depth ! j = l" by (auto simp: layer_at_mem)
      have "j \<noteq> i" using assms(2) [of c p] p(3) i j by auto
      then have "edge msgs i j" using edge_iff [OF assms(1) i(1) j(1)] p(3) i(2) j(2) by simp
      then show "l < k" using settled i(3) j(3) by (auto simp: settled_ok_def)
    next
      show "k = 0 \<or> (\<exists>p \<in> set (layer_at msgs depth (k - 1)). pm_TXID p \<in> set (pm_InputTXIDs c))"
      proof (cases "k = 0")
        case False
        then obtain j where j: "edge msgs i j" "k = depth ! j + 1" using settled i(3) by (auto simp: settled_ok_def)
        have "pm_TXID (msgs ! j) \<in> set (pm_InputTXIDs c)" using edge_iff [OF assms(1) i(1) edge_bound [OF j(1)]] j(1) i(2) by simp
        moreover have "msgs ! j \<in> set (layer_at msgs depth (k - 1))" using j edge_bound [OF j(1)] by (auto simp: layer_at_mem)
        ultimately show ?thesis by blast
      qed simp
    qed
  qed
  ultimately show ?thesis by (intro exI [of _ ?layers]) (auto simp del: upt_Suc simp: layer_at_subseq)
qed

definition plain_msg :: "txid \<Rightarrow> txid list \<Rightarrow> propagationMsg" where
  "plain_msg t parents = \<lparr>pm_TXID = t, pm_RawTx = ''raw'', pm_InputTXIDs = parents, pm_retryCount = 0, pm_merkleRetryCount = 0,
     pm_merkleFailureReason = [], pm_retryReason = []\<rparr>"

lemma sample_layers: "layerByDependency [plain_msg ''c'' [''b'', ''x''], plain_msg ''b'' [''a''], plain_msg ''a'' []] =
    Some [[plain_msg ''a'' []], [plain_msg ''b'' [''a'']], [plain_msg ''c'' [''b'', ''x'']]]"
  by code_simp

theorem layerByDependency_correct_witness:
  "let msgs = [plain_msg ''c'' [''b'', ''x''], plain_msg ''b'' [''a''], plain_msg ''a'' []];
       layers = the (layerByDependency msgs)
   in mset (concat layers) = mset msgs \<and> (\<exists>p \<in> set (layers ! 1). pm_TXID p \<in> set (pm_InputTXIDs (hd (layers ! 2))))"
proof -
  let ?msgs = "[plain_msg ''c'' [''b'', ''x''], plain_msg ''b'' [''a''], plain_msg ''a'' []]"
  have "distinct (map pm_TXID ?msgs)" by (simp add: plain_msg_def)
  moreover have "c \<in> set ?msgs \<Longrightarrow> p \<in> set ?msgs \<Longrightarrow> pm_TXID p \<in> set (pm_InputTXIDs c) \<Longrightarrow>
      length (pm_InputTXIDs p) < length (pm_InputTXIDs c)" for c p by (auto simp: plain_msg_def)
  ultimately show ?thesis
    using layerByDependency_correct [of ?msgs "\<lambda>m. length (pm_InputTXIDs m)"] by (auto simp: sample_layers less_Suc_eq)
qed

end
