(* ===== verification/Propagation_Retry.thy ===== *)
theory Propagation_Retry
  imports Propagation_Broadcast Propagation_Layers Pebble_Status
begin

text \<open>
  What \<open>services/propagation/propagator.go\<close> and \<open>reaper.go\<close> do around a broadcast: registration with the merkle
  service, the settling of every result, the requeue budgets, parking, the durable retry schedule and the reaper's
  rebroadcast. The propagator reaches its store through the interface \<open>store.Store\<close>; here it is the record \<open>S\<close> of the
  operations it calls, whose state also carries what other writers do in between. The world holds that state, the
  live dispatchers, the peers' health and, for the statements about them, the lists of the status rows handed to the
  store by batch writes and give-ups, of the published events, of the terminal events a dispatcher took and of the
  messages handed to the delayed requeue. A walk of the store is the list of the rows it delivers to a callback that
  never stops it. Everything the code learns from outside (the state of
  its context, the clock, random bytes, the answers of the merkle service and of the peers) comes from \<open>ev\<close>, read at
  the number of the step. The store is there: the \<open>nil\<close> store of a few tests is left out.
\<close>

section \<open>The interface and the world\<close>

record 's tx_store =
  st_GetStatus :: "txid \<Rightarrow> 's \<Rightarrow> transaction_status option result \<times> 's"
  st_BatchUpdateStatusReturning :: "transaction_status list \<Rightarrow> 's \<Rightarrow> (status_update list \<times> store_error option) \<times> 's"
  st_BumpRetryCount :: "txid \<Rightarrow> 's \<Rightarrow> int result \<times> 's"
  st_SetPendingRetryFields :: "txid \<Rightarrow> bytes \<Rightarrow> unix_ns \<Rightarrow> string \<Rightarrow> 's \<Rightarrow> unit result \<times> 's"
  st_ClearRetryState :: "txid \<Rightarrow> status \<Rightarrow> string \<Rightarrow> 's \<Rightarrow> unit result \<times> 's"
  st_MarkMerkleRegistered :: "txid list \<Rightarrow> unix_ns \<Rightarrow> 's \<Rightarrow> unit result \<times> 's"
  st_GetReadyRetries :: "unix_ns \<Rightarrow> int \<Rightarrow> 's \<Rightarrow> (pending_retry list \<times> store_error option) \<times> 's"
  st_IterateStatusesSince :: "unix_ns \<Rightarrow> 's \<Rightarrow> (transaction_status list \<times> store_error option) \<times> 's"
  st_TryAcquireOrRenew :: "string \<Rightarrow> string \<Rightarrow> int \<Rightarrow> 's \<Rightarrow> unix_ns option result \<times> 's"

record prop_config =
  merkleEnabled :: bool
  hasPublisher :: bool
  retryMaxAttempts :: int
  merkleRetryMaxAttempts :: int
  pendingRetryMaxAttempts :: int
  pendingRetryBackoff :: int
  pendingRetryMaxBackoff :: int
  teranodeBatchCap :: int
  teranodeBatchBytesCap :: int
  rebroadcastBatch :: int
  hasLeaser :: bool
  holderID :: string
  leaseTTL :: int

datatype register_error = RegCanceled string | RegDeadline string | RegStatus nat string | RegTimeout string | RegOther string

datatype notify_outcome = Replied | NotSent | ReplyLost

record prop_env =
  ev_done :: "nat \<Rightarrow> bool"
  ev_now :: "nat \<Rightarrow> unix_ns"
  ev_rand :: "nat \<Rightarrow> nat option"
  ev_watch :: "nat \<Rightarrow> nat \<Rightarrow> register_error option"
  ev_notify :: "nat \<Rightarrow> notify_outcome"
  ev_net :: "nat \<Rightarrow> string list \<Rightarrow> propagationMsg list \<Rightarrow> broadcast_env"
  ev_ord :: child_order
  ev_spends :: "bytes \<Rightarrow> (string \<times> nat) list option"

record 's world =
  w_store :: 's
  w_disp :: "dispatcher list"
  w_client :: tn_client
  w_tick :: nat
  w_written :: "transaction_status list"
  w_events :: "transaction_status list"
  w_notified :: "(txid \<times> status) list"
  w_requeued :: "propagationMsg list"

definition tick :: "'s world \<Rightarrow> 's world" where "tick w = w\<lparr>w_tick := Suc (w_tick w)\<rparr>"

section \<open>Publishing\<close>

definition publishBulk :: "transaction_status \<Rightarrow> 's world \<Rightarrow> 's world" where
  "publishBulk st w = w\<lparr>w_events := w_events w @ [st]\<rparr>"

definition publishBulkStatus :: "prop_config \<Rightarrow> status \<Rightarrow> txid list \<Rightarrow> unix_ns \<Rightarrow> 's world \<Rightarrow> 's world" where
  "publishBulkStatus cf st txids ts w =
     (if \<not> hasPublisher cf \<or> txids = [] then w
      else publishBulk (empty_status\<lparr>ts_Status := st, ts_Timestamp := Some ts, ts_TxIDs := txids\<rparr>) w)"

type_synonym reject_key = "string \<times> int \<times> string"

fun join_with :: "string \<Rightarrow> string list \<Rightarrow> string" where
  "join_with sep [] = []"
| "join_with sep [x] = x"
| "join_with sep (x # y # rest) = x @ sep @ join_with sep (y # rest)"

definition reject_key :: "transaction_status \<Rightarrow> reject_key" where
  "reject_key st = (ts_ExtraInfo st, ts_StatusCode st, join_with '','' (ts_CompetingTxs st))"

definition reject_group :: "unix_ns \<Rightarrow> transaction_status \<Rightarrow> transaction_status" where
  "reject_group ts st = empty_status\<lparr>ts_Status := StatusRejected, ts_StatusCode := ts_StatusCode st, ts_Timestamp := Some ts,
     ts_ExtraInfo := ts_ExtraInfo st, ts_CompetingTxs := ts_CompetingTxs st\<rparr>"

definition add_txid :: "txid \<Rightarrow> transaction_status \<Rightarrow> transaction_status" where
  "add_txid t g = g\<lparr>ts_TxIDs := ts_TxIDs g @ [t]\<rparr>"

fun group_loop :: "unix_ns \<Rightarrow> transaction_status list \<Rightarrow> (reject_key \<times> transaction_status) list \<Rightarrow> (reject_key \<times> transaction_status) list" where
  "group_loop ts [] groups = groups"
| "group_loop ts (st # rest) groups =
     (let key = reject_key st;
          groups1 = (if key \<in> fst ` set groups then groups else groups @ [(key, reject_group ts st)])
      in group_loop ts rest (map (\<lambda>(k, g). (k, if k = key then add_txid (ts_TxID st) g else g)) groups1))"

definition publishRejections :: "prop_config \<Rightarrow> transaction_status list \<Rightarrow> unix_ns \<Rightarrow> 's world \<Rightarrow> 's world" where
  "publishRejections cf rejected ts w =
     (if \<not> hasPublisher cf \<or> rejected = [] then w else fold (publishBulk \<circ> snd) (group_loop ts rejected []) w)"

section \<open>Ancestors\<close>

definition parentTxIDsOf :: "prop_env \<Rightarrow> propagationMsg \<Rightarrow> txid list" where
  "parentTxIDsOf ev msg =
     (if pm_InputTXIDs msg \<noteq> [] then pm_InputTXIDs msg
      else case ev_spends ev (pm_RawTx msg) of None \<Rightarrow> [] | Some ins \<Rightarrow> map fst ins)"

definition bare_msg :: "txid \<Rightarrow> bytes \<Rightarrow> propagationMsg" where
  "bare_msg t raw = \<lparr>pm_TXID = t, pm_RawTx = raw, pm_InputTXIDs = [], pm_retryCount = 0, pm_merkleRetryCount = 0,
     pm_merkleFailureReason = [], pm_retryReason = []\<rparr>"

definition maxAncestorWalkDepth :: nat where "maxAncestorWalkDepth = 8"

definition climbs :: "transaction_status \<Rightarrow> bool" where
  "climbs row \<longleftrightarrow> (ts_Status row = StatusPendingRetry \<or> ts_Status row = StatusReceived) \<and> ts_RawTx row \<noteq> []"

fun ancestor_level ::
    "'s tx_store \<Rightarrow> prop_env \<Rightarrow> txid list \<Rightarrow> txid list \<Rightarrow> txid list \<Rightarrow> 's \<Rightarrow> (txid + txid list \<times> txid list) \<times> 's" where
  "ancestor_level S ev [] visited next1 s = (Inr (visited, next1), s)"
| "ancestor_level S ev (a # rest) visited next1 s =
     (if a = [] \<or> a \<in> set visited then ancestor_level S ev rest visited next1 s
      else case st_GetStatus S a s of
             (Inr (Some row), s1) \<Rightarrow>
               if ts_Status row = StatusRejected then (Inl a, s1)
               else ancestor_level S ev rest (a # visited)
                      (if climbs row then next1 @ parentTxIDsOf ev (bare_msg a (ts_RawTx row)) else next1) s1
           | (_, s1) \<Rightarrow> ancestor_level S ev rest (a # visited) next1 s1)"

fun ancestor_walk :: "'s tx_store \<Rightarrow> prop_env \<Rightarrow> nat \<Rightarrow> txid list \<Rightarrow> txid list \<Rightarrow> 's \<Rightarrow> txid option \<times> 's" where
  "ancestor_walk S ev 0 frontier visited s = (None, s)"
| "ancestor_walk S ev (Suc n) frontier visited s =
     (if frontier = [] then (None, s)
      else case ancestor_level S ev frontier visited [] s of
             (Inl a, s1) \<Rightarrow> (Some a, s1)
           | (Inr (visited1, next1), s1) \<Rightarrow> ancestor_walk S ev n next1 visited1 s1)"

definition rejectedAncestor :: "'s tx_store \<Rightarrow> prop_env \<Rightarrow> propagationMsg \<Rightarrow> 's \<Rightarrow> txid option \<times> 's" where
  "rejectedAncestor S ev msg s = ancestor_walk S ev maxAncestorWalkDepth (parentTxIDsOf ev msg) [pm_TXID msg] s"

definition cascadeReason :: "status \<Rightarrow> txid \<Rightarrow> string" where
  "cascadeReason st ancestor =
     (if st = StatusPendingRetry
      then ''parent parked for durable retry (ancestor '' @ ancestor @ ''): retryable '' @ em_dash @
           '' the ancestor got no network verdict; both are rebroadcast by the reaper''
      else ''parent rejected (ancestor '' @ ancestor @ ''): retryable '' @ em_dash @
           '' resubmit after the ancestor is accepted'')"

definition plain_status :: "txid \<Rightarrow> status \<Rightarrow> unix_ns \<Rightarrow> string \<Rightarrow> transaction_status" where
  "plain_status t st now info = empty_status\<lparr>ts_TxID := t, ts_Status := st, ts_Timestamp := Some now, ts_ExtraInfo := info\<rparr>"

fun resolve_missing_loop ::
    "'s tx_store \<Rightarrow> prop_env \<Rightarrow> unix_ns \<Rightarrow> (propagationMsg \<times> string) list \<Rightarrow> transaction_status list \<Rightarrow> propagationMsg list
      \<Rightarrow> 's world \<Rightarrow> transaction_status list \<times> propagationMsg list \<times> 's world" where
  "resolve_missing_loop S ev now [] cascaded requeue w = (cascaded, requeue, w)"
| "resolve_missing_loop S ev now ((msg, line) # rest) cascaded requeue w =
     (case rejectedAncestor S ev msg (w_store w) of
        (Some ancestor, s1) \<Rightarrow>
          resolve_missing_loop S ev now rest
            (cascaded @ [plain_status (pm_TXID msg) StatusRejected now (cascadeReason StatusRejected ancestor)]) requeue (w\<lparr>w_store := s1\<rparr>)
      | (None, s1) \<Rightarrow>
          resolve_missing_loop S ev now rest cascaded (requeue @ [msg\<lparr>pm_retryReason := line\<rparr>]) (w\<lparr>w_store := s1\<rparr>))"

definition resolveMissingParents ::
    "'s tx_store \<Rightarrow> prop_env \<Rightarrow> (propagationMsg \<times> string) list \<Rightarrow> 's world \<Rightarrow> transaction_status list \<times> propagationMsg list \<times> 's world" where
  "resolveMissingParents S ev msgs w = resolve_missing_loop S ev (ev_now ev (w_tick w)) msgs [] [] (tick w)"

section \<open>The durable retry schedule\<close>

definition defaultPendingRetryBackoff :: int where "defaultPendingRetryBackoff = 5000000000"

text \<open>The doubling loop, from its second round on.\<close>

fun backoff_loop :: "nat \<Rightarrow> int \<Rightarrow> int \<Rightarrow> int" where
  "backoff_loop 0 maxBackoff delay = delay"
| "backoff_loop (Suc n) maxBackoff delay = (if delay < maxBackoff then backoff_loop n maxBackoff (delay * 2) else delay)"

text \<open>
  The jitter, computed exactly: \<open>time.Duration((frac * 0.4 - 0.2) * float64(delay))\<close> with \<open>frac = r / 65535\<close>, cut
  towards zero. The source rounds to \<open>float64\<close> on the way.
\<close>

definition jitter :: "nat \<Rightarrow> int \<Rightarrow> int" where
  "jitter r delay = (let x = (4 * int r - 2 * 65535) * delay in if x \<ge> 0 then x div 655350 else - ((- x) div 655350))"

definition nextPendingRetryDelay :: "prop_config \<Rightarrow> nat option \<Rightarrow> int \<Rightarrow> int" where
  "nextPendingRetryDelay cf rnd retryCount =
     (let base = (if pendingRetryBackoff cf \<le> 0 then defaultPendingRetryBackoff else pendingRetryBackoff cf);
          maxBackoff = (if pendingRetryMaxBackoff cf < base then base else pendingRetryMaxBackoff cf);
          d1 = backoff_loop (nat (retryCount - 1)) maxBackoff base;
          d2 = (if d1 > maxBackoff then maxBackoff else d1);
          d3 = (case rnd of None \<Rightarrow> d2 | Some r \<Rightarrow> d2 + jitter r d2)
      in if d3 < 1000000 then 1000000 else d3)"

definition dec_int :: "int \<Rightarrow> string" where
  "dec_int n = (if n < 0 then ''-'' @ dec (nat (- n)) else dec (nat n))"

definition giveUpReason :: "int \<Rightarrow> string \<Rightarrow> string" where
  "giveUpReason maxAttempts lastReason =
     (let start = ''no network verdict after '' @ dec_int maxAttempts @ '' durable retry attempts: giving up''
      in if lastReason = [] then start @ '' '' @ em_dash @ '' no peer ever answered for this transaction''
         else if lineIsMissingParentCondition lastReason
         then start @ '' '' @ em_dash @ '' a parent this transaction spends has never reached the network; last network response: '' @ lastReason
         else start @ ''; last network response: '' @ lastReason)"

definition schedulePendingRetry ::
    "'s tx_store \<Rightarrow> prop_config \<Rightarrow> prop_env \<Rightarrow> txid \<Rightarrow> bytes \<Rightarrow> string \<Rightarrow> 's world \<Rightarrow> 's world" where
  "schedulePendingRetry S cf ev t rawTx lastReason w =
     (if rawTx = [] then w
      else case st_BumpRetryCount S t (w_store w) of
             (Inl _, s1) \<Rightarrow> w\<lparr>w_store := s1\<rparr>
           | (Inr n, s1) \<Rightarrow>
               (if n > pendingRetryMaxAttempts cf
                then let reason = giveUpReason (pendingRetryMaxAttempts cf) lastReason in
                  (case st_ClearRetryState S t StatusRejected reason s1 of
                     (Inl _, s2) \<Rightarrow> w\<lparr>w_store := s2\<rparr>
                   | (Inr _, s2) \<Rightarrow>
                       let st = empty_status\<lparr>ts_TxID := t, ts_Status := StatusRejected, ts_ExtraInfo := reason\<rparr>;
                           w1 = w\<lparr>w_store := s2, w_written := w_written w @ [st]\<rparr>
                       in publishRejections cf [st] (ev_now ev (w_tick w1)) (tick w1))
                else let due = ev_now ev (w_tick w) + nextPendingRetryDelay cf (ev_rand ev (w_tick w)) n
                     in (tick w)\<lparr>w_store := snd (st_SetPendingRetryFields S t rawTx due lastReason s1)\<rparr>))"

fun schedule_all :: "'s tx_store \<Rightarrow> prop_config \<Rightarrow> prop_env \<Rightarrow> (txid \<times> bytes \<times> string) list \<Rightarrow> 's world \<Rightarrow> 's world" where
  "schedule_all S cf ev [] w = w"
| "schedule_all S cf ev ((t, raw, reason) # rest) w = schedule_all S cf ev rest (schedulePendingRetry S cf ev t raw reason w)"

section \<open>Terminal statuses\<close>

text \<open>
  One terminal event to each target in turn. \<open>Replied\<close> is the round trip; the other two end the fan-out, with the
  event not sent or sent and its reply lost, which the code lets happen when its context ends.
\<close>

fun notify_targets ::
    "prop_env \<Rightarrow> txid \<Rightarrow> status \<Rightarrow> nat list \<Rightarrow> cascadedTx list \<Rightarrow> 's world \<Rightarrow> cascadedTx list \<times> 's world" where
  "notify_targets ev t st [] merged w = (merged, w)"
| "notify_targets ev t st (i # targets) merged w =
     (case handleTerminal (ev_ord ev) t st (w_disp w ! i) of
        (cascaded, d) \<Rightarrow>
          let sent = (tick w)\<lparr>w_disp := (w_disp w)[i := d], w_notified := w_notified w @ [(t, st)]\<rparr>
          in case ev_notify ev (w_tick w) of
               Replied \<Rightarrow> notify_targets ev t st targets (merged @ cascaded) sent
             | NotSent \<Rightarrow> (merged, tick w)
             | ReplyLost \<Rightarrow> (merged, sent))"

definition dispatcherTargets :: "nat option \<Rightarrow> 's world \<Rightarrow> nat list" where
  "dispatcherTargets io w = (case io of Some i \<Rightarrow> [i] | None \<Rightarrow> [0 ..< length (w_disp w)])"

definition notifyTerminalToDispatcher ::
    "prop_env \<Rightarrow> nat option \<Rightarrow> txid \<Rightarrow> status \<Rightarrow> 's world \<Rightarrow> cascadedTx list \<times> 's world" where
  "notifyTerminalToDispatcher ev io t st w = notify_targets ev t st (dispatcherTargets io w) [] w"

type_synonym cascadeRejection = "txid \<times> bytes \<times> txid"

fun notify_all ::
    "prop_env \<Rightarrow> nat option \<Rightarrow> status \<Rightarrow> txid list \<Rightarrow> cascadeRejection list \<Rightarrow> 's world \<Rightarrow> cascadeRejection list \<times> 's world" where
  "notify_all ev io st [] acc w = (acc, w)"
| "notify_all ev io st (t # rest) acc w =
     (case notifyTerminalToDispatcher ev io t st w of
        (cascaded, w1) \<Rightarrow> notify_all ev io st rest (acc @ map (\<lambda>(child, raw). (child, raw, t)) cascaded) w1)"

definition persistCascade ::
    "'s tx_store \<Rightarrow> prop_config \<Rightarrow> prop_env \<Rightarrow> cascadeRejection list \<Rightarrow> status \<Rightarrow> unix_ns \<Rightarrow> 's world \<Rightarrow> 's world" where
  "persistCascade S cf ev cascaded st now w =
     (let statuses = map (\<lambda>(t, _, ancestor). plain_status t st now (cascadeReason st ancestor)) cascaded;
          w1 = w\<lparr>w_store := snd (st_BatchUpdateStatusReturning S statuses (w_store w)), w_written := w_written w @ statuses\<rparr>;
          w2 = (if st = StatusPendingRetry
                then schedule_all S cf ev (map (\<lambda>(t, raw, ancestor). (t, raw, cascadeReason st ancestor)) cascaded) w1 else w1)
      in if st = StatusRejected then publishRejections cf statuses now w2
         else publishBulkStatus cf st (map fst cascaded) now w2)"

text \<open>The rows whose stored status moved, by the pre-images the store returned.\<close>

definition transitioned :: "status_update list \<Rightarrow> transaction_status list \<Rightarrow> transaction_status list" where
  "transitioned prevs statuses =
     map (\<lambda>i. statuses ! i)
       (filter (\<lambda>i. i < length prevs \<and> (case su_Prev (prevs ! i) of None \<Rightarrow> False | Some p \<Rightarrow> ts_Status p \<noteq> ts_Status (statuses ! i)))
         [0 ..< length statuses])"

definition txids_with :: "status \<Rightarrow> transaction_status list \<Rightarrow> txid list" where
  "txids_with st statuses = map ts_TxID (filter (\<lambda>u. ts_Status u = st) statuses)"

definition applyTerminalStatuses ::
    "'s tx_store \<Rightarrow> prop_config \<Rightarrow> prop_env \<Rightarrow> transaction_status list \<Rightarrow> nat option \<Rightarrow> 's world \<Rightarrow> 's world" where
  "applyTerminalStatuses S cf ev statuses io w =
     (if statuses = [] then w
      else case st_BatchUpdateStatusReturning S statuses (w_store w) of
             ((prevs, err), s1) \<Rightarrow>
               let now = ev_now ev (w_tick w);
                   w1 = (tick w)\<lparr>w_store := s1, w_written := w_written w @ statuses\<rparr>;
                   moved = transitioned prevs statuses;
                   w2 = publishBulkStatus cf StatusAcceptedByNetwork (txids_with StatusAcceptedByNetwork moved) now w1;
                   w3 = publishRejections cf (filter (\<lambda>u. ts_Status u = StatusRejected) moved) now w2;
                   w4 = publishBulkStatus cf StatusPendingRetry (txids_with StatusPendingRetry moved) now w3
               in if err \<noteq> None then w4
                  else let w5 = snd (notify_all ev io StatusAcceptedByNetwork (txids_with StatusAcceptedByNetwork statuses) [] w4);
                           (rejCascade, w6) = notify_all ev io StatusRejected (txids_with StatusRejected statuses) [] w5;
                           (parkCascade, w7) = notify_all ev io StatusPendingRetry (txids_with StatusPendingRetry statuses) [] w6;
                           w8 = (if rejCascade \<noteq> [] then persistCascade S cf ev rejCascade StatusRejected now w7 else w7)
                       in if parkCascade \<noteq> [] then persistCascade S cf ev parkCascade StatusPendingRetry now w8 else w8)"

section \<open>The requeue budgets\<close>

definition chargeRetryBudget :: "prop_config \<Rightarrow> propagationMsg list \<Rightarrow> propagationMsg list \<times> propagationMsg list" where
  "chargeRetryBudget cf msgs =
     (let charged = map (\<lambda>m. m\<lparr>pm_retryCount := pm_retryCount m + 1\<rparr>) msgs
      in (filter (\<lambda>m. \<not> pm_retryCount m > retryMaxAttempts cf) charged, filter (\<lambda>m. pm_retryCount m > retryMaxAttempts cf) charged))"

definition chargeMerkleRetryBudget :: "prop_config \<Rightarrow> propagationMsg list \<Rightarrow> propagationMsg list \<times> propagationMsg list" where
  "chargeMerkleRetryBudget cf msgs =
     (let charged = map (\<lambda>m. m\<lparr>pm_merkleRetryCount := pm_merkleRetryCount m + 1\<rparr>) msgs
      in (filter (\<lambda>m. \<not> pm_merkleRetryCount m > merkleRetryMaxAttempts cf) charged,
          filter (\<lambda>m. pm_merkleRetryCount m > merkleRetryMaxAttempts cf) charged))"

definition park_reason :: "prop_config \<Rightarrow> propagationMsg \<Rightarrow> string" where
  "park_reason cf m =
     (let generic = ''no network verdict after '' @ dec_int (retryMaxAttempts cf) @ '' propagation attempts: retryable '' @ em_dash @
            '' parked for durable rebroadcast by the propagation reaper''
      in if pm_retryReason m = [] then generic
         else if lineIsMissingParentCondition (pm_retryReason m)
         then ''parent not yet accepted by the network after '' @ dec_int (retryMaxAttempts cf) @ '' propagation attempts: retryable '' @ em_dash @
              '' parked for durable rebroadcast by the propagation reaper; last error: '' @ pm_retryReason m
         else generic @ ''; last network response: '' @ pm_retryReason m)"

definition merkle_park_reason :: "prop_config \<Rightarrow> propagationMsg \<Rightarrow> string" where
  "merkle_park_reason cf m =
     (let base = ''merkle-service /watch failed after '' @ dec_int (merkleRetryMaxAttempts cf) @ '' registration attempts: retryable '' @ em_dash @
            '' parked for durable rebroadcast by the propagation reaper; network propagation budget was not consumed''
      in if pm_merkleFailureReason m \<noteq> [] then base @ ''; last registration error: '' @ pm_merkleFailureReason m else base)"

definition park ::
    "'s tx_store \<Rightarrow> prop_config \<Rightarrow> prop_env \<Rightarrow> (propagationMsg \<Rightarrow> string) \<Rightarrow> (propagationMsg \<Rightarrow> string) \<Rightarrow> propagationMsg list
      \<Rightarrow> nat option \<Rightarrow> 's world \<Rightarrow> 's world" where
  "park S cf ev reason lastReason msgs io w =
     (let now = ev_now ev (w_tick w);
          w1 = applyTerminalStatuses S cf ev (map (\<lambda>m. plain_status (pm_TXID m) StatusPendingRetry now (reason m)) msgs) io (tick w)
      in schedule_all S cf ev (map (\<lambda>m. (pm_TXID m, pm_RawTx m, lastReason m)) msgs) w1)"

definition parkExhaustedRequeues ::
    "'s tx_store \<Rightarrow> prop_config \<Rightarrow> prop_env \<Rightarrow> propagationMsg list \<Rightarrow> nat option \<Rightarrow> 's world \<Rightarrow> 's world" where
  "parkExhaustedRequeues S cf ev msgs io w = park S cf ev (park_reason cf) pm_retryReason msgs io w"

definition parkExhaustedMerkleRegistrations ::
    "'s tx_store \<Rightarrow> prop_config \<Rightarrow> prop_env \<Rightarrow> propagationMsg list \<Rightarrow> nat option \<Rightarrow> 's world \<Rightarrow> 's world" where
  "parkExhaustedMerkleRegistrations S cf ev msgs io w = park S cf ev (merkle_park_reason cf) pm_merkleFailureReason msgs io w"

datatype retryStage = retryStageNetwork | retryStageMerkle

definition requeueAfterDelayStaged ::
    "'s tx_store \<Rightarrow> prop_config \<Rightarrow> prop_env \<Rightarrow> propagationMsg list \<Rightarrow> nat option \<Rightarrow> retryStage \<Rightarrow> 's world \<Rightarrow> 's world" where
  "requeueAfterDelayStaged S cf ev msgs io stage w =
     (if msgs = [] then w
      else if ev_done ev (w_tick w) then tick w
      else let (retry, exhausted) = (if stage = retryStageMerkle then chargeMerkleRetryBudget cf msgs else chargeRetryBudget cf msgs);
               w1 = (if exhausted = [] then tick w
                     else if stage = retryStageMerkle then parkExhaustedMerkleRegistrations S cf ev exhausted io (tick w)
                     else parkExhaustedRequeues S cf ev exhausted io (tick w))
           in w1\<lparr>w_requeued := w_requeued w1 @ retry\<rparr>)"

section \<open>Registration\<close>

fun reg_text :: "register_error \<Rightarrow> string" where
  "reg_text (RegCanceled e) = e"
| "reg_text (RegDeadline e) = e"
| "reg_text (RegStatus _ e) = e"
| "reg_text (RegTimeout e) = e"
| "reg_text (RegOther e) = e"

definition merkleRegisterFailureReason :: "bool \<Rightarrow> register_error \<Rightarrow> string" where
  "merkleRegisterFailureReason ctxDone err =
     (case err of
        RegCanceled _ \<Rightarrow> ''claim_revoked''
      | RegStatus code _ \<Rightarrow>
          if ctxDone then ''claim_revoked''
          else if code = 401 \<or> code = 403 then ''auth_error'' else if code \<ge> 500 then ''http_5xx'' else ''register_error''
      | RegDeadline _ \<Rightarrow> if ctxDone then ''claim_revoked'' else ''timeout''
      | RegTimeout _ \<Rightarrow> if ctxDone then ''claim_revoked'' else ''timeout''
      | RegOther _ \<Rightarrow> if ctxDone then ''claim_revoked'' else ''transport'')"

definition clipRetryReason :: "string \<Rightarrow> string" where
  "clipRetryReason s = (if length s \<le> 240 then s else take 240 s)"

definition watch_failed :: "bool \<Rightarrow> register_error \<Rightarrow> propagationMsg \<Rightarrow> propagationMsg" where
  "watch_failed ctxDone e msg =
     (if merkleRegisterFailureReason ctxDone e \<noteq> ''claim_revoked'' then msg\<lparr>pm_merkleFailureReason := clipRetryReason (reg_text e)\<rparr> else msg)"

definition watch_ok :: "propagationMsg \<Rightarrow> propagationMsg" where
  "watch_ok msg = msg\<lparr>pm_merkleRetryCount := 0, pm_merkleFailureReason := []\<rparr>"

fun register_loop ::
    "(nat \<Rightarrow> register_error option) \<Rightarrow> bool \<Rightarrow> nat \<Rightarrow> propagationMsg list \<Rightarrow> propagationMsg list \<Rightarrow> propagationMsg list
      \<Rightarrow> propagationMsg list \<times> propagationMsg list" where
  "register_loop errs ctxDone i [] registered failed = (registered, failed)"
| "register_loop errs ctxDone i (msg # rest) registered failed =
     (case errs i of
        None \<Rightarrow> register_loop errs ctxDone (Suc i) rest (registered @ [watch_ok msg]) failed
      | Some e \<Rightarrow> register_loop errs ctxDone (Suc i) rest registered (failed @ [watch_failed ctxDone e msg]))"

definition registerBatch ::
    "'s tx_store \<Rightarrow> prop_config \<Rightarrow> prop_env \<Rightarrow> propagationMsg list \<Rightarrow> 's world \<Rightarrow> propagationMsg list \<times> propagationMsg list \<times> 's world" where
  "registerBatch S cf ev batch w =
     (if \<not> merkleEnabled cf then (batch, [], w)
      else case register_loop (ev_watch ev (w_tick w)) (ev_done ev (w_tick w)) 0 batch [] [] of
             (registered, failed) \<Rightarrow>
               (registered, failed,
                if registered = [] then tick w
                else (tick w)\<lparr>w_store := snd (st_MarkMerkleRegistered S (map pm_TXID registered) (ev_now ev (w_tick w)) (w_store w))\<rparr>))"

section \<open>One batch\<close>

record settled =
  sd_terminal :: "transaction_status list"
  sd_requeue :: "propagationMsg list"
  sd_missing :: "(propagationMsg \<times> string) list"

definition settle_one :: "propagationMsg \<times> txResult \<Rightarrow> settled \<Rightarrow> settled" where
  "settle_one mr sd =
     (case mr of (msg, res) \<Rightarrow>
        (case tr_class res of
           ClassMissingParent \<Rightarrow> sd\<lparr>sd_missing := sd_missing sd @ [(msg, tr_errMsg res)]\<rparr>
         | ClassAccepted \<Rightarrow> sd\<lparr>sd_terminal := sd_terminal sd @ (case tr_status res of None \<Rightarrow> [] | Some st \<Rightarrow> [st])\<rparr>
         | ClassRejected \<Rightarrow> sd\<lparr>sd_terminal := sd_terminal sd @ (case tr_status res of None \<Rightarrow> [] | Some st \<Rightarrow> [st])\<rparr>
         | _ \<Rightarrow> sd\<lparr>sd_requeue := sd_requeue sd @ [if tr_errMsg res \<noteq> [] then msg\<lparr>pm_retryReason := tr_errMsg res\<rparr> else msg]\<rparr>))"

definition settle_results :: "propagationMsg list \<Rightarrow> txResult list \<Rightarrow> settled" where
  "settle_results batch results = fold settle_one (zip batch results) \<lparr>sd_terminal = [], sd_requeue = [], sd_missing = []\<rparr>"

definition broadcast_step :: "prop_config \<Rightarrow> prop_env \<Rightarrow> propagationMsg list \<Rightarrow> 's world \<Rightarrow> txResult list \<times> 's world" where
  "broadcast_step cf ev batch w =
     (case broadcastInChunks (ev_spends ev) (ev_net ev (w_tick w)) (teranodeBatchCap cf) (teranodeBatchBytesCap cf) batch (w_client w) of
        (results, c) \<Rightarrow> (results, (tick w)\<lparr>w_client := c\<rparr>))"

definition settle_batch ::
    "'s tx_store \<Rightarrow> prop_config \<Rightarrow> prop_env \<Rightarrow> propagationMsg list \<Rightarrow> nat option \<Rightarrow> 's world \<Rightarrow> 's world" where
  "settle_batch S cf ev batch io w =
     (case broadcast_step cf ev batch w of
        (results, w1) \<Rightarrow>
          let sd = settle_results batch results;
              (cascaded, requeue, w2) = (if sd_missing sd = [] then ([], [], w1) else resolveMissingParents S ev (sd_missing sd) w1);
              w3 = applyTerminalStatuses S cf ev (sd_terminal sd @ cascaded) io w2;
              toRequeue = sd_requeue sd @ requeue
          in if toRequeue = [] then w3
             else if ev_done ev (w_tick w3) then tick w3
             else requeueAfterDelayStaged S cf ev toRequeue io retryStageNetwork (tick w3))"

definition processBatch ::
    "'s tx_store \<Rightarrow> prop_config \<Rightarrow> prop_env \<Rightarrow> propagationMsg list \<Rightarrow> nat option \<Rightarrow> 's world \<Rightarrow> 's world" where
  "processBatch S cf ev batch io w =
     (if ev_done ev (w_tick w) then tick w
      else case registerBatch S cf ev batch (tick w) of
             (registered, failed, w1) \<Rightarrow>
               if ev_done ev (w_tick w1) then tick w1
               else let w2 = requeueAfterDelayStaged S cf ev failed io retryStageMerkle (tick w1)
                    in if registered = [] then w2 else settle_batch S cf ev registered io w2)"

section \<open>The reaper\<close>

definition layers_of :: "propagationMsg list \<Rightarrow> propagationMsg list list" where
  "layers_of msgs = (case layerByDependency msgs of None \<Rightarrow> [] | Some layers \<Rightarrow> layers)"

fun reap_results ::
    "'s tx_store \<Rightarrow> prop_env \<Rightarrow> (propagationMsg \<times> txResult) list \<Rightarrow> transaction_status list \<Rightarrow> propagationMsg list \<Rightarrow> 's world
      \<Rightarrow> transaction_status list \<times> propagationMsg list \<times> 's world" where
  "reap_results S ev [] terminal unresolved w = (terminal, unresolved, w)"
| "reap_results S ev ((msg, res) # rest) terminal unresolved w =
     (case tr_class res of
        ClassMissingParent \<Rightarrow>
          (case resolveMissingParents S ev [(msg, tr_errMsg res)] w of
             (cascaded, requeue, w1) \<Rightarrow>
               if cascaded \<noteq> [] then reap_results S ev rest (terminal @ cascaded) unresolved w1
               else reap_results S ev rest terminal (unresolved @ requeue) w1)
      | _ \<Rightarrow>
          (case settle_one (msg, res) \<lparr>sd_terminal = [], sd_requeue = [], sd_missing = []\<rparr> of
             sd \<Rightarrow> reap_results S ev rest (terminal @ sd_terminal sd) (unresolved @ sd_requeue sd) w))"

fun reap_layers ::
    "'s tx_store \<Rightarrow> prop_config \<Rightarrow> prop_env \<Rightarrow> propagationMsg list list \<Rightarrow> transaction_status list \<Rightarrow> propagationMsg list \<Rightarrow> 's world
      \<Rightarrow> transaction_status list \<times> propagationMsg list \<times> 's world" where
  "reap_layers S cf ev [] terminal unresolved w = (terminal, unresolved, w)"
| "reap_layers S cf ev (layer # rest) terminal unresolved w =
     (case broadcast_step cf ev layer w of
        (results, w1) \<Rightarrow>
          (case reap_results S ev (zip layer results) terminal unresolved w1 of
             (terminal1, unresolved1, w2) \<Rightarrow> reap_layers S cf ev rest terminal1 unresolved1 w2))"

definition rebroadcastStuck ::
    "'s tx_store \<Rightarrow> prop_config \<Rightarrow> prop_env \<Rightarrow> propagationMsg list \<Rightarrow> bool \<Rightarrow> 's world \<Rightarrow> 's world" where
  "rebroadcastStuck S cf ev msgs parked w =
     (case registerBatch S cf ev msgs w of
        (registered, _, w1) \<Rightarrow>
          if registered = [] then w1
          else case reap_layers S cf ev (layers_of registered) [] [] w1 of
                 (terminal, unresolved, w2) \<Rightarrow>
                   let w3 = applyTerminalStatuses S cf ev terminal None w2
                   in if parked then schedule_all S cf ev (map (\<lambda>m. (pm_TXID m, pm_RawTx m, pm_retryReason m)) unresolved) w3 else w3)"

definition parked_msg :: "prop_env \<Rightarrow> pending_retry \<Rightarrow> propagationMsg" where
  "parked_msg ev r = (bare_msg (pr_TxID r) (pr_RawTx r))\<lparr>pm_InputTXIDs := parentTxIDsOf ev (bare_msg (pr_TxID r) (pr_RawTx r)),
     pm_retryReason := pr_LastReason r\<rparr>"

definition drainParkedRetries :: "'s tx_store \<Rightarrow> prop_config \<Rightarrow> prop_env \<Rightarrow> unix_ns \<Rightarrow> 's world \<Rightarrow> 's world" where
  "drainParkedRetries S cf ev now w =
     (case st_GetReadyRetries S now (rebroadcastBatch cf) (w_store w) of
        ((ready, err), s1) \<Rightarrow>
          if err \<noteq> None \<or> ready = [] then w\<lparr>w_store := s1\<rparr>
          else rebroadcastStuck S cf ev (map (parked_msg ev) ready) True (w\<lparr>w_store := s1\<rparr>))"

definition staleAge :: int where "staleAge = 3600 * 1000000000"
definition staleScanLookback :: int where "staleScanLookback = 24 * 3600 * 1000000000"

definition before :: "unix_ns option \<Rightarrow> unix_ns \<Rightarrow> bool" where
  "before t deadline = (case t of None \<Rightarrow> True | Some ns \<Rightarrow> ns < deadline)"

datatype reap_verdict = Rebroadcast | Adopt | Leave

definition reap_choice :: "unix_ns \<Rightarrow> transaction_status \<Rightarrow> reap_verdict" where
  "reap_choice now st =
     (if ts_RawTx st = [] then Leave
      else if ts_Status st \<in> {StatusSeenOnNetwork, StatusSeenMultipleNodes, StatusReceived, StatusAcceptedByNetwork}
      then (if before (ts_Timestamp st) (now - staleAge) then Rebroadcast else Leave)
      else if ts_Status st = StatusPendingRetry then (if ts_NextRetryAt st = None then Adopt else Leave)
      else Leave)"

text \<open>The walk; it stops at the first row after the batch is full.\<close>

fun reap_walk :: "unix_ns \<Rightarrow> int \<Rightarrow> transaction_status list \<Rightarrow> propagationMsg list \<Rightarrow> propagationMsg list
    \<Rightarrow> bool \<times> propagationMsg list \<times> propagationMsg list" where
  "reap_walk now cap [] stuck adopt = (False, stuck, adopt)"
| "reap_walk now cap (st # rest) stuck adopt =
     (if int (length stuck) \<ge> cap then (True, stuck, adopt)
      else case reap_choice now st of
             Rebroadcast \<Rightarrow> reap_walk now cap rest (stuck @ [bare_msg (ts_TxID st) (ts_RawTx st)]) adopt
           | Adopt \<Rightarrow> reap_walk now cap rest stuck (adopt @ [bare_msg (ts_TxID st) (ts_RawTx st)])
           | Leave \<Rightarrow> reap_walk now cap rest stuck adopt)"

definition reapOnce :: "'s tx_store \<Rightarrow> prop_config \<Rightarrow> prop_env \<Rightarrow> 's world \<Rightarrow> 's world" where
  "reapOnce S cf ev w =
     (let now = ev_now ev (w_tick w) in
      case st_IterateStatusesSince S (now - staleScanLookback) (w_store w) of
        ((rows, err), s1) \<Rightarrow>
          (case reap_walk now (rebroadcastBatch cf) rows [] [] of
             (stopped, stuck, adopt) \<Rightarrow>
               let w1 = (tick w)\<lparr>w_store := s1\<rparr>
               in if \<not> stopped \<and> err \<noteq> None \<and> err \<noteq> Some Cancelled then w1
                  else let w2 = (if stuck = [] then w1 else rebroadcastStuck S cf ev stuck False w1);
                           w3 = schedule_all S cf ev (map (\<lambda>m. (pm_TXID m, pm_RawTx m, pm_retryReason m)) adopt) w2
                       in drainParkedRetries S cf ev now w3))"

definition reaperLeaseName :: string where "reaperLeaseName = ''propagation-reaper''"

definition tryReap :: "'s tx_store \<Rightarrow> prop_config \<Rightarrow> prop_env \<Rightarrow> 's world \<Rightarrow> 's world" where
  "tryReap S cf ev w =
     (if \<not> hasLeaser cf then reapOnce S cf ev w
      else case st_TryAcquireOrRenew S reaperLeaseName (holderID cf) (leaseTTL cf) (w_store w) of
             (Inr (Some _), s1) \<Rightarrow> reapOnce S cf ev (w\<lparr>w_store := s1\<rparr>)
           | (_, s1) \<Rightarrow> w\<lparr>w_store := s1\<rparr>)"

end
