(* ===== verification/Propagation_Sound.thy ===== *)
theory Propagation_Sound
  imports Propagation_Broadcast
begin

text \<open>
  What a broadcast may conclude. A truthful peer reports every transaction it did not take, on a line that names
  the transaction, or an outpoint only it spends, or nothing; and every line it sends is about one it did not
  take. Then a transaction is accepted only if a peer took it and rejected only if a peer did not, through all
  narrowing. The map of the failure list keeps one line per hash: where two lines name the same hash, the
  first is lost and the conclusion fails, as the last theorem shows.
\<close>

section \<open>Votes\<close>

definition votes_len :: "nat \<Rightarrow> votes \<Rightarrow> bool" where
  "votes_len n v \<longleftrightarrow> length (acceptedByAny v) = n \<and> length (rejectionLine v) = n"

lemma route_votes [simp]:
  "acceptedByAny (route idx line h v) = acceptedByAny v"
  "length (rejectionLine (route idx line h v)) = length (rejectionLine v)"
  by (simp_all add: route_def Let_def)

lemma route_other: "i \<noteq> idx \<Longrightarrow> rejectionLine (route idx line h v) ! i = rejectionLine v ! i"
  by (simp add: route_def Let_def)

lemma route_all_accepted [simp]:
  "acceptedByAny (route_all ls h v) = acceptedByAny v"
  "length (rejectionLine (route_all ls h v)) = length (rejectionLine v)"
  by (induction ls h v rule: route_all.induct) simp_all

lemma route_all_other: "i \<notin> fst ` set ls \<Longrightarrow> rejectionLine (route_all ls h v) ! i = rejectionLine v ! i"
  by (induction ls h v rule: route_all.induct) (simp_all add: route_other)

lemma keyed_loop_len [simp]:
  "length (acceptedByAny (keyed_loop keyed att u h j ls v)) = length (acceptedByAny v)"
  "length (rejectionLine (keyed_loop keyed att u h j ls v)) = length (rejectionLine v)"
  by (induction ls arbitrary: j v) (simp_all split: option.splits)

lemma keyed_loop_accepted:
  "acceptedByAny (keyed_loop keyed att u h j ls v) ! i \<Longrightarrow>
   acceptedByAny v ! i \<or> (\<exists>k. k < length ls \<and> i = j + k \<and> map_of keyed (ls ! k) = None \<and> map_of att i = None \<and> u = 0)"
proof (induction ls arbitrary: j v)
  case (Cons l ls)
  let ?v = "case map_of keyed l of Some line \<Rightarrow> route j line h v
    | None \<Rightarrow> if map_of att j = None \<and> u = 0 then v\<lparr>acceptedByAny := (acceptedByAny v)[j := True]\<rparr> else v"
  have "acceptedByAny (keyed_loop keyed att u h (Suc j) ls ?v) ! i" using Cons.prems by simp
  from Cons.IH [OF this] consider "acceptedByAny ?v ! i"
    | k where "k < length ls" "i = Suc j + k" "map_of keyed (ls ! k) = None" "map_of att i = None" "u = 0" by blast
  then show ?case
  proof cases
    case 1
    show ?thesis
    proof (cases "map_of keyed l = None \<and> map_of att j = None \<and> u = 0 \<and> i = j")
      case True
      then show ?thesis by (intro disjI2 exI [of _ 0]) simp
    next
      case False
      then have "acceptedByAny v ! i" using 1 by (auto split: option.splits if_splits)
      then show ?thesis ..
    qed
  next
    case 2
    then show ?thesis by (intro disjI2 exI [of _ "Suc k"]) simp
  qed
qed simp

lemma keyed_loop_rejected:
  "rejectionLine (keyed_loop keyed att u h j ls v) ! i \<noteq> rejectionLine v ! i \<Longrightarrow>
   \<exists>k. k < length ls \<and> i = j + k \<and> map_of keyed (ls ! k) \<noteq> None"
proof (induction ls arbitrary: j v)
  case (Cons l ls)
  let ?v = "case map_of keyed l of Some line \<Rightarrow> route j line h v
    | None \<Rightarrow> if map_of att j = None \<and> u = 0 then v\<lparr>acceptedByAny := (acceptedByAny v)[j := True]\<rparr> else v"
  show ?case
  proof (cases "rejectionLine (keyed_loop keyed att u h (Suc j) ls ?v) ! i = rejectionLine ?v ! i")
    case False
    from Cons.IH [OF False] obtain k where "k < length ls" "i = Suc j + k" "map_of keyed (ls ! k) \<noteq> None" by blast
    then show ?thesis by (intro exI [of _ "Suc k"]) simp
  next
    case True
    then have "rejectionLine ?v ! i \<noteq> rejectionLine v ! i" using Cons.prems by simp
    then obtain line where "map_of keyed l = Some line" "rejectionLine (route j line h v) ! i \<noteq> rejectionLine v ! i"
      by (auto split: option.splits if_splits)
    moreover from this have "i = j" using route_other [of i j line h v] by blast
    ultimately show ?thesis by (intro exI [of _ 0]) simp
  qed
qed simp

section \<open>Attribution\<close>

definition names_only :: "(string \<rightharpoonup> owner) \<Rightarrow> string \<Rightarrow> nat \<Rightarrow> bool" where
  "names_only owners line i \<longleftrightarrow>
     list_all (\<lambda>ref. owners (str_lower ref) \<in> {None, Some outpointOwnerAmbiguous, Some (Owner i)}) (find_all outpointRefPattern line)"

lemma attribute_refs_names:
  "list_all (\<lambda>ref. owners (str_lower ref) \<in> {None, Some outpointOwnerAmbiguous, Some (Owner i)}) refs \<Longrightarrow>
   found \<in> {None, Some i} \<Longrightarrow> attribute_refs owners refs found \<in> {None, Some i}"
  by (induction owners refs found rule: attribute_refs.induct) (auto split: option.splits owner.splits)

lemma attribute_names: "names_only owners line i \<Longrightarrow> attributeOneConflictLine line owners = Some j \<Longrightarrow> j = i"
  using attribute_refs_names [of owners i "find_all outpointRefPattern line" None]
  by (auto simp: names_only_def attributeOneConflictLine_def)

lemma update_keys: "fst ` set (AList.update k v al) = insert k (fst ` set al)"
  by (induction al) auto

lemma update_length: "length (AList.update k v al) \<le> Suc (length al)"
  by (induction al) auto

lemma attribute_loop_keys:
  "fst ` set (attribute_loop owners fs att) =
     fst ` set att \<union> {j. \<exists>f. f \<in> set fs \<and> attributeOneConflictLine (snd f) owners = Some j}"
proof (induction owners fs att rule: attribute_loop.induct)
  case (2 owners key line fs att)
  show ?case
  proof (cases "attributeOneConflictLine line owners")
    case None
    then show ?thesis using 2(1) by auto
  next
    case (Some idx)
    then show ?thesis using 2(2) [OF Some] by (auto simp: update_keys)
  qed
qed simp

lemma attribute_loop_length:
  "length (attribute_loop owners fs att) \<le>
     length att + length (filter (\<lambda>f. attributeOneConflictLine (snd f) owners \<noteq> None) fs)"
proof (induction owners fs att rule: attribute_loop.induct)
  case (2 owners key line fs att)
  show ?case
  proof (cases "attributeOneConflictLine line owners")
    case None
    then show ?thesis using 2(1) by simp
  next
    case (Some idx)
    let ?att = "AList.update idx (preferRejectionLine (case map_of att idx of None \<Rightarrow> [] | Some l \<Rightarrow> l) line) att"
    have "length ?att \<le> Suc (length att)" by (rule update_length)
    with 2(2) [OF Some] show ?thesis using Some by simp
  qed
qed simp

lemma alien_count: "fst (alien_loop inB fs (n, b)) = n + length (filter (\<lambda>f. \<not> inB (fst f)) fs)"
  by (induction inB fs "(n, b)" arbitrary: n b rule: alien_loop.induct) auto

definition aliens :: "propagationMsg list \<Rightarrow> (string \<times> string) list \<Rightarrow> (string \<times> string) list" where
  "aliens batch keyed = filter (\<lambda>f. \<not> in_batch batch (fst f)) keyed"

lemma alienFailureLines_count:
  assumes "mset (iter keyed) = mset keyed"
  shows "fst (alienFailureLines (iter keyed) (in_batch batch)) = length (aliens batch keyed)"
proof -
  have "mset (filter (\<lambda>f. \<not> in_batch batch (fst f)) (iter keyed)) = mset (aliens batch keyed)"
    using assms by (simp add: aliens_def)
  then have "length (filter (\<lambda>f. \<not> in_batch batch (fst f)) (iter keyed)) = length (aliens batch keyed)"
    by (rule mset_eq_length)
  then show ?thesis by (simp add: alienFailureLines_def alien_count)
qed

lemma attributed_aliens:
  "fst ` set (attributeConflictLines keyed (in_batch batch) owners) =
     {j. \<exists>f. f \<in> set (aliens batch keyed) \<and> attributeOneConflictLine (snd f) owners = Some j}"
  by (simp add: attributeConflictLines_def attribute_loop_keys aliens_def)

lemma attributed_length:
  "length (attributeConflictLines keyed (in_batch batch) owners) \<le>
     length (filter (\<lambda>f. attributeOneConflictLine (snd f) owners \<noteq> None) (aliens batch keyed))"
proof -
  let ?P = "\<lambda>f. attributeOneConflictLine (snd f) owners \<noteq> None"
  have "mset (filter ?P (sort_key fst (aliens batch keyed))) = mset (filter ?P (aliens batch keyed))" by simp
  then have "length (filter ?P (sort_key fst (aliens batch keyed))) = length (filter ?P (aliens batch keyed))"
    by (rule mset_eq_length)
  then show ?thesis using attribute_loop_length [of owners "sort_key fst (aliens batch keyed)" "[]"]
    by (simp add: attributeConflictLines_def aliens_def)
qed

text \<open>When no line is left over, every alien line was attributed.\<close>

lemma none_left_over:
  assumes "length (aliens batch keyed) \<le> length (attributeConflictLines keyed (in_batch batch) owners)"
    and "f \<in> set (aliens batch keyed)"
  shows "attributeOneConflictLine (snd f) owners \<noteq> None"
proof
  assume none: "attributeOneConflictLine (snd f) owners = None"
  have "length (filter (\<lambda>f. attributeOneConflictLine (snd f) owners \<noteq> None) (aliens batch keyed)) < length (aliens batch keyed)"
    using assms(2) none by (intro length_filter_less) auto
  then show False using assms(1) attributed_length [of keyed batch owners] by linarith
qed

section \<open>Reading a failure list\<close>

definition reported_lines :: "bytes \<Rightarrow> string list" where
  "reported_lines body = filter (\<lambda>l. l \<noteq> []) (tl (split_on newline (trim_right newline body)))"

definition lower_key :: "string \<Rightarrow> string option" where
  "lower_key line = map_option str_lower (line_key line)"

text \<open>No two lines name the same hash.\<close>

definition distinct_keys :: "string list \<Rightarrow> bool" where
  "distinct_keys lines \<longleftrightarrow> distinct (List.map_filter lower_key lines)"

lemma update_fresh: "k \<notin> fst ` set al \<Longrightarrow> AList.update k v al = al @ [(k, v)]"
  by (induction al) auto

lemma parse_lines_keyed:
  "(k, l) \<in> set (tf_ByKey (parse_lines lines out)) \<Longrightarrow>
   (k, l) \<in> set (tf_ByKey out) \<or> (l \<in> set lines \<and> l \<noteq> [] \<and> lower_key l = Some k)"
proof (induction lines out rule: parse_lines.induct)
  case (2 line lines out)
  have upd: "(k, l) \<in> set (AList.update a b al) \<Longrightarrow> (k, l) = (a, b) \<or> (k, l) \<in> set al" for a b al
    by (induction al) (auto split: if_splits)
  show ?case
  proof (cases "line = []")
    case True
    then show ?thesis using 2 by auto
  next
    case False
    show ?thesis
    proof (cases "line_key line")
      case None
      then show ?thesis using 2(2) [OF False None] 2(4) False by auto
    next
      case (Some t)
      have "(k, l) \<in> set (tf_ByKey (parse_lines lines (out\<lparr>tf_ByKey := AList.update (str_lower t) line (tf_ByKey out)\<rparr>)))"
        using 2(4) False Some by simp
      from 2(3) [OF False Some this]
      have "(k, l) \<in> set (AList.update (str_lower t) line (tf_ByKey out)) \<or> l \<in> set lines \<and> l \<noteq> [] \<and> lower_key l = Some k" by simp
      then show ?thesis using upd [of "str_lower t" line "tf_ByKey out"] False Some by (auto simp: lower_key_def)
    qed
  qed
qed simp

lemma parse_lines_unkeyed:
  "set (tf_Unkeyed (parse_lines lines out)) = set (tf_Unkeyed out) \<union> {l \<in> set lines. l \<noteq> [] \<and> lower_key l = None}"
proof (induction lines out rule: parse_lines.induct)
  case (2 line lines out)
  show ?case
  proof (cases "line = []")
    case True
    then show ?thesis using 2(1) [OF True] by auto
  next
    case False
    show ?thesis
    proof (cases "line_key line")
      case None
      then show ?thesis using 2(2) [OF False None] False by (auto simp: lower_key_def)
    next
      case (Some t)
      then have "lower_key line \<noteq> None" by (simp add: lower_key_def)
      then have "{l \<in> set (line # lines). l \<noteq> [] \<and> lower_key l = None} = {l \<in> set lines. l \<noteq> [] \<and> lower_key l = None}" by auto
      then show ?thesis using 2(3) [OF False Some] False Some by simp
    qed
  qed
qed simp

lemma map_filter_cons:
  "List.map_filter f (x # xs) = (case f x of None \<Rightarrow> List.map_filter f xs | Some y \<Rightarrow> y # List.map_filter f xs)"
  by (simp add: List.map_filter_def split: option.splits)

text \<open>With distinct keys no line is lost.\<close>

lemma parse_lines_all:
  assumes "distinct (map fst (tf_ByKey out) @ List.map_filter lower_key (filter (\<lambda>l. l \<noteq> []) lines))"
  shows "set (tf_ByKey (parse_lines lines out)) =
    set (tf_ByKey out) \<union> {(k, l). l \<in> set lines \<and> l \<noteq> [] \<and> lower_key l = Some k}"
  using assms
proof (induction lines out rule: parse_lines.induct)
  case (2 line lines out)
  show ?case
  proof (cases "line = []")
    case True
    then show ?thesis using 2 by auto
  next
    case False
    show ?thesis
    proof (cases "line_key line")
      case None
      then have "lower_key line = None" by (simp add: lower_key_def)
      then show ?thesis using 2(2) [OF False None] 2(4) False None by (auto simp: map_filter_cons)
    next
      case (Some t)
      then have key: "lower_key line = Some (str_lower t)" by (simp add: lower_key_def)
      have fresh: "str_lower t \<notin> fst ` set (tf_ByKey out)" using 2(4) False key by (auto simp: map_filter_cons)
      have "distinct (map fst (tf_ByKey out @ [(str_lower t, line)]) @ List.map_filter lower_key (filter (\<lambda>l. l \<noteq> []) lines))"
        using 2(4) False key by (auto simp: map_filter_cons)
      from 2(3) [OF False Some] this fresh show ?thesis using False Some key by (auto simp: update_fresh)
    qed
  qed
qed simp

lemma parse_body:
  assumes "parseTxsFailures body = Some f"
  shows "\<exists>lines. reported_lines body = filter (\<lambda>l. l \<noteq> []) lines \<and> f = parse_lines lines \<lparr>tf_ByKey = [], tf_Unkeyed = []\<rparr>"
proof (cases "split_on newline (trim_right newline body)")
  case Nil
  then show ?thesis using assms by (simp add: parseTxsFailures_def Let_def split: if_splits)
next
  case (Cons header lines)
  have "f = parse_lines lines \<lparr>tf_ByKey = [], tf_Unkeyed = []\<rparr>"
    using assms unfolding parseTxsFailures_def Let_def Cons list.case by (simp split: if_splits)
  moreover have "reported_lines body = filter (\<lambda>l. l \<noteq> []) lines" by (simp add: reported_lines_def Cons)
  ultimately show ?thesis by blast
qed

lemma body_keyed:
  assumes "parseTxsFailures body = Some f" and "(k, l) \<in> set (tf_ByKey f)"
  shows "l \<in> set (reported_lines body)" and "lower_key l = Some k"
proof -
  from parse_body [OF assms(1)] obtain lines where
    lines: "reported_lines body = filter (\<lambda>l. l \<noteq> []) lines" "f = parse_lines lines \<lparr>tf_ByKey = [], tf_Unkeyed = []\<rparr>" by blast
  have "(k, l) \<in> set (tf_ByKey (parse_lines lines \<lparr>tf_ByKey = [], tf_Unkeyed = []\<rparr>))" using assms(2) lines(2) by simp
  from parse_lines_keyed [OF this] have "l \<in> set lines \<and> l \<noteq> [] \<and> lower_key l = Some k" by simp
  then show "l \<in> set (reported_lines body)" "lower_key l = Some k" using lines(1) by simp_all
qed

lemma body_unkeyed:
  assumes "parseTxsFailures body = Some f"
  shows "set (tf_Unkeyed f) = {l \<in> set (reported_lines body). lower_key l = None}"
proof -
  from parse_body [OF assms(1)] obtain lines where
    lines: "reported_lines body = filter (\<lambda>l. l \<noteq> []) lines" "f = parse_lines lines \<lparr>tf_ByKey = [], tf_Unkeyed = []\<rparr>" by blast
  show ?thesis unfolding lines parse_lines_unkeyed by auto
qed

lemma body_all_keyed:
  assumes "parseTxsFailures body = Some f" and "distinct_keys (reported_lines body)"
    and "l \<in> set (reported_lines body)" and "lower_key l = Some k"
  shows "(k, l) \<in> set (tf_ByKey f)"
proof -
  from parse_body [OF assms(1)] obtain lines where
    lines: "reported_lines body = filter (\<lambda>l. l \<noteq> []) lines" "f = parse_lines lines \<lparr>tf_ByKey = [], tf_Unkeyed = []\<rparr>" by blast
  have "set (tf_ByKey f) = {(k, l). l \<in> set lines \<and> l \<noteq> [] \<and> lower_key l = Some k}"
    unfolding lines(2) using parse_lines_all [of "\<lparr>tf_ByKey = [], tf_Unkeyed = []\<rparr>" lines] assms(2)
    by (simp add: distinct_keys_def lines(1))
  then show ?thesis using assms(3,4) lines(1) by simp
qed

section \<open>Truthful peers\<close>

text \<open>Whether a line can be about the transaction at a position of the batch.\<close>

definition blames :: "(bytes \<Rightarrow> (string \<times> nat) list option) \<Rightarrow> propagationMsg list \<Rightarrow> string \<Rightarrow> nat \<Rightarrow> bool" where
  "blames spends batch line i \<longleftrightarrow>
     (case lower_key line of
        None \<Rightarrow> True
      | Some k \<Rightarrow> if in_batch batch k then k = lower_txids batch ! i
                  else names_only (buildSubmittedOutpointIndex spends batch) line i)"

definition truthful_list :: "(bytes \<Rightarrow> (string \<times> nat) list option) \<Rightarrow> (propagationMsg \<Rightarrow> bool) \<Rightarrow> propagationMsg list \<Rightarrow> bytes \<Rightarrow> bool" where
  "truthful_list spends took batch body \<longleftrightarrow>
     (\<forall>i. i < length batch \<longrightarrow> \<not> took (batch ! i) \<longrightarrow> (\<exists>l. l \<in> set (reported_lines body) \<and> blames spends batch l i)) \<and>
     (\<forall>l. l \<in> set (reported_lines body) \<longrightarrow> (\<exists>i. i < length batch \<and> \<not> took (batch ! i) \<and> blames spends batch l i))"

definition truthful ::
    "(bytes \<Rightarrow> (string \<times> nat) list option) \<Rightarrow> (string \<Rightarrow> propagationMsg \<Rightarrow> bool) \<Rightarrow> propagationMsg list \<Rightarrow> peer_answer \<Rightarrow> bool" where
  "truthful spends took batch p \<longleftrightarrow>
     (case pa_exchange p of
        NoResponse _ _ \<Rightarrow> True
      | Response code body \<Rightarrow>
          if code = 200 then list_all (took (pa_endpoint p)) batch
          else case body of None \<Rightarrow> True | Some b \<Rightarrow>
                 parseTxsFailures b = None \<or>
                 (truthful_list spends (took (pa_endpoint p)) batch b \<and> distinct_keys (reported_lines b)))"

lemma lower_txids_length [simp]: "length (lower_txids batch) = length batch"
  by (simp add: lower_txids_def)

text \<open>What the votes may claim.\<close>

definition votes_sound :: "(nat \<Rightarrow> bool) \<Rightarrow> (nat \<Rightarrow> bool) \<Rightarrow> nat \<Rightarrow> votes \<Rightarrow> bool" where
  "votes_sound taken refused n v \<longleftrightarrow> votes_len n v \<and>
     (\<forall>i. i < n \<longrightarrow> (acceptedByAny v ! i \<longrightarrow> taken i) \<and> (rejectionLine v ! i \<noteq> [] \<longrightarrow> refused i))"

lemma failure_accepts:
  assumes parse: "parseTxsFailures body = Some f" and truth: "truthful_list spends took batch body"
    and keys: "distinct_keys (reported_lines body)" and i: "i < length batch"
    and att: "att = attributeConflictLines (tf_ByKey f) (in_batch batch) (buildSubmittedOutpointIndex spends batch) \<or> aliens batch (tf_ByKey f) = []"
    and none: "map_of (tf_ByKey f) (lower_txids batch ! i) = None" "map_of att i = None"
    and placed: "length (aliens batch (tf_ByKey f)) \<le> length att" "tf_Unkeyed f = []"
  shows "took (batch ! i)"
proof (rule ccontr)
  let ?owners = "buildSubmittedOutpointIndex spends batch"
  assume "\<not> took (batch ! i)"
  then obtain l where l: "l \<in> set (reported_lines body)" "blames spends batch l i"
    using truth i unfolding truthful_list_def by blast
  have "lower_key l \<noteq> None" using body_unkeyed [OF parse] placed(2) l(1) by auto
  then obtain k where k: "lower_key l = Some k" by blast
  have mem: "(k, l) \<in> set (tf_ByKey f)" by (rule body_all_keyed [OF parse keys l(1) k])
  show False
  proof (cases "in_batch batch k")
    case True
    then have "k = lower_txids batch ! i" using l(2) k by (simp add: blames_def)
    then show False using none(1) mem by (metis map_of_eq_None_iff fst_conv image_eqI)
  next
    case False
    have alien: "(k, l) \<in> set (aliens batch (tf_ByKey f))" using mem False by (simp add: aliens_def)
    then have att': "att = attributeConflictLines (tf_ByKey f) (in_batch batch) ?owners" using att by auto
    from none_left_over [OF placed(1) [unfolded att'] alien]
    obtain j where j: "attributeOneConflictLine l ?owners = Some j" by auto
    have "names_only ?owners l i" using l(2) k False by (simp add: blames_def)
    then have "j = i" by (rule attribute_names [OF _ j])
    then have "i \<in> fst ` set att" unfolding att' attributed_aliens using alien j by force
    then show False using none(2) by (simp add: map_of_eq_None_iff)
  qed
qed

lemma failure_rejects:
  assumes parse: "parseTxsFailures body = Some f" and truth: "truthful_list spends took batch body"
    and dist: "distinct (lower_txids batch)" and i: "i < length batch"
    and hit: "map_of (tf_ByKey f) (lower_txids batch ! i) \<noteq> None \<or>
      (\<exists>e. e \<in> set (aliens batch (tf_ByKey f)) \<and> attributeOneConflictLine (snd e) (buildSubmittedOutpointIndex spends batch) = Some i) \<or>
      (length batch = 1 \<and> reported_lines body \<noteq> [])"
  shows "\<not> took (batch ! i)"
proof -
  have blamed: "\<exists>j. j < length batch \<and> \<not> took (batch ! j) \<and> blames spends batch l j" if "l \<in> set (reported_lines body)" for l
    using truth that unfolding truthful_list_def by blast
  from hit consider (keyed) l where "map_of (tf_ByKey f) (lower_txids batch ! i) = Some l"
    | (alien) k l where "(k, l) \<in> set (aliens batch (tf_ByKey f))" "attributeOneConflictLine l (buildSubmittedOutpointIndex spends batch) = Some i"
    | (single) "length batch = 1" "reported_lines body \<noteq> []" by fastforce
  then show ?thesis
  proof cases
    case keyed
    from body_keyed [OF parse map_of_SomeD [OF keyed]]
    have l: "l \<in> set (reported_lines body)" "lower_key l = Some (lower_txids batch ! i)" .
    from blamed [OF l(1)] obtain j where j: "j < length batch" "\<not> took (batch ! j)" "blames spends batch l j" by blast
    have "in_batch batch (lower_txids batch ! i)" using i by (simp add: in_batch_def lower_txids_def)
    then have "lower_txids batch ! i = lower_txids batch ! j" using j(3) l(2) by (simp add: blames_def)
    then have "i = j" using nth_eq_iff_index_eq [OF dist, of i j] i j(1) by simp
    then show ?thesis using j(2) by simp
  next
    case alien
    then have "(k, l) \<in> set (tf_ByKey f)" "\<not> in_batch batch k" by (simp_all add: aliens_def)
    from body_keyed [OF parse this(1)] this(2) have l: "l \<in> set (reported_lines body)" "lower_key l = Some k" "\<not> in_batch batch k" .
    from blamed [OF l(1)] obtain j where j: "j < length batch" "\<not> took (batch ! j)" "blames spends batch l j" by blast
    have "names_only (buildSubmittedOutpointIndex spends batch) l j" using j(3) l(2,3) by (simp add: blames_def)
    then have "i = j" by (rule attribute_names [OF _ alien(2)])
    then show ?thesis using j(2) by simp
  next
    case single
    from hd_in_set [OF single(2)] obtain l where "l \<in> set (reported_lines body)" by blast
    from blamed [OF this] obtain j where "j < length batch" "\<not> took (batch ! j)" by blast
    then show ?thesis using single(1) i by simp
  qed
qed

lemma failure_votes_sound:
  assumes parse: "parseTxsFailures body = Some f" and truth: "truthful_list spends took batch body"
    and keys: "distinct_keys (reported_lines body)" and dist: "distinct (lower_txids batch)"
    and iter: "mset (iter (tf_ByKey f)) = mset (tf_ByKey f)"
    and old: "votes_sound taken refused (length batch) (ty_votes t)"
    and sub: "\<And>i. i < length batch \<Longrightarrow> took (batch ! i) \<Longrightarrow> taken i" "\<And>i. i < length batch \<Longrightarrow> \<not> took (batch ! i) \<Longrightarrow> refused i"
  shows "votes_sound taken refused (length batch) (ty_votes (failure_votes spends iter batch code f t))"
proof -
  define keyed where "keyed = tf_ByKey f"
  define owners where "owners = buildSubmittedOutpointIndex spends batch"
  define n where "n = length (aliens batch keyed)"
  define best where "best = snd (alienFailureLines (iter keyed) (in_batch batch))"
  define att where "att = (if n > 0 then attributeConflictLines keyed (in_batch batch) owners else [])"
  define un where "un = (n - length att) + length (tf_Unkeyed f)"
  define hint where "hint = (if tf_Len (Some f) = 1 then code else 0)"
  define v1 where "v1 = keyed_loop keyed att un hint 0 (lower_txids batch) (ty_votes t)"
  define v2 where "v2 = route_all att hint v1"
  define v3 where "v3 = (if un > 0 \<and> length batch = 1 then route 0 (bestUnplaceableLine best (tf_Unkeyed f)) hint v2 else v2)"
  have alien: "alienFailureLines (iter keyed) (in_batch batch) = (n, best)"
    using alienFailureLines_count [of iter "tf_ByKey f" batch, OF iter] by (simp add: n_def best_def keyed_def prod_eq_iff)
  have v3: "ty_votes (failure_votes spends iter batch code f t) = v3"
    unfolding failure_votes_def Let_def keyed_def [symmetric] alien prod.case v3_def v2_def v1_def hint_def un_def att_def owners_def by simp
  have attD: "e \<in> fst ` set att \<Longrightarrow> \<exists>g. g \<in> set (aliens batch keyed) \<and> attributeOneConflictLine (snd g) owners = Some e" for e
  proof -
    assume "e \<in> fst ` set att"
    then have "e \<in> fst ` set (attributeConflictLines keyed (in_batch batch) owners)" by (cases "n > 0") (simp_all add: att_def)
    then show ?thesis by (simp only: attributed_aliens mem_Collect_eq)
  qed
  have accepted: "taken i" if i: "i < length batch" and acc: "acceptedByAny v3 ! i" for i
  proof -
    have "acceptedByAny v1 ! i" using acc by (simp add: v3_def v2_def split: if_splits)
    from keyed_loop_accepted [OF this [unfolded v1_def]]
    consider "acceptedByAny (ty_votes t) ! i" | "map_of keyed (lower_txids batch ! i) = None" "map_of att i = None" "un = 0" by auto
    then show ?thesis
    proof cases
      case 1
      then show ?thesis using old i by (simp add: votes_sound_def)
    next
      case 2
      have "took (batch ! i)"
        by (rule failure_accepts [OF parse truth keys i, of att])
          (use 2 in \<open>auto simp: un_def att_def n_def keyed_def owners_def split: if_splits\<close>)
      then show ?thesis by (rule sub(1) [OF i])
    qed
  qed
  have rejected: "refused i" if i: "i < length batch" and rej: "rejectionLine v3 ! i \<noteq> []" for i
  proof (cases "rejectionLine (ty_votes t) ! i \<noteq> []")
    case True
    then show ?thesis using old i by (simp add: votes_sound_def)
  next
    case False
    have "map_of keyed (lower_txids batch ! i) \<noteq> None \<or> i \<in> fst ` set att \<or> (length batch = 1 \<and> un > 0)"
    proof (rule ccontr)
      assume "\<not> ?thesis"
      then have no: "map_of keyed (lower_txids batch ! i) = None" "i \<notin> fst ` set att" "\<not> (length batch = 1 \<and> un > 0)" by auto
      have "rejectionLine v2 ! i = rejectionLine v1 ! i" unfolding v2_def by (rule route_all_other [OF no(2)])
      moreover have "rejectionLine v1 ! i = rejectionLine (ty_votes t) ! i"
        using keyed_loop_rejected [of keyed att un hint 0 "lower_txids batch" "ty_votes t" i] no(1) i unfolding v1_def by auto
      ultimately show False using rej False no(3) by (auto simp: v3_def split: if_splits)
    qed
    moreover have "reported_lines body \<noteq> []" if "un > 0"
    proof -
      have "aliens batch keyed \<noteq> [] \<or> tf_Unkeyed f \<noteq> []" using that by (auto simp: un_def n_def)
      then show ?thesis
      proof
        assume "aliens batch keyed \<noteq> []"
        then obtain k l where "(k, l) \<in> set keyed" by (fastforce simp: aliens_def filter_empty_conv)
        from body_keyed(1) [OF parse this [unfolded keyed_def]] show ?thesis by auto
      next
        assume "tf_Unkeyed f \<noteq> []"
        then show ?thesis using body_unkeyed [OF parse] by auto
      qed
    qed
    ultimately have "\<not> took (batch ! i)"
      using attD [of i] by (intro failure_rejects [OF parse truth dist i]) (auto simp: keyed_def owners_def)
    then show ?thesis by (rule sub(2) [OF i])
  qed
  have "votes_len (length batch) v3" using old by (simp add: votes_sound_def votes_len_def v3_def v2_def v1_def)
  then show ?thesis unfolding v3 votes_sound_def using accepted rejected by blast
qed

section \<open>The whole broadcast\<close>

lemma peer_votes_sound:
  assumes truth: "truthful spends took batch p" and dist: "distinct (lower_txids batch)" and iter: "\<And>fs. mset (iter fs) = mset fs"
    and old: "votes_sound taken refused (length batch) (ty_votes t)"
    and sub: "\<And>i. i < length batch \<Longrightarrow> took (pa_endpoint p) (batch ! i) \<Longrightarrow> taken i"
      "\<And>i. i < length batch \<Longrightarrow> \<not> took (pa_endpoint p) (batch ! i) \<Longrightarrow> refused i"
  shows "votes_sound taken refused (length batch) (ty_votes (peer_votes spends iter batch ctxDone p t))"
proof -
  obtain code failures err where sub3: "SubmitTransactions (pa_exchange p) = (code, failures, err)" by (rule prod_cases3)
  have all: "taken i" if "err = None" "i < length batch" for i
  proof (rule sub(1) [OF that(2)])
    have "list_all (took (pa_endpoint p)) batch"
      using truth sub3 that(1)
      by (auto simp: SubmitTransactions_def truthful_def split: exchange.splits if_splits option.splits)
    then show "took (pa_endpoint p) (batch ! i)" using that(2) by (simp add: list_all_length)
  qed
  have listed: "votes_sound taken refused (length batch) (ty_votes (failure_votes spends iter batch code f t1))"
    if f: "failures = Some f" and t1: "ty_votes t1 = ty_votes t" for f t1
  proof -
    obtain b where ex: "pa_exchange p = Response code (Some b)" "code \<noteq> 200" "parseTxsFailures b = Some f"
      using sub3 f by (auto simp: SubmitTransactions_def split: exchange.splits if_splits option.splits)
    have "truthful_list spends (took (pa_endpoint p)) batch b" "distinct_keys (reported_lines b)"
      using truth ex by (simp_all add: truthful_def)
    then show ?thesis by (rule failure_votes_sound [where iter = iter, OF ex(3) _ _ dist iter]) (use old t1 sub in auto)
  qed
  show ?thesis
  proof (cases err)
    case None
    have "votes_sound taken refused (length batch) ((ty_votes t)\<lparr>acceptedByAny := replicate (length batch) True\<rparr>)"
      using old all [OF None] by (simp add: votes_sound_def votes_len_def)
    then show ?thesis using old None by (simp add: peer_votes_def sub3 isCanceledByBroadcast_def Let_def)
  next
    case (Some e)
    then show ?thesis using old listed
      by (cases e; cases failures) (simp_all add: peer_votes_def sub3 Let_def)
  qed
qed

lemma all_votes_sound:
  assumes "\<And>p. p \<in> set ps \<Longrightarrow> truthful spends took batch p" and "distinct (lower_txids batch)" and "\<And>fs. mset (iter fs) = mset fs"
    and "votes_sound taken refused (length batch) (ty_votes t)"
    and "\<And>p i. p \<in> set ps \<Longrightarrow> i < length batch \<Longrightarrow> took (pa_endpoint p) (batch ! i) \<Longrightarrow> taken i"
    and "\<And>p i. p \<in> set ps \<Longrightarrow> i < length batch \<Longrightarrow> \<not> took (pa_endpoint p) (batch ! i) \<Longrightarrow> refused i"
  shows "votes_sound taken refused (length batch) (ty_votes (all_votes spends iter batch ctxDone ps t))"
  using assms
proof (induction ps arbitrary: t)
  case (Cons p ps)
  have step: "votes_sound taken refused (length batch) (ty_votes (peer_votes spends iter batch ctxDone p t))"
    by (rule peer_votes_sound [OF Cons.prems(1) Cons.prems(2,3,4)]) (use Cons.prems(5,6) in auto)
  have "votes_sound taken refused (length batch)
      (ty_votes (all_votes spends iter batch ctxDone ps (peer_votes spends iter batch ctxDone p t)))"
  proof (rule Cons.IH [OF _ Cons.prems(2,3) step])
    show "truthful spends took batch q" if "q \<in> set ps" for q using Cons.prems(1) that by simp
    show "taken i" if "q \<in> set ps" "i < length batch" "took (pa_endpoint q) (batch ! i)" for q i
      by (rule Cons.prems(5) [OF _ that(2,3)]) (use that(1) in simp)
    show "refused i" if "q \<in> set ps" "i < length batch" "\<not> took (pa_endpoint q) (batch ! i)" for q i
      by (rule Cons.prems(6) [OF _ that(2,3)]) (use that(1) in simp)
  qed
  then show ?case by simp
qed simp

definition net_truthful ::
    "(bytes \<Rightarrow> (string \<times> nat) list option) \<Rightarrow> (string \<Rightarrow> propagationMsg \<Rightarrow> bool) \<Rightarrow> (string list \<Rightarrow> propagationMsg list \<Rightarrow> broadcast_env) \<Rightarrow> bool" where
  "net_truthful spends took net \<longleftrightarrow> (\<forall>eps batch.
     (\<forall>fs. mset (be_iter (net eps batch) fs) = mset fs) \<and>
     (\<forall>p. p \<in> set (be_answers (net eps batch)) \<longrightarrow> truthful spends took batch p))"

text \<open>A peer that answered a submission with the message in it, and that took it or not.\<close>

definition answered ::
    "(string list \<Rightarrow> propagationMsg list \<Rightarrow> broadcast_env) \<Rightarrow> (string \<Rightarrow> propagationMsg \<Rightarrow> bool) \<Rightarrow> bool \<Rightarrow> propagationMsg \<Rightarrow> bool" where
  "answered net took verdict m \<longleftrightarrow>
     (\<exists>eps batch p. m \<in> set batch \<and> p \<in> set (be_answers (net eps batch)) \<and> took (pa_endpoint p) m = verdict)"

definition result_sound ::
    "(string list \<Rightarrow> propagationMsg list \<Rightarrow> broadcast_env) \<Rightarrow> (string \<Rightarrow> propagationMsg \<Rightarrow> bool) \<Rightarrow> propagationMsg \<Rightarrow> txResult \<Rightarrow> bool" where
  "result_sound net took m r \<longleftrightarrow>
     (tr_class r = ClassAccepted \<longrightarrow> answered net took True m) \<and> (tr_class r = ClassRejected \<longrightarrow> answered net took False m)"

lemma batch_sound:
  assumes "net_truthful spends took net" and "distinct (lower_txids batch)"
    and "broadcastBatchToEndpoints spends net batch c = (results, ep, narrow, c')"
  shows "list_all2 (result_sound net took) batch results"
proof (cases "GetHealthyEndpoints c = []")
  case True
  then have "results = makeRequeueResults batch" using assms(3) by (simp add: broadcastBatchToEndpoints_def)
  then show ?thesis
    by (simp add: makeRequeueResults_def list_all2_conv_all_nth result_sound_def requeue_result_def)
next
  case False
  define env where "env = net (GetHealthyEndpoints c) batch"
  define n where "n = length batch"
  define t where "t = all_votes spends (be_iter env) batch (be_ctxDone env) (be_answers env) (empty_tally n)"
  have results: "results = map (\<lambda>i. tx_result (be_now env) (ty_successEndpoint (size_votes n t)) (ty_votes (size_votes n t)) i (batch ! i)) [0 ..< n]"
    using assms(3) False unfolding broadcastBatchToEndpoints_def Let_def env_def n_def t_def by auto
  have "votes_sound (\<lambda>i. answered net took True (batch ! i)) (\<lambda>i. answered net took False (batch ! i)) (length batch) (ty_votes t)"
    unfolding t_def
  proof (rule all_votes_sound [OF _ assms(2)])
    show "p \<in> set (be_answers env) \<Longrightarrow> truthful spends took batch p" for p
      using assms(1) by (simp add: net_truthful_def env_def)
    show "mset (be_iter env fs) = mset fs" for fs using assms(1) by (simp add: net_truthful_def env_def)
    show "votes_sound (\<lambda>i. answered net took True (batch ! i)) (\<lambda>i. answered net took False (batch ! i)) (length batch)
        (ty_votes (empty_tally n))"
      by (simp add: votes_sound_def votes_len_def empty_tally_def no_votes_def n_def)
    show "answered net took True (batch ! i)"
      if "p \<in> set (be_answers env)" "i < length batch" "took (pa_endpoint p) (batch ! i)" for p i
      using that unfolding answered_def env_def by (metis nth_mem)
    show "answered net took False (batch ! i)"
      if "p \<in> set (be_answers env)" "i < length batch" "\<not> took (pa_endpoint p) (batch ! i)" for p i
      using that unfolding answered_def env_def by (metis nth_mem)
  qed
  then have "result_sound net took (batch ! i) (results ! i)" if "i < n" for i
    using that by (simp add: results result_sound_def tx_result_def size_votes_def votes_sound_def n_def requeue_result_def case_prod_unfold)
  moreover have "length results = n" by (simp add: results)
  ultimately show ?thesis by (simp add: list_all2_conv_all_nth n_def)
qed

text \<open>What holds of the results of every batch that is sent holds of the results of a broadcast.\<close>

lemma chunk_all2:
  assumes "\<And>batch c results ep narrow c'. D batch \<Longrightarrow> broadcastBatchToEndpoints spends net batch c = (results, ep, narrow, c') \<Longrightarrow>
      list_all2 R batch results"
    and "\<And>xs ys. D (xs @ ys) \<Longrightarrow> D xs \<and> D ys" and "D chunk"
  shows "list_all2 R chunk (fst (broadcastChunk spends net chunk c))"
  using assms(3)
proof (induction "length chunk" arbitrary: chunk c rule: less_induct)
  case less
  obtain results ep narrow c1 where b: "broadcastBatchToEndpoints spends net chunk c = (results, ep, narrow, c1)"
    by (rule prod_cases4)
  show ?case
  proof (cases "narrow \<and> length chunk > 1")
    case False
    show ?thesis using assms(1) [OF less.prems b]
      unfolding broadcastChunk.simps [of spends net chunk] b prod.case if_not_P [OF False] by simp
  next
    case True
    define mid where "mid = length chunk div 2"
    have lt: "length (take mid chunk) < length chunk" "length (drop mid chunk) < length chunk" using True by (auto simp: mid_def)
    have sub: "D (take mid chunk)" "D (drop mid chunk)" using assms(2) [of "take mid chunk" "drop mid chunk"] less.prems by simp_all
    obtain out1 c2 where o1: "broadcastChunk spends net (take mid chunk) c1 = (out1, c2)" by (rule prod.exhaust)
    obtain out2 c3 where o2: "broadcastChunk spends net (drop mid chunk) c2 = (out2, c3)" by (rule prod.exhaust)
    have "list_all2 R (take mid chunk @ drop mid chunk) (out1 @ out2)"
      using less.hyps [OF lt(1) sub(1), of c1] less.hyps [OF lt(2) sub(2), of c2] o1 o2
      by (intro list_all2_appendI) simp_all
    then show ?thesis using True by (simp add: broadcastChunk.simps [of spends net chunk] b Let_def o1 o2 flip: mid_def)
  qed
qed

lemma chunks_all2:
  assumes "\<And>batch c results ep narrow c'. D batch \<Longrightarrow> broadcastBatchToEndpoints spends net batch c = (results, ep, narrow, c') \<Longrightarrow>
      list_all2 R batch results"
    and "\<And>xs ys. D (xs @ ys) \<Longrightarrow> D xs \<and> D ys" and "D (concat chunks)"
  shows "list_all2 R (concat chunks) (fst (chunks_loop spends net chunks c))"
  using assms(3)
proof (induction chunks arbitrary: c)
  case (Cons chunk chunks)
  obtain out1 c1 where o1: "broadcastChunk spends net chunk c = (out1, c1)" by (rule prod.exhaust)
  obtain out2 c2 where o2: "chunks_loop spends net chunks c1 = (out2, c2)" by (rule prod.exhaust)
  have sub: "D chunk" "D (concat chunks)" using assms(2) [of chunk "concat chunks"] Cons.prems by simp_all
  have "list_all2 R chunk (fst (broadcastChunk spends net chunk c))"
    by (rule chunk_all2 [where D = D]) (erule (1) assms(1), erule assms(2), rule sub(1))
  then show ?case using Cons.IH [OF sub(2), of c1] by (simp add: o1 o2 list_all2_appendI)
qed simp

lemma plan_covers: "concat (map (span_of batch) (planChunks (map pm_RawTx batch) mc mb)) = batch"
  using tiles_concat [of 0 "planChunks (map pm_RawTx batch) mc mb" "length batch" batch]
    planChunks_plan [of "map pm_RawTx batch" mc mb]
  by (simp add: span_of_def)

lemma broadcast_all2:
  assumes "\<And>batch c results ep narrow c'. D batch \<Longrightarrow> broadcastBatchToEndpoints spends net batch c = (results, ep, narrow, c') \<Longrightarrow>
      list_all2 R batch results"
    and "\<And>xs ys. D (xs @ ys) \<Longrightarrow> D xs \<and> D ys" and "D batch"
  shows "list_all2 R batch (fst (broadcastInChunks spends net cap bytesCap batch c))"
proof -
  have "list_all2 R (concat (map (span_of batch) (planChunks (map pm_RawTx batch) cap bytesCap)))
      (fst (chunks_loop spends net (map (span_of batch) (planChunks (map pm_RawTx batch) cap bytesCap)) c))"
    by (rule chunks_all2 [where D = D]) (erule (1) assms(1), erule assms(2), simp add: plan_covers assms(3))
  then show ?thesis by (simp add: broadcastInChunks_def plan_covers)
qed

lemma broadcast_sound:
  assumes "net_truthful spends took net" and "distinct (lower_txids batch)"
  shows "list_all2 (result_sound net took) batch (fst (broadcastInChunks spends net cap bytesCap batch c))"
  by (rule broadcast_all2 [where D = "\<lambda>b. distinct (lower_txids b)"])
     (use batch_sound [OF assms(1)] assms(2) in \<open>auto simp: lower_txids_def\<close>)

text \<open>The status a result carries is that of its class, on the transaction it is about.\<close>

definition result_shape :: "propagationMsg \<Rightarrow> txResult \<Rightarrow> bool" where
  "result_shape m r \<longleftrightarrow>
     (case tr_class r of
        ClassAccepted \<Rightarrow> (\<exists>st. tr_status r = Some st \<and> ts_TxID st = pm_TXID m \<and> ts_Status st = StatusAcceptedByNetwork)
      | ClassRejected \<Rightarrow> (\<exists>st. tr_status r = Some st \<and> ts_TxID st = pm_TXID m \<and> ts_Status st = StatusRejected)
      | _ \<Rightarrow> tr_status r = None)"

lemma tx_result_shape: "result_shape m (tx_result now ep v i m)"
  by (auto simp: result_shape_def tx_result_def requeue_result_def empty_status_def case_prod_unfold)

lemma batch_shape:
  assumes "broadcastBatchToEndpoints spends net batch c = (results, ep, narrow, c')"
  shows "list_all2 result_shape batch results"
proof (cases "GetHealthyEndpoints c = []")
  case True
  then have "results = makeRequeueResults batch" using assms by (simp add: broadcastBatchToEndpoints_def)
  then show ?thesis by (simp add: makeRequeueResults_def list_all2_conv_all_nth result_shape_def requeue_result_def)
next
  case False
  then obtain now v where "results = map (\<lambda>i. tx_result now ep v i (batch ! i)) [0 ..< length batch]"
    using assms unfolding broadcastBatchToEndpoints_def Let_def by auto
  then show ?thesis by (simp add: list_all2_conv_all_nth tx_result_shape)
qed

lemma broadcast_shape: "list_all2 result_shape batch (fst (broadcastInChunks spends net cap bytesCap batch c))"
  by (rule broadcast_all2 [where D = "\<lambda>_. True"]) (auto intro: batch_shape)

section \<open>Properties\<close>

text \<open>Two transactions, and a peer that takes the first and names the second in its failure list.\<close>

definition sample_msg :: "string \<Rightarrow> bytes \<Rightarrow> propagationMsg" where
  "sample_msg t raw = \<lparr>pm_TXID = t, pm_RawTx = raw, pm_InputTXIDs = [], pm_retryCount = 0, pm_merkleRetryCount = 0,
     pm_merkleFailureReason = [], pm_retryReason = []\<rparr>"

definition good_net :: "string list \<Rightarrow> propagationMsg list \<Rightarrow> broadcast_env" where
  "good_net eps batch = \<lparr>be_now = 1, be_ctxDone = False, be_iter = (\<lambda>fs. fs),
     be_answers = map (\<lambda>e. \<lparr>pa_endpoint = e, pa_exchange = Response 200 (Some [])\<rparr>) eps\<rparr>"

text \<open>
  C5. When every peer answers truthfully and no two lines of a failure list name the same hash, a broadcast,
  through the cutting into chunks and all narrowing, ends with one result per transaction in order: none is
  accepted unless a peer that answered a submission of it took it, and none is rejected unless a peer that
  answered a submission of it did not take it.
\<close>

theorem broadcast_verdicts_sound:
  assumes "net_truthful spends took net" and "distinct (lower_txids batch)"
  shows "list_all2 (result_sound net took) batch (fst (broadcastInChunks spends net cap bytesCap batch c))"
  using assms by (rule broadcast_sound)

theorem broadcast_verdicts_sound_witness:
  "list_all2 (result_sound good_net (\<lambda>_ _. True)) [sample_msg ''aa'' ''x'', sample_msg ''bb'' ''y'']
     (fst (broadcastInChunks (\<lambda>_. None) good_net 1 0 [sample_msg ''aa'' ''x'', sample_msg ''bb'' ''y''] (NewClient [''n''] 0 0 0)))"
proof (rule broadcast_verdicts_sound)
  show "net_truthful (\<lambda>_. None) (\<lambda>_ _. True) good_net"
    by (auto simp: net_truthful_def good_net_def truthful_def list_all_iff)
  show "distinct (lower_txids [sample_msg ''aa'' ''x'', sample_msg ''bb'' ''y''])"
    by (simp add: lower_txids_def sample_msg_def str_lower_def lower_char_def)
qed

text \<open>
  Two transactions that spend the outputs 0 and 1 of one parent, both already spent by others, and the failure
  list of a peer that took neither.
\<close>

definition twin_a :: propagationMsg where "twin_a = sample_msg (replicate 64 CHR ''a'') ''A''"
definition twin_b :: propagationMsg where "twin_b = sample_msg (replicate 64 CHR ''b'') ''B''"
definition twin_parent :: string where "twin_parent = replicate 64 CHR ''e''"

definition twin_spends :: "bytes \<Rightarrow> (string \<times> nat) list option" where
  "twin_spends raw = (if raw = ''A'' then Some [(twin_parent, 0)] else if raw = ''B'' then Some [(twin_parent, 1)] else None)"

definition spent_line :: "nat \<Rightarrow> char \<Rightarrow> string" where
  "spent_line vout c = ''UTXO_SPENT (70): '' @ twin_parent @ '':'' @ dec vout @ '' utxo already spent by tx '' @ replicate 64 c @ ''[0]''"

definition lost_line :: string where "lost_line = spent_line 0 (CHR ''c'')"
definition kept_line :: string where "kept_line = spent_line 1 (CHR ''d'')"

definition twin_body :: bytes where
  "twin_body = txsFailureHeader @ [newline] @ lost_line @ [newline] @ kept_line @ [newline]"

definition twin_net :: "string list \<Rightarrow> propagationMsg list \<Rightarrow> broadcast_env" where
  "twin_net eps batch = \<lparr>be_now = 1, be_ctxDone = False, be_iter = (\<lambda>fs. fs),
     be_answers = [\<lparr>pa_endpoint = ''n'', pa_exchange = Response 409 (Some twin_body)\<rparr>]\<rparr>"

lemma twin_lines: "reported_lines twin_body = [lost_line, kept_line]"
  by code_simp

lemma twin_blames:
  "blames twin_spends [twin_a, twin_b] (lost_line) 0"
  "blames twin_spends [twin_a, twin_b] (kept_line) 1"
  by code_simp+

lemma twin_truthful: "truthful_list twin_spends (\<lambda>_. False) [twin_a, twin_b] twin_body"
  unfolding truthful_list_def twin_lines
proof (intro conjI allI impI)
  fix i assume "i < length [twin_a, twin_b]"
  then consider "i = 0" | "i = 1" by fastforce
  then show "\<exists>l. l \<in> set [lost_line, kept_line] \<and> blames twin_spends [twin_a, twin_b] l i"
    using twin_blames by cases (simp_all, blast+)
next
  fix l assume "l \<in> set [lost_line, kept_line]"
  then consider "l = lost_line" | "l = kept_line" by auto
  then show "\<exists>i. i < length [twin_a, twin_b] \<and> \<not> False \<and> blames twin_spends [twin_a, twin_b] l i"
  proof cases
    case 1
    then show ?thesis using twin_blames(1) by (intro exI [of _ 0]) simp
  next
    case 2
    then show ?thesis using twin_blames(2) by (intro exI [of _ 1]) simp
  qed
qed

lemma twin_parse: "parseTxsFailures twin_body = Some \<lparr>tf_ByKey = [(twin_parent, kept_line)], tf_Unkeyed = []\<rparr>"
  by code_simp

lemma twin_lower: "lower_txids [twin_a, twin_b] = [replicate 64 CHR ''a'', replicate 64 CHR ''b'']"
  by code_simp

lemma twin_alien: "alienFailureLines [(twin_parent, kept_line)] (in_batch [twin_a, twin_b]) = (1, kept_line)"
  by code_simp

lemma twin_attributed:
  "attributeConflictLines [(twin_parent, kept_line)] (in_batch [twin_a, twin_b])
     (buildSubmittedOutpointIndex twin_spends [twin_a, twin_b]) = [(1, kept_line)]"
  by code_simp

lemma twin_line:
  "lineIsMissingParentCondition (kept_line) = False" "lineIsInfraCondition (kept_line) = False"
  "lineIsOpaqueProcessing (kept_line) = False"
  by code_simp+

lemma twin_keys: "replicate 64 CHR ''a'' \<noteq> twin_parent" "replicate 64 CHR ''b'' \<noteq> twin_parent"
  by (simp_all add: twin_parent_def)

definition twin_list :: TxsFailures where
  "twin_list = \<lparr>tf_ByKey = [(twin_parent, kept_line)], tf_Unkeyed = []\<rparr>"

lemma twin_votes:
  "failure_votes twin_spends (\<lambda>fs. fs) [twin_a, twin_b] 409 twin_list t =
     t\<lparr>ty_votes := route 1 kept_line 409 ((ty_votes t)\<lparr>acceptedByAny := (acceptedByAny (ty_votes t))[0 := True]\<rparr>)\<rparr>"
  unfolding failure_votes_def Let_def twin_list_def TxsFailures.simps twin_alien prod.case twin_attributed twin_lower
  using twin_keys by (simp add: tf_Len_def)

lemma twin_tally:
  "all_votes twin_spends (\<lambda>fs. fs) [twin_a, twin_b] False [\<lparr>pa_endpoint = ''n'', pa_exchange = Response 409 (Some twin_body)\<rparr>] t =
   failure_votes twin_spends (\<lambda>fs. fs) [twin_a, twin_b] 409 twin_list
     (t\<lparr>ty_outcomes := ty_outcomes t @ [\<lparr>eo_endpoint = ''n'', eo_statusCode = 409, eo_shapeRejected = False\<rparr>]\<rparr>)"
  by (simp add: peer_votes_def SubmitTransactions_def twin_parse isCanceledByBroadcast_def tf_Len_def twin_list_def)

lemma twin_route:
  "route 1 kept_line 409 v = v\<lparr>rejectionStatus := (rejectionStatus v)[1 := 409], rejectionLine := (rejectionLine v)[1 := kept_line]\<rparr>"
  if "rejectionLine v ! 1 = []"
  using that twin_line unfolding route_def by (simp add: preferRejectionLine_def Let_def del: One_nat_def)

text \<open>
  C33. The only peer took neither of two transactions and says so truthfully, one line for each; both lines name
  their common parent first, the failure map keeps the second line only, and the first transaction is
  reported as accepted by the network.
\<close>

theorem shared_parent_false_accept:
  "truthful_list twin_spends (\<lambda>_. False) [twin_a, twin_b] twin_body \<and>
   (case broadcastBatchToEndpoints twin_spends twin_net [twin_a, twin_b] (NewClient [''n''] 0 0 0) of
      (results, _, needsNarrowing, _) \<Rightarrow> map tr_class results = [ClassAccepted, ClassRejected] \<and> \<not> needsNarrowing)"
proof
  have healthy: "GetHealthyEndpoints (NewClient [''n''] 0 0 0) = [''n'']" by code_simp
  have line: "kept_line \<noteq> []" by (simp add: kept_line_def spent_line_def)
  show "case broadcastBatchToEndpoints twin_spends twin_net [twin_a, twin_b] (NewClient [''n''] 0 0 0) of
      (results, _, needsNarrowing, _) \<Rightarrow> map tr_class results = [ClassAccepted, ClassRejected] \<and> \<not> needsNarrowing"
    unfolding broadcastBatchToEndpoints_def Let_def healthy twin_net_def broadcast_env.simps twin_tally twin_votes One_nat_def
    by (simp add: twin_route [unfolded One_nat_def] size_votes_def empty_tally_def no_votes_def tx_result_def line
        case_prod_unfold numeral_2_eq_2 upt_rec)
qed (rule twin_truthful)

end
