(* ===== verification/Propagation_Retry_Correct.thy ===== *)
theory Propagation_Retry_Correct
  imports Propagation_Retry Propagation_Sound
begin

text \<open>
  What the propagator does with the results of a broadcast: the backoff of parked transactions, the grouping of
  published rejections, the climb through a transaction's ancestors, the fate of every transaction of a batch and
  the ground of every verdict it writes.
\<close>

section \<open>Backoff\<close>

lemma backoff_loop_min:
  assumes "0 < d"
  shows "min m (backoff_loop n m d) = min m (d * 2 ^ n)"
  using assms
proof (induction n arbitrary: d)
  case (Suc n)
  show ?case
  proof (cases "d < m")
    case True
    then show ?thesis using Suc.IH [of "d * 2"] Suc.prems by (simp add: mult.assoc)
  next
    case False
    have "d * 1 \<le> d * 2 ^ Suc n" using Suc.prems by (intro mult_left_mono one_le_power) simp_all
    then show ?thesis using False by simp
  qed
qed simp

lemma jitter_bound:
  assumes "r \<le> 65535" and "0 \<le> d"
  shows "5 * \<bar>jitter r d\<bar> \<le> d"
proof -
  define x where "x = (4 * int r - 2 * 65535) * d"
  have "\<bar>4 * int r - 2 * 65535\<bar> \<le> 131070" using assms(1) by auto
  then have "\<bar>x\<bar> \<le> 131070 * d" unfolding x_def abs_mult using assms(2) by (simp add: mult_right_mono)
  moreover have "655350 * \<bar>jitter r d\<bar> \<le> \<bar>x\<bar>" unfolding jitter_def Let_def x_def [symmetric] by (auto simp: pos_imp_zdiv_nonneg_iff)
  ultimately show ?thesis by simp
qed

text \<open>
  The wait before the next durable attempt is the base doubled once per attempt made and cut at the cap, moved
  by at most a fifth of itself, and never below a millisecond.
\<close>

theorem nextPendingRetryDelay_bounds:
  assumes "0 < pendingRetryBackoff cf" and "r \<le> 65535"
  shows "\<exists>d j. d = min (max (pendingRetryBackoff cf) (pendingRetryMaxBackoff cf)) (pendingRetryBackoff cf * 2 ^ nat (n - 1)) \<and>
    5 * \<bar>j\<bar> \<le> d \<and> nextPendingRetryDelay cf (Some r) n = max 1000000 (d + j)"
proof -
  let ?b = "pendingRetryBackoff cf" and ?m = "max (pendingRetryBackoff cf) (pendingRetryMaxBackoff cf)"
  define d where "d = min ?m (?b * 2 ^ nat (n - 1))"
  have loop: "min ?m (backoff_loop (nat (n - 1)) ?m ?b) = d" unfolding d_def by (rule backoff_loop_min [OF assms(1)])
  have base: "(if ?b \<le> 0 then defaultPendingRetryBackoff else ?b) = ?b" "(if pendingRetryMaxBackoff cf < ?b then ?b else pendingRetryMaxBackoff cf) = ?m"
    using assms(1) by auto
  have cut: "(if x > y then y else x) = min y x" for x y :: int by (simp add: min_def)
  have floor: "(if x < y then y else x) = max y x" for x y :: int by (simp add: max_def)
  have "nextPendingRetryDelay cf (Some r) n = max 1000000 (d + jitter r d)"
    unfolding nextPendingRetryDelay_def Let_def base cut loop option.case floor ..
  moreover have "0 \<le> d" using assms(1) by (simp add: d_def)
  ultimately show ?thesis using jitter_bound [OF assms(2)] d_def by blast
qed

definition sample_config :: prop_config where
  "sample_config = \<lparr>merkleEnabled = True, hasPublisher = True, retryMaxAttempts = 5, merkleRetryMaxAttempts = 5,
     pendingRetryMaxAttempts = 288, pendingRetryBackoff = 5000000000, pendingRetryMaxBackoff = 300000000000,
     teranodeBatchCap = 100, teranodeBatchBytesCap = 0, rebroadcastBatch = 200, hasLeaser = False, holderID = ''h'', leaseTTL = 60\<rparr>"

theorem nextPendingRetryDelay_bounds_witness:
  "0 < pendingRetryBackoff sample_config \<and> (65535 :: nat) \<le> 65535 \<and>
   (\<exists>d j. d = min (max (pendingRetryBackoff sample_config) (pendingRetryMaxBackoff sample_config)) (pendingRetryBackoff sample_config * 2 ^ nat (3 - 1)) \<and>
     5 * \<bar>j\<bar> \<le> d \<and> nextPendingRetryDelay sample_config (Some 65535) 3 = max 1000000 (d + j))"
  using nextPendingRetryDelay_bounds [of sample_config 65535 3] by (simp add: sample_config_def)

section \<open>Published rejections\<close>

text \<open>What the groups say of each transaction.\<close>

definition said :: "(reject_key \<times> transaction_status) list \<Rightarrow> (txid \<times> reject_key) list" where
  "said groups = concat (map (\<lambda>(k, g). map (\<lambda>t. (t, k)) (ts_TxIDs g)) groups)"

definition group_of_key :: "unix_ns \<Rightarrow> reject_key \<times> transaction_status \<Rightarrow> bool" where
  "group_of_key ts kg \<longleftrightarrow> reject_key (snd kg) = fst kg \<and> ts_Status (snd kg) = StatusRejected \<and> ts_Timestamp (snd kg) = Some ts"

lemma said_add:
  assumes "key \<in> fst ` set groups" and "distinct (map fst groups)"
  shows "mset (said (map (\<lambda>(k, g). (k, if k = key then add_txid t g else g)) groups)) = add_mset (t, key) (mset (said groups))"
  using assms
proof (induction groups)
  case (Cons kg groups)
  obtain k g where kg: "kg = (k, g)" by (rule prod.exhaust)
  show ?case
  proof (cases "k = key")
    case True
    then have "map (\<lambda>(k, g). (k, if k = key then add_txid t g else g)) groups = groups"
      using Cons.prems(2) by (intro map_idI) (force simp: kg)
    then show ?thesis by (simp add: kg True said_def add_txid_def)
  next
    case False
    then show ?thesis using Cons by (simp add: kg said_def)
  qed
qed simp

lemma group_loop_said:
  assumes "distinct (map fst groups)" and "list_all (group_of_key ts) groups"
  shows "mset (said (group_loop ts rej groups)) = mset (said groups) + mset (map (\<lambda>st. (ts_TxID st, reject_key st)) rej) \<and>
    distinct (map fst (group_loop ts rej groups)) \<and> list_all (group_of_key ts) (group_loop ts rej groups)"
  using assms
proof (induction rej arbitrary: groups)
  case (Cons st rej)
  let ?key = "reject_key st" and ?upd = "\<lambda>(k, g). (k, if k = reject_key st then add_txid (ts_TxID st) g else g)"
  define groups1 where "groups1 = (if ?key \<in> fst ` set groups then groups else groups @ [(?key, reject_group ts st)])"
  have d: "distinct (map fst groups1)" using Cons.prems(1) by (auto simp: groups1_def)
  have key: "?key \<in> fst ` set groups1" by (auto simp: groups1_def)
  have s1: "said groups1 = said groups" by (simp add: groups1_def said_def reject_group_def empty_status_def)
  have "group_of_key ts (?key, reject_group ts st)"
    by (simp add: group_of_key_def reject_group_def reject_key_def empty_status_def)
  then have ok: "list_all (group_of_key ts) groups1" using Cons.prems(2) by (simp add: groups1_def)
  have keys: "map fst (map ?upd groups1) = map fst groups1" by (simp add: case_prod_unfold)
  have "list_all (group_of_key ts) (map ?upd groups1)"
    using ok by (auto simp: list_all_iff group_of_key_def reject_key_def add_txid_def)
  from Cons.IH [of "map ?upd groups1", unfolded keys, OF d this] said_add [OF key d, of "ts_TxID st"]
  show ?case by (simp add: Let_def s1 flip: groups1_def)
qed simp

text \<open>
  Rejections are published so that every rejected transaction is named exactly once, by an event that carries
  its own reason, code and competing transactions; there is one event per distinct such payload.
\<close>

theorem publishRejections_exact:
  assumes "hasPublisher cf"
  shows "\<exists>events. w_events (publishRejections cf rejected ts w) = w_events w @ events \<and>
    mset (concat (map (\<lambda>e. map (\<lambda>t. (t, reject_key e)) (ts_TxIDs e)) events)) = mset (map (\<lambda>st. (ts_TxID st, reject_key st)) rejected) \<and>
    distinct (map reject_key events) \<and> list_all (\<lambda>e. ts_Status e = StatusRejected \<and> ts_Timestamp e = Some ts) events"
proof (cases "rejected = []")
  case True
  then show ?thesis by (simp add: publishRejections_def)
next
  case False
  define groups where "groups = group_loop ts rejected []"
  have g: "mset (said groups) = mset (map (\<lambda>st. (ts_TxID st, reject_key st)) rejected)" "distinct (map fst groups)"
      "list_all (group_of_key ts) groups"
    using group_loop_said [of "[]" ts rejected] by (simp_all add: groups_def said_def)
  have keys: "map reject_key (map snd groups) = map fst groups" using g(3) by (auto simp: list_all_iff group_of_key_def)
  have "map (\<lambda>e. map (\<lambda>t. (t, reject_key e)) (ts_TxIDs e)) (map snd groups) = map (\<lambda>(k, g). map (\<lambda>t. (t, k)) (ts_TxIDs g)) groups"
    using g(3) by (auto simp: list_all_iff group_of_key_def)
  then have said: "concat (map (\<lambda>e. map (\<lambda>t. (t, reject_key e)) (ts_TxIDs e)) (map snd groups)) = said groups" by (simp only: said_def)
  have "w_events (fold (publishBulk \<circ> snd) gs w) = w_events w @ map snd gs" for gs and w :: "'a world"
    by (induction gs arbitrary: w) (simp_all add: publishBulk_def)
  then have "w_events (publishRejections cf rejected ts w) = w_events w @ map snd groups"
    using False assms by (simp add: publishRejections_def groups_def)
  moreover have "distinct (map reject_key (map snd groups))" using g(2) by (simp only: keys)
  ultimately show ?thesis using g(1,3) said by (intro exI [of _ "map snd groups"]) (simp add: list_all_iff group_of_key_def)
qed

definition sample_world :: "'s \<Rightarrow> 's world" where
  "sample_world s = \<lparr>w_store = s, w_disp = [], w_client = NewClient [] 0 0 0, w_tick = 0, w_written = [], w_events = [],
     w_notified = [], w_requeued = []\<rparr>"

theorem publishRejections_exact_witness:
  "\<exists>events. w_events (publishRejections sample_config [plain_status ''a'' StatusRejected 1 ''bad'', plain_status ''b'' StatusRejected 1 ''bad''] 7
      (sample_world ())) = [] @ events \<and>
    mset (concat (map (\<lambda>e. map (\<lambda>t. (t, reject_key e)) (ts_TxIDs e)) events)) = {#(''a'', ''bad'', 0, []), (''b'', ''bad'', 0, [])#}"
  using publishRejections_exact [of sample_config "[plain_status ''a'' StatusRejected 1 ''bad'', plain_status ''b'' StatusRejected 1 ''bad'']" 7 "sample_world ()"]
  by (auto simp: sample_config_def sample_world_def plain_status_def empty_status_def reject_key_def)

section \<open>Rejected ancestors\<close>

text \<open>
  The reference: a transaction is doomed within n generations when the store reports it REJECTED, or reports it
  unresolved with its bytes and one of its parents is doomed within n - 1. The transaction the climb started from
  does not count.
\<close>

fun doomed :: "(txid \<Rightarrow> transaction_status option result) \<Rightarrow> prop_env \<Rightarrow> txid \<Rightarrow> nat \<Rightarrow> txid \<Rightarrow> bool" where
  "doomed rd ev self 0 a = False"
| "doomed rd ev self (Suc n) a \<longleftrightarrow> a \<noteq> [] \<and> a \<noteq> self \<and>
     (case rd a of
        Inr (Some row) \<Rightarrow> ts_Status row = StatusRejected \<or>
          climbs row \<and> list_ex (doomed rd ev self n) (parentTxIDsOf ev (bare_msg a (ts_RawTx row)))
      | _ \<Rightarrow> False)"

definition rejected_at :: "(txid \<Rightarrow> transaction_status option result) \<Rightarrow> txid \<Rightarrow> bool" where
  "rejected_at rd a \<longleftrightarrow> (case rd a of Inr (Some row) \<Rightarrow> ts_Status row = StatusRejected | _ \<Rightarrow> False)"

definition parents_at :: "(txid \<Rightarrow> transaction_status option result) \<Rightarrow> prop_env \<Rightarrow> txid \<Rightarrow> txid list" where
  "parents_at rd ev a = (case rd a of Inr (Some row) \<Rightarrow>
     if climbs row then parentTxIDsOf ev (bare_msg a (ts_RawTx row)) else [] | _ \<Rightarrow> [])"

lemma doomed_Suc: "doomed rd ev self (Suc n) a \<longleftrightarrow> a \<noteq> [] \<and> a \<noteq> self \<and>
    (rejected_at rd a \<or> list_ex (doomed rd ev self n) (parents_at rd ev a))"
  by (auto simp: rejected_at_def parents_at_def split: sum.splits option.splits)

lemma doomed_mono: "doomed rd ev self n a \<Longrightarrow> doomed rd ev self (Suc n) a"
proof (induction n arbitrary: a)
  case (Suc n)
  from Suc.prems have "a \<noteq> []" "a \<noteq> self" "rejected_at rd a \<or> list_ex (doomed rd ev self n) (parents_at rd ev a)"
    unfolding doomed_Suc by blast+
  then show ?case unfolding doomed_Suc [of rd ev self "Suc n"] list_ex_iff using Suc.IH by blast
qed simp

definition steady :: "'s tx_store \<Rightarrow> (txid \<Rightarrow> transaction_status option result) \<Rightarrow> bool" where
  "steady S rd \<longleftrightarrow> (\<forall>t s. fst (st_GetStatus S t s) = rd t)"

text \<open>One level: it finds a rejected member, or visits the level and gathers the parents to climb to.\<close>

definition level_ok ::
    "(txid \<Rightarrow> transaction_status option result) \<Rightarrow> txid set \<Rightarrow> txid set \<Rightarrow> txid set \<Rightarrow> txid + txid list \<times> txid list \<Rightarrow> bool" where
  "level_ok rd fresh visited next1 res \<longleftrightarrow>
     (case res of
        Inl a \<Rightarrow> a \<in> fresh \<and> rejected_at rd a
      | Inr (visited', next') \<Rightarrow> (\<forall>a. a \<in> fresh \<longrightarrow> \<not> rejected_at rd a) \<and> set visited' = visited \<and> set next' = next1)"

lemma level_ok_skip: "level_ok rd fresh v n res \<Longrightarrow> \<not> rejected_at rd a \<Longrightarrow> level_ok rd (insert a fresh) v n res"
  by (cases res) (auto simp: level_ok_def)

lemma ancestor_level_result:
  assumes "steady S rd"
  shows "level_ok rd (set frontier - set visited - {[]}) (set visited \<union> (set frontier - {[]}))
    (set next1 \<union> (\<Union>a \<in> set frontier - set visited - {[]}. set (parents_at rd ev a))) (fst (ancestor_level S ev frontier visited next1 s))"
proof (induction frontier arbitrary: visited next1 s)
  case Nil
  show ?case by (simp add: level_ok_def)
next
  case (Cons a rest)
  show ?case
  proof (cases "a = [] \<or> a \<in> set visited")
    case True
    then have "set (a # rest) - set visited - {[]} = set rest - set visited - {[]}"
        "set visited \<union> (set (a # rest) - {[]}) = set visited \<union> (set rest - {[]})" by auto
    moreover have "ancestor_level S ev (a # rest) visited next1 s = ancestor_level S ev rest visited next1 s" using True by simp
    ultimately show ?thesis using Cons [of visited next1 s] by simp
  next
    case False
    obtain r s1 where g: "st_GetStatus S a s = (r, s1)" by (rule prod.exhaust)
    have "fst (st_GetStatus S a s) = rd a" using assms by (simp add: steady_def)
    then have r: "r = rd a" by (simp add: g)
    show ?thesis
    proof (cases "rejected_at rd a")
      case True
      then obtain row where "rd a = Inr (Some row)" "ts_Status row = StatusRejected"
        by (auto simp: rejected_at_def split: sum.splits option.splits)
      then have "fst (ancestor_level S ev (a # rest) visited next1 s) = Inl a" using False g r by simp
      then show ?thesis using True False by (simp add: level_ok_def)
    next
      case alive: False
      have step: "ancestor_level S ev (a # rest) visited next1 s = ancestor_level S ev rest (a # visited) (next1 @ parents_at rd ev a) s1"
      proof (cases "\<exists>row. rd a = Inr (Some row)")
        case True
        then obtain row where row: "rd a = Inr (Some row)" by blast
        then have "ts_Status row \<noteq> StatusRejected" using alive by (simp add: rejected_at_def)
        then show ?thesis using False g r row by (simp add: parents_at_def)
      next
        case other: False
        then show ?thesis using False g r by (cases "rd a") (auto simp: parents_at_def split: option.splits)
      qed
      let ?fresh = "set rest - set (a # visited) - {[]}"
      have split: "set (a # rest) - set visited - {[]} = insert a ?fresh" using False by auto
      have v: "set visited \<union> (set (a # rest) - {[]}) = set (a # visited) \<union> (set rest - {[]})" using False by auto
      have n: "set next1 \<union> (\<Union>a \<in> insert a ?fresh. set (parents_at rd ev a)) =
          set (next1 @ parents_at rd ev a) \<union> (\<Union>a \<in> ?fresh. set (parents_at rd ev a))" by auto
      show ?thesis unfolding step split v n by (rule level_ok_skip [OF Cons alive])
    qed
  qed
qed

lemma doomed_name: "doomed rd ev self n a \<Longrightarrow> a \<noteq> [] \<and> a \<noteq> self"
  by (cases n) (simp_all add: doomed_Suc del: doomed.simps(2))

text \<open>The visited ancestors: none rejected, and their parents visited or next.\<close>

definition explored :: "(txid \<Rightarrow> transaction_status option result) \<Rightarrow> prop_env \<Rightarrow> txid \<Rightarrow> txid set \<Rightarrow> txid set \<Rightarrow> bool" where
  "explored rd ev self visited next1 \<longleftrightarrow> self \<in> visited \<and>
     (\<forall>v. v \<in> visited \<longrightarrow> v \<noteq> self \<longrightarrow> \<not> rejected_at rd v \<and> set (parents_at rd ev v) \<subseteq> visited \<union> next1 \<union> {[]})"

lemma doomed_leaves:
  assumes "explored rd ev self visited next1"
  shows "doomed rd ev self (Suc m) a \<Longrightarrow> a \<in> visited \<Longrightarrow> \<exists>q. q \<in> next1 \<and> doomed rd ev self m q"
proof (induction m arbitrary: a)
  case 0
  then show ?case using assms by (auto simp: doomed_Suc explored_def list_ex_iff simp del: doomed.simps(2))
next
  case (Suc m)
  have a: "a \<noteq> self" "\<not> rejected_at rd a" "set (parents_at rd ev a) \<subseteq> visited \<union> next1 \<union> {[]}"
    using doomed_name [OF Suc.prems(1)] assms Suc.prems(2) by (auto simp: explored_def)
  obtain p where p: "p \<in> set (parents_at rd ev a)" "doomed rd ev self (Suc m) p"
    using Suc.prems(1) a(2) unfolding doomed_Suc [of rd ev self "Suc m"] list_ex_iff by blast
  show ?case
  proof (cases "p \<in> visited")
    case True
    then show ?thesis using Suc.IH [OF p(2)] doomed_mono by blast
  next
    case False
    then have "p \<in> next1" using a(3) p(1) doomed_name [OF p(2)] by blast
    then show ?thesis using p(2) by blast
  qed
qed

lemma ancestor_walk_exact:
  assumes "steady S rd" and "explored rd ev self (set visited) (set frontier)"
  shows "(\<forall>a. fst (ancestor_walk S ev n frontier visited s) = Some a \<longrightarrow> rejected_at rd a) \<and>
    (fst (ancestor_walk S ev n frontier visited s) \<noteq> None \<longleftrightarrow> (\<exists>f. f \<in> set frontier \<and> doomed rd ev self n f))"
  using assms(2)
proof (induction n arbitrary: frontier visited s)
  case (Suc n)
  let ?fresh = "set frontier - set visited - {[]}"
  obtain res s1 where l: "ancestor_level S ev frontier visited [] s = (res, s1)" by (rule prod.exhaust)
  have ok: "level_ok rd ?fresh (set visited \<union> (set frontier - {[]})) (\<Union>a \<in> ?fresh. set (parents_at rd ev a)) res"
    using ancestor_level_result [OF assms(1), of frontier visited "[]" ev s] by (simp add: l)
  have self: "self \<in> set visited" using Suc.prems by (simp add: explored_def)
  show ?case
  proof (cases "frontier = []")
    case False
    show ?thesis
    proof (cases res)
      case (Inl a)
      then have a: "a \<in> ?fresh" "rejected_at rd a" using ok by (simp_all add: level_ok_def)
      then have "doomed rd ev self (Suc n) a" using self by (auto simp: doomed_Suc simp del: doomed.simps(2))
      then show ?thesis using False l Inl a by auto
    next
      case (Inr vn)
      obtain v' n' where vn: "vn = (v', n')" by (rule prod.exhaust)
      have alive: "\<forall>a. a \<in> ?fresh \<longrightarrow> \<not> rejected_at rd a" and v': "set v' = set visited \<union> (set frontier - {[]})"
        and n': "set n' = (\<Union>a \<in> ?fresh. set (parents_at rd ev a))" using ok by (simp_all add: level_ok_def Inr vn)
      have walk: "ancestor_walk S ev (Suc n) frontier visited s = ancestor_walk S ev n n' v' s1" using False l Inr vn by simp
      have ex: "explored rd ev self (set v') (set n')"
        unfolding explored_def
      proof (intro conjI allI impI)
        show "self \<in> set v'" using self v' by blast
        fix v assume v: "v \<in> set v'" "v \<noteq> self"
        show "\<not> rejected_at rd v" using v v' alive Suc.prems by (auto simp: explored_def)
        show "set (parents_at rd ev v) \<subseteq> set v' \<union> set n' \<union> {[]}"
        proof (cases "v \<in> set visited")
          case True
          then have "set (parents_at rd ev v) \<subseteq> set visited \<union> set frontier \<union> {[]}" using Suc.prems v(2) by (simp add: explored_def)
          then show ?thesis using v' by blast
        next
          case False
          then have "v \<in> ?fresh" using v(1) v' by blast
          then show ?thesis using n' by blast
        qed
      qed
      have up: "doomed rd ev self (Suc n) f" if "q \<in> set (parents_at rd ev f)" "doomed rd ev self n q" "f \<in> ?fresh" for f q
        using that self unfolding doomed_Suc list_ex_iff by blast
      have down: "\<exists>q. q \<in> set n' \<and> doomed rd ev self n q" if "f \<in> set frontier" "doomed rd ev self (Suc n) f" for f
        by (rule doomed_leaves [OF ex that(2)]) (use that(1) doomed_name [OF that(2)] v' in blast)
      have "(\<exists>q. q \<in> set n' \<and> doomed rd ev self n q) \<longleftrightarrow> (\<exists>f. f \<in> set frontier \<and> doomed rd ev self (Suc n) f)"
        unfolding n' using up down [unfolded n'] by blast
      then show ?thesis unfolding walk using Suc.IH [OF ex, of s1] by blast
    qed
  qed simp
qed simp

text \<open>
  C20. The ancestor consulted for a missing parent: against a store that answers steadily, an ancestor is found
  exactly when a parent of the transaction is doomed within eight generations, and the one found is REJECTED there.
\<close>

theorem rejectedAncestor_exact:
  assumes "steady S rd"
  shows "(\<forall>a. fst (rejectedAncestor S ev msg s) = Some a \<longrightarrow> rejected_at rd a) \<and>
    (fst (rejectedAncestor S ev msg s) \<noteq> None \<longleftrightarrow>
      (\<exists>p. p \<in> set (parentTxIDsOf ev msg) \<and> doomed rd ev (pm_TXID msg) maxAncestorWalkDepth p))"
  unfolding rejectedAncestor_def by (rule ancestor_walk_exact [OF assms]) (simp add: explored_def)

text \<open>A store of fixed rows, where only reads matter.\<close>

definition rows_store :: "(txid \<times> transaction_status) list \<Rightarrow> unit tx_store" where
  "rows_store rows = \<lparr>st_GetStatus = (\<lambda>t s. (Inr (map_of rows t), s)), st_BatchUpdateStatusReturning = (\<lambda>us s. (([], None), s)),
     st_BumpRetryCount = (\<lambda>t s. (Inr 1, s)), st_SetPendingRetryFields = (\<lambda>t raw due r s. (Inr (), s)),
     st_ClearRetryState = (\<lambda>t st r s. (Inr (), s)), st_MarkMerkleRegistered = (\<lambda>ts now s. (Inr (), s)),
     st_GetReadyRetries = (\<lambda>now n s. (([], None), s)), st_IterateStatusesSince = (\<lambda>since s. (([], None), s)),
     st_TryAcquireOrRenew = (\<lambda>name holder ttl s. (Inr None, s))\<rparr>"

definition quiet_env :: prop_env where
  "quiet_env = \<lparr>ev_done = (\<lambda>_. False), ev_now = (\<lambda>_. 0), ev_rand = (\<lambda>_. None), ev_watch = (\<lambda>_ _. None), ev_notify = (\<lambda>_. Replied),
     ev_net = (\<lambda>_. good_net), ev_ord = (\<lambda>_. sorted_list_of_fset), ev_spends = (\<lambda>raw. if raw = ''rp'' then Some [(''g'', 0)] else None)\<rparr>"

definition family_rows :: "(txid \<times> transaction_status) list" where
  "family_rows = [(''p'', (plain_status ''p'' StatusPendingRetry 1 [])\<lparr>ts_RawTx := ''rp''\<rparr>), (''g'', plain_status ''g'' StatusRejected 1 ''bad'')]"

theorem rejectedAncestor_exact_witness:
  "fst (rejectedAncestor (rows_store family_rows) quiet_env (plain_msg ''c'' [''p'']) ()) \<noteq> None"
proof -
  have st: "steady (rows_store family_rows) (\<lambda>t. Inr (map_of family_rows t))" by (simp add: steady_def rows_store_def)
  have "doomed (\<lambda>t. Inr (map_of family_rows t)) quiet_env ''c'' maxAncestorWalkDepth ''p''"
    by (simp add: maxAncestorWalkDepth_def eval_nat_numeral family_rows_def climbs_def parentTxIDsOf_def bare_msg_def quiet_env_def
        plain_status_def status_defs)
  moreover have "''p'' \<in> set (parentTxIDsOf quiet_env (plain_msg ''c'' [''p'']))" by (simp add: parentTxIDsOf_def plain_msg_def)
  moreover have "pm_TXID (plain_msg ''c'' [''p'']) = ''c''" by (simp add: plain_msg_def)
  ultimately show ?thesis using rejectedAncestor_exact [OF st, of quiet_env "plain_msg ''c'' [''p'']" "()"] by metis
qed

section \<open>What each part leaves alone\<close>

lemma tick_frame [simp]:
  "w_store (tick w) = w_store w" "w_disp (tick w) = w_disp w" "w_client (tick w) = w_client w" "w_written (tick w) = w_written w"
  "w_events (tick w) = w_events w" "w_notified (tick w) = w_notified w" "w_requeued (tick w) = w_requeued w"
  by (simp_all add: tick_def)

lemma publishBulk_frame [simp]:
  "w_store (publishBulk st w) = w_store w" "w_disp (publishBulk st w) = w_disp w" "w_written (publishBulk st w) = w_written w"
  "w_notified (publishBulk st w) = w_notified w" "w_requeued (publishBulk st w) = w_requeued w"
  by (simp_all add: publishBulk_def)

lemma publishBulkStatus_frame [simp]:
  "w_store (publishBulkStatus cf st ts now w) = w_store w" "w_disp (publishBulkStatus cf st ts now w) = w_disp w"
  "w_written (publishBulkStatus cf st ts now w) = w_written w" "w_notified (publishBulkStatus cf st ts now w) = w_notified w"
  "w_requeued (publishBulkStatus cf st ts now w) = w_requeued w"
  by (simp_all add: publishBulkStatus_def)

lemma fold_publish_frame [simp]:
  "w_store (fold (publishBulk \<circ> snd) gs w) = w_store w" "w_disp (fold (publishBulk \<circ> snd) gs w) = w_disp w"
  "w_written (fold (publishBulk \<circ> snd) gs w) = w_written w" "w_notified (fold (publishBulk \<circ> snd) gs w) = w_notified w"
  "w_requeued (fold (publishBulk \<circ> snd) gs w) = w_requeued w"
  by (induction gs arbitrary: w) simp_all

lemma publishRejections_frame [simp]:
  "w_store (publishRejections cf rej now w) = w_store w" "w_disp (publishRejections cf rej now w) = w_disp w"
  "w_written (publishRejections cf rej now w) = w_written w" "w_notified (publishRejections cf rej now w) = w_notified w"
  "w_requeued (publishRejections cf rej now w) = w_requeued w"
  by (simp_all add: publishRejections_def)

lemma schedulePendingRetry_frame [simp]:
  "w_disp (schedulePendingRetry S cf ev t raw r w) = w_disp w" "w_notified (schedulePendingRetry S cf ev t raw r w) = w_notified w"
  "w_requeued (schedulePendingRetry S cf ev t raw r w) = w_requeued w"
  by (simp_all add: schedulePendingRetry_def Let_def split: prod.splits sum.splits)

lemma schedule_all_frame [simp]:
  "w_disp (schedule_all S cf ev xs w) = w_disp w" "w_notified (schedule_all S cf ev xs w) = w_notified w"
  "w_requeued (schedule_all S cf ev xs w) = w_requeued w"
  by (induction xs arbitrary: w) auto

lemma persistCascade_frame [simp]:
  "w_disp (persistCascade S cf ev cs st now w) = w_disp w" "w_notified (persistCascade S cf ev cs st now w) = w_notified w"
  "w_requeued (persistCascade S cf ev cs st now w) = w_requeued w"
  by (simp_all add: persistCascade_def Let_def)

lemma resolve_missing_frame:
  "resolve_missing_loop S ev now ms cas req w = (cas', req', w') \<Longrightarrow> w_disp w' = w_disp w \<and> w_notified w' = w_notified w \<and>
     w_requeued w' = w_requeued w \<and> w_written w' = w_written w \<and> w_tick w' = w_tick w"
proof (induction ms arbitrary: cas req w)
  case (Cons ml ms)
  obtain m l where ml: "ml = (m, l)" by (rule prod.exhaust)
  obtain r s1 where r: "rejectedAncestor S ev m (w_store w) = (r, s1)" by (rule prod.exhaust)
  show ?case using Cons.prems Cons.IH by (cases r) (fastforce simp: ml r)+
qed simp

text \<open>Terminal events: with every round trip answered one target takes each once.\<close>

lemma notify_one:
  assumes "ev_notify ev (w_tick w) = Replied"
  shows "w_notified (snd (notifyTerminalToDispatcher ev (Some i) t st w)) = w_notified w @ [(t, st)] \<and>
    w_requeued (snd (notifyTerminalToDispatcher ev (Some i) t st w)) = w_requeued w \<and>
    w_written (snd (notifyTerminalToDispatcher ev (Some i) t st w)) = w_written w"
  using assms by (simp add: notifyTerminalToDispatcher_def dispatcherTargets_def Let_def split: prod.splits)

lemma notify_all_one:
  assumes "\<And>k. ev_notify ev k = Replied"
  shows "notify_all ev (Some i) st ts acc w = (cs, w') \<Longrightarrow> w_notified w' = w_notified w @ map (\<lambda>t. (t, st)) ts \<and>
    w_requeued w' = w_requeued w \<and> w_written w' = w_written w"
proof (induction ts arbitrary: acc w)
  case (Cons t ts)
  obtain c w1 where n: "notifyTerminalToDispatcher ev (Some i) t st w = (c, w1)" by (rule prod.exhaust)
  show ?case using Cons.IH [of _ w1] Cons.prems notify_one [where w = w and i = i and t = t and st = st, OF assms] by (auto simp: n)
qed simp

section \<open>Every transaction of a batch is settled or goes round again\<close>

definition undisturbed :: "'s tx_store \<Rightarrow> prop_env \<Rightarrow> bool" where
  "undisturbed S ev \<longleftrightarrow> (\<forall>k. \<not> ev_done ev k \<and> ev_notify ev k = Replied) \<and> (\<forall>us s. snd (fst (st_BatchUpdateStatusReturning S us s)) = None)"

definition verdict_statuses :: "status set" where
  "verdict_statuses = {StatusAcceptedByNetwork, StatusRejected, StatusPendingRetry}"

lemma statuses_differ: "StatusAcceptedByNetwork \<noteq> StatusRejected" "StatusAcceptedByNetwork \<noteq> StatusPendingRetry" "StatusRejected \<noteq> StatusPendingRetry"
  by (simp_all add: status_defs)

lemma three_filters:
  assumes "\<And>u. u \<in> set us \<Longrightarrow> ts_Status u \<in> verdict_statuses"
  shows "mset (map (\<lambda>t. (t, StatusAcceptedByNetwork)) (txids_with StatusAcceptedByNetwork us)) +
      (mset (map (\<lambda>t. (t, StatusRejected)) (txids_with StatusRejected us)) +
       mset (map (\<lambda>t. (t, StatusPendingRetry)) (txids_with StatusPendingRetry us))) = mset (map (\<lambda>u. (ts_TxID u, ts_Status u)) us)"
  using assms
proof (induction us)
  case (Cons u us)
  then have "ts_Status u = StatusAcceptedByNetwork \<or> ts_Status u = StatusRejected \<or> ts_Status u = StatusPendingRetry"
    by (simp add: verdict_statuses_def)
  then show ?case using Cons statuses_differ by (elim disjE) (simp_all add: txids_with_def)
qed (simp add: txids_with_def)

lemma apply_settles:
  assumes "undisturbed S ev" and "\<And>u. u \<in> set us \<Longrightarrow> ts_Status u \<in> verdict_statuses"
  shows "\<exists>N. w_notified (applyTerminalStatuses S cf ev us (Some i) w) = w_notified w @ N \<and>
    mset N = mset (map (\<lambda>u. (ts_TxID u, ts_Status u)) us) \<and> w_requeued (applyTerminalStatuses S cf ev us (Some i) w) = w_requeued w"
proof (cases "us = []")
  case True
  then show ?thesis by (simp add: applyTerminalStatuses_def)
next
  case False
  have replied: "\<And>k. ev_notify ev k = Replied" using assms(1) by (simp add: undisturbed_def)
  obtain prevs s1 where b: "st_BatchUpdateStatusReturning S us (w_store w) = ((prevs, None), s1)"
    using assms(1) by (metis undisturbed_def prod.exhaust fst_conv snd_conv)
  define w4 where "w4 = publishBulkStatus cf StatusPendingRetry (txids_with StatusPendingRetry (transitioned prevs us)) (ev_now ev (w_tick w))
    (publishRejections cf (filter (\<lambda>u. ts_Status u = StatusRejected) (transitioned prevs us)) (ev_now ev (w_tick w))
      (publishBulkStatus cf StatusAcceptedByNetwork (txids_with StatusAcceptedByNetwork (transitioned prevs us)) (ev_now ev (w_tick w))
        ((tick w)\<lparr>w_store := s1, w_written := w_written w @ us\<rparr>)))"
  obtain c5 w5 where n5: "notify_all ev (Some i) StatusAcceptedByNetwork (txids_with StatusAcceptedByNetwork us) [] w4 = (c5, w5)" by (rule prod.exhaust)
  obtain c6 w6 where n6: "notify_all ev (Some i) StatusRejected (txids_with StatusRejected us) [] w5 = (c6, w6)" by (rule prod.exhaust)
  obtain c7 w7 where n7: "notify_all ev (Some i) StatusPendingRetry (txids_with StatusPendingRetry us) [] w6 = (c7, w7)" by (rule prod.exhaust)
  have w4: "w_notified w4 = w_notified w" "w_requeued w4 = w_requeued w" by (simp_all add: w4_def)
  have "applyTerminalStatuses S cf ev us (Some i) w =
      (let w8 = (if c6 \<noteq> [] then persistCascade S cf ev c6 StatusRejected (ev_now ev (w_tick w)) w7 else w7)
       in if c7 \<noteq> [] then persistCascade S cf ev c7 StatusPendingRetry (ev_now ev (w_tick w)) w8 else w8)"
    using False by (simp add: applyTerminalStatuses_def b Let_def w4_def [symmetric] n5 n6 n7)
  then have "w_notified (applyTerminalStatuses S cf ev us (Some i) w) = w_notified w7 \<and>
      w_requeued (applyTerminalStatuses S cf ev us (Some i) w) = w_requeued w7" by (simp add: Let_def)
  then have "w_notified (applyTerminalStatuses S cf ev us (Some i) w) = w_notified w @
      (map (\<lambda>t. (t, StatusAcceptedByNetwork)) (txids_with StatusAcceptedByNetwork us) @
       map (\<lambda>t. (t, StatusRejected)) (txids_with StatusRejected us) @ map (\<lambda>t. (t, StatusPendingRetry)) (txids_with StatusPendingRetry us)) \<and>
      w_requeued (applyTerminalStatuses S cf ev us (Some i) w) = w_requeued w"
    using notify_all_one [OF replied n5] notify_all_one [OF replied n6] notify_all_one [OF replied n7] w4 by simp
  then show ?thesis using three_filters [OF assms(2)] by (metis (no_types, lifting) mset_append)
qed

text \<open>A message that goes round again has been charged once, within its budget.\<close>

definition charged_network :: "prop_config \<Rightarrow> propagationMsg \<Rightarrow> propagationMsg \<Rightarrow> bool" where
  "charged_network cf m q \<longleftrightarrow> pm_TXID q = pm_TXID m \<and> pm_retryCount q = pm_retryCount m + 1 \<and> pm_retryCount q \<le> retryMaxAttempts cf"

definition charged_merkle :: "prop_config \<Rightarrow> propagationMsg \<Rightarrow> propagationMsg \<Rightarrow> bool" where
  "charged_merkle cf m q \<longleftrightarrow> pm_TXID q = pm_TXID m \<and> pm_retryCount q = pm_retryCount m \<and>
     pm_merkleRetryCount q = pm_merkleRetryCount m + 1 \<and> pm_merkleRetryCount q \<le> merkleRetryMaxAttempts cf"

definition conserves :: "(propagationMsg \<Rightarrow> propagationMsg \<Rightarrow> bool) \<Rightarrow> propagationMsg list \<Rightarrow> 's world \<Rightarrow> 's world \<Rightarrow> bool" where
  "conserves R msgs w w' \<longleftrightarrow> (\<exists>N Q. w_notified w' = w_notified w @ N \<and> w_requeued w' = w_requeued w @ Q \<and>
     mset (map fst N) + mset (map pm_TXID Q) = mset (map pm_TXID msgs) \<and> set (map snd N) \<subseteq> verdict_statuses \<and>
     (\<forall>q. q \<in> set Q \<longrightarrow> (\<exists>m. m \<in> set msgs \<and> R m q)))"

lemma conservesI:
  "w_notified w' = w_notified w @ N \<Longrightarrow> w_requeued w' = w_requeued w @ Q \<Longrightarrow>
   mset (map fst N) + mset (map pm_TXID Q) = mset (map pm_TXID msgs) \<Longrightarrow> set (map snd N) \<subseteq> verdict_statuses \<Longrightarrow>
   (\<And>q. q \<in> set Q \<Longrightarrow> \<exists>m. m \<in> set msgs \<and> R m q) \<Longrightarrow> conserves R msgs w w'"
  unfolding conserves_def by blast

lemma conserves_append:
  assumes "conserves R1 xs w w1" and "conserves R2 ys w1 w2" and "mset (map pm_TXID zs) = mset (map pm_TXID xs) + mset (map pm_TXID ys)"
    and "\<And>x q. x \<in> set xs \<Longrightarrow> R1 x q \<Longrightarrow> \<exists>z. z \<in> set zs \<and> R z q" and "\<And>y q. y \<in> set ys \<Longrightarrow> R2 y q \<Longrightarrow> \<exists>z. z \<in> set zs \<and> R z q"
  shows "conserves R zs w w2"
proof -
  obtain N1 Q1 where 1: "w_notified w1 = w_notified w @ N1" "w_requeued w1 = w_requeued w @ Q1"
      "mset (map fst N1) + mset (map pm_TXID Q1) = mset (map pm_TXID xs)" "set (map snd N1) \<subseteq> verdict_statuses"
      "\<And>q. q \<in> set Q1 \<Longrightarrow> \<exists>m. m \<in> set xs \<and> R1 m q"
    using assms(1) unfolding conserves_def by blast
  obtain N2 Q2 where 2: "w_notified w2 = w_notified w1 @ N2" "w_requeued w2 = w_requeued w1 @ Q2"
      "mset (map fst N2) + mset (map pm_TXID Q2) = mset (map pm_TXID ys)" "set (map snd N2) \<subseteq> verdict_statuses"
      "\<And>q. q \<in> set Q2 \<Longrightarrow> \<exists>m. m \<in> set ys \<and> R2 m q"
    using assms(2) unfolding conserves_def by blast
  have "mset (map fst (N1 @ N2)) + mset (map pm_TXID (Q1 @ Q2)) =
      (mset (map fst N1) + mset (map pm_TXID Q1)) + (mset (map fst N2) + mset (map pm_TXID Q2))"
    by (simp only: map_append mset_append ac_simps)
  then have sum: "mset (map fst (N1 @ N2)) + mset (map pm_TXID (Q1 @ Q2)) = mset (map pm_TXID zs)" unfolding 1(3) 2(3) assms(3) .
  show ?thesis
  proof (rule conservesI [OF _ _ sum])
    show "\<exists>m. m \<in> set zs \<and> R m q" if "q \<in> set (Q1 @ Q2)" for q using that 1(5) 2(5) assms(4,5) by (metis Un_iff set_append)
  qed (use 1 2 in simp_all)
qed

lemma conserves_nothing: "w_notified w' = w_notified w \<Longrightarrow> w_requeued w' = w_requeued w \<Longrightarrow> conserves R [] w w'"
  by (rule conservesI [where N = "[]" and Q = "[]"]) simp_all

lemma conserves_moved:
  assumes "conserves R msgs w w'" and "w_notified v = w_notified w" and "w_requeued v = w_requeued w"
  shows "conserves R msgs v w'"
  using assms unfolding conserves_def by simp

lemma park_settles:
  assumes "undisturbed S ev"
  shows "\<exists>N. w_notified (park S cf ev reason lastReason msgs (Some i) w) = w_notified w @ N \<and> mset (map fst N) = mset (map pm_TXID msgs) \<and>
    set (map snd N) \<subseteq> verdict_statuses \<and> w_requeued (park S cf ev reason lastReason msgs (Some i) w) = w_requeued w"
proof -
  let ?us = "map (\<lambda>m. plain_status (pm_TXID m) StatusPendingRetry (ev_now ev (w_tick w)) (reason m)) msgs"
  have "\<And>u. u \<in> set ?us \<Longrightarrow> ts_Status u \<in> verdict_statuses" by (auto simp: plain_status_def verdict_statuses_def)
  from apply_settles [where us = ?us and cf = cf and i = i and w = "tick w", OF assms this] obtain N where
    N: "w_notified (applyTerminalStatuses S cf ev ?us (Some i) (tick w)) = w_notified w @ N" "mset N = mset (map (\<lambda>u. (ts_TxID u, ts_Status u)) ?us)"
      "w_requeued (applyTerminalStatuses S cf ev ?us (Some i) (tick w)) = w_requeued w" by auto
  have "mset (map fst N) = image_mset fst (mset N)" by simp
  also have "\<dots> = mset (map pm_TXID msgs)" unfolding N(2) by (simp add: plain_status_def image_mset.compositionality comp_def)
  finally have fsts: "mset (map fst N) = mset (map pm_TXID msgs)" .
  have "set N = set (map (\<lambda>u. (ts_TxID u, ts_Status u)) ?us)" using N(2) by (metis set_mset_mset)
  then have "set (map snd N) \<subseteq> verdict_statuses" by (auto simp: plain_status_def verdict_statuses_def)
  then show ?thesis using N(1,3) fsts by (auto simp: park_def Let_def)
qed

lemma requeue_settles:
  assumes "undisturbed S ev" and "R = (if stage = retryStageMerkle then charged_merkle cf else charged_network cf)"
  shows "conserves R msgs w (requeueAfterDelayStaged S cf ev msgs (Some i) stage w)"
proof (cases "msgs = []")
  case True
  then show ?thesis by (simp add: requeueAfterDelayStaged_def conserves_nothing)
next
  case False
  define ch where "ch = (if stage = retryStageMerkle then chargeMerkleRetryBudget cf msgs else chargeRetryBudget cf msgs)"
  define w1 where "w1 = (if snd ch = [] then tick w else if stage = retryStageMerkle then parkExhaustedMerkleRegistrations S cf ev (snd ch) (Some i) (tick w)
    else parkExhaustedRequeues S cf ev (snd ch) (Some i) (tick w))"
  have step: "requeueAfterDelayStaged S cf ev msgs (Some i) stage w = w1\<lparr>w_requeued := w_requeued w1 @ fst ch\<rparr>"
    using False assms(1) by (simp add: requeueAfterDelayStaged_def undisturbed_def ch_def w1_def Let_def case_prod_unfold)
  have ids: "mset (map pm_TXID (snd ch)) + mset (map pm_TXID (fst ch)) = mset (map pm_TXID msgs)"
    unfolding ch_def chargeMerkleRetryBudget_def chargeRetryBudget_def Let_def by (induction msgs) auto
  have charged: "\<exists>m. m \<in> set msgs \<and> R m q" if "q \<in> set (fst ch)" for q
    using that by (auto simp: ch_def assms(2) Let_def chargeMerkleRetryBudget_def chargeRetryBudget_def charged_merkle_def charged_network_def split: if_splits)
  have "\<exists>N. w_notified w1 = w_notified w @ N \<and> mset (map fst N) = mset (map pm_TXID (snd ch)) \<and> set (map snd N) \<subseteq> verdict_statuses \<and>
      w_requeued w1 = w_requeued w"
    using park_settles [OF assms(1), of cf _ _ "snd ch" i "tick w"]
    by (simp add: w1_def parkExhaustedMerkleRegistrations_def parkExhaustedRequeues_def)
  then obtain N where N: "w_notified w1 = w_notified w @ N" "mset (map fst N) = mset (map pm_TXID (snd ch))" "set (map snd N) \<subseteq> verdict_statuses"
    "w_requeued w1 = w_requeued w" by blast
  show ?thesis unfolding step
  proof (rule conservesI)
    show "mset (map fst N) + mset (map pm_TXID (fst ch)) = mset (map pm_TXID msgs)" unfolding N(2) by (rule ids)
  qed (use N charged in simp_all)
qed

definition kin :: "propagationMsg \<Rightarrow> propagationMsg \<Rightarrow> bool" where
  "kin m m' \<longleftrightarrow> pm_TXID m' = pm_TXID m \<and> pm_retryCount m' = pm_retryCount m"

definition settled_ids :: "settled \<Rightarrow> txid multiset" where
  "settled_ids sd = mset (map ts_TxID (sd_terminal sd)) + mset (map pm_TXID (sd_requeue sd)) + mset (map (pm_TXID \<circ> fst) (sd_missing sd))"

definition settled_from :: "propagationMsg set \<Rightarrow> settled \<Rightarrow> bool" where
  "settled_from M sd \<longleftrightarrow> (\<forall>u. u \<in> set (sd_terminal sd) \<longrightarrow> ts_Status u \<in> verdict_statuses) \<and>
     (\<forall>q. q \<in> set (sd_requeue sd) \<longrightarrow> (\<exists>m. m \<in> M \<and> kin m q)) \<and> fst ` set (sd_missing sd) \<subseteq> M"

lemma settle_one_ids:
  assumes "result_shape m r"
  shows "settled_ids (settle_one (m, r) sd) = add_mset (pm_TXID m) (settled_ids sd)"
  using assms by (cases "tr_class r") (auto simp: settle_one_def result_shape_def settled_ids_def)

lemma settle_one_from:
  assumes "result_shape m r" and "settled_from M sd" and "m \<in> M"
  shows "settled_from M (settle_one (m, r) sd)"
proof -
  have "\<exists>x. x \<in> M \<and> kin x m" "\<exists>x. x \<in> M \<and> kin x (m\<lparr>pm_retryReason := e\<rparr>)" for e using assms(3) by (auto simp: kin_def)
  then show ?thesis using assms
    by (cases "tr_class r") (auto simp: settle_one_def result_shape_def settled_from_def verdict_statuses_def)
qed

lemma settle_results_settled:
  assumes "list_all2 result_shape batch results"
  shows "settled_ids (settle_results batch results) = mset (map pm_TXID batch) \<and> settled_from (set batch) (settle_results batch results)"
proof -
  have "settled_ids (fold settle_one (zip ms rs) sd) = settled_ids sd + mset (map pm_TXID ms) \<and> settled_from M (fold settle_one (zip ms rs) sd)"
    if "list_all2 result_shape ms rs" "settled_from M sd" "set ms \<subseteq> M" for ms rs sd M
    using that
  proof (induction ms rs arbitrary: sd rule: list_all2_induct)
    case (Cons m ms r rs)
    from Cons.IH [OF settle_one_from [OF Cons.hyps(1) Cons.prems(1)]] Cons.prems(2) settle_one_ids [OF Cons.hyps(1), of sd]
    show ?case by simp
  qed simp
  from this [OF assms, where M = "set batch" and sd = "\<lparr>sd_terminal = [], sd_requeue = [], sd_missing = []\<rparr>"]
  show ?thesis by (simp add: settle_results_def settled_ids_def settled_from_def)
qed

lemma resolve_missing_settled:
  assumes "resolve_missing_loop S ev now ms cas req w = (cas', req', w')"
  shows "mset (map ts_TxID cas') + mset (map pm_TXID req') = mset (map ts_TxID cas) + mset (map pm_TXID req) + mset (map (pm_TXID \<circ> fst) ms) \<and>
    (\<forall>u. u \<in> set cas' \<longrightarrow> u \<in> set cas \<or> ts_Status u = StatusRejected) \<and>
    (\<forall>q. q \<in> set req' \<longrightarrow> q \<in> set req \<or> (\<exists>m. m \<in> fst ` set ms \<and> kin m q))"
  using assms
proof (induction ms arbitrary: cas req w)
  case (Cons ml ms)
  obtain m l where ml: "ml = (m, l)" by (rule prod.exhaust)
  obtain r s1 where r: "rejectedAncestor S ev m (w_store w) = (r, s1)" by (rule prod.exhaust)
  show ?case
  proof (cases r)
    case None
    then have "resolve_missing_loop S ev now ms cas (req @ [m\<lparr>pm_retryReason := l\<rparr>]) (w\<lparr>w_store := s1\<rparr>) = (cas', req', w')"
      using Cons.prems by (simp add: ml r)
    note ih = Cons.IH [OF this]
    have kin: "kin m (m\<lparr>pm_retryReason := l\<rparr>)" by (simp add: kin_def)
    show ?thesis
    proof (intro conjI allI impI)
      fix q assume "q \<in> set req'"
      then have "q \<in> set req \<or> q = m\<lparr>pm_retryReason := l\<rparr> \<or> (\<exists>m. m \<in> fst ` set ms \<and> kin m q)" using ih by auto
      then show "q \<in> set req \<or> (\<exists>m. m \<in> fst ` set (ml # ms) \<and> kin m q)" using kin by (auto simp: ml)
    qed (use ih in \<open>simp_all add: ml\<close>)
  next
    case (Some a)
    then have "resolve_missing_loop S ev now ms (cas @ [plain_status (pm_TXID m) StatusRejected now (cascadeReason StatusRejected a)]) req (w\<lparr>w_store := s1\<rparr>) = (cas', req', w')"
      using Cons.prems by (simp add: ml r)
    from Cons.IH [OF this] show ?thesis by (auto simp: ml plain_status_def)
  qed
qed simp

lemma resolve_settled:
  assumes "(if ms = [] then ([], [], w) else resolveMissingParents S ev ms w) = (cas, req, w')"
  shows "w_notified w' = w_notified w \<and> w_requeued w' = w_requeued w \<and> w_written w' = w_written w"
    and "mset (map ts_TxID cas) + mset (map pm_TXID req) = mset (map (pm_TXID \<circ> fst) ms)"
    and "u \<in> set cas \<Longrightarrow> ts_Status u = StatusRejected" and "q \<in> set req \<Longrightarrow> \<exists>m. m \<in> fst ` set ms \<and> kin m q"
proof -
  have "w_notified w' = w_notified w \<and> w_requeued w' = w_requeued w \<and> w_written w' = w_written w \<and>
    mset (map ts_TxID cas) + mset (map pm_TXID req) = mset (map (pm_TXID \<circ> fst) ms) \<and> (\<forall>u. u \<in> set cas \<longrightarrow> ts_Status u = StatusRejected) \<and>
    (\<forall>q. q \<in> set req \<longrightarrow> (\<exists>m. m \<in> fst ` set ms \<and> kin m q))"
  proof (cases "ms = []")
    case False
    then have r: "resolve_missing_loop S ev (ev_now ev (w_tick w)) ms [] [] (tick w) = (cas, req, w')"
      using assms by (simp add: resolveMissingParents_def)
    show ?thesis using resolve_missing_frame [OF r] resolve_missing_settled [OF r] by simp
  qed (use assms in simp)
  then show "w_notified w' = w_notified w \<and> w_requeued w' = w_requeued w \<and> w_written w' = w_written w"
    and "mset (map ts_TxID cas) + mset (map pm_TXID req) = mset (map (pm_TXID \<circ> fst) ms)"
    and "u \<in> set cas \<Longrightarrow> ts_Status u = StatusRejected" and "q \<in> set req \<Longrightarrow> \<exists>m. m \<in> fst ` set ms \<and> kin m q" by blast+
qed

lemma settle_batch_conserves:
  assumes "undisturbed S ev"
  shows "conserves (charged_network cf) batch w (settle_batch S cf ev batch (Some i) w)"
proof -
  obtain results w1 where b: "broadcast_step cf ev batch w = (results, w1)" by (rule prod.exhaust)
  have w1: "w_notified w1 = w_notified w" "w_requeued w1 = w_requeued w" using b by (auto simp: broadcast_step_def split: prod.splits)
  have "results = fst (broadcastInChunks (ev_spends ev) (ev_net ev (w_tick w)) (teranodeBatchCap cf) (teranodeBatchBytesCap cf) batch (w_client w))"
    using b by (auto simp: broadcast_step_def split: prod.splits)
  then have shape: "list_all2 result_shape batch results" using broadcast_shape by simp
  define sd where "sd = settle_results batch results"
  have sd: "settled_ids sd = mset (map pm_TXID batch)" "settled_from (set batch) sd" using settle_results_settled [OF shape] by (simp_all add: sd_def)
  obtain cas req w2 where r: "(if sd_missing sd = [] then ([], [], w1) else resolveMissingParents S ev (sd_missing sd) w1) = (cas, req, w2)"
    by (rule prod_cases3)
  note rs = resolve_settled [OF r]
  have w2: "w_notified w2 = w_notified w" "w_requeued w2 = w_requeued w" using rs(1) w1 by simp_all
  let ?us = "sd_terminal sd @ cas" and ?rq = "sd_requeue sd @ req"
  have st: "ts_Status u \<in> verdict_statuses" if "u \<in> set ?us" for u
    using that sd(2) rs(3) [of u] by (auto simp: settled_from_def verdict_statuses_def)
  have from_batch: "\<exists>x. x \<in> set batch \<and> kin x m" if "m \<in> set ?rq" for m
    using that sd(2) rs(4) [of m] unfolding settled_from_def set_append by blast
  define w3 where "w3 = applyTerminalStatuses S cf ev ?us (Some i) w2"
  from apply_settles [where us = ?us and cf = cf and i = i and w = w2, OF assms st] obtain N where
    N: "w_notified w3 = w_notified w @ N" "mset N = mset (map (\<lambda>u. (ts_TxID u, ts_Status u)) ?us)" "w_requeued w3 = w_requeued w"
    by (auto simp: w3_def w2)
  have "mset (map fst N) = image_mset fst (mset N)" by simp
  then have fsts: "mset (map fst N) = mset (map ts_TxID ?us)" unfolding N(2) by (simp add: image_mset.compositionality comp_def)
  have "set N = set (map (\<lambda>u. (ts_TxID u, ts_Status u)) ?us)" using N(2) by (metis set_mset_mset)
  then have snds: "set (map snd N) \<subseteq> verdict_statuses" using st by auto
  have step: "settle_batch S cf ev batch (Some i) w = requeueAfterDelayStaged S cf ev ?rq (Some i) retryStageNetwork (if ?rq = [] then w3 else tick w3)"
  proof -
    have calm: "ev_done ev k = False" for k using assms by (simp add: undisturbed_def)
    have none: "requeueAfterDelayStaged S cf ev [] (Some i) retryStageNetwork w3 = w3" by (simp add: requeueAfterDelayStaged_def)
    show ?thesis unfolding settle_batch_def b prod.case Let_def sd_def [symmetric] r w3_def [symmetric] calm if_False using none by simp
  qed
  have rq: "conserves (charged_network cf) ?rq w3 (settle_batch S cf ev batch (Some i) w)"
    unfolding step by (rule conserves_moved [OF requeue_settles [OF assms]]) simp_all
  obtain N2 Q where Q: "w_notified (settle_batch S cf ev batch (Some i) w) = w_notified w3 @ N2" "w_requeued (settle_batch S cf ev batch (Some i) w) = w_requeued w3 @ Q"
      "mset (map fst N2) + mset (map pm_TXID Q) = mset (map pm_TXID ?rq)" "set (map snd N2) \<subseteq> verdict_statuses"
      "\<And>q. q \<in> set Q \<Longrightarrow> \<exists>m. m \<in> set ?rq \<and> charged_network cf m q"
    using rq unfolding conserves_def by blast
  show ?thesis
  proof (rule conservesI)
    have "mset (map fst (N @ N2)) + mset (map pm_TXID Q) = mset (map ts_TxID ?us) + mset (map pm_TXID ?rq)"
      using fsts Q(3) by (simp only: map_append mset_append add.assoc)
    also have "\<dots> = mset (map ts_TxID (sd_terminal sd)) + mset (map pm_TXID (sd_requeue sd)) + (mset (map ts_TxID cas) + mset (map pm_TXID req))"
      by (simp only: map_append mset_append ac_simps)
    also have "\<dots> = mset (map pm_TXID batch)" using sd(1) unfolding rs(2) settled_ids_def .
    finally show "mset (map fst (N @ N2)) + mset (map pm_TXID Q) = mset (map pm_TXID batch)" .
    show "\<exists>m. m \<in> set batch \<and> charged_network cf m q" if "q \<in> set Q" for q
    proof -
      obtain m where m: "m \<in> set ?rq" "charged_network cf m q" using Q(5) \<open>q \<in> set Q\<close> by blast
      show ?thesis using from_batch [OF m(1)] m(2) by (auto simp: kin_def charged_network_def)
    qed
  qed (use N Q snds in auto)
qed

lemma register_loop_result:
  assumes "register_loop errs ctxDone k batch reg fl = (registered, failed)"
  shows "mset (map pm_TXID registered) + mset (map pm_TXID failed) = mset (map pm_TXID reg) + mset (map pm_TXID fl) + mset (map pm_TXID batch) \<and>
    (\<forall>m. m \<in> set registered \<longrightarrow> m \<in> set reg \<or> (\<exists>x. x \<in> set batch \<and> m = watch_ok x)) \<and>
    (\<forall>m. m \<in> set failed \<longrightarrow> m \<in> set fl \<or> (\<exists>x e. x \<in> set batch \<and> m = watch_failed ctxDone e x))"
  using assms
proof (induction batch arbitrary: k reg fl)
  case (Cons x batch)
  have ids: "pm_TXID (watch_ok x) = pm_TXID x" "pm_TXID (watch_failed ctxDone e x) = pm_TXID x" for e
    by (simp_all add: watch_ok_def watch_failed_def)
  show ?case
  proof (cases "errs k")
    case None
    then have "register_loop errs ctxDone (Suc k) batch (reg @ [watch_ok x]) fl = (registered, failed)" using Cons.prems by simp
    note ih = Cons.IH [OF this]
    show ?thesis
    proof (intro conjI)
      show "\<forall>m. m \<in> set registered \<longrightarrow> m \<in> set reg \<or> (\<exists>y. y \<in> set (x # batch) \<and> m = watch_ok y)" using ih by auto
      show "\<forall>m. m \<in> set failed \<longrightarrow> m \<in> set fl \<or> (\<exists>y e. y \<in> set (x # batch) \<and> m = watch_failed ctxDone e y)" using ih by (metis list.set_intros(2))
    qed (use ih ids in simp)
  next
    case (Some e)
    then have "register_loop errs ctxDone (Suc k) batch reg (fl @ [watch_failed ctxDone e x]) = (registered, failed)" using Cons.prems by simp
    note ih = Cons.IH [OF this]
    show ?thesis
    proof (intro conjI)
      show "\<forall>m. m \<in> set registered \<longrightarrow> m \<in> set reg \<or> (\<exists>y. y \<in> set (x # batch) \<and> m = watch_ok y)" using ih by auto
      have "\<forall>m. m \<in> set failed \<longrightarrow> m \<in> set fl \<or> m = watch_failed ctxDone e x \<or> (\<exists>y e. y \<in> set batch \<and> m = watch_failed ctxDone e y)" using ih by auto
      then show "\<forall>m. m \<in> set failed \<longrightarrow> m \<in> set fl \<or> (\<exists>y e. y \<in> set (x # batch) \<and> m = watch_failed ctxDone e y)" by (metis list.set_intros)
    qed (use ih ids in simp)
  qed
qed simp

lemma registerBatch_result:
  assumes "registerBatch S cf ev batch w = (registered, failed, w')"
  shows "w_notified w' = w_notified w \<and> w_requeued w' = w_requeued w \<and> w_written w' = w_written w \<and> w_disp w' = w_disp w"
    and "mset (map pm_TXID registered) + mset (map pm_TXID failed) = mset (map pm_TXID batch)"
    and "m \<in> set registered \<Longrightarrow> \<exists>x. x \<in> set batch \<and> (m = x \<or> m = watch_ok x)"
    and "m \<in> set failed \<Longrightarrow> \<exists>x e d. x \<in> set batch \<and> m = watch_failed d e x"
proof -
  have all: "(w_notified w' = w_notified w \<and> w_requeued w' = w_requeued w \<and> w_written w' = w_written w \<and> w_disp w' = w_disp w) \<and>
    mset (map pm_TXID registered) + mset (map pm_TXID failed) = mset (map pm_TXID batch) \<and>
    (\<forall>m. m \<in> set registered \<longrightarrow> (\<exists>x. x \<in> set batch \<and> (m = x \<or> m = watch_ok x))) \<and>
    (\<forall>m. m \<in> set failed \<longrightarrow> (\<exists>x e d. x \<in> set batch \<and> m = watch_failed d e x))"
  proof (cases "merkleEnabled cf")
    case True
    obtain reg fl where l: "register_loop (ev_watch ev (w_tick w)) (ev_done ev (w_tick w)) 0 batch [] [] = (reg, fl)" by (rule prod.exhaust)
    have "reg = registered" "fl = failed" "w_notified w' = w_notified w \<and> w_requeued w' = w_requeued w \<and> w_written w' = w_written w \<and> w_disp w' = w_disp w"
      using assms True by (auto simp: registerBatch_def l split: if_splits)
    then show ?thesis using register_loop_result [OF l] by (intro conjI) (simp_all, blast+)
  next
    case False
    then show ?thesis using assms by (auto simp: registerBatch_def)
  qed
  then show "w_notified w' = w_notified w \<and> w_requeued w' = w_requeued w \<and> w_written w' = w_written w \<and> w_disp w' = w_disp w"
    and "mset (map pm_TXID registered) + mset (map pm_TXID failed) = mset (map pm_TXID batch)" by blast+
  show "m \<in> set registered \<Longrightarrow> \<exists>x. x \<in> set batch \<and> (m = x \<or> m = watch_ok x)" using all by blast
  show "m \<in> set failed \<Longrightarrow> \<exists>x e d. x \<in> set batch \<and> m = watch_failed d e x" using all by blast
qed

text \<open>
  C3. Nothing of a batch is lost and nothing goes round for ever. When the claim lives, the dispatcher answers and
  the store takes status writes, one pass over a batch sends each transaction exactly once on one of two ways: its
  dispatcher is told an accepted, rejected or parked status, which frees its offset, or it is requeued with one
  attempt charged to one of its two budgets, and never beyond that budget.
\<close>

theorem processBatch_conserves:
  assumes "undisturbed S ev"
  shows "\<exists>N Q. w_notified (processBatch S cf ev batch (Some i) w) = w_notified w @ N \<and>
    w_requeued (processBatch S cf ev batch (Some i) w) = w_requeued w @ Q \<and>
    mset (map fst N) + mset (map pm_TXID Q) = mset (map pm_TXID batch) \<and>
    set (map snd N) \<subseteq> {StatusAcceptedByNetwork, StatusRejected, StatusPendingRetry} \<and>
    (\<forall>q. q \<in> set Q \<longrightarrow> (\<exists>m. m \<in> set batch \<and> (charged_network cf m q \<or> charged_merkle cf m q)))"
proof -
  let ?R = "\<lambda>m q. charged_network cf m q \<or> charged_merkle cf m q" and ?w' = "processBatch S cf ev batch (Some i) w"
  have calm: "ev_done ev k = False" for k using assms by (simp add: undisturbed_def)
  obtain registered failed w1 where r: "registerBatch S cf ev batch (tick w) = (registered, failed, w1)" by (rule prod_cases3)
  note rr = registerBatch_result [OF r]
  define w2 where "w2 = requeueAfterDelayStaged S cf ev failed (Some i) retryStageMerkle (tick w1)"
  have c1: "conserves (charged_merkle cf) failed w w2"
    unfolding w2_def by (rule conserves_moved [OF requeue_settles [OF assms]]) (use rr(1) in simp_all)
  have pb: "?w' = (if registered = [] then w2 else settle_batch S cf ev registered (Some i) w2)"
    by (simp add: processBatch_def calm r w2_def Let_def)
  have c2: "conserves (charged_network cf) registered w2 ?w'"
    unfolding pb using settle_batch_conserves [OF assms, of cf registered w2 i] by (simp add: conserves_nothing)
  have "conserves ?R batch w ?w'"
  proof (rule conserves_append [OF c1 c2])
    show "mset (map pm_TXID batch) = mset (map pm_TXID failed) + mset (map pm_TXID registered)" using rr(2) by (simp add: ac_simps)
    show "\<exists>z. z \<in> set batch \<and> ?R z q" if "x \<in> set failed" "charged_merkle cf x q" for x q
      using rr(4) [OF that(1)] that(2) by (auto simp: watch_failed_def charged_merkle_def split: if_splits)
    show "\<exists>z. z \<in> set batch \<and> ?R z q" if "y \<in> set registered" "charged_network cf y q" for y q
      using rr(3) [OF that(1)] that(2) by (auto simp: watch_ok_def charged_network_def)
  qed
  then show ?thesis unfolding conserves_def verdict_statuses_def .
qed

theorem processBatch_conserves_witness:
  "\<exists>N Q. w_notified (processBatch (rows_store []) sample_config quiet_env [plain_msg ''a'' []] (Some 0) ((sample_world ())\<lparr>w_disp := [newDispatcher]\<rparr>)) = [] @ N \<and>
    w_requeued (processBatch (rows_store []) sample_config quiet_env [plain_msg ''a'' []] (Some 0) ((sample_world ())\<lparr>w_disp := [newDispatcher]\<rparr>)) = [] @ Q \<and>
    mset (map fst N) + mset (map pm_TXID Q) = {#''a''#}"
proof -
  have "undisturbed (rows_store []) quiet_env" by (simp add: undisturbed_def rows_store_def quiet_env_def)
  from processBatch_conserves [OF this, of sample_config "[plain_msg ''a'' []]" 0 "(sample_world ())\<lparr>w_disp := [newDispatcher]\<rparr>"]
  show ?thesis by (auto simp: sample_world_def plain_msg_def)
qed

end
