(* ===== verification/Propagation_Grounds.thy ===== *)
theory Propagation_Grounds
  imports Propagation_Retry_Correct
begin

text \<open>
  The grounds of the verdicts the propagator writes: whatever the store answers, however its context ends and
  whichever events are lost, an ACCEPTED_BY_NETWORK row needs a peer that took the transaction, and a REJECTED row
  needs a peer that refused it, an ancestor the store reported REJECTED, or an exhausted durable retry budget.
\<close>

section \<open>Grounds\<close>

definition reported_rejected :: "'s tx_store \<Rightarrow> txid \<Rightarrow> bool" where
  "reported_rejected S a \<longleftrightarrow> (\<exists>s row. fst (st_GetStatus S a s) = Inr (Some row) \<and> ts_Status row = StatusRejected)"

definition peer_said :: "prop_env \<Rightarrow> (string \<Rightarrow> propagationMsg \<Rightarrow> bool) \<Rightarrow> propagationMsg set \<Rightarrow> bool \<Rightarrow> txid \<Rightarrow> bool" where
  "peer_said ev took M verdict t \<longleftrightarrow> (\<exists>m k. m \<in> M \<and> pm_TXID m = t \<and> answered (ev_net ev k) took verdict m)"

definition directly_rejected :: "'s tx_store \<Rightarrow> prop_env \<Rightarrow> (string \<Rightarrow> propagationMsg \<Rightarrow> bool) \<Rightarrow> propagationMsg set \<Rightarrow> txid \<Rightarrow> bool" where
  "directly_rejected S ev took M t \<longleftrightarrow> peer_said ev took M False t \<or> (\<exists>m a. m \<in> M \<and> pm_TXID m = t \<and> reported_rejected S a)"

definition out_of_retries :: "'s tx_store \<Rightarrow> prop_config \<Rightarrow> txid \<Rightarrow> bool" where
  "out_of_retries S cf t \<longleftrightarrow> (\<exists>s n. fst (st_BumpRetryCount S t s) = Inr n \<and> n > pendingRetryMaxAttempts cf)"

definition grounded ::
    "'s tx_store \<Rightarrow> prop_config \<Rightarrow> prop_env \<Rightarrow> (string \<Rightarrow> propagationMsg \<Rightarrow> bool) \<Rightarrow> propagationMsg set \<Rightarrow> transaction_status \<Rightarrow> bool" where
  "grounded S cf ev took M u \<longleftrightarrow>
     (ts_Status u = StatusAcceptedByNetwork \<longrightarrow> peer_said ev took M True (ts_TxID u)) \<and>
     (ts_Status u = StatusRejected \<longrightarrow>
        directly_rejected S ev took M (ts_TxID u) \<or>
        (\<exists>a. directly_rejected S ev took M a \<and> ts_ExtraInfo u = cascadeReason StatusRejected a) \<or>
        out_of_retries S cf (ts_TxID u))"

definition writes_only :: "(transaction_status \<Rightarrow> bool) \<Rightarrow> 's world \<Rightarrow> 's world \<Rightarrow> bool" where
  "writes_only P w w' \<longleftrightarrow> (\<exists>U. w_written w' = w_written w @ U \<and> list_all P U)"

lemma writes_only_same: "w_written w' = w_written w \<Longrightarrow> writes_only P w w'"
  by (simp add: writes_only_def)

lemma writes_only_trans: "writes_only P w w1 \<Longrightarrow> writes_only P w1 w2 \<Longrightarrow> writes_only P w w2"
  by (force simp: writes_only_def)

lemma writes_only_from: "writes_only P v w' \<Longrightarrow> w_written v = w_written w \<Longrightarrow> writes_only P w w'"
  by (simp add: writes_only_def)

lemma writes_only_to: "writes_only P w v \<Longrightarrow> w_written w' = w_written v \<Longrightarrow> writes_only P w w'"
  by (simp add: writes_only_def)

section \<open>Every part writes grounded rows only\<close>

lemma parked_grounded: "grounded S cf ev took M (plain_status t StatusPendingRetry now info)"
  by (simp add: grounded_def plain_status_def status_defs)

lemma schedule_grounded: "writes_only (grounded S cf ev took M) w (schedulePendingRetry S cf ev t raw r w)"
proof -
  obtain b s1 where b: "st_BumpRetryCount S t (w_store w) = (b, s1)" by (rule prod.exhaust)
  show ?thesis
  proof (cases "raw \<noteq> [] \<and> (\<exists>n. b = Inr n \<and> n > pendingRetryMaxAttempts cf)")
    case True
    then obtain n where n: "b = Inr n" "n > pendingRetryMaxAttempts cf" by blast
    have "fst (st_BumpRetryCount S t (w_store w)) = Inr n" by (simp add: b n)
    then have out: "out_of_retries S cf t" unfolding out_of_retries_def using n(2) by blast
    let ?st = "empty_status\<lparr>ts_TxID := t, ts_Status := StatusRejected, ts_ExtraInfo := giveUpReason (pendingRetryMaxAttempts cf) r\<rparr>"
    have "grounded S cf ev took M ?st" using out by (simp add: grounded_def status_defs)
    moreover have "w_written (schedulePendingRetry S cf ev t raw r w) = w_written w \<or>
        w_written (schedulePendingRetry S cf ev t raw r w) = w_written w @ [?st]"
      using True n by (simp add: schedulePendingRetry_def b Let_def split: prod.splits sum.splits)
    ultimately show ?thesis unfolding writes_only_def by force
  next
    case False
    then have "w_written (schedulePendingRetry S cf ev t raw r w) = w_written w"
      by (auto simp: schedulePendingRetry_def b Let_def split: sum.splits)
    then show ?thesis by (rule writes_only_same)
  qed
qed

lemma schedule_all_grounded: "writes_only (grounded S cf ev took M) w (schedule_all S cf ev xs w)"
proof (induction xs arbitrary: w)
  case (Cons x xs)
  obtain t raw r where x: "x = (t, raw, r)" by (rule prod_cases3)
  show ?case unfolding x schedule_all.simps by (rule writes_only_trans [OF schedule_grounded Cons])
qed (simp add: writes_only_same)

lemma persist_grounded:
  assumes "st = StatusPendingRetry \<or> st = StatusRejected \<and> (\<forall>c. c \<in> set cs \<longrightarrow> directly_rejected S ev took M (snd (snd c)))"
  shows "writes_only (grounded S cf ev took M) w (persistCascade S cf ev cs st now w)"
proof -
  let ?us = "map (\<lambda>(t, _, a). plain_status t st now (cascadeReason st a)) cs"
  define w1 where "w1 = w\<lparr>w_store := snd (st_BatchUpdateStatusReturning S ?us (w_store w)), w_written := w_written w @ ?us\<rparr>"
  have "grounded S cf ev took M (plain_status t st now (cascadeReason st a))" if "(t, raw, a) \<in> set cs" for t raw a
    using assms that by (auto simp: grounded_def plain_status_def status_defs)
  then have "list_all (grounded S cf ev took M) ?us" by (auto simp: list_all_iff)
  then have one: "writes_only (grounded S cf ev took M) w w1" by (auto simp: writes_only_def w1_def)
  have two: "writes_only (grounded S cf ev took M) w1
      (if st = StatusPendingRetry then schedule_all S cf ev (map (\<lambda>(t, raw, a). (t, raw, cascadeReason st a)) cs) w1 else w1)"
    by (simp add: schedule_all_grounded writes_only_same)
  show ?thesis
    by (rule writes_only_to [OF writes_only_trans [OF one two]]) (simp add: persistCascade_def Let_def w1_def)
qed

lemma notify_targets_written: "w_written (snd (notify_targets ev t st is acc w)) = w_written w"
  by (induction "is" arbitrary: acc w) (auto simp: Let_def split: prod.splits notify_outcome.splits)

lemma notify_all_written:
  "notify_all ev io st ts acc w = (cs, w') \<Longrightarrow> w_written w' = w_written w \<and> (\<forall>c. c \<in> set cs \<longrightarrow> c \<in> set acc \<or> snd (snd c) \<in> set ts)"
proof (induction ts arbitrary: acc w)
  case (Cons t ts)
  obtain c w1 where n: "notifyTerminalToDispatcher ev io t st w = (c, w1)" by (rule prod.exhaust)
  have w1: "w_written w1 = w_written w"
    using notify_targets_written [of ev t st "dispatcherTargets io w" "[]" w] n by (simp add: notifyTerminalToDispatcher_def)
  have "notify_all ev io st ts (acc @ map (\<lambda>(child, raw). (child, raw, t)) c) w1 = (cs, w')" using Cons.prems by (simp add: n)
  from Cons.IH [OF this] w1 show ?case by fastforce
qed simp

text \<open>Statuses fit to be handed to \<open>applyTerminalStatuses\<close>.\<close>

definition fit :: "'s tx_store \<Rightarrow> prop_env \<Rightarrow> (string \<Rightarrow> propagationMsg \<Rightarrow> bool) \<Rightarrow> propagationMsg set \<Rightarrow> transaction_status \<Rightarrow> bool" where
  "fit S ev took M u \<longleftrightarrow>
     (ts_Status u = StatusAcceptedByNetwork \<longrightarrow> peer_said ev took M True (ts_TxID u)) \<and>
     (ts_Status u = StatusRejected \<longrightarrow> directly_rejected S ev took M (ts_TxID u))"

lemma fit_grounded: "fit S ev took M u \<Longrightarrow> grounded S cf ev took M u"
  by (simp add: fit_def grounded_def)

lemma apply_grounded:
  assumes "list_all (fit S ev took M) us"
  shows "writes_only (grounded S cf ev took M) w (applyTerminalStatuses S cf ev us io w)"
proof (cases "us = []")
  case True
  then show ?thesis by (simp add: applyTerminalStatuses_def writes_only_same)
next
  case False
  obtain prevs err s1 where b: "st_BatchUpdateStatusReturning S us (w_store w) = ((prevs, err), s1)" by (metis prod.exhaust)
  define w4 where "w4 = publishBulkStatus cf StatusPendingRetry (txids_with StatusPendingRetry (transitioned prevs us)) (ev_now ev (w_tick w))
    (publishRejections cf (filter (\<lambda>u. ts_Status u = StatusRejected) (transitioned prevs us)) (ev_now ev (w_tick w))
      (publishBulkStatus cf StatusAcceptedByNetwork (txids_with StatusAcceptedByNetwork (transitioned prevs us)) (ev_now ev (w_tick w))
        ((tick w)\<lparr>w_store := s1, w_written := w_written w @ us\<rparr>)))"
  have "list_all (grounded S cf ev took M) us" using assms by (auto simp: list_all_iff intro: fit_grounded)
  then have w4: "writes_only (grounded S cf ev took M) w w4" by (auto simp: writes_only_def w4_def)
  obtain c5 w5 where n5: "notify_all ev io StatusAcceptedByNetwork (txids_with StatusAcceptedByNetwork us) [] w4 = (c5, w5)" by (rule prod.exhaust)
  obtain c6 w6 where n6: "notify_all ev io StatusRejected (txids_with StatusRejected us) [] w5 = (c6, w6)" by (rule prod.exhaust)
  obtain c7 w7 where n7: "notify_all ev io StatusPendingRetry (txids_with StatusPendingRetry us) [] w6 = (c7, w7)" by (rule prod.exhaust)
  define w8 where "w8 = (if c6 \<noteq> [] then persistCascade S cf ev c6 StatusRejected (ev_now ev (w_tick w)) w7 else w7)"
  define w9 where "w9 = (if c7 \<noteq> [] then persistCascade S cf ev c7 StatusPendingRetry (ev_now ev (w_tick w)) w8 else w8)"
  have "directly_rejected S ev took M (snd (snd c))" if "c \<in> set c6" for c
  proof -
    have "snd (snd c) \<in> set (txids_with StatusRejected us)"
      using conjunct2 [OF notify_all_written [OF n6], rule_format, OF that] by simp
    then show ?thesis using assms by (auto simp: txids_with_def list_all_iff fit_def)
  qed
  then have w8: "writes_only (grounded S cf ev took M) w7 w8" by (auto simp: w8_def intro: persist_grounded writes_only_same)
  have w9: "writes_only (grounded S cf ev took M) w8 w9" by (auto simp: w9_def intro: persist_grounded writes_only_same)
  have "w_written w7 = w_written w4" using notify_all_written [OF n5] notify_all_written [OF n6] notify_all_written [OF n7] by simp
  then have all: "writes_only (grounded S cf ev took M) w w9"
    by (rule writes_only_trans [OF writes_only_to [OF w4] writes_only_trans [OF w8 w9]])
  have "applyTerminalStatuses S cf ev us io w = (if err \<noteq> None then w4 else w9)"
    using False by (simp add: applyTerminalStatuses_def b Let_def w4_def [symmetric] n5 n6 n7 w8_def w9_def)
  then show ?thesis using w4 all by simp
qed

lemma park_grounded: "writes_only (grounded S cf ev took M) w (park S cf ev reason lastReason msgs io w)"
proof -
  let ?us = "map (\<lambda>m. plain_status (pm_TXID m) StatusPendingRetry (ev_now ev (w_tick w)) (reason m)) msgs"
  have "list_all (fit S ev took M) ?us" by (simp add: list_all_iff fit_def plain_status_def status_defs)
  from writes_only_trans [OF apply_grounded [OF this] schedule_all_grounded]
  show ?thesis unfolding park_def Let_def by (rule writes_only_from) simp
qed

lemma requeue_grounded: "writes_only (grounded S cf ev took M) w (requeueAfterDelayStaged S cf ev msgs io stage w)"
proof (cases "msgs = [] \<or> ev_done ev (w_tick w)")
  case True
  then show ?thesis by (auto simp: requeueAfterDelayStaged_def intro: writes_only_same)
next
  case False
  obtain retry exhausted where c: "(if stage = retryStageMerkle then chargeMerkleRetryBudget cf msgs else chargeRetryBudget cf msgs) = (retry, exhausted)"
    by (rule prod.exhaust)
  define w1 where "w1 = (if exhausted = [] then tick w
    else if stage = retryStageMerkle then parkExhaustedMerkleRegistrations S cf ev exhausted io (tick w)
    else parkExhaustedRequeues S cf ev exhausted io (tick w))"
  have w1: "writes_only (grounded S cf ev took M) (tick w) w1"
    by (simp add: w1_def parkExhaustedMerkleRegistrations_def parkExhaustedRequeues_def park_grounded writes_only_same)
  have "requeueAfterDelayStaged S cf ev msgs io stage w = w1\<lparr>w_requeued := w_requeued w1 @ retry\<rparr>"
    using False by (simp add: requeueAfterDelayStaged_def c w1_def [symmetric] Let_def)
  then show ?thesis by (simp add: writes_only_to [OF writes_only_from [OF w1]])
qed

lemma level_reports: "ancestor_level S ev frontier visited next1 s = (Inl a, s1) \<Longrightarrow> reported_rejected S a"
proof (induction frontier arbitrary: visited next1 s)
  case (Cons b rest)
  show ?case
  proof (cases "b = [] \<or> b \<in> set visited")
    case True
    then show ?thesis using Cons.prems Cons.IH by simp
  next
    case False
    obtain g s2 where g: "st_GetStatus S b s = (g, s2)" by (rule prod.exhaust)
    show ?thesis
    proof (cases "\<exists>row. g = Inr (Some row) \<and> ts_Status row = StatusRejected")
      case True
      then obtain row where row: "g = Inr (Some row)" "ts_Status row = StatusRejected" by blast
      then have "a = b" using Cons.prems False by (simp add: g)
      then show ?thesis using row g by (metis reported_rejected_def fst_conv)
    next
      case not: False
      then show ?thesis using Cons.prems Cons.IH False by (auto simp: g split: sum.splits option.splits if_splits)
    qed
  qed
qed simp

lemma walk_reports: "ancestor_walk S ev n frontier visited s = (Some a, s1) \<Longrightarrow> reported_rejected S a"
proof (induction n arbitrary: frontier visited s)
  case (Suc n)
  obtain l s2 where l: "ancestor_level S ev frontier visited [] s = (l, s2)" by (rule prod.exhaust)
  show ?case using Suc.prems Suc.IH level_reports [of S ev frontier visited "[]" s a s2] by (auto simp: l split: sum.splits if_splits prod.splits)
qed simp

lemma resolve_fit:
  assumes "resolve_missing_loop S ev now ms cas req w = (cas', req', w')" and "fst ` set ms \<subseteq> M" and "list_all (fit S ev took M) cas"
  shows "list_all (fit S ev took M) cas'"
  using assms
proof (induction ms arbitrary: cas req w)
  case (Cons ml ms)
  obtain m l where ml: "ml = (m, l)" by (rule prod.exhaust)
  obtain r s1 where r: "rejectedAncestor S ev m (w_store w) = (r, s1)" by (rule prod.exhaust)
  show ?case
  proof (cases r)
    case (Some a)
    have "reported_rejected S a" using r unfolding Some rejectedAncestor_def by (rule walk_reports)
    then have "directly_rejected S ev took M (pm_TXID m)" using Cons.prems(2) by (auto simp: directly_rejected_def ml)
    then have "fit S ev took M (plain_status (pm_TXID m) StatusRejected now (cascadeReason StatusRejected a))"
      by (simp add: fit_def plain_status_def status_defs)
    then show ?thesis using Cons.prems Cons.IH by (simp add: ml r Some)
  next
    case None
    then show ?thesis using Cons.prems Cons.IH by (simp add: ml r)
  qed
qed simp

lemma settle_one_fit:
  assumes "m \<in> M" and "result_shape m r" and "result_sound (ev_net ev k) took m r"
    and "list_all (fit S ev took M) (sd_terminal sd)" and "fst ` set (sd_missing sd) \<subseteq> M"
  shows "list_all (fit S ev took M) (sd_terminal (settle_one (m, r) sd)) \<and> fst ` set (sd_missing (settle_one (m, r) sd)) \<subseteq> M"
proof -
  have "peer_said ev took M True (pm_TXID m)" if "tr_class r = ClassAccepted"
    using assms(1,3) that by (auto simp: peer_said_def result_sound_def)
  moreover have "directly_rejected S ev took M (pm_TXID m)" if "tr_class r = ClassRejected"
    using assms(1,3) that by (auto simp: directly_rejected_def peer_said_def result_sound_def)
  ultimately show ?thesis using assms(1,2,4,5)
    by (cases "tr_class r") (auto simp: settle_one_def result_shape_def fit_def status_defs)
qed

lemma settle_results_fit:
  assumes "list_all2 result_shape batch results" and "list_all2 (result_sound (ev_net ev k) took) batch results" and "set batch \<subseteq> M"
  shows "list_all (fit S ev took M) (sd_terminal (settle_results batch results)) \<and> fst ` set (sd_missing (settle_results batch results)) \<subseteq> M"
proof -
  have "list_all (fit S ev took M) (sd_terminal (fold settle_one (zip ms rs) sd)) \<and> fst ` set (sd_missing (fold settle_one (zip ms rs) sd)) \<subseteq> M"
    if "list_all2 (\<lambda>m r. result_shape m r \<and> result_sound (ev_net ev k) took m r) ms rs" "set ms \<subseteq> M"
      "list_all (fit S ev took M) (sd_terminal sd)" "fst ` set (sd_missing sd) \<subseteq> M" for ms rs sd
    using that
  proof (induction ms rs arbitrary: sd rule: list_all2_induct)
    case (Cons m ms r rs)
    have "m \<in> M" "set ms \<subseteq> M" using Cons.prems(1) by simp_all
    note one = settle_one_fit [OF this(1) conjunct1 [OF Cons.hyps(1)] conjunct2 [OF Cons.hyps(1)] Cons.prems(2,3)]
    show ?case using Cons.IH [OF \<open>set ms \<subseteq> M\<close> conjunct1 [OF one] conjunct2 [OF one]] by simp
  qed simp
  moreover have "list_all2 (\<lambda>m r. result_shape m r \<and> result_sound (ev_net ev k) took m r) batch results"
    using assms(1,2) by (simp add: list_all2_conv_all_nth)
  ultimately show ?thesis using assms(3) by (simp add: settle_results_def)
qed

lemma broadcast_step_results:
  assumes "broadcast_step cf ev batch w = (results, w1)" and "\<And>k. net_truthful (ev_spends ev) took (ev_net ev k)" and "distinct (lower_txids batch)"
  shows "list_all2 result_shape batch results" and "list_all2 (result_sound (ev_net ev (w_tick w)) took) batch results"
    and "w_written w1 = w_written w"
proof -
  have r: "results = fst (broadcastInChunks (ev_spends ev) (ev_net ev (w_tick w)) (teranodeBatchCap cf) (teranodeBatchBytesCap cf) batch (w_client w))"
    "w_written w1 = w_written w"
    using assms(1) by (auto simp: broadcast_step_def split: prod.splits)
  show "list_all2 result_shape batch results" unfolding r by (rule broadcast_shape)
  show "list_all2 (result_sound (ev_net ev (w_tick w)) took) batch results" unfolding r by (rule broadcast_sound [OF assms(2,3)])
qed (use assms(1) in \<open>auto simp: broadcast_step_def split: prod.splits\<close>)

lemma settle_batch_grounded:
  assumes "\<And>k. net_truthful (ev_spends ev) took (ev_net ev k)" and "distinct (lower_txids batch)" and "set batch \<subseteq> M"
  shows "writes_only (grounded S cf ev took M) w (settle_batch S cf ev batch io w)"
proof -
  obtain results w1 where b: "broadcast_step cf ev batch w = (results, w1)" by (rule prod.exhaust)
  note res = broadcast_step_results [OF b assms(1,2)]
  define sd where "sd = settle_results batch results"
  note sd = settle_results_fit [OF res(1,2) assms(3), of S, folded sd_def]
  obtain cas req w2 where r: "(if sd_missing sd = [] then ([], [], w1) else resolveMissingParents S ev (sd_missing sd) w1) = (cas, req, w2)"
    by (rule prod_cases3)
  have cas: "list_all (fit S ev took M) cas"
  proof (cases "sd_missing sd = []")
    case False
    then have "resolve_missing_loop S ev (ev_now ev (w_tick w1)) (sd_missing sd) [] [] (tick w1) = (cas, req, w2)"
      using r by (simp add: resolveMissingParents_def)
    then show ?thesis using sd by (auto intro: resolve_fit)
  qed (use r in simp)
  define w3 where "w3 = applyTerminalStatuses S cf ev (sd_terminal sd @ cas) io w2"
  have "writes_only (grounded S cf ev took M) w2 w3" unfolding w3_def by (rule apply_grounded) (use sd cas in simp)
  then have w3: "writes_only (grounded S cf ev took M) w w3" by (rule writes_only_from) (use resolve_settled(1) [OF r] res(3) in simp)
  have "writes_only (grounded S cf ev took M) w (requeueAfterDelayStaged S cf ev (sd_requeue sd @ req) io retryStageNetwork (tick w3))"
    by (rule writes_only_trans [OF writes_only_to [OF w3] requeue_grounded]) simp
  then show ?thesis using w3 writes_only_to [OF w3, of "tick w3"]
    unfolding settle_batch_def b prod.case Let_def sd_def [symmetric] r w3_def [symmetric] by simp
qed

lemma registered_distinct:
  assumes "registerBatch S cf ev batch w = (registered, failed, w')" and "distinct (lower_txids batch)"
  shows "distinct (lower_txids registered)"
proof -
  have "mset (map str_lower (map pm_TXID (registered @ failed))) = mset (map str_lower (map pm_TXID batch))"
    using registerBatch_result(2) [OF assms(1)] unfolding mset_map [of str_lower] by simp
  then have "distinct (map str_lower (map pm_TXID (registered @ failed)))"
    using assms(2) mset_eq_imp_distinct_iff by (fastforce simp: lower_txids_def comp_def)
  then show ?thesis by (simp add: lower_txids_def comp_def)
qed



end
