(* ===== verification/Propagation_Reaper.thy ===== *)
theory Propagation_Reaper
  imports Propagation_Grounds
begin

text \<open>
  The reaper's passes over \<open>services/propagation/reaper.go\<close>: the grounds of what a rebroadcast writes, the layers
  in which each of its two arms sends, and what becomes of a parked row that cannot be registered.
\<close>

section \<open>Layers\<close>

lemma layers_subseq: "layer \<in> set (layers_of msgs) \<Longrightarrow> subseq layer msgs"
  by (auto simp: layers_of_def layerByDependency_def Let_def layer_at_subseq split: option.splits if_splits)

lemma subseq_distinct_map: "subseq xs ys \<Longrightarrow> distinct (map f ys) \<Longrightarrow> distinct (map f xs) \<and> set xs \<subseteq> set ys"
  by (induction rule: list_emb.induct) auto

lemma parentless_resolve:
  assumes "\<And>i. i < length msgs \<Longrightarrow> pm_InputTXIDs (msgs ! i) = []" and "set is \<subseteq> {..< length msgs}"
  shows "\<exists>state'. resolve_all (Suc fuel) msgs 0 is (replicate (length msgs) 0, state) = Some (0, replicate (length msgs) 0, state')"
  using assms(2)
proof (induction "is" arbitrary: state)
  case (Cons i "is")
  have i: "i < length msgs" using Cons.prems by simp
  have "\<exists>state1. resolve (Suc fuel) msgs i (replicate (length msgs) 0, state) = Some (0, replicate (length msgs) 0, state1)"
    using i assms(1) [OF i] by (auto simp: list_update_same_conv)
  then obtain state1 where "resolve (Suc fuel) msgs i (replicate (length msgs) 0, state) = Some (0, replicate (length msgs) 0, state1)" ..
  then show ?case using Cons by (simp del: resolve.simps)
qed simp

lemma parentless_layers:
  assumes "\<And>m. m \<in> set msgs \<Longrightarrow> pm_InputTXIDs m = []"
  shows "layers_of msgs = [msgs]"
proof (cases "length msgs < 2")
  case False
  have "set [0 ..< length msgs] \<subseteq> {..< length msgs}" by auto
  from parentless_resolve [of msgs, OF _ this, of "length msgs" "replicate (length msgs) 0"] assms obtain state' where
    "resolve_all (length msgs + 1) msgs 0 [0 ..< length msgs] (replicate (length msgs) 0, replicate (length msgs) 0) =
      Some (0, replicate (length msgs) 0, state')" by auto
  moreover have "layer_at msgs (replicate (length msgs) 0) 0 = msgs"
    by (simp add: layer_at_def filter_True map_nth)
  ultimately show ?thesis using False by (simp add: layers_of_def layerByDependency_def)
qed (simp add: layers_of_def layerByDependency_def)

lemma reap_walk_bare:
  assumes "reap_walk now cap rows stuck adopt = (stopped, stuck', adopt')" and "\<And>m. m \<in> set stuck \<Longrightarrow> pm_InputTXIDs m = []"
  shows "m \<in> set stuck' \<Longrightarrow> pm_InputTXIDs m = []"
  using assms
proof (induction rows arbitrary: stuck adopt)
  case (Cons r rows)
  show ?case
  proof (cases "int (length stuck) \<ge> cap")
    case False
    show ?thesis
    proof (cases "reap_choice now r")
      case Rebroadcast
      then have "reap_walk now cap rows (stuck @ [bare_msg (ts_TxID r) (ts_RawTx r)]) adopt = (stopped, stuck', adopt')"
        using Cons.prems(2) False by simp
      then show ?thesis by (rule Cons.IH [OF Cons.prems(1)]) (use Cons.prems(3) in \<open>auto simp: bare_msg_def\<close>)
    next
      case Adopt
      then show ?thesis using Cons False by simp
    next
      case Leave
      then show ?thesis using Cons False by simp
    qed
  qed (use Cons.prems in auto)
qed auto

section \<open>A rebroadcast writes grounded rows\<close>

lemma reap_results_fit:
  assumes "reap_results S ev (zip ms rs) terminal unresolved w = (terminal', unresolved', w')"
    and "list_all2 result_shape ms rs" and "list_all2 (result_sound (ev_net ev k) took) ms rs"
    and "set ms \<subseteq> M" and "list_all (fit S ev took M) terminal"
  shows "list_all (fit S ev took M) terminal' \<and> w_written w' = w_written w"
  using assms(2,3,1,4,5)
proof (induction ms arbitrary: rs terminal unresolved w)
  case (Cons m ms)
  then obtain r rs1 where rs: "rs = r # rs1" and r: "result_shape m r" "result_sound (ev_net ev k) took m r"
    and rest: "list_all2 result_shape ms rs1" "list_all2 (result_sound (ev_net ev k) took) ms rs1" by (auto simp: list_all2_Cons1)
  note ih = Cons.IH [OF rest]
  let ?sd = "settle_one (m, r) \<lparr>sd_terminal = [], sd_requeue = [], sd_missing = []\<rparr>"
  show ?case
  proof (cases "tr_class r = ClassMissingParent")
    case True
    obtain cas req w1 where c: "resolveMissingParents S ev [(m, tr_errMsg r)] w = (cas, req, w1)" by (rule prod_cases3)
    have w1: "w_written w1 = w_written w" using resolve_settled(1) [of "[(m, tr_errMsg r)]" w S ev cas req w1] c by simp
    have "list_all (fit S ev took M) cas"
      by (rule resolve_fit [OF c [unfolded resolveMissingParents_def]]) (use Cons.prems(4) in simp_all)
    then have "list_all (fit S ev took M) (terminal @ cas)" using Cons.prems(5) by simp
    moreover have "reap_results S ev (zip ms rs1) (if cas \<noteq> [] then terminal @ cas else terminal) (if cas \<noteq> [] then unresolved else unresolved @ req) w1 =
        (terminal', unresolved', w')"
      using Cons.prems(3) by (auto simp: rs True c split: if_splits)
    ultimately show ?thesis using ih [of _ _ w1] Cons.prems(4,5) w1 by (cases "cas = []") auto
  next
    case False
    have "list_all (fit S ev took M) (sd_terminal ?sd)" using settle_one_fit [OF _ r, of M S] Cons.prems(4) by simp
    then have "list_all (fit S ev took M) (terminal @ sd_terminal ?sd)" using Cons.prems(5) by simp
    moreover have "reap_results S ev (zip ms rs1) (terminal @ sd_terminal ?sd) (unresolved @ sd_requeue ?sd) w = (terminal', unresolved', w')"
      using Cons.prems(3) False by (cases "tr_class r") (auto simp: rs)
    ultimately show ?thesis using ih Cons.prems(4) by simp
  qed
qed simp

lemma reap_layers_fit:
  assumes "reap_layers S cf ev layers terminal unresolved w = (terminal', unresolved', w')"
    and "\<And>k. net_truthful (ev_spends ev) took (ev_net ev k)" and "\<And>l. l \<in> set layers \<Longrightarrow> distinct (lower_txids l) \<and> set l \<subseteq> M"
    and "list_all (fit S ev took M) terminal"
  shows "list_all (fit S ev took M) terminal' \<and> w_written w' = w_written w"
  using assms(1,3,4)
proof (induction layers arbitrary: terminal unresolved w)
  case (Cons l layers)
  obtain results w1 where b: "broadcast_step cf ev l w = (results, w1)" by (rule prod.exhaust)
  have l: "distinct (lower_txids l)" "set l \<subseteq> M" using Cons.prems(2) by simp_all
  note res = broadcast_step_results [OF b assms(2) l(1)]
  obtain t1 u1 w2 where r: "reap_results S ev (zip l results) terminal unresolved w1 = (t1, u1, w2)" by (rule prod_cases3)
  note one = reap_results_fit [OF r res(1,2) l(2) Cons.prems(3)]
  have "reap_layers S cf ev layers t1 u1 w2 = (terminal', unresolved', w')" using Cons.prems(1) by (simp add: b r)
  from Cons.IH [OF this] Cons.prems(2) one res(3) show ?case by simp
qed simp

lemma rebroadcast_grounded:
  assumes "\<And>k. net_truthful (ev_spends ev) took (ev_net ev k)" and "distinct (lower_txids msgs)"
  shows "writes_only (grounded S cf ev took (set msgs \<union> watch_ok ` set msgs)) w (rebroadcastStuck S cf ev msgs parked w)"
proof -
  let ?M = "set msgs \<union> watch_ok ` set msgs"
  obtain registered failed w1 where r: "registerBatch S cf ev msgs w = (registered, failed, w1)" by (rule prod_cases3)
  have w1: "w_written w1 = w_written w" using registerBatch_result(1) [OF r] by simp
  have sub: "set registered \<subseteq> ?M" using registerBatch_result(3) [OF r] by blast
  obtain terminal unresolved w2 where l: "reap_layers S cf ev (layers_of registered) [] [] w1 = (terminal, unresolved, w2)" by (rule prod_cases3)
  have "distinct (lower_txids layer) \<and> set layer \<subseteq> ?M" if "layer \<in> set (layers_of registered)" for layer
    using subseq_distinct_map [OF layers_subseq [OF that], of "\<lambda>m. str_lower (pm_TXID m)"] registered_distinct [OF r assms(2)] sub
    by (auto simp: lower_txids_def)
  note fits = reap_layers_fit [OF l assms(1) this]
  define w3 where "w3 = applyTerminalStatuses S cf ev terminal None w2"
  have "writes_only (grounded S cf ev took ?M) w2 w3" unfolding w3_def by (rule apply_grounded) (use fits in simp)
  then have w3: "writes_only (grounded S cf ev took ?M) w w3" by (rule writes_only_from) (use fits w1 in simp)
  note booked = writes_only_trans [OF w3 schedule_all_grounded]
  show ?thesis using w1 w3 booked
    by (simp add: rebroadcastStuck_def r l w3_def [symmetric] Let_def writes_only_same)
qed

section \<open>Properties\<close>

text \<open>
  A rebroadcast by the reaper, of stale or of parked transactions and over however many dependency layers, writes
  grounded verdicts only: the conditions are those of a batch of the dispatcher.
\<close>

theorem rebroadcastStuck_grounds:
  assumes "\<And>k. net_truthful (ev_spends ev) took (ev_net ev k)" and "distinct (lower_txids msgs)"
  shows "\<exists>U. w_written (rebroadcastStuck S cf ev msgs parked w) = w_written w @ U \<and>
    list_all (grounded S cf ev took (set msgs \<union> watch_ok ` set msgs)) U"
  using rebroadcast_grounded [OF assms] by (simp add: writes_only_def)

theorem rebroadcastStuck_grounds_witness:
  "\<exists>U. w_written (rebroadcastStuck (rows_store []) sample_config quiet_env [plain_msg ''a'' []] True (sample_world ())) = [] @ U \<and>
    list_all (grounded (rows_store []) sample_config quiet_env (\<lambda>_ _. True) ({plain_msg ''a'' []} \<union> {watch_ok (plain_msg ''a'' [])})) U"
proof -
  have truth: "net_truthful (ev_spends quiet_env) (\<lambda>_ _. True) (ev_net quiet_env k)" for k
    by (auto simp: quiet_env_def net_truthful_def good_net_def truthful_def list_all_iff)
  have "distinct (lower_txids [plain_msg ''a'' []])" by (simp add: lower_txids_def)
  from rebroadcastStuck_grounds [where S = "rows_store []" and cf = sample_config and ev = quiet_env and w = "sample_world ()" and parked = True,
      OF truth this]
  show ?thesis by (simp add: sample_world_def)
qed

text \<open>
  C32. The stale arm does not layer: the messages its walk builds carry no parents, so whatever of them is registered
  goes out as one layer, a parent and its child in the same submission included. Only the parked arm
  fills in the parents.
\<close>

theorem stale_arm_one_layer:
  assumes "reap_walk now cap rows [] [] = (stopped, stuck, adopt)" and "registerBatch S cf ev stuck w = (registered, failed, w1)"
  shows "layers_of registered = [registered]"
proof (rule parentless_layers)
  fix m assume "m \<in> set registered"
  then obtain x where x: "x \<in> set stuck" "m = x \<or> m = watch_ok x" using registerBatch_result(3) [OF assms(2)] by blast
  have "pm_InputTXIDs x = []" by (rule reap_walk_bare [OF assms(1) _ x(1)]) simp
  then show "pm_InputTXIDs m = []" using x(2) by (auto simp: watch_ok_def)
qed

definition stale_rows :: "transaction_status list" where
  "stale_rows = [(plain_status ''p'' StatusReceived 1 [])\<lparr>ts_RawTx := ''rp''\<rparr>, (plain_status ''c'' StatusReceived 1 [])\<lparr>ts_RawTx := ''rc''\<rparr>]"

definition stale_env :: prop_env where
  "stale_env = quiet_env\<lparr>ev_spends := (\<lambda>raw. if raw = ''rc'' then Some [(''p'', 0)] else None)\<rparr>"

theorem stale_arm_one_layer_witness:
  "parentTxIDsOf stale_env (bare_msg ''c'' ''rc'') = [''p''] \<and>
   layers_of [watch_ok (bare_msg ''p'' ''rp''), watch_ok (bare_msg ''c'' ''rc'')] = [[watch_ok (bare_msg ''p'' ''rp''), watch_ok (bare_msg ''c'' ''rc'')]]"
proof
  have walk: "reap_walk (2 * staleAge) 200 stale_rows [] [] = (False, [bare_msg ''p'' ''rp'', bare_msg ''c'' ''rc''], [])"
    by (simp add: stale_rows_def reap_choice_def plain_status_def status_defs before_def staleAge_def)
  have reg: "registerBatch (rows_store []) sample_config stale_env [bare_msg ''p'' ''rp'', bare_msg ''c'' ''rc''] (sample_world ()) =
      ([watch_ok (bare_msg ''p'' ''rp''), watch_ok (bare_msg ''c'' ''rc'')], [], (tick (sample_world ()))\<lparr>w_store := ()\<rparr>)"
    by (simp add: registerBatch_def sample_config_def stale_env_def quiet_env_def rows_store_def)
  show "layers_of [watch_ok (bare_msg ''p'' ''rp''), watch_ok (bare_msg ''c'' ''rc'')] = [[watch_ok (bare_msg ''p'' ''rp''), watch_ok (bare_msg ''c'' ''rc'')]]"
    by (rule stale_arm_one_layer [OF walk reg])
qed (simp add: parentTxIDsOf_def bare_msg_def stale_env_def quiet_env_def)

lemma none_registered:
  assumes "\<And>i. errs i \<noteq> None"
  shows "fst (register_loop errs d k batch reg failed) = reg"
proof (induction batch arbitrary: k failed)
  case (Cons m batch)
  from assms obtain e where "errs k = Some e" by blast
  then show ?case using Cons by simp
qed simp

text \<open>
  When the registration service refuses every parked transaction of a pass, the pass books nothing: the store is
  left as it was, so each row stays due as it is, its attempt uncounted, for the very next tick.
\<close>

theorem unregistered_not_booked:
  assumes "merkleEnabled cf" and "\<And>i. ev_watch ev (w_tick w) i \<noteq> None"
  shows "rebroadcastStuck S cf ev msgs True w = tick w"
proof -
  obtain registered failed where r: "register_loop (ev_watch ev (w_tick w)) (ev_done ev (w_tick w)) 0 msgs [] [] = (registered, failed)"
    by (rule prod.exhaust)
  have "registered = []" using none_registered [of "ev_watch ev (w_tick w)", OF assms(2), of _ 0 msgs "[]" "[]"] r by (metis fst_conv)
  then show ?thesis using assms(1) by (simp add: rebroadcastStuck_def registerBatch_def r)
qed

theorem unregistered_not_booked_witness:
  "rebroadcastStuck (rows_store []) sample_config (quiet_env\<lparr>ev_watch := (\<lambda>_ _. Some (RegStatus 503 ''unavailable''))\<rparr>) [plain_msg ''a'' []] True
     (sample_world ()) = tick (sample_world ())"
  by (rule unregistered_not_booked) (simp_all add: sample_config_def)

end
