(* ===== verification/Chain_World.thy ===== *)
theory Chain_World
  imports Pebble_DB "HOL-Library.State_Monad"
begin

text \<open>
  The surroundings of the BUMP builder and the anchor reconciler (\<open>services/bump_builder/\<close>): the methods of
  \<open>store.Store\<close> they call, as a record of operations over an arbitrary state, so that a call may fail and the
  state may be changed by others between two calls; the answers of chaintracks, the clock, the context and the
  publisher, read one after the other; and a trace of what was asked and answered. The code is a program of the state
  monad of the library; \<open>triple\<close> states what holds of its result and its world.
\<close>

section \<open>The store\<close>

record 's chain_store =
  cs_GetBUMP :: "block_hash \<Rightarrow> 's \<Rightarrow> (nat \<times> bytes) result \<times> 's"
  cs_InsertBUMP :: "block_hash \<Rightarrow> nat \<Rightarrow> bytes \<Rightarrow> 's \<Rightarrow> unit result \<times> 's"
  cs_GetStumpsByBlockHash :: "block_hash \<Rightarrow> 's \<Rightarrow> stump list result \<times> 's"
  cs_DeleteStumpsByBlockHash :: "block_hash \<Rightarrow> 's \<Rightarrow> unit result \<times> 's"
  cs_SetMinedByTxIDs :: "block_hash \<Rightarrow> nat \<Rightarrow> txid list \<Rightarrow> 's
    \<Rightarrow> (transaction_status list \<times> transaction_status list \<times> store_error option) \<times> 's"
  cs_SetStatusByBlockHash :: "block_hash \<Rightarrow> status \<Rightarrow> 's \<Rightarrow> (txid list \<times> store_error option) \<times> 's"
  cs_GetTxIDsByBlockHash :: "block_hash \<Rightarrow> 's \<Rightarrow> txid list result \<times> 's"
  cs_MarkBlockProcessed :: "block_hash \<Rightarrow> nat \<Rightarrow> unix_ns \<Rightarrow> 's \<Rightarrow> unit result \<times> 's"
  cs_ClearBlockProcessed :: "block_hash \<Rightarrow> 's \<Rightarrow> unit result \<times> 's"
  cs_MarkBlockBUMPBuilt :: "block_hash \<Rightarrow> nat \<Rightarrow> unix_ns \<Rightarrow> 's \<Rightarrow> unit result \<times> 's"
  cs_MarkBlocksOrphaned :: "block_hash list \<Rightarrow> unix_ns \<Rightarrow> 's \<Rightarrow> (nat \<times> store_error option) \<times> 's"
  cs_GetBlockProcessingStatus :: "block_hash \<Rightarrow> 's \<Rightarrow> block_processing_status result \<times> 's"
  cs_AddBlockExpectedSubtrees :: "block_hash \<Rightarrow> int list \<Rightarrow> 's \<Rightarrow> unit result \<times> 's"
  cs_GetBlockExpectedSubtrees :: "block_hash \<Rightarrow> 's \<Rightarrow> int list result \<times> 's"
  cs_ClearBlockExpectedSubtrees :: "block_hash \<Rightarrow> 's \<Rightarrow> unit result \<times> 's"
  cs_ListBlockProcessingStatus :: "nat \<Rightarrow> nat \<Rightarrow> 's \<Rightarrow> block_processing_status list result \<times> 's"
  cs_GetActiveTipBlockHeight :: "'s \<Rightarrow> nat result \<times> 's"
  cs_ListOrphanedBlocksToReconcile :: "int \<Rightarrow> 's \<Rightarrow> block_processing_status list result \<times> 's"
  cs_MarkBlockReconciled :: "block_hash \<Rightarrow> unix_ns option \<Rightarrow> unix_ns \<Rightarrow> 's \<Rightarrow> bool result \<times> 's"
  cs_ReactivateBlock :: "block_hash \<Rightarrow> nat \<Rightarrow> unix_ns option \<Rightarrow> 's \<Rightarrow> bool result \<times> 's"
  cs_RequeueOrphanedBlock :: "block_hash \<Rightarrow> unix_ns option \<Rightarrow> 's \<Rightarrow> bool result \<times> 's"

section \<open>The world\<close>

text \<open>What chaintracks says of a height: nothing there (nil, or its not-found error), a failed lookup, or the active block.\<close>

datatype height_answer = HeightAbsent | HeightFailed | HeightHash block_hash

datatype chain_call =
    ReadBUMP block_hash "(nat \<times> bytes) result"
  | ReadStumps block_hash "stump list result"
  | ReadExpected block_hash "int list result"
  | Listed nat "block_processing_status list result"
  | Asked nat height_answer
  | Inserted block_hash nat bytes
  | Mined block_hash nat "txid list" "transaction_status list" "transaction_status list" "store_error option"
  | Published transaction_status bool
  | Stamped block_hash nat
  | Unstamped block_hash
  | Orphaned "block_hash list"
  | Reverted block_hash "txid list" "store_error option"
  | Reconciled block_hash
  | Reactivated block_hash
  | Requeued block_hash
  | StumpsDeleted block_hash
  | ReprocessAsked block_hash

record 's chain_world =
  cw_store :: 's
  cw_tick :: nat
  cw_trace :: "chain_call list"

record chain_env =
  ce_done :: "nat \<Rightarrow> bool"
  ce_now :: "nat \<Rightarrow> unix_ns"
  ce_height :: "nat \<Rightarrow> nat \<Rightarrow> height_answer"
  ce_publish :: "nat \<Rightarrow> bool"

type_synonym ('s, 'a) prog = "('s chain_world, 'a) state"

abbreviation ret :: "'a \<Rightarrow> ('s, 'a) prog" where "ret \<equiv> State_Monad.return"

text \<open>A store call, noted in the trace as the caller says; an observation of the surroundings; a note.\<close>

definition call :: "('s \<Rightarrow> 'r \<times> 's) \<Rightarrow> ('r \<Rightarrow> chain_call list) \<Rightarrow> ('s, 'r) prog" where
  "call f noted = State (\<lambda>w. case f (cw_store w) of (r, s) \<Rightarrow> (r, w\<lparr>cw_store := s, cw_trace := cw_trace w @ noted r\<rparr>))"

definition observe :: "(nat \<Rightarrow> 'r) \<Rightarrow> ('s, 'r) prog" where
  "observe f = State (\<lambda>w. (f (cw_tick w), w\<lparr>cw_tick := Suc (cw_tick w)\<rparr>))"

definition jot :: "chain_call list \<Rightarrow> ('s, unit) prog" where
  "jot cs = State (\<lambda>w. ((), w\<lparr>cw_trace := cw_trace w @ cs\<rparr>))"

section \<open>Reasoning\<close>

definition triple :: "('s chain_world \<Rightarrow> bool) \<Rightarrow> ('s, 'a) prog \<Rightarrow> ('a \<Rightarrow> 's chain_world \<Rightarrow> bool) \<Rightarrow> bool" where
  "triple P m Q \<longleftrightarrow> (\<forall>w r w'. P w \<longrightarrow> run_state m w = (r, w') \<longrightarrow> Q r w')"

lemma triple_ret [intro]: "(\<And>w. P w \<Longrightarrow> Q x w) \<Longrightarrow> triple P (ret x) Q"
  by (simp add: triple_def)

lemma triple_bind: "triple P m Q \<Longrightarrow> (\<And>x. triple (Q x) (f x) R) \<Longrightarrow> triple P (m \<bind> f) R"
  unfolding triple_def by (auto split: prod.splits)

lemma triple_call:
  "(\<And>w r s. P w \<Longrightarrow> f (cw_store w) = (r, s) \<Longrightarrow> Q r (w\<lparr>cw_store := s, cw_trace := cw_trace w @ noted r\<rparr>)) \<Longrightarrow> triple P (call f noted) Q"
  by (auto simp: triple_def call_def split: prod.splits)

lemma triple_observe: "(\<And>w. P w \<Longrightarrow> Q (f (cw_tick w)) (w\<lparr>cw_tick := Suc (cw_tick w)\<rparr>)) \<Longrightarrow> triple P (observe f) Q"
  by (simp add: triple_def observe_def)

lemma triple_jot: "(\<And>w. P w \<Longrightarrow> Q () (w\<lparr>cw_trace := cw_trace w @ cs\<rparr>)) \<Longrightarrow> triple P (jot cs) Q"
  by (simp add: triple_def jot_def)

lemma triple_weaken: "triple P m Q \<Longrightarrow> (\<And>w. P' w \<Longrightarrow> P w) \<Longrightarrow> (\<And>r w. Q r w \<Longrightarrow> Q' r w) \<Longrightarrow> triple P' m Q'"
  unfolding triple_def by blast

lemma triple_if: "(c \<Longrightarrow> triple P m Q) \<Longrightarrow> (\<not> c \<Longrightarrow> triple P m' Q) \<Longrightarrow> triple P (if c then m else m') Q"
  by simp

lemma tripleD: "triple P m Q \<Longrightarrow> P w \<Longrightarrow> run_state m w = (r, w') \<Longrightarrow> Q r w'"
  by (auto simp: triple_def)

lemma triple_ex: "(\<And>x. triple (P x) m Q) \<Longrightarrow> triple (\<lambda>w. \<exists>x. P x w) m Q"
  unfolding triple_def by blast

lemma triple_pure: "(A \<Longrightarrow> triple P m Q) \<Longrightarrow> triple (\<lambda>w. A \<and> P w) m Q"
  unfolding triple_def by blast

end
