(* ===== verification/Datahub.thy ===== *)
theory Datahub
  imports Bump
begin

text \<open>
  \<open>bump/datahub.go\<close>: a block fetched from the first datahub endpoint whose answer parses, passes the caller's
  validator and has a coinbase BUMP that folds to its own header root. What the code takes from go-sdk beyond the
  record \<open>sdk\<close> (the variable-length integers, the length of a serialised transaction, a hash from its bytes) is the record
  \<open>wire\<close>; the network is the argument \<open>get\<close>.
\<close>

section \<open>Responses\<close>

record 'h wire =
  wr_VarInt :: "bytes \<Rightarrow> (nat \<times> bytes) option"
  wr_TxLen :: "bytes \<Rightarrow> nat option"
  wr_Hash :: "bytes \<Rightarrow> 'h option"

text \<open>A response: status, advertised length (negative when absent), the bytes delivered and whether reading then failed.\<close>

record http_response =
  hr_status :: int
  hr_contentLength :: int
  hr_body :: bytes
  hr_readFailed :: bool

datatype block_error =
    TransportFailed
  | BadStatus int
  | TooLong
  | ReadFailed
  | Malformed
  | ValidatorRejected
  | CoinbaseMismatch
  | NoURLs
  | AllFailed "(string \<times> block_error) list"

type_synonym 'h block_data = "'h list \<times> bytes \<times> 'h option"

definition DefaultMaxBlockBytes :: nat where "DefaultMaxBlockBytes = 1024 * 1024 * 1024"
definition maxSubtreeCount :: nat where "maxSubtreeCount = 10000000"
definition maxTxCount :: nat where "maxTxCount = 1000000000"
definition maxBlockSizeBytes :: nat where "maxBlockSizeBytes = 2 ^ 40"

section \<open>Parsing\<close>

fun read_hashes :: "'h wire \<Rightarrow> nat \<Rightarrow> bytes \<Rightarrow> 'h list \<Rightarrow> ('h list \<times> bytes) option" where
  "read_hashes wr 0 r hashes = Some (hashes, r)"
| "read_hashes wr (Suc n) r hashes =
     (if length r < 32 then None
      else case wr_Hash wr (take 32 r) of
             None \<Rightarrow> None
           | Some h \<Rightarrow> read_hashes wr n (drop 32 r) (hashes @ [h]))"

text \<open>What follows the subtree hashes; whatever goes wrong there means no coinbase BUMP.\<close>

definition coinbase_tail :: "'h wire \<Rightarrow> bytes \<Rightarrow> bytes" where
  "coinbase_tail wr remaining =
     (case wr_TxLen wr remaining of
        None \<Rightarrow> []
      | Some used \<Rightarrow>
          (case wr_VarInt wr (drop used remaining) of
             None \<Rightarrow> []
           | Some (_, r) \<Rightarrow>
               (case wr_VarInt wr r of
                  None \<Rightarrow> []
                | Some (cbLen, r') \<Rightarrow> if cbLen = 0 \<or> cbLen > length r' then [] else take cbLen r')))"

definition parseBlockBinary :: "'h wire \<Rightarrow> bytes \<Rightarrow> 'h block_data option" where
  "parseBlockBinary wr data =
     (if length data < 80 then None
      else case wr_Hash wr (take 32 (drop 36 data)) of
        None \<Rightarrow> None
      | Some headerMerkleRoot \<Rightarrow>
          (case wr_VarInt wr (drop 80 data) of
             None \<Rightarrow> None
           | Some (txCount, r1) \<Rightarrow>
               if txCount > maxTxCount then None
               else case wr_VarInt wr r1 of
                 None \<Rightarrow> None
               | Some (sizeBytes, r2) \<Rightarrow>
                   if sizeBytes > maxBlockSizeBytes then None
                   else case wr_VarInt wr r2 of
                     None \<Rightarrow> None
                   | Some (subtreeCount, r3) \<Rightarrow>
                       if subtreeCount > maxSubtreeCount then None
                       else if subtreeCount > length r3 div 32 then None
                       else case read_hashes wr subtreeCount r3 [] of
                         None \<Rightarrow> None
                       | Some (hashes, remaining) \<Rightarrow> Some (hashes, coinbase_tail wr remaining, Some headerMerkleRoot)))"

section \<open>Fetching\<close>

text \<open>The body is read through a reader of one byte more than the cap, so a failure behind that byte is not seen.\<close>

definition fetchBlockBinary :: "'h wire \<Rightarrow> http_response option \<Rightarrow> nat \<Rightarrow> block_error + 'h block_data" where
  "fetchBlockBinary wr answer maxBlockBytes =
     (case answer of
        None \<Rightarrow> Inl TransportFailed
      | Some resp \<Rightarrow>
          if hr_status resp \<noteq> 200 then Inl (BadStatus (hr_status resp))
          else if hr_contentLength resp \<ge> 0 \<and> hr_contentLength resp > int maxBlockBytes then Inl TooLong
          else let data = take (maxBlockBytes + 1) (hr_body resp)
               in if hr_readFailed resp \<and> length data \<le> maxBlockBytes then Inl ReadFailed
                  else if length data > maxBlockBytes then Inl TooLong
                  else case parseBlockBinary wr data of None \<Rightarrow> Inl Malformed | Some d \<Rightarrow> Inr d)"

definition coinbaseBUMPReconciles :: "'h sdk \<Rightarrow> bytes \<Rightarrow> 'h option \<Rightarrow> bool" where
  "coinbaseBUMPReconciles sdk coinbaseBUMP headerMerkleRoot =
     (case headerMerkleRoot of
        None \<Rightarrow> True
      | Some root \<Rightarrow>
          if coinbaseBUMP = [] then True
          else case sdk_parse sdk coinbaseBUMP of
            None \<Rightarrow> False
          | Some cbPath \<Rightarrow>
              (case extractCoinbaseTxID sdk coinbaseBUMP of
                 None \<Rightarrow> False
               | Some cbTxID \<Rightarrow> (case sdk_root sdk cbPath cbTxID of None \<Rightarrow> False | Some got \<Rightarrow> got = root)))"

text \<open>A validator may look at the time or at another service: it is given the position of the URL it judges.\<close>

type_synonym 'h block_validator = "(nat \<Rightarrow> 'h list \<Rightarrow> 'h option \<Rightarrow> bool) option"

definition SubtreeCountValidator :: "int \<Rightarrow> 'h block_validator" where
  "SubtreeCountValidator minSubtrees =
     (if minSubtrees \<le> 0 then None else Some (\<lambda>_ subtreeHashes _. \<not> int (length subtreeHashes) < minSubtrees))"

definition judge_response ::
    "'h sdk \<Rightarrow> 'h wire \<Rightarrow> (string \<Rightarrow> http_response option) \<Rightarrow> nat \<Rightarrow> 'h block_validator \<Rightarrow> nat \<Rightarrow> string \<Rightarrow> block_error + 'h block_data" where
  "judge_response sdk wr get maxBlockBytes validator i url =
     (case fetchBlockBinary wr (get url) maxBlockBytes of
        Inl e \<Rightarrow> Inl e
      | Inr (hashes, cbBUMP, root) \<Rightarrow>
          if (case validator of None \<Rightarrow> False | Some ok \<Rightarrow> \<not> ok i hashes root) then Inl ValidatorRejected
          else if \<not> coinbaseBUMPReconciles sdk cbBUMP root then Inl CoinbaseMismatch
          else Inr (hashes, cbBUMP, root))"

fun fetch_loop ::
    "'h sdk \<Rightarrow> 'h wire \<Rightarrow> (string \<Rightarrow> http_response option) \<Rightarrow> nat \<Rightarrow> 'h block_validator \<Rightarrow> nat \<Rightarrow> string list
      \<Rightarrow> (string \<times> block_error) list \<Rightarrow> block_error + 'h block_data" where
  "fetch_loop sdk wr get maxBlockBytes validator i [] urlErrors = Inl (AllFailed urlErrors)"
| "fetch_loop sdk wr get maxBlockBytes validator i (url # urls) urlErrors =
     (case judge_response sdk wr get maxBlockBytes validator i url of
        Inl e \<Rightarrow> fetch_loop sdk wr get maxBlockBytes validator (Suc i) urls (urlErrors @ [(url, e)])
      | Inr d \<Rightarrow> Inr d)"

definition FetchBlockDataForBUMPWithOptions ::
    "'h sdk \<Rightarrow> 'h wire \<Rightarrow> (string \<Rightarrow> http_response option) \<Rightarrow> string list \<Rightarrow> int \<Rightarrow> 'h block_validator \<Rightarrow> block_error + 'h block_data" where
  "FetchBlockDataForBUMPWithOptions sdk wr get datahubURLs maxBlockBytes validator =
     (let cap = (if maxBlockBytes \<le> 0 then DefaultMaxBlockBytes else nat maxBlockBytes)
      in if datahubURLs = [] then Inl NoURLs else fetch_loop sdk wr get cap validator 0 datahubURLs [])"

section \<open>What the loop returns\<close>

lemma ex_nth_Cons: "(\<exists>k < length (x # xs). P k) \<longleftrightarrow> P 0 \<or> (\<exists>k < length xs. P (Suc k))"
  by (auto simp: less_Suc_eq_0_disj)

lemma all_below_Suc: "(\<forall>j < Suc k. P j) \<longleftrightarrow> P 0 \<and> (\<forall>j < k. P (Suc j))"
  by (auto simp: less_Suc_eq_0_disj)

lemma fetch_loop_first:
  "fetch_loop sdk wr get cap v i urls errs = Inr d \<longleftrightarrow>
     (\<exists>k < length urls. judge_response sdk wr get cap v (i + k) (urls ! k) = Inr d \<and>
        (\<forall>j < k. isl (judge_response sdk wr get cap v (i + j) (urls ! j))))"
proof (induction urls arbitrary: i errs)
  case (Cons u urls)
  show ?case unfolding ex_nth_Cons
  proof (cases "judge_response sdk wr get cap v i u")
    case (Inl e)
    then show "fetch_loop sdk wr get cap v i (u # urls) errs = Inr d \<longleftrightarrow>
        judge_response sdk wr get cap v (i + 0) ((u # urls) ! 0) = Inr d \<and> (\<forall>j < 0. isl (judge_response sdk wr get cap v (i + j) ((u # urls) ! j))) \<or>
        (\<exists>k < length urls. judge_response sdk wr get cap v (i + Suc k) ((u # urls) ! Suc k) = Inr d \<and>
           (\<forall>j < Suc k. isl (judge_response sdk wr get cap v (i + j) ((u # urls) ! j))))"
      by (simp add: Cons all_below_Suc)
  next
    case (Inr d')
    then show "fetch_loop sdk wr get cap v i (u # urls) errs = Inr d \<longleftrightarrow>
        judge_response sdk wr get cap v (i + 0) ((u # urls) ! 0) = Inr d \<and> (\<forall>j < 0. isl (judge_response sdk wr get cap v (i + j) ((u # urls) ! j))) \<or>
        (\<exists>k < length urls. judge_response sdk wr get cap v (i + Suc k) ((u # urls) ! Suc k) = Inr d \<and>
           (\<forall>j < Suc k. isl (judge_response sdk wr get cap v (i + j) ((u # urls) ! j))))"
      by (simp add: all_below_Suc)
  qed
qed simp

lemma read_hashes_length:
  "read_hashes wr n r acc = Some (hashes, rest) \<Longrightarrow> length hashes = length acc + n"
  by (induction n arbitrary: r acc) (auto split: if_splits option.splits)

text \<open>What the code relies on of the variable-length integers: they are read off the front.\<close>

definition reads_front :: "'h wire \<Rightarrow> bool" where
  "reads_front wr \<longleftrightarrow> (\<forall>r n r'. wr_VarInt wr r = Some (n, r') \<longrightarrow> length r' \<le> length r)"

lemma parse_bounds:
  assumes "reads_front wr" and "parseBlockBinary wr data = Some (hashes, cb, root)"
  shows "length hashes \<le> maxSubtreeCount \<and> 80 + 32 * length hashes \<le> length data \<and> root \<noteq> None"
proof -
  obtain r tc r1 sz r2 n r3 hs rest where s: "80 \<le> length data" "wr_Hash wr (take 32 (drop 36 data)) = Some r"
    "wr_VarInt wr (drop 80 data) = Some (tc, r1)" "wr_VarInt wr r1 = Some (sz, r2)" "wr_VarInt wr r2 = Some (n, r3)"
    "n \<le> maxSubtreeCount" "n \<le> length r3 div 32" "read_hashes wr n r3 [] = Some (hs, rest)" "hashes = hs" "root = Some r"
    using assms(2) unfolding parseBlockBinary_def by (auto split: if_splits option.splits simp: not_less)
  have "length r3 \<le> length data - 80"
  proof -
    have front: "wr_VarInt wr r = Some (n, r') \<Longrightarrow> length r' \<le> length r" for r n r' using assms(1) unfolding reads_front_def by blast
    show ?thesis using front [OF s(3)] front [OF s(4)] front [OF s(5)] by simp
  qed
  moreover have "length hashes = n" using read_hashes_length [OF s(8)] s(9) by simp
  ultimately show ?thesis using s by (auto simp: less_eq_div_iff_mult_less_eq)
qed

lemma judge_accepts:
  assumes "judge_response sdk wr get cap v i url = Inr (hashes, cb, root)"
  obtains resp where "get url = Some resp" "hr_status resp = 200" "length (hr_body resp) \<le> cap"
    "parseBlockBinary wr (hr_body resp) = Some (hashes, cb, root)" "coinbaseBUMPReconciles sdk cb root"
    "\<forall>ok. v = Some ok \<longrightarrow> ok i hashes root"
proof -
  obtain h c r where f': "fetchBlockBinary wr (get url) cap = Inr (h, c, r)"
    using assms unfolding judge_response_def by (cases "fetchBlockBinary wr (get url) cap") auto
  have ok: "coinbaseBUMPReconciles sdk cb root" "\<forall>ok. v = Some ok \<longrightarrow> ok i hashes root" and eq: "h = hashes" "c = cb" "r = root"
    using assms unfolding judge_response_def f' by (cases v; simp split: if_splits)+
  note f = f' [unfolded eq]
  obtain resp where g: "get url = Some resp" using f by (cases "get url") (simp_all add: fetchBlockBinary_def)
  have status: "hr_status resp = 200" using f unfolding fetchBlockBinary_def g by (simp split: if_splits)
  have size: "length (take (cap + 1) (hr_body resp)) \<le> cap"
    using f unfolding fetchBlockBinary_def g by (simp only: option.case Let_def split: if_splits) simp_all
  then have all: "take (cap + 1) (hr_body resp) = hr_body resp" "length (hr_body resp) \<le> cap" by simp_all
  have "parseBlockBinary wr (hr_body resp) = Some (hashes, cb, root)"
    using f unfolding fetchBlockBinary_def g option.case Let_def all(1) by (simp split: if_splits option.splits)
  then show ?thesis using g ok status all(2) that by blast
qed

section \<open>Properties\<close>

text \<open>
  C28. A fetch returns the block of the first endpoint, in the given order, whose answer is acceptable, and fails when
  none is. What it returns came in a 200 answer within the size cap, claims no more subtrees than its
  body has room for, passed the validator, and has a coinbase BUMP that folds to the header root it was served with, if it has one.
\<close>

theorem FetchBlockData_first:
  assumes "reads_front wr" and "cap = (if limit \<le> 0 then DefaultMaxBlockBytes else nat limit)"
  shows "(FetchBlockDataForBUMPWithOptions sdk wr get urls limit v = Inr (hashes, cb, root) \<longleftrightarrow>
      (\<exists>k < length urls. judge_response sdk wr get cap v k (urls ! k) = Inr (hashes, cb, root) \<and>
         (\<forall>j < k. isl (judge_response sdk wr get cap v j (urls ! j))))) \<and>
    (FetchBlockDataForBUMPWithOptions sdk wr get urls limit v = Inr (hashes, cb, root) \<longrightarrow>
      (\<exists>k < length urls. \<exists>resp. get (urls ! k) = Some resp \<and> hr_status resp = 200 \<and> (\<forall>ok. v = Some ok \<longrightarrow> ok k hashes root) \<and>
        coinbaseBUMPReconciles sdk cb root \<and> root \<noteq> None \<and> length hashes \<le> maxSubtreeCount \<and>
        80 + 32 * length hashes \<le> length (hr_body resp) \<and> length (hr_body resp) \<le> cap))"
proof (intro conjI impI)
  show first: "FetchBlockDataForBUMPWithOptions sdk wr get urls limit v = Inr (hashes, cb, root) \<longleftrightarrow>
      (\<exists>k < length urls. judge_response sdk wr get cap v k (urls ! k) = Inr (hashes, cb, root) \<and>
         (\<forall>j < k. isl (judge_response sdk wr get cap v j (urls ! j))))"
    using fetch_loop_first [of sdk wr get cap v 0 urls "[]" "(hashes, cb, root)"]
    by (simp add: FetchBlockDataForBUMPWithOptions_def Let_def assms(2) [symmetric])
  assume "FetchBlockDataForBUMPWithOptions sdk wr get urls limit v = Inr (hashes, cb, root)"
  then obtain k where k: "k < length urls" "judge_response sdk wr get cap v k (urls ! k) = Inr (hashes, cb, root)"
    unfolding first by blast
  obtain resp where "get (urls ! k) = Some resp" "hr_status resp = 200" "length (hr_body resp) \<le> cap"
    "parseBlockBinary wr (hr_body resp) = Some (hashes, cb, root)" "coinbaseBUMPReconciles sdk cb root" "\<forall>ok. v = Some ok \<longrightarrow> ok k hashes root"
    by (rule judge_accepts [OF k(2)])
  then show "\<exists>k < length urls. \<exists>resp. get (urls ! k) = Some resp \<and> hr_status resp = 200 \<and> (\<forall>ok. v = Some ok \<longrightarrow> ok k hashes root) \<and>
        coinbaseBUMPReconciles sdk cb root \<and> root \<noteq> None \<and> length hashes \<le> maxSubtreeCount \<and>
        80 + 32 * length hashes \<le> length (hr_body resp) \<and> length (hr_body resp) \<le> cap"
    using k(1) parse_bounds [OF assms(1)] by blast
qed

section \<open>The wire format\<close>

text \<open>A block as the endpoint serialises it, with an encoder of the integers.\<close>

definition serve_block :: "(nat \<Rightarrow> bytes) \<Rightarrow> bytes \<Rightarrow> nat \<Rightarrow> nat \<Rightarrow> bytes list \<Rightarrow> bytes \<Rightarrow> nat \<Rightarrow> bytes \<Rightarrow> bytes" where
  "serve_block enc header txCount sizeBytes hashes coinbaseTx height cbBUMP =
     header @ enc txCount @ enc sizeBytes @ enc (length hashes) @ concat hashes @ coinbaseTx @ enc height @ enc (length cbBUMP) @ cbBUMP"

lemma read_hashes_concat:
  assumes "\<And>h. h \<in> set hashes \<Longrightarrow> length h = 32" and "\<And>h. length h = 32 \<Longrightarrow> wr_Hash wr h = Some (hash h)"
  shows "read_hashes wr (length hashes) (concat hashes @ rest) acc = Some (acc @ map hash hashes, rest)"
  using assms(1) by (induction hashes arbitrary: acc) (auto simp: assms(2))

lemma length_concat32: "(\<And>h. h \<in> set hashes \<Longrightarrow> length h = 32) \<Longrightarrow> length (concat hashes) = 32 * length hashes"
  by (induction hashes) auto

text \<open>The integers up to \<open>bound\<close> are read back from the front of what was written.\<close>

definition reads_back :: "'h wire \<Rightarrow> (nat \<Rightarrow> bytes) \<Rightarrow> nat \<Rightarrow> bool" where
  "reads_back wr enc bound \<longleftrightarrow> (\<forall>n r. n \<le> bound \<longrightarrow> wr_VarInt wr (enc n @ r) = Some (n, r))"

text \<open>
  C31. Reading back a served block: where the integers and the coinbase transaction are read back from the front of
  what was written, a block within the limits parses to its subtree hashes, its coinbase BUMP and the merkle root of its header.
\<close>

theorem parseBlockBinary_roundtrip:
  assumes "reads_back wr enc bound" and "\<And>r. wr_TxLen wr (coinbaseTx @ r) = Some (length coinbaseTx)"
    and "\<And>h. length h = 32 \<Longrightarrow> wr_Hash wr h = Some (hash h)"
    and "length header = 80" and "\<And>h. h \<in> set hashes \<Longrightarrow> length h = 32"
    and "txCount \<le> maxTxCount" and "sizeBytes \<le> maxBlockSizeBytes" and "length hashes \<le> maxSubtreeCount"
    and "set [txCount, sizeBytes, length hashes, height, length cbBUMP] \<subseteq> {..bound}"
  shows "parseBlockBinary wr (serve_block enc header txCount sizeBytes hashes coinbaseTx height cbBUMP) =
    Some (map hash hashes, cbBUMP, Some (hash (take 32 (drop 36 header))))"
proof -
  let ?rest = "coinbaseTx @ enc height @ enc (length cbBUMP) @ cbBUMP"
  have front: "wr_VarInt wr (enc n @ r) = Some (n, r)" if "n \<in> set [txCount, sizeBytes, length hashes, height, length cbBUMP]" for n r
    using assms(1,9) that unfolding reads_back_def by blast
  have tail: "coinbase_tail wr ?rest = cbBUMP" by (simp add: coinbase_tail_def front assms(2))
  have fits: "length hashes \<le> length (concat hashes @ ?rest) div 32"
    using length_concat32 [OF assms(5)] by (simp add: less_eq_div_iff_mult_less_eq)
  have "wr_Hash wr (take 32 (drop 36 (header @ r))) = Some (hash (take 32 (drop 36 header)))" for r
    using assms(4) by (simp add: assms(3))
  then show ?thesis using assms(4,6-8) fits read_hashes_concat [OF assms(5,3), of hashes ?rest "[]"]
    by (simp add: parseBlockBinary_def serve_block_def front tail)
qed

text \<open>A one-byte stand-in for the integers, and hashes kept as their bytes.\<close>

definition byte_wire :: "bytes wire" where
  "byte_wire = \<lparr>wr_VarInt = (\<lambda>r. case r of [] \<Rightarrow> None | b # r' \<Rightarrow> if of_char b < (253 :: nat) then Some (of_char b, r') else None),
     wr_TxLen = (\<lambda>r. if r = [] then None else Some 1), wr_Hash = (\<lambda>r. if length r = 32 then Some r else None)\<rparr>"

definition byte_enc :: "nat \<Rightarrow> bytes" where "byte_enc n = [char_of n]"

definition sample_block :: bytes where
  "sample_block = serve_block byte_enc (replicate 80 CHR ''h'') 1 1 [replicate 32 CHR ''s''] ''t'' 5 []"

lemma byte_wire_front: "reads_front byte_wire"
  by (auto simp: reads_front_def byte_wire_def split: list.splits if_splits)

lemma byte_wire_back: "reads_back byte_wire byte_enc 252"
  by (simp add: reads_back_def byte_wire_def byte_enc_def of_char_of)

theorem parseBlockBinary_roundtrip_witness:
  "parseBlockBinary byte_wire sample_block = Some ([replicate 32 CHR ''s''], [], Some (replicate 32 CHR ''h''))"
proof -
  have "parseBlockBinary byte_wire sample_block =
      Some (map (\<lambda>h. h) [replicate 32 CHR ''s''], [], Some (take 32 (drop 36 (replicate 80 CHR ''h''))))"
    unfolding sample_block_def
    by (rule parseBlockBinary_roundtrip [OF byte_wire_back])
       (simp_all add: byte_wire_def maxTxCount_def maxBlockSizeBytes_def maxSubtreeCount_def)
  then show ?thesis by simp
qed

definition no_sdk :: "bytes sdk" where
  "no_sdk = \<lparr>sdk_parent = (\<lambda>a b. a), sdk_parse = (\<lambda>_. None), sdk_bytes = (\<lambda>_. []), sdk_fromHex = (\<lambda>_. None), sdk_string = (\<lambda>h. h),
     sdk_root = (\<lambda>_ _. None)\<rparr>"

definition short_block :: bytes where "short_block = replicate 80 CHR ''h'' @ [CHR 0x01, CHR 0x01, CHR 0x00]"

definition sample_get :: "string \<Rightarrow> http_response option" where
  "sample_get url = (if url = ''good'' then Some \<lparr>hr_status = 200, hr_contentLength = -1, hr_body = short_block, hr_readFailed = False\<rparr>
     else if url = ''busy'' then Some \<lparr>hr_status = 503, hr_contentLength = 0, hr_body = [], hr_readFailed = False\<rparr> else None)"

lemma short_parse: "parseBlockBinary byte_wire short_block = Some ([], [], Some (replicate 32 CHR ''h''))"
  by (simp add: parseBlockBinary_def short_block_def byte_wire_def maxTxCount_def maxBlockSizeBytes_def maxSubtreeCount_def coinbase_tail_def)

lemma sample_fetch:
  "FetchBlockDataForBUMPWithOptions no_sdk byte_wire sample_get [''down'', ''busy'', ''good''] 200 None =
     Inr ([], [], Some (replicate 32 CHR ''h''))"
proof -
  have "take 201 short_block = short_block" by (simp add: short_block_def)
  then show ?thesis
    by (simp add: FetchBlockDataForBUMPWithOptions_def judge_response_def fetchBlockBinary_def sample_get_def coinbaseBUMPReconciles_def short_parse)
       (simp add: short_block_def)
qed

theorem FetchBlockData_first_witness:
  "\<exists>k < length [''down'', ''busy'', ''good'']. \<exists>resp. sample_get ([''down'', ''busy'', ''good''] ! k) = Some resp \<and>
     80 \<le> length (hr_body resp) \<and> length (hr_body resp) \<le> 200"
proof -
  note all = FetchBlockData_first [OF byte_wire_front refl, of no_sdk sample_get "[''down'', ''busy'', ''good'']" 200 None "[]" "[]"
      "Some (replicate 32 CHR ''h'')"]
  from mp [OF conjunct2 [OF all] sample_fetch] show ?thesis by (elim exE conjE, intro exI conjI) simp_all
qed

end
