(* ===== verification/Builder.thy ===== *)
theory Builder
  imports Chain_World Datahub Teranode_Client
begin

text \<open>
  \<open>services/bump_builder/builder.go\<close>: what the builder does with a BLOCK_PROCESSED message. The message is
  decoded by an argument (\<open>encoding/json\<close>); the datahub endpoints, chaintracks' headers by hash and the
  polls made before the wait for a header runs out are the record \<open>datahub_env\<close>. The debug dumps, the wiring of
  the consumer and the ticker of the janitor are left out.
\<close>

section \<open>Configuration\<close>

record build_config =
  bd_hasChainHeader :: bool
  bd_AnchorGuardEnabled :: bool
  bd_hasPublisher :: bool
  bd_GraceWindowMs :: int
  bd_HeaderWaitMs :: int
  bd_DataHubMaxBlockBytes :: int
  bd_StumpRetentionMinutes :: int
  bd_RecencyDepth :: int

datatype 'h header_answer = HeaderFound 'h | HeaderNil | HeaderErr | HeaderCanceled

text \<open>For the n-th judged response: the first lookup, and the later ones with whether the context had ended before them.\<close>

record 'h datahub_env =
  dh_get :: "string \<Rightarrow> http_response option"
  dh_header :: "nat \<Rightarrow> 'h header_answer \<times> (bool \<times> 'h header_answer) list"
  dh_client :: tn_client

section \<open>Validators\<close>

definition combineValidators :: "'h block_validator \<Rightarrow> 'h block_validator \<Rightarrow> 'h block_validator" where
  "combineValidators a b =
     (case a of
        None \<Rightarrow> b
      | Some f \<Rightarrow> (case b of None \<Rightarrow> a | Some g \<Rightarrow> Some (\<lambda>i hashes root. f i hashes root \<and> g i hashes root)))"

fun settles :: "'h header_answer \<Rightarrow> bool" where
  "settles (HeaderFound r) = True"
| "settles HeaderCanceled = True"
| "settles HeaderNil = False"
| "settles HeaderErr = False"

fun wait_polls :: "'h header_answer \<Rightarrow> (bool \<times> 'h header_answer) list \<Rightarrow> 'h header_answer" where
  "wait_polls latest [] = latest"
| "wait_polls latest ((ctxDone, a) # polls) =
     (if ctxDone then HeaderCanceled else if settles a then a else wait_polls a polls)"

definition lookupHeaderWithWait :: "'h header_answer \<Rightarrow> (bool \<times> 'h header_answer) list \<Rightarrow> 'h header_answer" where
  "lookupHeaderWithWait first polls = (if settles first then first else wait_polls first polls)"

definition chainHeaderRootValidator :: "build_config \<Rightarrow> 'h sdk \<Rightarrow> 'h datahub_env \<Rightarrow> block_hash \<Rightarrow> 'h block_validator" where
  "chainHeaderRootValidator cf sdk dh blockHash =
     (if \<not> bd_hasChainHeader cf then None
      else case sdk_fromHex sdk blockHash of
        None \<Rightarrow> None
      | Some _ \<Rightarrow>
          Some (\<lambda>i _ fetchedRoot.
            case (case dh_header dh i of (first, polls) \<Rightarrow> lookupHeaderWithWait first (if bd_HeaderWaitMs cf > 0 then polls else [])) of
              HeaderFound root \<Rightarrow> fetchedRoot = Some root
            | _ \<Rightarrow> True))"

section \<open>The anchor guard\<close>

datatype anchorVerdict = anchorAllow | anchorDeny

definition anchorDecision :: "build_config \<Rightarrow> chain_env \<Rightarrow> block_hash \<Rightarrow> nat \<Rightarrow> ('s, anchorVerdict) prog" where
  "anchorDecision cf ev blockHash blockHeight =
     (if \<not> bd_hasChainHeader cf \<or> \<not> bd_AnchorGuardEnabled cf then ret anchorAllow
      else if blockHeight = 0 \<or> blockHeight > 2 ^ 32 - 1 then ret anchorAllow
      else do {
        a \<leftarrow> observe (\<lambda>k. ce_height ev k blockHeight);
        jot [Asked blockHeight a];
        ret (case a of HeightHash active \<Rightarrow> if active = blockHash then anchorAllow else anchorDeny | _ \<Rightarrow> anchorAllow)
      })"

definition markBlockProcessed :: "'s chain_store \<Rightarrow> chain_env \<Rightarrow> block_hash \<Rightarrow> nat \<Rightarrow> ('s, unit) prog" where
  "markBlockProcessed S ev blockHash blockHeight = do {
     now \<leftarrow> observe (ce_now ev);
     r \<leftarrow> call (cs_MarkBlockProcessed S blockHash blockHeight now) (\<lambda>r. if isl r then [] else [Stamped blockHash blockHeight]);
     (if isl r then ret () else do { _ \<leftarrow> call (cs_ClearBlockExpectedSubtrees S blockHash) (\<lambda>_. []); ret () })
   }"

definition handleAnchorDenied :: "'s chain_store \<Rightarrow> chain_env \<Rightarrow> block_hash \<Rightarrow> nat \<Rightarrow> ('s, unit) prog" where
  "handleAnchorDenied S ev blockHash blockHeight = do {
     markBlockProcessed S ev blockHash blockHeight;
     now \<leftarrow> observe (ce_now ev);
     _ \<leftarrow> call (cs_MarkBlocksOrphaned S [blockHash] now) (\<lambda>(n, _). if n > 0 then [Orphaned [blockHash]] else []);
     _ \<leftarrow> call (cs_DeleteStumpsByBlockHash S blockHash) (\<lambda>_. [StumpsDeleted blockHash]);
     ret ()
   }"

section \<open>Mining and publishing\<close>

definition maxTxIDsPerBulkEvent :: nat where "maxTxIDsPerBulkEvent = 5000"

function slices :: "nat \<Rightarrow> 'a list \<Rightarrow> 'a list list" where
  "slices n xs = (if xs = [] \<or> n = 0 then [] else take n xs # slices n (drop n xs))"
  by pat_completeness auto
termination by (relation "measure (\<lambda>(n, xs). length xs)") auto

declare slices.simps [simp del]

text \<open>Rows whose anchor changed: not already MINED against this block.\<close>

definition changed_rows :: "block_hash \<Rightarrow> transaction_status list \<Rightarrow> transaction_status list \<Rightarrow> transaction_status list" where
  "changed_rows blockHash prevs mined =
     map snd (filter (\<lambda>(p, _). \<not> (ts_Status p = StatusMined \<and> ts_BlockHash p = blockHash)) (zip prevs mined))"

definition PublishBulk :: "chain_env \<Rightarrow> transaction_status \<Rightarrow> ('s, bool) prog" where
  "PublishBulk ev template = do { ok \<leftarrow> observe (ce_publish ev); jot [Published template ok]; ret ok }"

definition mined_template :: "block_hash \<Rightarrow> nat \<Rightarrow> string \<Rightarrow> unix_ns \<Rightarrow> transaction_status list \<Rightarrow> transaction_status" where
  "mined_template blockHash blockHeight extraInfo now rows =
     empty_status\<lparr>ts_Status := StatusMined, ts_BlockHash := blockHash, ts_BlockHeight := blockHeight,
       ts_Timestamp := (case ts_Timestamp (hd rows) of None \<Rightarrow> Some now | t \<Rightarrow> t), ts_TxIDs := map ts_TxID rows,
       ts_ExtraInfo := extraInfo\<rparr>"

text \<open>Whether all went out is what \<open>publishFailureRecorder\<close> notes.\<close>

fun publish_chunks :: "chain_env \<Rightarrow> block_hash \<Rightarrow> nat \<Rightarrow> string \<Rightarrow> transaction_status list list \<Rightarrow> ('s, bool) prog" where
  "publish_chunks ev blockHash blockHeight extraInfo [] = ret True"
| "publish_chunks ev blockHash blockHeight extraInfo (rows # rest) = do {
     now \<leftarrow> observe (ce_now ev);
     ok \<leftarrow> PublishBulk ev (mined_template blockHash blockHeight extraInfo now rows);
     oks \<leftarrow> publish_chunks ev blockHash blockHeight extraInfo rest;
     ret (ok \<and> oks)
   }"

text \<open>The number of rows fanned out, the store's error, and whether every event went out.\<close>

definition setMinedAndPublish ::
    "'s chain_store \<Rightarrow> chain_env \<Rightarrow> bool \<Rightarrow> block_hash \<Rightarrow> nat \<Rightarrow> txid list \<Rightarrow> string \<Rightarrow> bool \<Rightarrow> ('s, nat \<times> store_error option \<times> bool) prog" where
  "setMinedAndPublish S ev hasPublisher blockHash blockHeight txids extraInfo onlyChanged = do {
     (prevs, mined, err) \<leftarrow> call (cs_SetMinedByTxIDs S blockHash blockHeight txids)
       (\<lambda>(prevs, mined, err). [Mined blockHash blockHeight txids prevs mined err]);
     (if err \<noteq> None \<and> mined = [] then ret (0, err, True)
      else let rows = (if onlyChanged then changed_rows blockHash prevs mined else mined) in
        if rows = [] \<or> \<not> hasPublisher then ret (length rows, err, True)
        else do {
          oks \<leftarrow> publish_chunks ev blockHash blockHeight extraInfo (slices maxTxIDsPerBulkEvent rows);
          ret (length rows, err, oks)
        })
   }"

definition markMinedAndPublish ::
    "'s chain_store \<Rightarrow> build_config \<Rightarrow> chain_env \<Rightarrow> block_hash \<Rightarrow> nat \<Rightarrow> txid list \<Rightarrow> bool \<Rightarrow> ('s, bool) prog" where
  "markMinedAndPublish S cf ev blockHash blockHeight txids onlyChanged = do {
     (_, err, oks) \<leftarrow> setMinedAndPublish S ev (bd_hasPublisher cf) blockHash blockHeight txids [] onlyChanged;
     ret (err = None \<and> oks)
   }"

definition blockFinalized :: "'s chain_store \<Rightarrow> block_hash \<Rightarrow> ('s, bool) prog" where
  "blockFinalized S blockHash = do {
     r \<leftarrow> call (cs_GetBlockProcessingStatus S blockHash) (\<lambda>_. []);
     ret (case r of Inl _ \<Rightarrow> False | Inr row \<Rightarrow> bp_ProcessedAt row \<noteq> None)
   }"

section \<open>STUMPs and leaves\<close>

definition missingStumpIndices :: "int list \<Rightarrow> stump list \<Rightarrow> int list" where
  "missingStumpIndices expected stumps = filter (\<lambda>idx. idx \<notin> set (map st_SubtreeIndex stumps)) expected"

definition path_leaves :: "'h sdk \<Rightarrow> 'h merkle_path \<Rightarrow> string list" where
  "path_leaves sdk mp =
     (case mp_Path mp of [] \<Rightarrow> [] | lvl # _ \<Rightarrow> List.map_filter (\<lambda>e. map_option (sdk_string sdk) (pe_Hash e)) lvl)"

definition levelZeroTxidsFromBUMP :: "'h sdk \<Rightarrow> bytes \<Rightarrow> string list option" where
  "levelZeroTxidsFromBUMP sdk bumpData = map_option (path_leaves sdk) (sdk_parse sdk bumpData)"

definition compoundLeaves :: "'h sdk \<Rightarrow> 'h merkle_path \<Rightarrow> string list" where
  "compoundLeaves sdk compound = path_leaves sdk compound"

definition leavesNotIn :: "string list \<Rightarrow> string list \<Rightarrow> nat" where
  "leavesNotIn stored txids = length (filter (\<lambda>t. t \<notin> set txids) (remdups stored))"

definition new_leaf :: "'h sdk \<Rightarrow> int \<Rightarrow> string list \<Rightarrow> 'h path_element \<Rightarrow> string list \<Rightarrow> string list" where
  "new_leaf sdk subtreeIndex storedTxIDs leaf missing =
     (case pe_Hash leaf of
        None \<Rightarrow> missing
      | Some h \<Rightarrow>
          if subtreeIndex = 0 \<and> pe_Offset leaf = 0 then missing
          else let txid = sdk_string sdk h
               in if txid \<in> set storedTxIDs \<or> txid \<in> set missing then missing else missing @ [txid])"

fun leaves_loop :: "'h sdk \<Rightarrow> stump list \<Rightarrow> string list \<Rightarrow> string list \<Rightarrow> string list option" where
  "leaves_loop sdk [] storedTxIDs missing = Some missing"
| "leaves_loop sdk (st # stumps) storedTxIDs missing =
     (case sdk_parse sdk (st_StumpData st) of
        None \<Rightarrow> None
      | Some mp \<Rightarrow>
          (case mp_Path mp of
             [] \<Rightarrow> None
           | lvl # _ \<Rightarrow> leaves_loop sdk stumps storedTxIDs (fold (new_leaf sdk (st_SubtreeIndex st) storedTxIDs) lvl missing)))"

definition leavesBeyondStoredBUMP :: "'h sdk \<Rightarrow> stump list \<Rightarrow> string list \<Rightarrow> string list option" where
  "leavesBeyondStoredBUMP sdk stumps storedTxIDs = leaves_loop sdk stumps storedTxIDs []"

section \<open>Deferring and finalizing\<close>

definition deferStampedBlock :: "'s chain_store \<Rightarrow> block_hash \<Rightarrow> ('s, unit result) prog" where
  "deferStampedBlock S blockHash = do {
     r \<leftarrow> call (cs_GetBlockProcessingStatus S blockHash) (\<lambda>_. []);
     (case r of
        Inl e \<Rightarrow> ret (if e = ErrNotFound then Inr () else Inl e)
      | Inr row \<Rightarrow>
          if bp_ProcessedAt row = None then ret (Inr ())
          else call (cs_ClearBlockProcessed S blockHash) (\<lambda>r. if isl r then [] else [Unstamped blockHash]))
   }"

definition deferIncompleteBlock :: "'s chain_store \<Rightarrow> block_hash \<Rightarrow> int list \<Rightarrow> ('s, unit result) prog" where
  "deferIncompleteBlock S blockHash expected = do {
     r \<leftarrow> call (cs_AddBlockExpectedSubtrees S blockHash expected) (\<lambda>_. []);
     (case r of Inl e \<Rightarrow> ret (Inl e) | Inr _ \<Rightarrow> deferStampedBlock S blockHash)
   }"

definition finalizeEmptyBlock :: "'s chain_store \<Rightarrow> chain_env \<Rightarrow> block_hash \<Rightarrow> ('s, unit) prog" where
  "finalizeEmptyBlock S ev blockHash = markBlockProcessed S ev blockHash 0"

definition widenExpectedSubtrees :: "'s chain_store \<Rightarrow> callback_message \<Rightarrow> ('s, callback_message result) prog" where
  "widenExpectedSubtrees S callback = do {
     r \<leftarrow> call (cs_GetBlockExpectedSubtrees S (cb_BlockHash callback)) (\<lambda>r. [ReadExpected (cb_BlockHash callback) r]);
     ret (case r of
            Inl e \<Rightarrow> Inl e
          | Inr retained \<Rightarrow>
              if retained = [] then Inr callback
              else Inr (callback\<lparr>cb_ExpectedSubtreeIndices := remdups_adj (sort (cb_ExpectedSubtreeIndices callback @ retained))\<rparr>))
   }"

text \<open>The outcome label of the failure, of the finished delivery, or the set to build from with its label.\<close>

datatype resolved = ResFailed string | ResDone string | ResStumps "stump list" string

definition read_stumps :: "'s chain_store \<Rightarrow> block_hash \<Rightarrow> ('s, stump list result) prog" where
  "read_stumps S blockHash = call (cs_GetStumpsByBlockHash S blockHash) (\<lambda>r. [ReadStumps blockHash r])"

definition completeness_gate ::
    "'s chain_store \<Rightarrow> chain_env \<Rightarrow> block_hash \<Rightarrow> int list \<Rightarrow> stump list \<Rightarrow> ('s, resolved) prog" where
  "completeness_gate S ev blockHash expected stumps =
     (if missingStumpIndices expected stumps \<noteq> [] then do {
        r \<leftarrow> deferIncompleteBlock S blockHash expected;
        ret (if isl r then ResFailed ''store_failed'' else ResDone ''deferred_incomplete'')
      }
      else if stumps = [] then do { finalizeEmptyBlock S ev blockHash; ret (ResDone ''no_stumps'') }
      else ret (ResStumps stumps ''grace_waited''))"

definition resolveStumps ::
    "'s chain_store \<Rightarrow> build_config \<Rightarrow> chain_env \<Rightarrow> callback_message \<Rightarrow> bool \<Rightarrow> ('s, resolved) prog" where
  "resolveStumps S cf ev callback rebuild = do {
     r \<leftarrow> read_stumps S (cb_BlockHash callback);
     (case r of
        Inl _ \<Rightarrow> ret (ResFailed ''store_failed'')
      | Inr stumps \<Rightarrow>
          let expected = cb_ExpectedSubtreeIndices callback in
          if \<not> rebuild \<and> expected \<noteq> [] \<and> missingStumpIndices expected stumps = [] then ret (ResStumps stumps ''finalized_complete_no_grace'')
          else if \<not> rebuild \<and> expected = [] \<and> stumps = [] then do {
            finalizeEmptyBlock S ev (cb_BlockHash callback);
            ret (ResDone ''no_stumps'')
          }
          else if bd_GraceWindowMs cf > 0 then do {
            ended \<leftarrow> observe (ce_done ev);
            (if ended then ret (ResFailed ''context_canceled'')
             else do {
               r2 \<leftarrow> read_stumps S (cb_BlockHash callback);
               (case r2 of
                  Inl _ \<Rightarrow> ret (ResFailed ''store_failed'')
                | Inr stumps2 \<Rightarrow> completeness_gate S ev (cb_BlockHash callback) expected stumps2)
             })
          }
          else completeness_gate S ev (cb_BlockHash callback) expected stumps)
   }"

section \<open>Redeliveries\<close>

definition loadStoredBUMP :: "'s chain_store \<Rightarrow> 'h sdk \<Rightarrow> block_hash \<Rightarrow> ('s, (nat \<times> string list) option result) prog" where
  "loadStoredBUMP S sdk blockHash = do {
     r \<leftarrow> call (cs_GetBUMP S blockHash) (\<lambda>r. [ReadBUMP blockHash r]);
     ret (case r of
            Inl e \<Rightarrow> if e = ErrNotFound then Inr None else Inl e
          | Inr (existingHeight, bumpBytes) \<Rightarrow>
              if bumpBytes = [] then Inr None
              else case levelZeroTxidsFromBUMP sdk bumpBytes of
                None \<Rightarrow> Inr None
              | Some txids \<Rightarrow> Inr (Some (existingHeight, txids)))
   }"

text \<open>Whether the mine failed, or the error of taking the stamp off.\<close>

definition shortCircuit ::
    "'s chain_store \<Rightarrow> build_config \<Rightarrow> chain_env \<Rightarrow> block_hash \<Rightarrow> nat \<Rightarrow> string list \<Rightarrow> ('s, bool result) prog" where
  "shortCircuit S cf ev blockHash existingHeight txids = do {
     v \<leftarrow> anchorDecision cf ev blockHash existingHeight;
     (if v = anchorDeny then do { handleAnchorDenied S ev blockHash existingHeight; ret (Inr False) }
      else do {
        minedComplete \<leftarrow> (if txids = [] then ret True
          else do {
            finalized \<leftarrow> blockFinalized S blockHash;
            markMinedAndPublish S cf ev blockHash existingHeight txids finalized
          });
        (if minedComplete then do { markBlockProcessed S ev blockHash existingHeight; ret (Inr False) }
         else do {
           r \<leftarrow> deferStampedBlock S blockHash;
           ret (case r of Inl e \<Rightarrow> Inl e | Inr _ \<Rightarrow> Inr True)
         })
      })
   }"

datatype redelivery = NoStoredBUMP | Handled string | Rebuild "string list"

definition handleRedelivery ::
    "'s chain_store \<Rightarrow> build_config \<Rightarrow> chain_env \<Rightarrow> 'h sdk \<Rightarrow> callback_message \<Rightarrow> ('s, redelivery result) prog" where
  "handleRedelivery S cf ev sdk callback = do {
     l \<leftarrow> loadStoredBUMP S sdk (cb_BlockHash callback);
     (case l of
        Inl e \<Rightarrow> ret (Inl e)
      | Inr None \<Rightarrow> ret (Inr NoStoredBUMP)
      | Inr (Some (height, storedTxIDs)) \<Rightarrow> do {
          r \<leftarrow> read_stumps S (cb_BlockHash callback);
          (case r of
             Inl e \<Rightarrow> ret (Inl e)
           | Inr stumps \<Rightarrow>
               (case leavesBeyondStoredBUMP sdk stumps storedTxIDs of
                  None \<Rightarrow> ret (Inl Unparsable)
                | Some newLeaves \<Rightarrow>
                    if newLeaves = [] \<and> (stumps = [] \<or> missingStumpIndices (cb_ExpectedSubtreeIndices callback) stumps = []) then do {
                      sc \<leftarrow> shortCircuit S cf ev (cb_BlockHash callback) height storedTxIDs;
                      ret (case sc of
                             Inl e \<Rightarrow> Inl e
                           | Inr mineFailed \<Rightarrow> Inr (Handled (if mineFailed then ''store_failed'' else ''short_circuited'')))
                    }
                    else ret (Inr (Rebuild storedTxIDs))))
        })
   }"

section \<open>Block data\<close>

definition minSubtrees :: "stump list \<Rightarrow> int" where
  "minSubtrees stumps = fold (\<lambda>s m. if st_SubtreeIndex s + 1 > m then st_SubtreeIndex s + 1 else m) stumps 0"

definition callbackBlockData :: "'h sdk \<Rightarrow> callback_message \<Rightarrow> int \<Rightarrow> ('h list \<times> bytes \<times> 'h option) option" where
  "callbackBlockData sdk callback least =
     (if cb_MerkleRoot callback = [] \<or> cb_SubtreeHashes callback = [] \<or> cb_CoinbaseBUMP callback = [] then None
      else if cb_SubtreeCount callback \<noteq> 0 \<and> cb_SubtreeCount callback \<noteq> int (length (cb_SubtreeHashes callback)) then None
      else if int (length (cb_SubtreeHashes callback)) < least then None
      else case sdk_fromHex sdk (cb_MerkleRoot callback) of
        None \<Rightarrow> None
      | Some root \<Rightarrow>
          (case those (map (sdk_fromHex sdk) (cb_SubtreeHashes callback)) of
             None \<Rightarrow> None
           | Some hashes \<Rightarrow> Some (hashes, cb_CoinbaseBUMP callback, Some root)))"

definition fetchBlockDataFromDatahub ::
    "build_config \<Rightarrow> 'h sdk \<Rightarrow> 'h wire \<Rightarrow> 'h datahub_env \<Rightarrow> block_hash \<Rightarrow> int \<Rightarrow> block_error + 'h block_data" where
  "fetchBlockDataFromDatahub cf sdk wr dh blockHash least =
     (let healthy = GetHealthyEndpoints (dh_client dh);
          endpoints = (if healthy = [] then GetEndpoints (dh_client dh) else healthy);
          validator = SubtreeCountValidator least;
          validator' = (if bd_hasChainHeader cf then combineValidators validator (chainHeaderRootValidator cf sdk dh blockHash) else validator)
      in FetchBlockDataForBUMPWithOptions sdk wr (dh_get dh) endpoints (bd_DataHubMaxBlockBytes cf) validator')"

section \<open>One message\<close>

text \<open>The end of a build whose BUMP is stored: the anchor guard, the mine, the stamp.\<close>

definition finish_build ::
    "'s chain_store \<Rightarrow> build_config \<Rightarrow> chain_env \<Rightarrow> block_hash \<Rightarrow> nat \<Rightarrow> string list \<Rightarrow> bool \<Rightarrow> bool \<Rightarrow> string \<Rightarrow> ('s, string \<times> bool) prog" where
  "finish_build S cf ev blockHash blockHeight txids finalized rebuilt disposition = do {
     v \<leftarrow> anchorDecision cf ev blockHash blockHeight;
     (if v = anchorDeny then do { handleAnchorDenied S ev blockHash blockHeight; ret (''skipped_inactive_chain'', False) }
      else do {
        minedComplete \<leftarrow> (if txids = [] then ret True else markMinedAndPublish S cf ev blockHash blockHeight txids finalized);
        (if minedComplete then do {
           markBlockProcessed S ev blockHash blockHeight;
           ret (if rebuilt then ''rebuilt'' else disposition, False)
         }
         else ret (''store_failed'', False))
      })
   }"

text \<open>Storing a validated compound. An earlier stamp comes off first, and \<open>bump_built_at\<close> is written before the BUMP.\<close>

definition store_compound ::
    "'s chain_store \<Rightarrow> build_config \<Rightarrow> chain_env \<Rightarrow> block_hash \<Rightarrow> nat \<Rightarrow> bytes \<Rightarrow> string list \<Rightarrow> bool \<Rightarrow> bool \<Rightarrow> string
      \<Rightarrow> ('s, string \<times> bool) prog" where
  "store_compound S cf ev blockHash blockHeight bumpBytes txids finalized rebuilt disposition = do {
     c \<leftarrow> (if rebuilt \<and> finalized then call (cs_ClearBlockProcessed S blockHash) (\<lambda>r. if isl r then [] else [Unstamped blockHash]) else ret (Inr ()));
     (if isl c then ret (''store_failed'', True)
      else do {
        now \<leftarrow> observe (ce_now ev);
        b \<leftarrow> call (cs_MarkBlockBUMPBuilt S blockHash blockHeight now) (\<lambda>_. []);
        (if isl b then ret (''store_failed'', True)
         else do {
           i \<leftarrow> call (cs_InsertBUMP S blockHash blockHeight bumpBytes) (\<lambda>_. [Inserted blockHash blockHeight bumpBytes]);
           (if isl i then ret (''store_failed'', True)
            else finish_build S cf ev blockHash blockHeight txids finalized rebuilt disposition)
         })
      })
   }"

definition build_block ::
    "'s chain_store \<Rightarrow> build_config \<Rightarrow> chain_env \<Rightarrow> 'h sdk \<Rightarrow> 'h wire \<Rightarrow> 'h datahub_env \<Rightarrow> callback_message \<Rightarrow> string list option \<Rightarrow> bool
      \<Rightarrow> stump list \<Rightarrow> string \<Rightarrow> ('s, string \<times> bool) prog" where
  "build_block S cf ev sdk wr dh callback storedLeaves finalized stumps disposition =
     (let blockHash = cb_BlockHash callback;
          least = minSubtrees stumps;
          blockData = (case callbackBlockData sdk callback least of
            Some d \<Rightarrow> Inr d | None \<Rightarrow> fetchBlockDataFromDatahub cf sdk wr dh blockHash least)
      in case blockData of
           Inl _ \<Rightarrow> ret (''fetch_failed'', True)
         | Inr (subtreeHashes, coinbaseBUMP, headerMerkleRoot) \<Rightarrow>
             if subtreeHashes = [] then ret (''no_subtrees'', False)
             else case fst (BuildCompoundBUMP sdk stumps subtreeHashes coinbaseBUMP headerMerkleRoot) of
               Inl _ \<Rightarrow> ret (''build_failed'', True)
             | Inr (compound, txids) \<Rightarrow>
                 if \<not> ValidateCompoundRoot sdk (Some compound) headerMerkleRoot then ret (''validation_failed'', True)
                 else if (case storedLeaves of None \<Rightarrow> False | Some stored \<Rightarrow> leavesNotIn stored (compoundLeaves sdk compound) > 0) then do {
                   r \<leftarrow> deferIncompleteBlock S blockHash (cb_ExpectedSubtreeIndices callback);
                   ret (if isl r then (''store_failed'', True) else (''deferred_incomplete'', False))
                 }
                 else store_compound S cf ev blockHash (mp_BlockHeight compound) (sdk_bytes sdk compound) txids finalized (storedLeaves \<noteq> None) disposition)"

text \<open>The outcome label, and whether the message fails.\<close>

definition handle_callback ::
    "'s chain_store \<Rightarrow> build_config \<Rightarrow> chain_env \<Rightarrow> 'h sdk \<Rightarrow> 'h wire \<Rightarrow> 'h datahub_env \<Rightarrow> callback_message \<Rightarrow> ('s, string \<times> bool) prog" where
  "handle_callback S cf ev sdk wr dh callback = do {
     rd \<leftarrow> handleRedelivery S cf ev sdk callback;
     (case rd of
        Inl _ \<Rightarrow> ret (''store_failed'', True)
      | Inr (Handled outcome) \<Rightarrow> ret (outcome, False)
      | Inr other \<Rightarrow>
          let storedLeaves = (case other of Rebuild leaves \<Rightarrow> Some leaves | _ \<Rightarrow> None) in do {
            finalized \<leftarrow> blockFinalized S (cb_BlockHash callback);
            rs \<leftarrow> resolveStumps S cf ev callback (storedLeaves \<noteq> None);
            (case rs of
               ResFailed outcome \<Rightarrow> ret (outcome, True)
             | ResDone outcome \<Rightarrow> ret (outcome, False)
             | ResStumps stumps disposition \<Rightarrow> build_block S cf ev sdk wr dh callback storedLeaves finalized stumps disposition)
          })
   }"

definition builder_handleMessage ::
    "'s chain_store \<Rightarrow> build_config \<Rightarrow> chain_env \<Rightarrow> 'h sdk \<Rightarrow> 'h wire \<Rightarrow> 'h datahub_env \<Rightarrow> (bytes \<Rightarrow> callback_message option) \<Rightarrow> bytes
      \<Rightarrow> ('s, string \<times> bool) prog" where
  "builder_handleMessage S cf ev sdk wr dh decode msg =
     (case decode msg of
        None \<Rightarrow> ret (''parse_failed'', True)
      | Some callback \<Rightarrow>
          if cb_BlockHash callback = [] then ret (''parse_failed'', True)
          else do {
            widened \<leftarrow> widenExpectedSubtrees S callback;
            (case widened of
               Inl _ \<Rightarrow> ret (''store_failed'', True)
             | Inr callback' \<Rightarrow> handle_callback S cf ev sdk wr dh callback')
          })"

section \<open>The janitor\<close>

definition stumpRetention :: "build_config \<Rightarrow> int" where
  "stumpRetention cf = (if bd_StumpRetentionMinutes cf > 0 then bd_StumpRetentionMinutes cf else 60) * 60 * 1000000000"

text \<open>Whether a row's STUMPs go, and whether the row keeps the walk going.\<close>

definition prunable :: "unix_ns \<Rightarrow> int \<Rightarrow> block_processing_status \<Rightarrow> bool" where
  "prunable now retention r \<longleftrightarrow>
     (case bp_BUMPBuiltAt r of None \<Rightarrow> False | Some built \<Rightarrow> bp_ProcessedAt r \<noteq> None \<and> \<not> now - built < retention)"

definition retained :: "unix_ns \<Rightarrow> int \<Rightarrow> block_processing_status \<Rightarrow> bool" where
  "retained now retention r \<longleftrightarrow>
     (case bp_HeaderSeenAt r of None \<Rightarrow> False | Some seen \<Rightarrow> seen > now - retention - 3600 * 1000000000) \<or>
     (case bp_BUMPBuiltAt r of None \<Rightarrow> False | Some built \<Rightarrow> bp_ProcessedAt r \<noteq> None \<and> now - built < retention)"

fun prune_rows :: "'s chain_store \<Rightarrow> unix_ns \<Rightarrow> int \<Rightarrow> block_processing_status list \<Rightarrow> ('s, unit) prog" where
  "prune_rows S now retention [] = ret ()"
| "prune_rows S now retention (r # rows) =
     (if prunable now retention r then do {
        _ \<leftarrow> call (cs_DeleteStumpsByBlockHash S (bp_BlockHash r)) (\<lambda>_. [StumpsDeleted (bp_BlockHash r)]);
        prune_rows S now retention rows
      }
      else prune_rows S now retention rows)"

text \<open>The paging loop, with fuel; the answer is whether it ended.\<close>

fun prune_loop :: "nat \<Rightarrow> 's chain_store \<Rightarrow> chain_env \<Rightarrow> nat \<Rightarrow> nat \<Rightarrow> unix_ns \<Rightarrow> int \<Rightarrow> nat \<Rightarrow> ('s, bool) prog" where
  "prune_loop 0 S ev tip depth now retention cursor = ret False"
| "prune_loop (Suc fuel) S ev tip depth now retention cursor = do {
     ended \<leftarrow> observe (ce_done ev);
     (if ended then ret True
      else do {
        page \<leftarrow> call (cs_ListBlockProcessingStatus S cursor 200) (\<lambda>r. [Listed cursor r]);
        (case page of
           Inl _ \<Rightarrow> ret True
         | Inr rows \<Rightarrow>
             if rows = [] then ret True
             else do {
               prune_rows S now retention rows;
               (let oldest = bp_BlockHeight (last rows) in
                if tip > depth \<and> oldest \<le> tip - depth \<and> \<not> list_ex (retained now retention) rows then ret True
                else if oldest = 0 then ret True
                else prune_loop fuel S ev tip depth now retention oldest)
             })
      })
   }"

definition pruneOrphanStumps :: "'s chain_store \<Rightarrow> build_config \<Rightarrow> chain_env \<Rightarrow> ('s, bool) prog" where
  "pruneOrphanStumps S cf ev = do {
     t \<leftarrow> call (cs_GetActiveTipBlockHeight S) (\<lambda>_. []);
     (case t of
        Inl _ \<Rightarrow> ret True
      | Inr tip \<Rightarrow>
          if tip = 0 then ret True
          else do {
            now \<leftarrow> observe (ce_now ev);
            prune_loop (tip + 2) S ev tip (if bd_RecencyDepth cf \<le> 0 then 144 else nat (bd_RecencyDepth cf)) now (stumpRetention cf) (tip + 1)
          })
   }"

end
