(* ===== verification/Builder_Correct.thy ===== *)
theory Builder_Correct
  imports Builder
begin

text \<open>
  Why the builder does what it does: every stamp, every stored BUMP and every mine in the trace of a delivery is
  explained by what stands before it in the trace, whatever the store answers and whoever else changes it.
\<close>

section \<open>Explained traces\<close>

definition explained :: "(chain_call list \<Rightarrow> chain_call \<Rightarrow> bool) \<Rightarrow> chain_call list \<Rightarrow> bool" where
  "explained G tr \<longleftrightarrow> (\<forall>i < length tr. G (take i tr) (tr ! i))"

lemma explained_Nil [simp]: "explained G []"
  by (simp add: explained_def)

lemma explained_snoc [simp]: "explained G (tr @ [c]) \<longleftrightarrow> explained G tr \<and> G tr c"
  by (auto simp: explained_def less_Suc_eq nth_append)

text \<open>Nothing but events that went out.\<close>

definition all_out :: "chain_call list \<Rightarrow> bool" where
  "all_out tr \<longleftrightarrow> (\<forall>t ok. Published t ok \<in> set tr \<longrightarrow> ok)"

lemma all_out_Nil [simp]: "all_out []"
  by (simp add: all_out_def)

lemma all_out_snoc [simp]: "all_out (tr @ [c]) \<longleftrightarrow> all_out tr \<and> (case c of Published t ok \<Rightarrow> ok | _ \<Rightarrow> True)"
  by (auto simp: all_out_def split: chain_call.splits)

text \<open>Evidence in a trace about the block \<open>b\<close>, of which a message expects the subtrees \<open>own\<close>.\<close>

definition lost_height :: "block_hash \<Rightarrow> chain_call list \<Rightarrow> bool" where
  "lost_height b pre \<longleftrightarrow> (\<exists>h c. Asked h (HeightHash c) \<in> set pre \<and> c \<noteq> b)"

definition expects :: "block_hash \<Rightarrow> chain_call list \<Rightarrow> int list set" where
  "expects b pre = {xs. ReadExpected b (Inr xs) \<in> set pre}"

definition owed :: "int list \<Rightarrow> int list set \<Rightarrow> int set" where
  "owed own E = set own \<union> \<Union> (set ` E)"

definition bumps :: "block_hash \<Rightarrow> chain_call list \<Rightarrow> (nat \<times> bytes) set" where
  "bumps b pre = {hb. ReadBUMP b (Inr hb) \<in> set pre}"

definition stored_leaves :: "'h sdk \<Rightarrow> (nat \<times> bytes) set \<Rightarrow> nat \<Rightarrow> string list \<Rightarrow> bool" where
  "stored_leaves sdk B h leaves \<longleftrightarrow> (\<exists>bytes. (h, bytes) \<in> B \<and> bytes \<noteq> [] \<and> levelZeroTxidsFromBUMP sdk bytes = Some leaves)"

definition mined_all :: "block_hash \<Rightarrow> nat \<Rightarrow> string list \<Rightarrow> chain_call list \<Rightarrow> bool" where
  "mined_all b h txids pre \<longleftrightarrow> txids = [] \<or> (\<exists>prevs mined. Mined b h txids prevs mined None \<in> set pre)"

text \<open>A compound built from a complete set of STUMPs and block data the builder may use, that passed validation.\<close>

definition compounds ::
    "'h sdk \<Rightarrow> (stump list \<Rightarrow> 'h block_data \<Rightarrow> bool) \<Rightarrow> int set \<Rightarrow> stump list \<Rightarrow> 'h merkle_path \<Rightarrow> string list \<Rightarrow> bool" where
  "compounds sdk src need stumps compound txids \<longleftrightarrow> need \<subseteq> st_SubtreeIndex ` set stumps \<and>
     (\<exists>hashes cb root. src stumps (hashes, cb, root) \<and> fst (BuildCompoundBUMP sdk stumps hashes cb root) = Inr (compound, txids) \<and>
        ValidateCompoundRoot sdk (Some compound) root)"

definition built ::
    "'h sdk \<Rightarrow> (stump list \<Rightarrow> 'h block_data \<Rightarrow> bool) \<Rightarrow> block_hash \<Rightarrow> int list \<Rightarrow> chain_call list \<Rightarrow> 'h merkle_path \<Rightarrow> string list \<Rightarrow> bool" where
  "built sdk src b own pre compound txids \<longleftrightarrow>
     (\<exists>stumps. ReadStumps b (Inr stumps) \<in> set pre \<and> compounds sdk src (owed own (expects b pre)) stumps compound txids)"

fun effect_ok ::
    "'h sdk \<Rightarrow> (stump list \<Rightarrow> 'h block_data \<Rightarrow> bool) \<Rightarrow> block_hash \<Rightarrow> int list \<Rightarrow> chain_call list \<Rightarrow> chain_call \<Rightarrow> bool" where
  "effect_ok sdk src b own pre (Stamped b' h) \<longleftrightarrow> b' = b \<and>
     (lost_height b pre \<or>
      ReadStumps b (Inr []) \<in> set pre \<and> owed own (expects b pre) = {} \<or>
      (\<exists>compound txids. built sdk src b own pre compound txids \<and> Inserted b h (sdk_bytes sdk compound) \<in> set pre \<and>
         mined_all b h txids pre \<and> all_out pre) \<or>
      (\<exists>leaves stumps. stored_leaves sdk (bumps b pre) h leaves \<and> mined_all b h leaves pre \<and> all_out pre \<and>
         ReadStumps b (Inr stumps) \<in> set pre \<and> (stumps = [] \<or> owed own (expects b pre) \<subseteq> st_SubtreeIndex ` set stumps) \<and>
         leavesBeyondStoredBUMP sdk stumps leaves = Some []))"
| "effect_ok sdk src b own pre (Inserted b' h bytes) \<longleftrightarrow> b' = b \<and>
     (\<exists>compound txids. built sdk src b own pre compound txids \<and> bytes = sdk_bytes sdk compound \<and> h = mp_BlockHeight compound \<and>
        (\<forall>h' leaves. stored_leaves sdk (bumps b pre) h' leaves \<longrightarrow> set leaves \<subseteq> set (compoundLeaves sdk compound)))"
| "effect_ok sdk src b own pre (Mined b' h txids _ _ _) \<longleftrightarrow> b' = b \<and> \<not> lost_height b pre \<and>
     ((\<exists>compound. built sdk src b own pre compound txids \<and> Inserted b h (sdk_bytes sdk compound) \<in> set pre) \<or>
      stored_leaves sdk (bumps b pre) h txids)"
| "effect_ok sdk src b own pre (StumpsDeleted b') \<longleftrightarrow> b' = b \<and> lost_height b pre"
| "effect_ok sdk src b own pre (Orphaned bs) \<longleftrightarrow> bs = [b] \<and> lost_height b pre"
| "effect_ok sdk src b own pre _ \<longleftrightarrow> True"

fun neutral :: "chain_call \<Rightarrow> bool" where
  "neutral (ReadStumps b r) = True"
| "neutral (Unstamped b) = True"
| "neutral _ = False"

text \<open>The state of knowledge of a delivery that has found nothing against its block.\<close>

definition knows ::
    "(chain_call list \<Rightarrow> chain_call \<Rightarrow> bool) \<Rightarrow> block_hash \<Rightarrow> int list set \<Rightarrow> (nat \<times> bytes) set \<Rightarrow> chain_call set \<Rightarrow> 's chain_world \<Rightarrow> bool" where
  "knows G b E B F w \<longleftrightarrow> explained G (cw_trace w) \<and> F \<subseteq> set (cw_trace w) \<and> all_out (cw_trace w) \<and> \<not> lost_height b (cw_trace w) \<and>
     expects b (cw_trace w) = E \<and> bumps b (cw_trace w) = B"

definition sound :: "(chain_call list \<Rightarrow> chain_call \<Rightarrow> bool) \<Rightarrow> 's chain_world \<Rightarrow> bool" where
  "sound G w \<longleftrightarrow> explained G (cw_trace w)"

lemma trace_facts [simp]:
  "lost_height b (tr @ [c]) \<longleftrightarrow> lost_height b tr \<or> (\<exists>h d. c = Asked h (HeightHash d) \<and> d \<noteq> b)"
  "expects b (tr @ [c]) = expects b tr \<union> {xs. c = ReadExpected b (Inr xs)}"
  "bumps b (tr @ [c]) = bumps b tr \<union> {hb. c = ReadBUMP b (Inr hb)}"
  by (auto simp: lost_height_def expects_def bumps_def)

lemma knows_snoc:
  assumes "knows G b E B F w" and "neutral c" and "G (cw_trace w) c"
  shows "knows G b E B (insert c F) (w\<lparr>cw_store := s, cw_trace := cw_trace w @ [c]\<rparr>)"
  using assms by (cases c) (auto simp: knows_def)

lemma knows_sound: "knows G b E B F w \<Longrightarrow> sound G w"
  by (simp add: knows_def sound_def)

lemma knows_observe [simp]: "knows G b E B F (w\<lparr>cw_tick := k\<rparr>) = knows G b E B F w" "sound G (w\<lparr>cw_tick := k\<rparr>) = sound G w"
  by (simp_all add: knows_def sound_def)

lemma knows_store [simp]: "knows G b E B F (w\<lparr>cw_store := s\<rparr>) = knows G b E B F w" "sound G (w\<lparr>cw_store := s\<rparr>) = sound G w"
  by (simp_all add: knows_def sound_def)

section \<open>The parts\<close>

lemma quiet_call: "(\<And>r. noted r = []) \<Longrightarrow> triple (knows G b E B F) (call f noted) (\<lambda>_. knows G b E B F)"
  by (rule triple_call) simp

lemma quiet_call_sound: "(\<And>r. noted r = []) \<Longrightarrow> triple (sound G) (call f noted) (\<lambda>_. sound G)"
  by (rule triple_call) simp

lemma observe_sound: "triple (sound G) (observe f) (\<lambda>_. sound G)"
  by (rule triple_observe) simp

lemma read_stumps_knows:
  "triple (knows (effect_ok sdk src b own) b E B F) (read_stumps S b) (\<lambda>r. knows (effect_ok sdk src b own) b E B (insert (ReadStumps b r) F))"
  unfolding read_stumps_def by (rule triple_call) (simp add: knows_snoc)

lemma markBlockProcessed_sound:
  "triple (\<lambda>w. sound G w \<and> G (cw_trace w) (Stamped b h) \<and> (L \<longrightarrow> lost_height b (cw_trace w))) (markBlockProcessed S ev b h)
     (\<lambda>_ w. sound G w \<and> (L \<longrightarrow> lost_height b (cw_trace w)))"
proof -
  let ?P = "\<lambda>w. sound G w \<and> G (cw_trace w) (Stamped b h) \<and> (L \<longrightarrow> lost_height b (cw_trace w))"
  let ?Q = "\<lambda>w. sound G w \<and> (L \<longrightarrow> lost_height b (cw_trace w))"
  have one: "triple ?P (observe (ce_now ev)) (\<lambda>_. ?P)" by (rule triple_observe) simp
  have two: "triple ?P (call (cs_MarkBlockProcessed S b h now) (\<lambda>r. if isl r then [] else [Stamped b h])) (\<lambda>_. ?Q)" for now
    by (rule triple_call) (simp add: sound_def)
  have clear: "triple ?Q (call (cs_ClearBlockExpectedSubtrees S b) (\<lambda>_. [])) (\<lambda>_. ?Q)" by (rule triple_call) simp
  have three: "triple ?Q (if isl r then ret () else do { _ \<leftarrow> call (cs_ClearBlockExpectedSubtrees S b) (\<lambda>_. []); ret () }) (\<lambda>_. ?Q)" for r :: "unit result"
    by (rule triple_if) (auto intro!: triple_bind [OF clear])
  show ?thesis unfolding markBlockProcessed_def by (rule triple_bind [OF one triple_bind [OF two three]])
qed

lemma anchorDecision_knows:
  "triple (knows (effect_ok sdk src b own) b E B F) (anchorDecision cf ev b h)
     (\<lambda>v w. (v = anchorAllow \<longrightarrow> knows (effect_ok sdk src b own) b E B F w) \<and>
            (v = anchorDeny \<longrightarrow> sound (effect_ok sdk src b own) w \<and> lost_height b (cw_trace w)))"
proof -
  let ?G = "effect_ok sdk src b own"
  let ?R = "\<lambda>v w. (v = anchorAllow \<longrightarrow> knows ?G b E B F w) \<and> (v = anchorDeny \<longrightarrow> sound ?G w \<and> lost_height b (cw_trace w))"
  let ?v = "\<lambda>a. case a of HeightHash active \<Rightarrow> if active = b then anchorAllow else anchorDeny | _ \<Rightarrow> anchorAllow"
  have o: "triple (knows ?G b E B F) (observe (\<lambda>k. ce_height ev k h)) (\<lambda>_. knows ?G b E B F)" by (rule triple_observe) simp
  have j: "triple (knows ?G b E B F) (jot [Asked h a]) (\<lambda>_. ?R (?v a))" for a
    by (rule triple_jot) (auto simp: knows_def sound_def split: height_answer.splits)
  have "triple (?R (?v a)) (ret (?v a)) ?R" for a by (rule triple_ret)
  note ask = triple_bind [OF o triple_bind [OF j this]]
  show ?thesis unfolding anchorDecision_def by (intro triple_if ask) (auto intro!: triple_ret)
qed

lemma handleAnchorDenied_sound:
  "triple (\<lambda>w. sound (effect_ok sdk src b own) w \<and> lost_height b (cw_trace w)) (handleAnchorDenied S ev b h) (\<lambda>_. sound (effect_ok sdk src b own))"
proof -
  let ?L = "\<lambda>w :: 'a chain_world. sound (effect_ok sdk src b own) w \<and> lost_height b (cw_trace w)"
  have mark: "triple ?L (markBlockProcessed S ev b h) (\<lambda>_. ?L)"
    by (rule triple_weaken [OF markBlockProcessed_sound [where L = True]]) auto
  have o: "triple ?L (observe (ce_now ev)) (\<lambda>_. ?L)" by (rule triple_observe) simp
  have orph: "triple ?L (call (cs_MarkBlocksOrphaned S [b] now) (\<lambda>(n, _). if n > 0 then [Orphaned [b]] else [])) (\<lambda>_. ?L)" for now
    by (rule triple_call) (auto simp: sound_def)
  have del: "triple ?L (call (cs_DeleteStumpsByBlockHash S b) (\<lambda>_. [StumpsDeleted b])) (\<lambda>_. ?L)"
    by (rule triple_call) (auto simp: sound_def)
  show ?thesis unfolding handleAnchorDenied_def
    by (rule triple_bind [OF mark triple_bind [OF o triple_bind [OF orph triple_bind [OF del]]]]) auto
qed

lemma deferStampedBlock_sound: "triple (sound (effect_ok sdk src b own)) (deferStampedBlock S c) (\<lambda>_. sound (effect_ok sdk src b own))"
  unfolding deferStampedBlock_def
proof (rule triple_bind [OF quiet_call_sound])
  fix r :: "block_processing_status result"
  have "triple (sound (effect_ok sdk src b own)) (call (cs_ClearBlockProcessed S c) (\<lambda>r. if isl r then [] else [Unstamped c])) (\<lambda>_. sound (effect_ok sdk src b own))"
    by (rule triple_call) (simp add: sound_def)
  then show "triple (sound (effect_ok sdk src b own)) (case r of Inl e \<Rightarrow> ret (if e = ErrNotFound then Inr () else Inl e)
      | Inr row \<Rightarrow> if bp_ProcessedAt row = None then ret (Inr ())
          else call (cs_ClearBlockProcessed S c) (\<lambda>r. if isl r then [] else [Unstamped c])) (\<lambda>_. sound (effect_ok sdk src b own))"
    by (cases r) (auto intro!: triple_ret)
qed simp

lemma deferIncompleteBlock_sound:
  "triple (sound (effect_ok sdk src b own)) (deferIncompleteBlock S c xs) (\<lambda>_. sound (effect_ok sdk src b own))"
  unfolding deferIncompleteBlock_def
  by (rule triple_bind [OF quiet_call_sound]) (auto intro!: triple_ret deferStampedBlock_sound split: sum.splits)

section \<open>Mining\<close>

lemma publish_chunks_all:
  "triple (\<lambda>w. sound (effect_ok sdk src b own) w \<and> (c \<longrightarrow> knows (effect_ok sdk src b own) b E B F w \<and> mined_all b h txids (cw_trace w)))
     (publish_chunks ev b h info chunks)
     (\<lambda>oks w. sound (effect_ok sdk src b own) w \<and> (c \<and> oks \<longrightarrow> knows (effect_ok sdk src b own) b E B F w \<and> mined_all b h txids (cw_trace w)))"
proof (induction chunks arbitrary: c)
  case Nil
  show ?case by (auto intro!: triple_ret)
next
  case (Cons rows rest)
  let ?K = "\<lambda>w :: 'a chain_world. knows (effect_ok sdk src b own) b E B F w \<and> mined_all b h txids (cw_trace w)"
  let ?P = "\<lambda>c w. sound (effect_ok sdk src b own) w \<and> (c \<longrightarrow> ?K w)"
  have o: "triple (?P c) (observe f) (\<lambda>_. ?P c)" for f :: "nat \<Rightarrow> 'z" by (rule triple_observe) simp
  have j: "triple (?P c) (jot [Published t ok]) (\<lambda>_. ?P (c \<and> ok))" for t ok
    by (rule triple_jot) (auto simp: sound_def knows_def mined_all_def)
  have p: "triple (?P c) (PublishBulk ev t) (\<lambda>ok. ?P (c \<and> ok))" for t
    unfolding PublishBulk_def by (rule triple_bind [OF o [of "ce_publish ev"] triple_bind [OF j triple_ret]])
  show ?case unfolding publish_chunks.simps
    by (rule triple_bind [OF o [of "ce_now ev"] triple_bind [OF p triple_bind [OF Cons.IH triple_ret]]]) auto
qed

lemma markMined_knows:
  assumes mineable: "\<And>w :: 's chain_world. knows (effect_ok sdk src b own) b E B F w \<Longrightarrow> \<forall>p m e. effect_ok sdk src b own (cw_trace w) (Mined b h txids p m e)"
  shows "triple (knows (effect_ok sdk src b own) b E B F) (markMinedAndPublish (S :: 's chain_store) cf ev b h txids fin)
     (\<lambda>ok w. sound (effect_ok sdk src b own) w \<and> (ok \<longrightarrow> knows (effect_ok sdk src b own) b E B F w \<and> mined_all b h txids (cw_trace w)))"
proof -
  let ?G = "effect_ok sdk src b own"
  let ?K = "\<lambda>w :: 's chain_world. knows ?G b E B F w \<and> mined_all b h txids (cw_trace w)"
  let ?P = "\<lambda>c w. sound ?G w \<and> (c \<longrightarrow> ?K w)"
  let ?rows = "\<lambda>prevs mined. if fin then changed_rows b prevs mined else mined"
  have set_call: "triple (knows ?G b E B F) (call (cs_SetMinedByTxIDs S b h txids) (\<lambda>(prevs, mined, err). [Mined b h txids prevs mined err]))
      (\<lambda>(prevs, mined, err). ?P (err = None))"
    by (rule triple_call) (use mineable in \<open>auto simp: sound_def knows_def mined_all_def split: prod.splits\<close>)
  have pub: "triple (?P (err = None)) (do { oks \<leftarrow> publish_chunks ev b h [] chunks; ret (n, err, oks) }) (\<lambda>(n, err, oks). ?P (err = None \<and> oks))"
      for n :: nat and err :: "store_error option" and chunks
    by (rule triple_bind [OF publish_chunks_all triple_ret]) auto
  have rest: "triple (?P (err = None)) (if err \<noteq> None \<and> mined = [] then ret (0, err, True)
      else let rows = ?rows prevs mined in
        if rows = [] \<or> \<not> bd_hasPublisher cf then ret (length rows, err, True)
        else do { oks \<leftarrow> publish_chunks ev b h [] (slices maxTxIDsPerBulkEvent rows); ret (length rows, err, oks) })
      (\<lambda>(n, err, oks). ?P (err = None \<and> oks))" for prevs mined :: "transaction_status list" and err :: "store_error option"
    unfolding Let_def by (intro triple_if pub triple_ret) auto
  have "triple (knows ?G b E B F) (setMinedAndPublish S ev (bd_hasPublisher cf) b h txids [] fin) (\<lambda>(n, err, oks). ?P (err = None \<and> oks))"
    unfolding setMinedAndPublish_def by (rule triple_bind [OF set_call]) (use rest in \<open>auto split: prod.splits\<close>)
  then show ?thesis unfolding markMinedAndPublish_def by (rule triple_bind) (auto intro!: triple_ret split: prod.splits)
qed

text \<open>The guard, the mine and the stamp, as a build and a redelivery end.\<close>

lemma anchored_mine:
  assumes stampable: "\<And>w :: 's chain_world. knows (effect_ok sdk src b own) b E B F w \<Longrightarrow> mined_all b h txids (cw_trace w) \<Longrightarrow>
        effect_ok sdk src b own (cw_trace w) (Stamped b h)"
      and mine: "txids \<noteq> [] \<Longrightarrow> triple (knows (effect_ok sdk src b own) b E B F) m
        (\<lambda>ok w. sound (effect_ok sdk src b own) w \<and> (ok \<longrightarrow> knows (effect_ok sdk src b own) b E B F w \<and> mined_all b h txids (cw_trace w)))"
      and failed: "triple (sound (effect_ok sdk src b own)) z (\<lambda>_. sound (effect_ok sdk src b own))"
  shows "triple (knows (effect_ok sdk src b own) b E B F)
     (do { v \<leftarrow> anchorDecision cf ev b h;
           (if v = anchorDeny then do { handleAnchorDenied (S :: 's chain_store) ev b h; ret x }
            else do {
              minedComplete \<leftarrow> (if txids = [] then ret True else m);
              (if minedComplete then do { markBlockProcessed S ev b h; ret y } else z) }) })
     (\<lambda>_. sound (effect_ok sdk src b own))"
proof (rule triple_bind [OF anchorDecision_knows], rule triple_if)
  let ?G = "effect_ok sdk src b own"
  let ?K = "\<lambda>w :: 's chain_world. knows ?G b E B F w \<and> mined_all b h txids (cw_trace w)"
  let ?R = "\<lambda>v w. (v = anchorAllow \<longrightarrow> knows ?G b E B F w) \<and> (v = anchorDeny \<longrightarrow> sound ?G w \<and> lost_height b (cw_trace w))"
  fix v
  show "triple (?R v) (do { handleAnchorDenied S ev b h; ret x }) (\<lambda>_. sound ?G)" if "v = anchorDeny"
    by (rule triple_weaken [OF triple_bind [OF handleAnchorDenied_sound triple_ret]]) (use that in auto)
  show "triple (?R v) (do { minedComplete \<leftarrow> (if txids = [] then ret True else m);
      (if minedComplete then do { markBlockProcessed S ev b h; ret y } else z) }) (\<lambda>_. sound ?G)" if "v \<noteq> anchorDeny"
  proof (rule triple_bind [where Q = "\<lambda>ok w. sound ?G w \<and> (ok \<longrightarrow> ?K w)"])
    have v: "v = anchorAllow" using that by (cases v) auto
    have "triple (knows ?G b E B F) (if txids = [] then ret True else m) (\<lambda>ok w. sound ?G w \<and> (ok \<longrightarrow> ?K w))"
      by (rule triple_if, rule triple_ret, simp add: mined_all_def knows_sound) (rule mine)
    then show "triple (?R v) (if txids = [] then ret True else m) (\<lambda>ok w. sound ?G w \<and> (ok \<longrightarrow> ?K w))"
      by (rule triple_weaken) (use v in auto)
    fix ok
    have "triple (\<lambda>w. sound ?G w \<and> (ok \<longrightarrow> ?K w)) (do { markBlockProcessed S ev b h; ret y }) (\<lambda>_. sound ?G)" if ok
      by (rule triple_weaken [OF triple_bind [OF markBlockProcessed_sound [where L = False] triple_ret]]) (use that stampable in auto)
    moreover have "triple (\<lambda>w. sound ?G w \<and> (ok \<longrightarrow> ?K w)) z (\<lambda>_. sound ?G)"
      by (rule triple_weaken [OF failed]) auto
    ultimately show "triple (\<lambda>w. sound ?G w \<and> (ok \<longrightarrow> ?K w)) (if ok then do { markBlockProcessed S ev b h; ret y } else z) (\<lambda>_. sound ?G)"
      by (auto intro: triple_if)
  qed
qed

section \<open>The STUMP set\<close>

lemma missing_Nil [simp]: "missingStumpIndices xs stumps = [] \<longleftrightarrow> set xs \<subseteq> st_SubtreeIndex ` set stumps"
  by (auto simp: missingStumpIndices_def filter_empty_conv)

definition resolved_ok ::
    "(chain_call list \<Rightarrow> chain_call \<Rightarrow> bool) \<Rightarrow> block_hash \<Rightarrow> int list \<Rightarrow> int list set \<Rightarrow> (nat \<times> bytes) set \<Rightarrow> resolved \<Rightarrow> 's chain_world \<Rightarrow> bool" where
  "resolved_ok G b own E B r w \<longleftrightarrow>
     (case r of
        ResStumps stumps _ \<Rightarrow> knows G b E B {ReadStumps b (Inr stumps)} w \<and> owed own E \<subseteq> st_SubtreeIndex ` set stumps
      | _ \<Rightarrow> sound G w)"

lemma finalizeEmptyBlock_ok:
  assumes "owed own E = {}"
  shows "triple (knows (effect_ok sdk src b own) b E B (insert (ReadStumps b (Inr [])) F)) (do { finalizeEmptyBlock S ev b; ret (ResDone l) })
     (resolved_ok (effect_ok sdk src b own) b own E B)"
  unfolding finalizeEmptyBlock_def
  by (rule triple_bind [OF triple_weaken [OF markBlockProcessed_sound [where L = False and b = b and h = 0 and G = "effect_ok sdk src b own"]] triple_ret])
     (use assms in \<open>auto simp: knows_def sound_def resolved_ok_def\<close>)

lemma completeness_gate_ok:
  assumes xs: "set xs = owed own E"
  shows "triple (knows (effect_ok sdk src b own) b E B (insert (ReadStumps b (Inr stumps)) F)) (completeness_gate S ev b xs stumps)
     (resolved_ok (effect_ok sdk src b own) b own E B)"
proof -
  let ?G = "effect_ok sdk src b own"
  let ?K = "knows ?G b E B (insert (ReadStumps b (Inr stumps)) F)"
  have "triple (sound ?G) (do { r \<leftarrow> deferIncompleteBlock S b xs; ret (if isl r then ResFailed ''store_failed'' else ResDone ''deferred_incomplete'') })
      (resolved_ok ?G b own E B)"
    by (rule triple_bind [OF deferIncompleteBlock_sound triple_ret]) (simp add: resolved_ok_def)
  from triple_weaken [OF this] have deferred: "triple ?K (do { r \<leftarrow> deferIncompleteBlock S b xs;
      ret (if isl r then ResFailed ''store_failed'' else ResDone ''deferred_incomplete'') }) (resolved_ok ?G b own E B)"
    by (auto intro: knows_sound)
  have empty: "triple ?K (do { finalizeEmptyBlock S ev b; ret (ResDone ''no_stumps'') }) (resolved_ok ?G b own E B)"
    if "set xs \<subseteq> st_SubtreeIndex ` set stumps" "stumps = []"
    using that xs finalizeEmptyBlock_ok [of own E] by simp
  show ?thesis unfolding completeness_gate_def
    by (intro triple_if deferred empty triple_ret) (use xs in \<open>auto simp: resolved_ok_def knows_def\<close>)
qed

lemma resolveStumps_ok:
  assumes xs: "set (cb_ExpectedSubtreeIndices cb) = owed own E" and b: "cb_BlockHash cb = b"
  shows "triple (knows (effect_ok sdk src b own) b E B F) (resolveStumps S cf ev cb rebuild) (resolved_ok (effect_ok sdk src b own) b own E B)"
  unfolding resolveStumps_def b
proof (rule triple_bind [OF read_stumps_knows])
  let ?G = "effect_ok sdk src b own" and ?xs = "cb_ExpectedSubtreeIndices cb"
  fix r :: "stump list result"
  let ?K = "knows ?G b E B (insert (ReadStumps b r) F)"
  have fail: "triple (knows ?G b E B F') (ret (ResFailed l)) (resolved_ok ?G b own E B)" for F' l
    by (rule triple_ret) (simp add: resolved_ok_def knows_sound)
  have again: "triple ?K (do { r2 \<leftarrow> read_stumps S b;
      (case r2 of Inl _ \<Rightarrow> ret (ResFailed ''store_failed'') | Inr stumps2 \<Rightarrow> completeness_gate S ev b ?xs stumps2) }) (resolved_ok ?G b own E B)"
    by (rule triple_bind [OF read_stumps_knows]) (auto intro!: fail completeness_gate_ok [OF xs] split: sum.splits)
  have o: "triple ?K (observe (ce_done ev)) (\<lambda>_. ?K)" by (rule triple_observe) simp
  have wait: "triple ?K (do { ended \<leftarrow> observe (ce_done ev);
      (if ended then ret (ResFailed ''context_canceled'') else do { r2 \<leftarrow> read_stumps S b;
      (case r2 of Inl _ \<Rightarrow> ret (ResFailed ''store_failed'') | Inr stumps2 \<Rightarrow> completeness_gate S ev b ?xs stumps2) }) }) (resolved_ok ?G b own E B)"
    by (rule triple_bind [OF o]) (intro triple_if fail again)
  have empty: "triple ?K (do { finalizeEmptyBlock S ev b; ret (ResDone ''no_stumps'') }) (resolved_ok ?G b own E B)" if "?xs = []" "r = Inr []"
    using that xs finalizeEmptyBlock_ok [of own E] by simp
  show "triple ?K (case r of Inl _ \<Rightarrow> ret (ResFailed ''store_failed'')
      | Inr stumps \<Rightarrow> let expected = ?xs in
          if \<not> rebuild \<and> expected \<noteq> [] \<and> missingStumpIndices expected stumps = [] then ret (ResStumps stumps ''finalized_complete_no_grace'')
          else if \<not> rebuild \<and> expected = [] \<and> stumps = [] then do { finalizeEmptyBlock S ev b; ret (ResDone ''no_stumps'') }
          else if bd_GraceWindowMs cf > 0 then do {
            ended \<leftarrow> observe (ce_done ev);
            (if ended then ret (ResFailed ''context_canceled'')
             else do { r2 \<leftarrow> read_stumps S b;
               (case r2 of Inl _ \<Rightarrow> ret (ResFailed ''store_failed'') | Inr stumps2 \<Rightarrow> completeness_gate S ev b expected stumps2) }) }
          else completeness_gate S ev b expected stumps) (resolved_ok ?G b own E B)"
  proof (cases r)
    case (Inr stumps)
    have gate: "triple ?K (completeness_gate S ev b ?xs stumps) (resolved_ok ?G b own E B)"
      unfolding Inr by (rule completeness_gate_ok [OF xs])
    show ?thesis unfolding Inr sum.case Let_def unfolding Inr [symmetric]
      by (intro triple_if wait gate empty triple_ret) (use xs Inr in \<open>auto simp: resolved_ok_def knows_def\<close>)
  qed (use fail in auto)
qed

section \<open>Redeliveries\<close>

text \<open>What is known of the stored BUMP: the leaves it has, if it can be read at all.\<close>

definition stored_is :: "'h sdk \<Rightarrow> (nat \<times> bytes) set \<Rightarrow> string list option \<Rightarrow> bool" where
  "stored_is sdk B stored \<longleftrightarrow> (\<forall>h leaves. stored_leaves sdk B h leaves \<longrightarrow> stored = Some leaves)"

definition load_ok ::
    "(chain_call list \<Rightarrow> chain_call \<Rightarrow> bool) \<Rightarrow> block_hash \<Rightarrow> int list set \<Rightarrow> 'h sdk \<Rightarrow> (nat \<times> string list) option result \<Rightarrow> 's chain_world \<Rightarrow> bool" where
  "load_ok G b E sdk l w \<longleftrightarrow>
     (\<exists>B. (case l of
             Inl _ \<Rightarrow> True
           | Inr None \<Rightarrow> stored_is sdk B None
           | Inr (Some (h, leaves)) \<Rightarrow> stored_leaves sdk B h leaves \<and> stored_is sdk B (Some leaves)) \<and> knows G b E B {} w)"

lemma loadStoredBUMP_ok:
  "triple (knows (effect_ok sdk src b own) b E {} {}) (loadStoredBUMP S sdk b) (load_ok (effect_ok sdk src b own) b E sdk)"
proof -
  let ?G = "effect_ok sdk src b own"
  have c: "triple (knows ?G b E {} {}) (call (cs_GetBUMP S b) (\<lambda>r. [ReadBUMP b r])) (\<lambda>r. knows ?G b E {hb. r = Inr hb} {})"
    by (rule triple_call) (auto simp: knows_def)
  show ?thesis unfolding loadStoredBUMP_def
    by (rule triple_bind [OF c triple_ret], unfold load_ok_def, rule exI, erule conjI [rotated])
       (auto simp: stored_is_def stored_leaves_def split: sum.splits option.splits prod.splits)
qed

lemma blockFinalized_knows: "triple (knows G b E B F) (blockFinalized S c) (\<lambda>_. knows G b E B F)"
  unfolding blockFinalized_def by (rule triple_bind [OF quiet_call triple_ret]) auto

lemma shortCircuit_sound:
  assumes leaves: "stored_leaves sdk B h leaves" and none: "leavesBeyondStoredBUMP sdk stumps leaves = Some []"
      and all: "stumps = [] \<or> owed own E \<subseteq> st_SubtreeIndex ` set stumps"
  shows "triple (knows (effect_ok sdk src b own) b E B (insert (ReadStumps b (Inr stumps)) F)) (shortCircuit S cf ev b h leaves)
     (\<lambda>_. sound (effect_ok sdk src b own))"
  unfolding shortCircuit_def
proof (rule anchored_mine)
  let ?G = "effect_ok sdk src b own" and ?F = "insert (ReadStumps b (Inr stumps)) F"
  show "?G (cw_trace w) (Stamped b h)" if "knows ?G b E B ?F w" "mined_all b h leaves (cw_trace w)" for w :: "'b chain_world"
    using that leaves none all by (auto simp: knows_def)
  show "triple (knows ?G b E B ?F) (do { finalized \<leftarrow> blockFinalized S b; markMinedAndPublish S cf ev b h leaves finalized })
      (\<lambda>ok w. sound ?G w \<and> (ok \<longrightarrow> knows ?G b E B ?F w \<and> mined_all b h leaves (cw_trace w)))"
    by (rule triple_bind [OF blockFinalized_knows markMined_knows]) (use leaves in \<open>auto simp: knows_def\<close>)
  show "triple (sound ?G) (do { r \<leftarrow> deferStampedBlock S b; ret (case r of Inl e \<Rightarrow> Inl e | Inr _ \<Rightarrow> Inr True) }) (\<lambda>_. sound ?G)"
    by (rule triple_bind [OF deferStampedBlock_sound triple_ret])
qed

definition redelivery_ok ::
    "(chain_call list \<Rightarrow> chain_call \<Rightarrow> bool) \<Rightarrow> block_hash \<Rightarrow> int list set \<Rightarrow> 'h sdk \<Rightarrow> redelivery result \<Rightarrow> 's chain_world \<Rightarrow> bool" where
  "redelivery_ok G b E sdk rd w \<longleftrightarrow>
     (case rd of
        Inr NoStoredBUMP \<Rightarrow> \<exists>B. stored_is sdk B None \<and> knows G b E B {} w
      | Inr (Rebuild leaves) \<Rightarrow> \<exists>B. stored_is sdk B (Some leaves) \<and> knows G b E B {} w
      | _ \<Rightarrow> sound G w)"

lemma handleRedelivery_ok:
  assumes xs: "set (cb_ExpectedSubtreeIndices cb) = owed own E" and b: "cb_BlockHash cb = b"
  shows "triple (knows (effect_ok sdk src b own) b E {} {}) (handleRedelivery S cf ev sdk cb) (redelivery_ok (effect_ok sdk src b own) b E sdk)"
  unfolding handleRedelivery_def b
proof (rule triple_bind [OF loadStoredBUMP_ok])
  let ?G = "effect_ok sdk src b own" and ?xs = "cb_ExpectedSubtreeIndices cb"
  let ?R = "redelivery_ok ?G b E sdk"
  let ?judge = "\<lambda>h leaves stumps. case leavesBeyondStoredBUMP sdk stumps leaves of None \<Rightarrow> ret (Inl Unparsable)
    | Some newLeaves \<Rightarrow>
        if newLeaves = [] \<and> (stumps = [] \<or> missingStumpIndices ?xs stumps = []) then do {
          sc \<leftarrow> shortCircuit S cf ev b h leaves;
          ret (case sc of Inl e \<Rightarrow> Inl e | Inr mineFailed \<Rightarrow> Inr (Handled (if mineFailed then ''store_failed'' else ''short_circuited''))) }
        else ret (Inr (Rebuild leaves))"
  have judge: "triple (knows ?G b E B {ReadStumps b (Inr stumps)}) (?judge h leaves stumps) ?R"
    if "stored_leaves sdk B h leaves" "stored_is sdk B (Some leaves)" for B h leaves stumps
  proof (cases "leavesBeyondStoredBUMP sdk stumps leaves")
    case None
    then show ?thesis by (auto intro!: triple_ret simp: redelivery_ok_def knows_sound)
  next
    case (Some new)
    show ?thesis unfolding Some option.case
    proof (rule triple_if)
      assume c: "new = [] \<and> (stumps = [] \<or> missingStumpIndices ?xs stumps = [])"
      show "triple (knows ?G b E B {ReadStumps b (Inr stumps)}) (do { sc \<leftarrow> shortCircuit S cf ev b h leaves;
          ret (case sc of Inl e \<Rightarrow> Inl e | Inr mineFailed \<Rightarrow> Inr (Handled (if mineFailed then ''store_failed'' else ''short_circuited''))) }) ?R"
        by (rule triple_bind [OF shortCircuit_sound [OF that(1)] triple_ret])
           (use c Some xs in \<open>auto simp: redelivery_ok_def split: sum.splits\<close>)
    qed (use that(2) in \<open>auto intro!: triple_ret simp: redelivery_ok_def knows_def\<close>)
  qed
  have loaded: "triple (knows ?G b E B {}) (do { r \<leftarrow> read_stumps S b; (case r of Inl e \<Rightarrow> ret (Inl e) | Inr stumps \<Rightarrow> ?judge h leaves stumps) }) ?R"
    if "stored_leaves sdk B h leaves" "stored_is sdk B (Some leaves)" for B h leaves
    by (rule triple_bind [OF read_stumps_knows])
       (use judge [OF that] in \<open>auto split: sum.split intro!: triple_ret simp: redelivery_ok_def knows_sound\<close>)
  fix l
  show "triple (load_ok ?G b E sdk l) (case l of Inl e \<Rightarrow> ret (Inl e) | Inr None \<Rightarrow> ret (Inr NoStoredBUMP)
      | Inr (Some (height, storedTxIDs)) \<Rightarrow> do { r \<leftarrow> read_stumps S b;
          (case r of Inl e \<Rightarrow> ret (Inl e) | Inr stumps \<Rightarrow> ?judge height storedTxIDs stumps) }) ?R"
    unfolding load_ok_def
    by (intro triple_ex triple_pure)
       (use loaded in \<open>auto split: sum.splits option.splits prod.splits intro!: triple_ret simp: redelivery_ok_def knows_sound\<close>)
qed

section \<open>Builds\<close>

text \<open>The block data of a build: what the callback carries, or what a datahub serves.\<close>

definition block_source ::
    "build_config \<Rightarrow> 'h sdk \<Rightarrow> 'h wire \<Rightarrow> 'h datahub_env \<Rightarrow> callback_message \<Rightarrow> stump list \<Rightarrow> 'h block_data \<Rightarrow> bool" where
  "block_source cf sdk wr dh cb stumps d \<longleftrightarrow>
     (case callbackBlockData sdk cb (minSubtrees stumps) of
        Some d' \<Rightarrow> d = d'
      | None \<Rightarrow> fetchBlockDataFromDatahub cf sdk wr dh (cb_BlockHash cb) (minSubtrees stumps) = Inr d)"

lemma finish_build_sound:
  assumes c: "compounds sdk src (owed own E) stumps compound txids"
      and F: "ReadStumps b (Inr stumps) \<in> F" "Inserted b h (sdk_bytes sdk compound) \<in> F"
  shows "triple (knows (effect_ok sdk src b own) b E B F) (finish_build S cf ev b h txids fin rebuilt l) (\<lambda>_. sound (effect_ok sdk src b own))"
  unfolding finish_build_def
proof (rule anchored_mine)
  let ?G = "effect_ok sdk src b own"
  have k: "built sdk src b own (cw_trace w) compound txids \<and> Inserted b h (sdk_bytes sdk compound) \<in> set (cw_trace w) \<and> \<not> lost_height b (cw_trace w) \<and>
      all_out (cw_trace w)" if "knows ?G b E B F w" for w :: "'b chain_world"
    using that c F by (auto simp: knows_def built_def)
  then show "?G (cw_trace w) (Stamped b h)" if "knows ?G b E B F w" "mined_all b h txids (cw_trace w)" for w :: "'b chain_world"
    using that by (simp, blast)
  show "triple (knows ?G b E B F) (markMinedAndPublish S cf ev b h txids fin)
      (\<lambda>ok w. sound ?G w \<and> (ok \<longrightarrow> knows ?G b E B F w \<and> mined_all b h txids (cw_trace w)))"
    by (rule markMined_knows) (use k in \<open>simp, blast\<close>)
  show "triple (sound ?G) (ret (''store_failed'', False)) (\<lambda>_. sound ?G)" by (rule triple_ret)
qed

lemma store_compound_sound:
  assumes c: "compounds sdk src (owed own E) stumps compound txids" and h: "h = mp_BlockHeight compound"
      and keeps: "\<And>h' leaves. stored_leaves sdk B h' leaves \<Longrightarrow> set leaves \<subseteq> set (compoundLeaves sdk compound)"
  shows "triple (knows (effect_ok sdk src b own) b E B {ReadStumps b (Inr stumps)})
     (store_compound S cf ev b h (sdk_bytes sdk compound) txids fin rebuilt l) (\<lambda>_. sound (effect_ok sdk src b own))"
proof -
  let ?G = "effect_ok sdk src b own" and ?i = "Inserted b h (sdk_bytes sdk compound)"
  let ?K = "knows ?G b E B {ReadStumps b (Inr stumps)}"
  have unstamp: "triple ?K (if rebuilt \<and> fin then call (cs_ClearBlockProcessed S b) (\<lambda>r. if isl r then [] else [Unstamped b]) else ret (Inr ())) (\<lambda>_. ?K)"
    by (intro triple_if triple_call triple_ret) (auto simp: knows_def)
  have o: "triple ?K (observe (ce_now ev)) (\<lambda>_. ?K)" by (rule triple_observe) simp
  have ins: "triple ?K (call (cs_InsertBUMP S b h (sdk_bytes sdk compound)) (\<lambda>_. [?i])) (\<lambda>_. knows ?G b E B {ReadStumps b (Inr stumps), ?i})"
  proof (rule triple_call)
    fix w r s
    assume w: "?K w"
    then have "built sdk src b own (cw_trace w) compound txids" using c by (auto simp: knows_def built_def)
    then have "?G (cw_trace w) ?i" using w h keeps by (auto simp: knows_def)
    then show "knows ?G b E B {ReadStumps b (Inr stumps), ?i} (w\<lparr>cw_store := s, cw_trace := cw_trace w @ [?i]\<rparr>)"
      using w unfolding knows_def by (simp del: effect_ok.simps)
  qed
  have fail: "triple (knows ?G b E B F) (ret x) (\<lambda>_. sound ?G)" for F and x :: "string \<times> bool" by (rule triple_ret) (rule knows_sound)
  show ?thesis unfolding store_compound_def
    by (rule triple_bind [OF unstamp], rule triple_if [OF fail], rule triple_bind [OF o], rule triple_bind [OF quiet_call [OF refl]], rule triple_if [OF fail],
        rule triple_bind [OF ins], rule triple_if [OF fail finish_build_sound [OF c]]) simp_all
qed

lemma leavesNotIn_0: "\<not> 0 < leavesNotIn stored txids \<Longrightarrow> set stored \<subseteq> set txids"
  by (auto simp: leavesNotIn_def filter_empty_conv)

lemma build_block_sound:
  assumes b: "cb_BlockHash cb = b" and need: "owed own E \<subseteq> st_SubtreeIndex ` set stumps" and stored: "stored_is sdk B storedLeaves"
      and src: "\<And>d. (case callbackBlockData sdk cb (minSubtrees stumps) of Some d \<Rightarrow> Inr d
        | None \<Rightarrow> fetchBlockDataFromDatahub cf sdk wr dh b (minSubtrees stumps)) = Inr d \<Longrightarrow> src stumps d"
  shows "triple (knows (effect_ok sdk src b own) b E B {ReadStumps b (Inr stumps)})
     (build_block S cf ev sdk wr dh cb storedLeaves fin stumps l) (\<lambda>_. sound (effect_ok sdk src b own))"
proof (cases "case callbackBlockData sdk cb (minSubtrees stumps) of Some d \<Rightarrow> Inr d
        | None \<Rightarrow> fetchBlockDataFromDatahub cf sdk wr dh b (minSubtrees stumps)")
  case (Inl e)
  then show ?thesis by (simp add: build_block_def Let_def b triple_ret knows_sound)
next
  case (Inr d)
  obtain hashes coinbase root where d: "d = (hashes, coinbase, root)" by (cases d) auto
  let ?G = "effect_ok sdk src b own"
  let ?K = "knows ?G b E B {ReadStumps b (Inr stumps)}"
  have fail: "triple ?K (ret x) (\<lambda>_. sound ?G)" for x :: "string \<times> bool" by (rule triple_ret) (rule knows_sound)
  have deferred: "triple ?K (do { r \<leftarrow> deferIncompleteBlock S b xs; ret (if isl r then x else y) }) (\<lambda>_. sound ?G)" for xs and x y :: "string \<times> bool"
    by (rule triple_bind [OF triple_weaken [OF deferIncompleteBlock_sound] triple_ret]) (auto intro: knows_sound)
  have store: "triple ?K (store_compound S cf ev b (mp_BlockHeight compound) (sdk_bytes sdk compound) txids fin (storedLeaves \<noteq> None) l) (\<lambda>_. sound ?G)"
    if "fst (BuildCompoundBUMP sdk stumps hashes coinbase root) = Inr (compound, txids)" "ValidateCompoundRoot sdk (Some compound) root"
      "\<not> (case storedLeaves of None \<Rightarrow> False | Some stored \<Rightarrow> leavesNotIn stored (compoundLeaves sdk compound) > 0)" for compound txids
  proof (rule store_compound_sound [OF _ refl])
    show "compounds sdk src (owed own E) stumps compound txids" using that need src Inr d unfolding compounds_def by blast
    show "set leaves \<subseteq> set (compoundLeaves sdk compound)" if "stored_leaves sdk B h' leaves" for h' leaves
      using that stored \<open>\<not> (case storedLeaves of None \<Rightarrow> False | Some stored \<Rightarrow> leavesNotIn stored (compoundLeaves sdk compound) > 0)\<close>
        leavesNotIn_0 [of leaves] by (auto simp: stored_is_def)
  qed
  show ?thesis unfolding build_block_def Let_def b Inr sum.case d prod.case
    by (cases "fst (BuildCompoundBUMP sdk stumps hashes coinbase root)")
       (auto intro!: triple_if fail deferred store simp del: not_None_eq split: prod.splits)
qed

section \<open>Messages\<close>

lemma handle_callback_sound:
  assumes b: "cb_BlockHash cb = b" and xs: "set (cb_ExpectedSubtreeIndices cb) = owed own E"
      and src: "\<And>stumps d. block_source cf sdk wr dh cb stumps d \<Longrightarrow> src stumps d"
  shows "triple (knows (effect_ok sdk src b own) b E {} {}) (handle_callback S cf ev sdk wr dh cb) (\<lambda>_. sound (effect_ok sdk src b own))"
  unfolding handle_callback_def b
proof (rule triple_bind [OF handleRedelivery_ok [OF xs b]])
  let ?G = "effect_ok sdk src b own"
  have built: "triple (resolved_ok ?G b own E B rs) (case rs of ResFailed outcome \<Rightarrow> ret (outcome, True) | ResDone outcome \<Rightarrow> ret (outcome, False)
      | ResStumps stumps l \<Rightarrow> build_block S cf ev sdk wr dh cb stored fin stumps l) (\<lambda>_. sound ?G)"
    if "stored_is sdk B stored" for B stored rs fin
  proof (cases rs)
    case (ResStumps stumps l)
    have "triple (knows ?G b E B {ReadStumps b (Inr stumps)}) (build_block S cf ev sdk wr dh cb stored fin stumps l) (\<lambda>_. sound ?G)"
      if "owed own E \<subseteq> st_SubtreeIndex ` set stumps"
      by (rule build_block_sound [OF b that \<open>stored_is sdk B stored\<close>], rule src) (auto simp: block_source_def b split: option.splits)
    then show ?thesis unfolding ResStumps by (auto simp: resolved_ok_def triple_def)
  qed (auto intro!: triple_ret simp: resolved_ok_def)
  have go: "triple (knows ?G b E B {}) (do { fin \<leftarrow> blockFinalized S b; rs \<leftarrow> resolveStumps S cf ev cb (stored \<noteq> None);
      (case rs of ResFailed outcome \<Rightarrow> ret (outcome, True) | ResDone outcome \<Rightarrow> ret (outcome, False)
       | ResStumps stumps l \<Rightarrow> build_block S cf ev sdk wr dh cb stored fin stumps l) }) (\<lambda>_. sound ?G)" if "stored_is sdk B stored" for B stored
    by (rule triple_bind [OF blockFinalized_knows triple_bind [OF resolveStumps_ok [OF xs b] built [OF that]]])
  fix rd
  show "triple (redelivery_ok ?G b E sdk rd) (case rd of Inl _ \<Rightarrow> ret (''store_failed'', True) | Inr (Handled outcome) \<Rightarrow> ret (outcome, False)
      | Inr other \<Rightarrow> let stored = (case other of Rebuild leaves \<Rightarrow> Some leaves | _ \<Rightarrow> None) in do {
          fin \<leftarrow> blockFinalized S b; rs \<leftarrow> resolveStumps S cf ev cb (stored \<noteq> None);
          (case rs of ResFailed outcome \<Rightarrow> ret (outcome, True) | ResDone outcome \<Rightarrow> ret (outcome, False)
           | ResStumps stumps l \<Rightarrow> build_block S cf ev sdk wr dh cb stored fin stumps l) }) (\<lambda>_. sound ?G)"
  proof (cases rd)
    case (Inr x)
    have none: "triple (knows ?G b E B {}) (do { fin \<leftarrow> blockFinalized S b; rs \<leftarrow> resolveStumps S cf ev cb False;
        (case rs of ResFailed outcome \<Rightarrow> ret (outcome, True) | ResDone outcome \<Rightarrow> ret (outcome, False)
         | ResStumps stumps l \<Rightarrow> build_block S cf ev sdk wr dh cb None fin stumps l) }) (\<lambda>_. sound ?G)" if "stored_is sdk B None" for B
      using go [OF that] by simp
    have some: "triple (knows ?G b E B {}) (do { fin \<leftarrow> blockFinalized S b; rs \<leftarrow> resolveStumps S cf ev cb True;
        (case rs of ResFailed outcome \<Rightarrow> ret (outcome, True) | ResDone outcome \<Rightarrow> ret (outcome, False)
         | ResStumps stumps l \<Rightarrow> build_block S cf ev sdk wr dh cb (Some ls) fin stumps l) }) (\<lambda>_. sound ?G)" if "stored_is sdk B (Some ls)" for B ls
      using go [OF that] by simp
    show ?thesis unfolding redelivery_ok_def Inr by (cases x) (auto intro!: triple_ret triple_ex triple_pure none some)
  qed (auto intro!: triple_ret simp: redelivery_ok_def)
qed

lemma handleMessage_sound:
  assumes cb: "decode msg = Some cb"
  shows "triple (\<lambda>w. cw_trace w = []) (builder_handleMessage S cf ev sdk wr dh decode msg)
     (\<lambda>_. sound (effect_ok sdk (block_source cf sdk wr dh cb) (cb_BlockHash cb) (cb_ExpectedSubtreeIndices cb)))"
proof -
  let ?b = "cb_BlockHash cb" and ?own = "cb_ExpectedSubtreeIndices cb"
  let ?G = "effect_ok sdk (block_source cf sdk wr dh cb) ?b ?own"
  let ?wide = "\<lambda>xs. cb\<lparr>cb_ExpectedSubtreeIndices := remdups_adj (sort (?own @ xs))\<rparr>"
  let ?Q = "\<lambda>r w. case r of Inl _ \<Rightarrow> sound ?G w
    | Inr cb' \<Rightarrow> \<exists>E. (set (cb_ExpectedSubtreeIndices cb') = owed ?own E \<and> (cb' = cb \<or> (\<exists>ys. cb' = cb\<lparr>cb_ExpectedSubtreeIndices := ys\<rparr>))) \<and> knows ?G ?b E {} {} w"
  have c: "triple (\<lambda>w. cw_trace w = []) (call (cs_GetBlockExpectedSubtrees S ?b) (\<lambda>r. [ReadExpected ?b r]))
      (\<lambda>r. knows ?G ?b {xs. r = Inr xs} {} {})"
    by (rule triple_call) (auto simp: knows_def explained_def all_out_def lost_height_def expects_def bumps_def)
  have w: "triple (\<lambda>w. cw_trace w = []) (widenExpectedSubtrees S cb) ?Q"
    unfolding widenExpectedSubtrees_def
  proof (rule triple_bind [OF c triple_ret])
    fix r w
    assume "knows ?G ?b {xs. r = Inr xs} {} {} w"
    then show "?Q (case r of Inl e \<Rightarrow> Inl e | Inr xs \<Rightarrow> if xs = [] then Inr cb else Inr (?wide xs)) w"
      by (cases r) (auto simp: owed_def knows_sound split: if_splits intro!: exI [of _ "{projr r}"])
  qed
  have rest: "triple (?Q r) (case r of Inl _ \<Rightarrow> ret (''store_failed'', True) | Inr cb' \<Rightarrow> handle_callback S cf ev sdk wr dh cb') (\<lambda>_. sound ?G)" for r
  proof (cases r)
    case (Inr cb')
    show ?thesis unfolding Inr sum.case
      by (intro triple_ex triple_pure handle_callback_sound)
         (auto simp: block_source_def callbackBlockData_def split: option.splits)
  qed (auto intro!: triple_ret)
  show ?thesis unfolding builder_handleMessage_def cb option.case
    by (rule triple_if, rule triple_ret, simp add: sound_def) (rule triple_bind [OF w rest])
qed

end
