(* ===== verification/Builder_Promises.thy ===== *)
theory Builder_Promises
  imports Builder_Correct
begin

text \<open>
  What the builder promises: that each of its effects is grounded, and that every row it anchored is announced once.
\<close>

section \<open>Grounds\<close>


text \<open>A redelivery of a block whose BUMP is stored and whose STUMPs are gone, over a store that anchors one row.\<close>

definition mined_row :: transaction_status where
  "mined_row = empty_status\<lparr>ts_TxID := ''t'', ts_Status := StatusMined, ts_BlockHash := ''b'', ts_Timestamp := Some 5\<rparr>"

definition seen_row :: transaction_status where
  "seen_row = empty_status\<lparr>ts_TxID := ''t'', ts_Status := StatusSeenOnNetwork\<rparr>"

definition stub_store :: "unit chain_store" where
  "stub_store = \<lparr>cs_GetBUMP = (\<lambda>_ s. (Inr (9, ''bump''), s)), cs_InsertBUMP = (\<lambda>_ _ _ s. (Inr (), s)),
     cs_GetStumpsByBlockHash = (\<lambda>_ s. (Inr [], s)), cs_DeleteStumpsByBlockHash = (\<lambda>_ s. (Inr (), s)),
     cs_SetMinedByTxIDs = (\<lambda>_ _ _ s. (([seen_row], [mined_row], None), s)), cs_SetStatusByBlockHash = (\<lambda>_ _ s. (([], None), s)),
     cs_GetTxIDsByBlockHash = (\<lambda>_ s. (Inr [], s)), cs_MarkBlockProcessed = (\<lambda>_ _ _ s. (Inr (), s)),
     cs_ClearBlockProcessed = (\<lambda>_ s. (Inr (), s)), cs_MarkBlockBUMPBuilt = (\<lambda>_ _ _ s. (Inr (), s)),
     cs_MarkBlocksOrphaned = (\<lambda>_ _ s. ((0, None), s)), cs_GetBlockProcessingStatus = (\<lambda>_ s. (Inl ErrNotFound, s)),
     cs_AddBlockExpectedSubtrees = (\<lambda>_ _ s. (Inr (), s)), cs_GetBlockExpectedSubtrees = (\<lambda>_ s. (Inr [2], s)),
     cs_ClearBlockExpectedSubtrees = (\<lambda>_ s. (Inr (), s)), cs_ListBlockProcessingStatus = (\<lambda>_ _ s. (Inr [], s)),
     cs_GetActiveTipBlockHeight = (\<lambda>s. (Inr 9, s)), cs_ListOrphanedBlocksToReconcile = (\<lambda>_ s. (Inr [], s)),
     cs_MarkBlockReconciled = (\<lambda>_ _ _ s. (Inr True, s)), cs_ReactivateBlock = (\<lambda>_ _ _ s. (Inr True, s)),
     cs_RequeueOrphanedBlock = (\<lambda>_ _ s. (Inr True, s))\<rparr>"

definition stub_env :: chain_env where
  "stub_env = \<lparr>ce_done = (\<lambda>_. False), ce_now = (\<lambda>_. 7), ce_height = (\<lambda>_ _. HeightHash ''b''), ce_publish = (\<lambda>_. True)\<rparr>"

definition stub_config :: build_config where
  "stub_config = \<lparr>bd_hasChainHeader = True, bd_AnchorGuardEnabled = True, bd_hasPublisher = True, bd_GraceWindowMs = 0, bd_HeaderWaitMs = 0,
     bd_DataHubMaxBlockBytes = 0, bd_StumpRetentionMinutes = 0, bd_RecencyDepth = 0\<rparr>"

definition stub_callback :: callback_message where
  "stub_callback = \<lparr>cb_Type = ''BLOCK_PROCESSED'', cb_TxID = [], cb_TxIDs = [], cb_BlockHash = ''b'', cb_SubtreeIndex = 0, cb_Stump = [],
     cb_MerkleRoot = [], cb_SubtreeCount = 0, cb_SubtreeHashes = [], cb_CoinbaseBUMP = [], cb_ExpectedSubtreeIndices = [0, 1]\<rparr>"

definition stub_world :: "unit chain_world" where
  "stub_world = \<lparr>cw_store = (), cw_tick = 0, cw_trace = []\<rparr>"

definition stub_sdk :: "bytes sdk" where
  "stub_sdk = no_sdk\<lparr>sdk_parse := (\<lambda>d. if d = ''bump'' then Some \<lparr>mp_BlockHeight = 9, mp_Path = [[hash_elem 1 ''t'']]\<rparr> else None)\<rparr>"

definition stub_datahub :: "bytes datahub_env" where
  "stub_datahub = \<lparr>dh_get = (\<lambda>_. None), dh_header = (\<lambda>_. (HeaderNil, [])), dh_client = \<lparr>tn_endpoints = [], tn_health = Map.empty,
     failureThreshold = 3, broadcastFailureThreshold = 3, minHealthyEndpoints = 0, belowThreshold = False\<rparr>\<rparr>"

abbreviation stub_run :: "(string \<times> bool) \<times> unit chain_world" where
  "stub_run \<equiv> run_state (builder_handleMessage stub_store stub_config stub_env stub_sdk byte_wire stub_datahub (\<lambda>_. Some stub_callback) []) stub_world"

lemma stub_run_trace:
  "stub_run = ((''short_circuited'', False), \<lparr>cw_store = (), cw_tick = 4, cw_trace = [ReadExpected ''b'' (Inr [2]), ReadBUMP ''b'' (Inr (9, ''bump'')),
     ReadStumps ''b'' (Inr []), Asked 9 (HeightHash ''b''), Mined ''b'' 9 [''t''] [seen_row] [mined_row] None,
     Published (empty_status\<lparr>ts_Status := StatusMined, ts_BlockHash := ''b'', ts_BlockHeight := 9, ts_Timestamp := Some 5, ts_TxIDs := [''t''], ts_ExtraInfo := []\<rparr>) True,
     Stamped ''b'' 9]\<rparr>)"
  by (simp add: builder_handleMessage_def stub_callback_def widenExpectedSubtrees_def call_def stub_store_def stub_world_def handle_callback_def
      handleRedelivery_def loadStoredBUMP_def levelZeroTxidsFromBUMP_def stub_sdk_def path_leaves_def List.map_filter_def hash_elem_def no_sdk_def
      read_stumps_def leavesBeyondStoredBUMP_def shortCircuit_def anchorDecision_def stub_config_def observe_def jot_def stub_env_def blockFinalized_def
      markMinedAndPublish_def setMinedAndPublish_def slices.simps maxTxIDsPerBulkEvent_def PublishBulk_def mined_template_def mined_row_def seen_row_def
      markBlockProcessed_def empty_status_def)


section \<open>Announcements\<close>

lemma slices_spec:
  assumes "0 < n"
  shows "concat (slices n xs) = xs \<and> (\<forall>c \<in> set (slices n xs). c \<noteq> [] \<and> length c \<le> n)"
  using assms
proof (induction n xs rule: slices.induct)
  case (1 n xs)
  then show ?case by (subst (1 2) slices.simps) auto
qed

lemma publish_chunks_trace:
  assumes "run_state (publish_chunks ev b h info chunks) w = (oks, w')"
  shows "cw_store w' = cw_store w \<and> (\<exists>sent. cw_trace w' = cw_trace w @ map (\<lambda>(t, ok). Published t ok) sent \<and> oks = list_all snd sent \<and>
     list_all2 (\<lambda>c (t, ok). \<exists>now. t = mined_template b h info now c) chunks sent)"
  using assms
proof (induction chunks arbitrary: w oks w')
  case (Cons c chunks)
  let ?t = "mined_template b h info (ce_now ev (cw_tick w)) c" and ?ok = "ce_publish ev (Suc (cw_tick w))"
  let ?w = "w\<lparr>cw_tick := Suc (Suc (cw_tick w)), cw_trace := cw_trace w @ [Published ?t ?ok]\<rparr>"
  obtain oks' w2 where r: "run_state (publish_chunks ev b h info chunks) ?w = (oks', w2)" by fastforce
  have e: "oks = (?ok \<and> oks')" "w' = w2" using Cons.prems r by (simp_all add: observe_def PublishBulk_def jot_def)
  obtain sent where s: "cw_trace w2 = cw_trace w @ [Published ?t ?ok] @ map (\<lambda>(t, ok). Published t ok) sent" "oks' = list_all snd sent"
      "list_all2 (\<lambda>c (t, ok). \<exists>now. t = mined_template b h info now c) chunks sent" "cw_store w2 = cw_store w"
    using Cons.IH [OF r] by auto
  show ?case
    by (intro conjI exI [of _ "(?t, ?ok) # sent"]) (use s e in auto)
qed simp

lemma sent_rows:
  assumes "list_all2 (\<lambda>c (t, ok). \<exists>now. t = mined_template b h info now c) chunks sent"
  shows "concat (map (ts_TxIDs \<circ> fst) sent) = map ts_TxID (concat chunks)"
  using assms by (induction rule: list_all2_induct) (auto simp: mined_template_def)

lemma sent_ok:
  assumes "list_all2 (\<lambda>c (t, ok). \<exists>now. t = mined_template b h info now c) chunks sent"
    and "\<forall>c \<in> set chunks. c \<noteq> [] \<and> length c \<le> m \<and> set c \<subseteq> set mined"
  shows "list_all (\<lambda>(t, ok). ts_TxIDs t \<noteq> [] \<and> length (ts_TxIDs t) \<le> m \<and> ts_Status t = StatusMined \<and> ts_BlockHash t = b \<and> ts_BlockHeight t = h \<and>
      (\<exists>row \<in> set mined. ts_TxID row = hd (ts_TxIDs t) \<and> ts_Timestamp row \<in> {None, ts_Timestamp t})) sent"
  using assms
proof (induction rule: list_all2_induct)
  case (Cons c cs e sent)
  obtain now ok where e: "e = (mined_template b h info now c, ok)" using Cons(1) by auto
  have "hd c \<in> set mined" "c \<noteq> []" "length c \<le> m" using Cons.prems by auto
  then show ?case using Cons unfolding e by (auto simp: mined_template_def hd_map split: option.split intro!: bexI [of _ "hd c"])
qed simp

text \<open>
  C30. Every row the store anchored is announced exactly once, also when the store call failed half way. After one store
  call \<open>setMinedAndPublish\<close> sends events whose transaction lists, one after the other, are the anchored rows in order
  (of a redelivery, those whose anchor changed). No event is empty or carries more than 5000 transactions; each names the
  block and its height, and bears the store's timestamp of its first row when that row has one. The count is that of the
  announced rows, the error is the store's, and the flag says whether every event went out.
\<close>

theorem setMinedAndPublish_announces:
  assumes "run_state (setMinedAndPublish S ev True b h txids info onlyChanged) w = ((n, err, oks), w')"
  shows "\<exists>prevs mined sent. cs_SetMinedByTxIDs S b h txids (cw_store w) = ((prevs, mined, err), cw_store w') \<and>
    cw_trace w' = cw_trace w @ Mined b h txids prevs mined err # map (\<lambda>(t, ok). Published t ok) sent \<and>
    concat (map (ts_TxIDs \<circ> fst) sent) = map ts_TxID (if onlyChanged then changed_rows b prevs mined else mined) \<and>
    list_all (\<lambda>(t, ok). ts_TxIDs t \<noteq> [] \<and> length (ts_TxIDs t) \<le> 5000 \<and> ts_Status t = StatusMined \<and> ts_BlockHash t = b \<and> ts_BlockHeight t = h \<and>
      (\<exists>row \<in> set mined. ts_TxID row = hd (ts_TxIDs t) \<and> ts_Timestamp row \<in> {None, ts_Timestamp t})) sent \<and>
    n = length (if onlyChanged then changed_rows b prevs mined else mined) \<and> oks = list_all snd sent"
proof -
  obtain prevs mined err0 s where c: "cs_SetMinedByTxIDs S b h txids (cw_store w) = ((prevs, mined, err0), s)" by (metis prod_cases3 surj_pair)
  let ?rows = "if onlyChanged then changed_rows b prevs mined else mined"
  let ?w = "w\<lparr>cw_store := s, cw_trace := cw_trace w @ [Mined b h txids prevs mined err0]\<rparr>"
  have sub: "set ?rows \<subseteq> set mined" by (auto simp: changed_rows_def dest: set_zip_rightD)
  show ?thesis
  proof (cases "?rows = []")
    case True
    then have "(n, err, oks) = (0, err0, True)" "w' = ?w"
      using assms c by (auto simp: setMinedAndPublish_def call_def Let_def split: if_splits)
    then show ?thesis using c True by (intro exI [of _ prevs] exI [of _ mined] exI [of _ "[]"]) auto
  next
    case False
    then have "mined \<noteq> []" using sub by auto
    then obtain oks' where p: "run_state (publish_chunks ev b h info (slices maxTxIDsPerBulkEvent ?rows)) ?w = (oks', w')"
        and e: "n = length ?rows" "err = err0" "oks = oks'"
      using assms c False by (auto simp: setMinedAndPublish_def call_def Let_def split: prod.splits if_splits)
    obtain sent where st: "cw_store w' = s" and tr: "cw_trace w' = cw_trace ?w @ map (\<lambda>(t, ok). Published t ok) sent" and ok: "oks' = list_all snd sent"
        and two: "list_all2 (\<lambda>c (t, ok). \<exists>now. t = mined_template b h info now c) (slices maxTxIDsPerBulkEvent ?rows) sent"
      using publish_chunks_trace [OF p] by auto
    have sl: "concat (slices maxTxIDsPerBulkEvent ?rows) = ?rows" and ne: "\<forall>c \<in> set (slices maxTxIDsPerBulkEvent ?rows). c \<noteq> [] \<and> length c \<le> 5000"
      using slices_spec [of maxTxIDsPerBulkEvent ?rows] by (simp_all add: maxTxIDsPerBulkEvent_def)
    have "set c \<subseteq> set mined" if "c \<in> set (slices maxTxIDsPerBulkEvent ?rows)" for c
      using that sub arg_cong [OF sl, of set] by auto
    with ne have "\<forall>c \<in> set (slices maxTxIDsPerBulkEvent ?rows). c \<noteq> [] \<and> length c \<le> 5000 \<and> set c \<subseteq> set mined" by blast
    from sent_ok [OF two this] show ?thesis
      by (intro exI [of _ prevs] exI [of _ mined] exI [of _ sent] conjI)
         (use c st tr ok e sent_rows [OF two] sl in simp_all)
  qed
qed

theorem setMinedAndPublish_announces_witness:
  "\<exists>prevs mined (sent :: (transaction_status \<times> bool) list). cs_SetMinedByTxIDs stub_store ''b'' 9 [''t''] () = ((prevs, mined, None), ()) \<and>
     concat (map (ts_TxIDs \<circ> fst) sent) = map ts_TxID (changed_rows ''b'' prevs mined) \<and> length (changed_rows ''b'' prevs mined) = 1"
proof -
  have "\<exists>w'. run_state (setMinedAndPublish stub_store stub_env True ''b'' 9 [''t''] [] True) stub_world = ((1, None, True), w')"
    by (simp add: setMinedAndPublish_def call_def stub_store_def stub_world_def changed_rows_def seen_row_def mined_row_def empty_status_def
        slices.simps maxTxIDsPerBulkEvent_def PublishBulk_def observe_def jot_def stub_env_def)
  then obtain w' where "run_state (setMinedAndPublish stub_store stub_env True ''b'' 9 [''t''] [] True) stub_world = ((1, None, True), w')" by blast
  from setMinedAndPublish_announces [OF this, unfolded if_True] obtain prevs mined and sent :: "(transaction_status \<times> bool) list" where
      r: "cs_SetMinedByTxIDs stub_store ''b'' 9 [''t''] (cw_store stub_world) = ((prevs, mined, None), cw_store w')"
      "concat (map (ts_TxIDs \<circ> fst) sent) = map ts_TxID (changed_rows ''b'' prevs mined)" "1 = length (changed_rows ''b'' prevs mined)"
    by (elim exE conjE) (rule that)
  have "cw_store stub_world = ()" "cw_store w' = ()" by simp_all
  with r show ?thesis by (intro exI [of _ prevs] exI [of _ mined] exI [of _ sent]) simp
qed

end
