(* ===== verification/Builder_Janitor.thy ===== *)
theory Builder_Janitor
  imports Builder Pebble_Bump Pebble_Paging
begin

text \<open>
  The STUMP janitor of \<open>services/bump_builder/builder.go\<close>: what it relies on of a store as a locale, that its walk
  ends, deletes no STUMP of a block that is being driven or still retained, and misses no other block in its window.
\<close>

locale block_pages =
  fixes S :: "'s chain_store" and good :: "'s \<Rightarrow> bool" and desc :: "'s \<Rightarrow> block_processing_status list" and gone :: "block_hash \<Rightarrow> 's \<Rightarrow> bool"
    and tip_of :: "'s \<Rightarrow> nat"
  assumes list_page: "good s \<Longrightarrow> 0 < cursor \<Longrightarrow> cursor < 2 ^ 64 \<Longrightarrow>
      cs_ListBlockProcessingStatus S cursor 200 s = (Inr (take 200 (filter (\<lambda>x. bp_BlockHeight x < cursor) (desc s))), s)"
    and desc_sorted: "good s \<Longrightarrow> sorted_wrt (\<lambda>a b. bp_BlockHeight b \<le> bp_BlockHeight a) (desc s)"
    and delete_gone: "good s \<Longrightarrow> cs_DeleteStumpsByBlockHash S b s = (deleted, s') \<Longrightarrow>
      good s' \<and> desc s' = desc s \<and> gone b s' \<and> (\<forall>c. gone c s \<longrightarrow> gone c s')"
    and tip_reads: "good s \<Longrightarrow> cs_GetActiveTipBlockHeight S s = (Inr (tip_of s), s) \<and> tip_of s + 1 < 2 ^ 64"
begin

definition kept :: "block_processing_status list \<Rightarrow> ('s \<Rightarrow> bool) \<Rightarrow> 's chain_world \<Rightarrow> bool" where
  "kept D I w \<longleftrightarrow> good (cw_store w) \<and> desc (cw_store w) = D \<and> I (cw_store w)"

text \<open>A property of the store that deleting the STUMPs of a row that may be pruned does not end.\<close>

definition spares :: "block_processing_status list \<Rightarrow> ('s \<Rightarrow> bool) \<Rightarrow> unix_ns \<Rightarrow> int \<Rightarrow> bool" where
  "spares D I now retention \<longleftrightarrow>
     (\<forall>s x r s'. good s \<longrightarrow> I s \<longrightarrow> x \<in> set D \<longrightarrow> prunable now retention x \<longrightarrow> cs_DeleteStumpsByBlockHash S (bp_BlockHash x) s = (r, s') \<longrightarrow> I s')"

definition all_gone :: "unix_ns \<Rightarrow> int \<Rightarrow> block_processing_status set \<Rightarrow> 's \<Rightarrow> bool" where
  "all_gone now retention X s \<longleftrightarrow> (\<forall>x \<in> X. prunable now retention x \<longrightarrow> gone (bp_BlockHash x) s)"

lemma kept_observe [simp]: "kept D I (w\<lparr>cw_tick := k\<rparr>) = kept D I w"
  by (simp add: kept_def)

lemma spares_gone: "spares D I now retention \<Longrightarrow> spares D (\<lambda>s. I s \<and> all_gone now retention X s) now retention"
  using delete_gone unfolding spares_def all_gone_def by blast

lemma prune_rows_gone:
  assumes "spares D I now retention" and "set xs \<subseteq> set D"
  shows "triple (kept D I) (prune_rows S now retention xs) (\<lambda>_. kept D (\<lambda>s. I s \<and> all_gone now retention (set xs) s))"
  using assms
proof (induction xs arbitrary: I)
  case (Cons x xs)
  have IH: "triple (kept D (\<lambda>s. I s \<and> all_gone now retention {x} s)) (prune_rows S now retention xs)
      (\<lambda>_. kept D (\<lambda>s. I s \<and> all_gone now retention (set (x # xs)) s))"
    by (rule triple_weaken [OF Cons.IH [OF spares_gone [OF Cons.prems(1), where X = "{x}"]]]) (use Cons.prems in \<open>auto simp: kept_def all_gone_def\<close>)
  have del: "triple (kept D I) (call (cs_DeleteStumpsByBlockHash S (bp_BlockHash x)) noted) (\<lambda>_. kept D (\<lambda>s. I s \<and> all_gone now retention {x} s))"
    if "prunable now retention x" for noted
  proof (rule triple_call)
    fix w r s
    assume w: "kept D I w" and d: "cs_DeleteStumpsByBlockHash S (bp_BlockHash x) (cw_store w) = (r, s)"
    have "good (cw_store w)" "I (cw_store w)" "x \<in> set D" using w Cons.prems(2) by (simp_all add: kept_def)
    moreover have "I s" using calculation that d Cons.prems(1) unfolding spares_def by blast
    ultimately show "kept D (\<lambda>s. I s \<and> all_gone now retention {x} s) (w\<lparr>cw_store := s, cw_trace := cw_trace w @ noted r\<rparr>)"
      using delete_gone [OF _ d] w by (simp add: kept_def all_gone_def)
  qed
  have "triple (kept D I) (prune_rows S now retention xs) (\<lambda>_. kept D (\<lambda>s. I s \<and> all_gone now retention (set (x # xs)) s))"
    if "\<not> prunable now retention x"
    by (rule triple_weaken [OF IH]) (use that in \<open>auto simp: kept_def all_gone_def\<close>)
  then show ?case using triple_bind [OF del IH] by simp
qed (auto intro: triple_ret simp: kept_def all_gone_def)

text \<open>The rows the walk still has to see.\<close>

definition ahead :: "block_processing_status list \<Rightarrow> nat \<Rightarrow> nat \<Rightarrow> nat \<Rightarrow> block_processing_status set" where
  "ahead D tip depth cursor = {x \<in> set D. bp_BlockHeight x < cursor \<and> (depth < tip \<longrightarrow> tip - depth < bp_BlockHeight x)}"

definition walked :: "chain_env \<Rightarrow> block_processing_status list \<Rightarrow> ('s \<Rightarrow> bool) \<Rightarrow> unix_ns \<Rightarrow> int \<Rightarrow> nat \<Rightarrow> nat \<Rightarrow> nat \<Rightarrow> bool \<Rightarrow> 's chain_world \<Rightarrow> bool" where
  "walked ev D I now retention tip depth cursor ended w \<longleftrightarrow> ended \<and> kept D I w \<and>
     ((\<forall>k. \<not> ce_done ev k) \<longrightarrow> distinct (map bp_BlockHeight D) \<longrightarrow> all_gone now retention (ahead D tip depth cursor) (cw_store w))"

lemma page_ahead:
  assumes D: "sorted_wrt (\<lambda>a b. bp_BlockHeight b \<le> bp_BlockHeight a) D" "distinct (map bp_BlockHeight D)"
    and xs: "xs = take n (filter (\<lambda>x. bp_BlockHeight x < cursor) D)" "xs \<noteq> []"
  shows "ahead D tip depth cursor \<subseteq> set xs \<union> ahead D tip depth (bp_BlockHeight (last xs))"
proof
  fix x
  assume x: "x \<in> ahead D tip depth cursor"
  let ?F = "filter (\<lambda>x. bp_BlockHeight x < cursor) D"
  show "x \<in> set xs \<union> ahead D tip depth (bp_BlockHeight (last xs))"
  proof (cases "x \<in> set xs")
    case False
    have "set ?F = set xs \<union> set (drop n ?F)" unfolding xs(1) set_append [symmetric] append_take_drop_id ..
    moreover have "x \<in> set ?F" using x by (simp add: ahead_def)
    ultimately have "x \<in> set (drop n ?F)" using False by blast
    moreover have "sorted_wrt (\<lambda>a b. bp_BlockHeight b \<le> bp_BlockHeight a) (xs @ drop n ?F)"
      unfolding xs(1) append_take_drop_id by (rule sorted_wrt_filter [OF D(1)])
    ultimately have "bp_BlockHeight x \<le> bp_BlockHeight (last xs)" using xs(2) by (simp add: sorted_wrt_append)
    moreover have "last xs \<in> set D" "x \<in> set D" "last xs \<noteq> x"
      using last_in_set [OF xs(2)] False x in_set_takeD [of "last xs" n ?F] xs(1) by (auto simp: ahead_def)
    then have "bp_BlockHeight x \<noteq> bp_BlockHeight (last xs)" using D(2) by (auto simp: distinct_map inj_on_def)
    ultimately show ?thesis using x by (simp add: ahead_def)
  qed simp
qed

lemma prune_loop_walks:
  assumes "spares D I now retention" and "cursor < fuel" and "0 < cursor" and "cursor < 2 ^ 64"
  shows "triple (kept D I) (prune_loop fuel S ev tip depth now retention cursor) (walked ev D I now retention tip depth cursor)"
  using assms
proof (induction fuel arbitrary: cursor I)
  case (Suc fuel)
  let ?xs = "take 200 (filter (\<lambda>x. bp_BlockHeight x < cursor) D)"
  let ?oldest = "bp_BlockHeight (last ?xs)"
  let ?I = "\<lambda>s. I s \<and> all_gone now retention (set ?xs) s"
  let ?W = "walked ev D I now retention tip depth"
  have sub: "set ?xs \<subseteq> set D" by (auto dest: in_set_takeD)
  have sorted: "sorted_wrt (\<lambda>a b. bp_BlockHeight b \<le> bp_BlockHeight a) D" if "kept D J w" for J w
    using that desc_sorted by (auto simp: kept_def)
  have covered: "?W cursor True w" if k: "kept D ?I w" and ne: "?xs \<noteq> []"
      and rest: "distinct (map bp_BlockHeight D) \<Longrightarrow> (\<forall>k. \<not> ce_done ev k) \<Longrightarrow> all_gone now retention (ahead D tip depth ?oldest) (cw_store w)" for w
    using k rest page_ahead [OF sorted [OF k] _ refl ne, of tip depth] unfolding walked_def kept_def all_gone_def by blast
  have tail: "triple (kept D ?I) (if depth < tip \<and> ?oldest \<le> tip - depth \<and> \<not> list_ex (retained now retention) ?xs then ret True
      else if ?oldest = 0 then ret True else prune_loop fuel S ev tip depth now retention ?oldest) (?W cursor)" if ne: "?xs \<noteq> []"
  proof -
    have "last ?xs \<in> set ?xs" using ne by (rule last_in_set)
    then have lower: "?oldest < cursor" by (auto dest!: in_set_takeD)
    have "ahead D tip depth ?oldest = {}" if "?oldest = 0 \<or> depth < tip \<and> ?oldest \<le> tip - depth" using that by (auto simp: ahead_def)
    then have stop: "triple (kept D ?I) (ret True) (?W cursor)" if "?oldest = 0 \<or> depth < tip \<and> ?oldest \<le> tip - depth"
      using that covered [OF _ ne] by (intro triple_ret) (simp add: all_gone_def)
    have "triple (kept D ?I) (prune_loop fuel S ev tip depth now retention ?oldest) (?W cursor)" if "?oldest \<noteq> 0"
    proof (rule triple_weaken [OF Suc.IH [OF spares_gone [OF Suc.prems(1)]]])
      show "?W cursor ended w" if "walked ev D ?I now retention tip depth ?oldest ended w" for ended w
        using that covered [of w, OF _ ne] unfolding walked_def by blast
    qed (use that lower Suc.prems in auto)
    then show ?thesis using stop by (intro triple_if) auto
  qed
  have page: "triple (kept D I) (call (cs_ListBlockProcessingStatus S cursor 200) noted) (\<lambda>r w. r = Inr ?xs \<and> kept D I w)" for noted
    by (rule triple_call) (use list_page [of _ cursor] Suc.prems(3,4) in \<open>auto simp: kept_def\<close>)
  have listed: "triple (\<lambda>w. r = Inr ?xs \<and> kept D I w) (case r of Inl _ \<Rightarrow> ret True
      | Inr xs \<Rightarrow> if xs = [] then ret True else do { prune_rows S now retention xs;
          (let oldest = bp_BlockHeight (last xs) in
           if tip > depth \<and> oldest \<le> tip - depth \<and> \<not> list_ex (retained now retention) xs then ret True
           else if oldest = 0 then ret True else prune_loop fuel S ev tip depth now retention oldest) }) (?W cursor)" for r
  proof (rule triple_pure)
    assume r: "r = Inr ?xs"
    have "triple (kept D I) (ret True) (?W cursor)" if "?xs = []"
      by (rule triple_ret) (use that in \<open>auto simp: walked_def all_gone_def ahead_def filter_empty_conv\<close>)
    then show "triple (kept D I) (case r of Inl _ \<Rightarrow> ret True
      | Inr xs \<Rightarrow> if xs = [] then ret True else do { prune_rows S now retention xs;
          (let oldest = bp_BlockHeight (last xs) in
           if tip > depth \<and> oldest \<le> tip - depth \<and> \<not> list_ex (retained now retention) xs then ret True
           else if oldest = 0 then ret True else prune_loop fuel S ev tip depth now retention oldest) }) (?W cursor)"
      unfolding r sum.case Let_def by (intro triple_if triple_bind [OF prune_rows_gone [OF Suc.prems(1) sub]] tail)
  qed
  have o: "triple (kept D I) (observe (ce_done ev)) (\<lambda>b w. (b \<longrightarrow> (\<exists>k. ce_done ev k)) \<and> kept D I w)" by (rule triple_observe) auto
  have ended: "triple (\<lambda>w. (b \<longrightarrow> (\<exists>k. ce_done ev k)) \<and> kept D I w) (ret True) (?W cursor)" if b for b
    using that by (intro triple_ret) (auto simp: walked_def)
  show ?case unfolding prune_loop.simps
    by (rule triple_bind [OF o], rule triple_if, erule ended, rule triple_pure, rule triple_bind [OF page listed])
qed simp

lemma janitor:
  assumes "spares D I (ce_now ev k) (stumpRetention cf)"
  shows "triple (\<lambda>w. (cw_tick w = k \<and> tip_of (cw_store w) = T) \<and> kept D I w) (pruneOrphanStumps S cf ev)
     (\<lambda>ended w. ended \<and> kept D I w \<and> (T \<noteq> 0 \<longrightarrow>
        walked ev D I (ce_now ev k) (stumpRetention cf) T (if bd_RecencyDepth cf \<le> 0 then 144 else nat (bd_RecencyDepth cf)) (T + 1) True w))"
proof -
  let ?depth = "if bd_RecencyDepth cf \<le> 0 then 144 else nat (bd_RecencyDepth cf)"
  let ?W = "walked ev D I (ce_now ev k) (stumpRetention cf) T ?depth (T + 1)"
  let ?R = "\<lambda>ended w. ended \<and> kept D I w \<and> (T \<noteq> 0 \<longrightarrow> ?W True w)"
  have t: "triple (\<lambda>w. (cw_tick w = k \<and> tip_of (cw_store w) = T) \<and> kept D I w) (call (cs_GetActiveTipBlockHeight S) (\<lambda>_. []))
      (\<lambda>r w. (r = Inr T \<and> T + 1 < 2 ^ 64) \<and> cw_tick w = k \<and> kept D I w)"
    by (rule triple_call) (use tip_reads in \<open>auto simp: kept_def\<close>)
  have o: "triple (\<lambda>w. cw_tick w = k \<and> kept D I w) (observe (ce_now ev)) (\<lambda>now w. now = ce_now ev k \<and> kept D I w)"
    by (rule triple_observe) auto
  have go: "triple (\<lambda>w. cw_tick w = k \<and> kept D I w)
      (do { now \<leftarrow> observe (ce_now ev); prune_loop (T + 2) S ev T ?depth now (stumpRetention cf) (T + 1) }) ?R" if "T + 1 < 2 ^ 64"
  proof (rule triple_bind [OF o], rule triple_pure, rule triple_weaken [OF prune_loop_walks [where D = D and I = I]])
    show "?R ended w" if "walked ev D I now (stumpRetention cf) T ?depth (T + 1) ended w" "now = ce_now ev k" for ended w now
      using that unfolding walked_def by blast
  qed (use that assms in simp_all)
  show ?thesis unfolding pruneOrphanStumps_def
  proof (rule triple_bind [OF t], rule triple_pure)
    fix r :: "nat result"
    assume r: "r = Inr T \<and> T + 1 < 2 ^ 64"
    then show "triple (\<lambda>w. cw_tick w = k \<and> kept D I w) (case r of Inl _ \<Rightarrow> ret True
        | Inr tip \<Rightarrow> if tip = 0 then ret True else do {
            now \<leftarrow> observe (ce_now ev);
            prune_loop (tip + 2) S ev tip ?depth now (stumpRetention cf) (tip + 1) }) ?R"
      unfolding conjunct1 [OF r] sum.case by (intro triple_if triple_ret go) simp_all
  qed
qed

end

end
