(* ===== verification/Builder_Pebble.thy ===== *)
theory Builder_Pebble
  imports Builder_Janitor
begin

text \<open>
  The embedded store (\<open>store/pebble/pebble.go\<close>) as the store of the builder, and the janitor over it.
\<close>

section \<open>The store\<close>

definition as_result :: "'a \<times> store_error option \<Rightarrow> 'a result" where
  "as_result p = (case snd p of None \<Rightarrow> Inr (fst p) | Some e \<Rightarrow> Inl e)"

definition reading :: "('db \<Rightarrow> 'a) \<Rightarrow> ('db, 'l, 'r) bump_store \<Rightarrow> 'a \<times> ('db, 'l, 'r) bump_store" where
  "reading f s = (f (bs_db s), s)"

definition writing :: "('db \<Rightarrow> 'a \<times> 'db) \<Rightarrow> ('db, 'l, 'r) bump_store \<Rightarrow> 'a \<times> ('db, 'l, 'r) bump_store" where
  "writing f s = (case f (bs_db s) of (r, d) \<Rightarrow> (r, s\<lparr>bs_db := d\<rparr>))"

text \<open>The clock the store reads in a call is the argument \<open>now\<close>.\<close>

definition pebble_chain ::
    "'db pebble \<Rightarrow> (bytes \<Rightarrow> bytes) \<Rightarrow> ('l, 'h CompoundIndex) lru \<Rightarrow> ctx \<Rightarrow> unix_ns \<Rightarrow> ('db, 'l, 'r) bump_store chain_store" where
  "pebble_chain pb sha256 L ctx now = \<lparr>
     cs_GetBUMP = (\<lambda>b. reading (GetBUMP pb ctx b)),
     cs_InsertBUMP = (\<lambda>b h data. InsertBUMP pb L ctx b h data),
     cs_GetStumpsByBlockHash = (\<lambda>b. reading (\<lambda>d. as_result (GetStumpsByBlockHash pb sha256 ctx b d))),
     cs_DeleteStumpsByBlockHash = (\<lambda>b. writing (DeleteStumpsByBlockHash pb ctx b)),
     cs_SetMinedByTxIDs = (\<lambda>b h txids. writing (SetMinedByTxIDs pb ctx now b h txids)),
     cs_SetStatusByBlockHash = (\<lambda>b st. writing (SetStatusByBlockHash pb ctx now b st)),
     cs_GetTxIDsByBlockHash = (\<lambda>b. reading (\<lambda>d. as_result (GetTxIDsByBlockHash pb ctx b d))),
     cs_MarkBlockProcessed = (\<lambda>b h at. writing (MarkBlockProcessed pb ctx b h (Some at))),
     cs_ClearBlockProcessed = (\<lambda>b. writing (ClearBlockProcessed pb ctx b)),
     cs_MarkBlockBUMPBuilt = (\<lambda>b h at. writing (MarkBlockBUMPBuilt pb ctx b h (Some at))),
     cs_MarkBlocksOrphaned = (\<lambda>bs at. writing (MarkBlocksOrphaned pb ctx bs (Some at))),
     cs_GetBlockProcessingStatus = (\<lambda>b. reading (GetBlockProcessingStatus pb ctx b)),
     cs_AddBlockExpectedSubtrees = (\<lambda>b xs. writing (AddBlockExpectedSubtrees pb ctx b xs)),
     cs_GetBlockExpectedSubtrees = (\<lambda>b. reading (GetBlockExpectedSubtrees pb ctx b)),
     cs_ClearBlockExpectedSubtrees = (\<lambda>b. writing (ClearBlockExpectedSubtrees pb ctx b)),
     cs_ListBlockProcessingStatus = (\<lambda>before limit. reading (\<lambda>d. as_result (ListBlockProcessingStatus pb ctx before (int limit) d))),
     cs_GetActiveTipBlockHeight = reading (GetActiveTipBlockHeight pb ctx),
     cs_ListOrphanedBlocksToReconcile = (\<lambda>limit. reading (ListOrphanedBlocksToReconcile pb ctx limit)),
     cs_MarkBlockReconciled = (\<lambda>b orphanedAt at. writing (MarkBlockReconciled pb ctx b orphanedAt (Some at))),
     cs_ReactivateBlock = (\<lambda>b h orphanedAt. writing (ReactivateBlock pb ctx b h orphanedAt)),
     cs_RequeueOrphanedBlock = (\<lambda>b orphanedAt. writing (RequeueOrphanedBlock pb ctx b orphanedAt))\<rparr>"

section \<open>Deleting STUMPs\<close>

definition stump_key :: "block_hash \<Rightarrow> bytes \<Rightarrow> bool" where
  "stump_key b k \<longleftrightarrow> prefix (stumpBlockPrefix b) k \<or> prefix (idxStumpBlockPrefix b) k"

lemma DeleteStumps_view:
  assumes "pebble_ok pb view" and "pebble_up pb" and "uncancelled ctx" and "DeleteStumpsByBlockHash pb ctx b d = (r, d')"
  shows "view d' k = (if stump_key b k then None else view d k)"
proof -
  obtain rows where rows: "scan_prefix pb d (stumpBlockPrefix b) = Inr rows" by (rule scan_up [OF assms(2)])
  obtain entries where entries: "scan_prefix pb d (idxStumpBlockPrefix b) = Inr entries" by (rule scan_up [OF assms(2)])
  obtain d1 where d1: "commit_then pb d (map (\<lambda>kv. Del (fst kv)) (rows @ entries)) () = (Inr (), d1)"
      "view d1 = apply_batch (map (\<lambda>kv. Del (fst kv)) (rows @ entries)) (view d)" by (rule commit_then_up [OF assms(1,2)])
  have "d' = d1" using assms(4) rows entries d1(1) uncancelledD [OF assms(3)] by (simp add: DeleteStumpsByBlockHash_def read_then_def)
  moreover have "map (\<lambda>kv. Del (fst kv)) (rows @ entries) = map Del (map fst (rows @ entries))" by simp
  ultimately have "view d' k = (if k \<in> set (map fst (rows @ entries)) then None else view d k)" using d1(2) by (simp only: apply_batch_dels)
  moreover have "k \<in> set (map fst (rows @ entries)) \<longleftrightarrow> view d k \<noteq> None \<and> stump_key b k"
    using scan_prefix_keys [OF assms(1) rows] scan_prefix_keys [OF assms(1) entries] by (auto simp: stump_key_def)
  ultimately show ?thesis by auto
qed

lemma stump_key_other: "\<not> stump_key b (blockProcKey a)" "is_block_index k \<Longrightarrow> \<not> stump_key b k"
proof -
  show "\<not> stump_key b (blockProcKey a)"
    by (auto simp: stump_key_def blockProcKey_def stumpBlockPrefix_def idxStumpBlockPrefix_def prefix_defs prefix_def)
  show "\<not> stump_key b k" if "is_block_index k"
    using that by (auto simp: stump_key_def is_block_index_def stumpBlockPrefix_def idxStumpBlockPrefix_def prefix_defs prefix_def)
qed

lemma stump_frame:
  assumes "\<And>k. \<not> stump_key b k \<Longrightarrow> m' k = m k"
  shows "block_consistent m' = block_consistent m" and "stored_blocks m' = stored_blocks m" and "blocks_desc m' = blocks_desc m"
proof -
  have row: "m' (blockProcKey a) = m (blockProcKey a)" for a by (rule assms) (rule stump_key_other)
  have ix: "m' k = m k" if "is_block_index k" for k by (rule assms) (rule stump_key_other(2) [OF that])
  show "block_consistent m' = block_consistent m" unfolding block_consistent_def by (rule table_frame) (use row ix in auto)
  have at: "block_at m' = block_at m" by (simp add: fun_eq_iff block_at_def row)
  then show "stored_blocks m' = stored_blocks m" by (simp add: stored_blocks_def)
  have "{k. m' k \<noteq> None \<and> is_block_index k} = {k. m k \<noteq> None \<and> is_block_index k}" using ix by auto
  then show "blocks_desc m' = blocks_desc m" by (simp add: blocks_desc_def at)
qed

section \<open>The janitor over the embedded store\<close>

definition janitor_ready :: "kv \<Rightarrow> bool" where
  "janitor_ready m \<longleftrightarrow> block_consistent m \<and> (\<forall>b \<in> stored_blocks m. bk_BlockHeight b + 1 < 2 ^ 64)"

lemma pebble_block_pages:
  assumes ok: "pebble_ok pb view" and up: "pebble_up pb" and ctx: "uncancelled ctx"
  shows "block_pages (pebble_chain pb sha256 L ctx now :: ('db, 'l, 'r) bump_store chain_store) (\<lambda>s. janitor_ready (view (bs_db s))) (\<lambda>s. map blockToModel (blocks_desc (view (bs_db s))))
     (\<lambda>b s. \<forall>k. stump_key b k \<longrightarrow> view (bs_db s) k = None) (\<lambda>s. Max (insert 0 (active_heights (view (bs_db s)))))"
proof unfold_locales
  fix s :: "('db, 'l, 'r) bump_store" and cursor :: nat
  assume g: "janitor_ready (view (bs_db s))"
  then have c: "block_consistent (view (bs_db s))" by (simp add: janitor_ready_def)
  note rows = blocks_desc_rows [OF c height_index_finite [OF ok up]]
  show "sorted_wrt (\<lambda>a b. bp_BlockHeight b \<le> bp_BlockHeight a) (map blockToModel (blocks_desc (view (bs_db s))))"
    using rows(3) by (simp add: sorted_wrt_map)
  show "cs_ListBlockProcessingStatus (pebble_chain pb sha256 L ctx now) cursor 200 s =
      (Inr (take 200 (filter (\<lambda>x. bp_BlockHeight x < cursor) (map blockToModel (blocks_desc (view (bs_db s)))))), s)"
    if "0 < cursor" "cursor < 2 ^ 64"
  proof -
    have "below_height cursor = (\<lambda>x. bk_BlockHeight x < cursor)" using that(1) by (auto simp: below_height_def)
    then show ?thesis using ListBlockProcessingStatus_page [OF ok up c ctx that(2), of 200]
      by (simp add: pebble_chain_def reading_def as_result_def filter_map take_map comp_def)
  qed
  have "finite (active_heights (view (bs_db s)))" using rows(2) by (simp add: active_heights_def flip: rows(2))
  then have "Max (insert 0 (active_heights (view (bs_db s)))) \<in> insert 0 (active_heights (view (bs_db s)))" by (intro Max_in) auto
  then show "cs_GetActiveTipBlockHeight (pebble_chain pb sha256 L ctx now) s = (Inr (Max (insert 0 (active_heights (view (bs_db s))))), s) \<and>
      Max (insert 0 (active_heights (view (bs_db s)))) + 1 < 2 ^ 64"
    using GetActiveTipBlockHeight_exact [OF ok up c ctx] g by (auto simp: pebble_chain_def reading_def janitor_ready_def active_heights_def)
  fix b deleted and s' :: "('db, 'l, 'r) bump_store"
  assume "cs_DeleteStumpsByBlockHash (pebble_chain pb sha256 L ctx now) b s = (deleted, s')"
  then obtain d' where "DeleteStumpsByBlockHash pb ctx b (bs_db s) = (deleted, d')" "s' = s\<lparr>bs_db := d'\<rparr>"
    by (auto simp: pebble_chain_def writing_def split: prod.splits)
  then have v: "view (bs_db s') k = (if stump_key b k then None else view (bs_db s) k)" for k
    using DeleteStumps_view [OF ok up ctx] by fastforce
  note f = stump_frame [of b "view (bs_db s')" "view (bs_db s)"]
  show "janitor_ready (view (bs_db s')) \<and> map blockToModel (blocks_desc (view (bs_db s'))) = map blockToModel (blocks_desc (view (bs_db s))) \<and>
      (\<forall>k. stump_key b k \<longrightarrow> view (bs_db s') k = None) \<and>
      (\<forall>c. (\<forall>k. stump_key c k \<longrightarrow> view (bs_db s) k = None) \<longrightarrow> (\<forall>k. stump_key c k \<longrightarrow> view (bs_db s') k = None))"
    using f v g by (simp add: janitor_ready_def)
qed

interpretation mem_pages: block_pages "pebble_chain mem sha256 L (\<lambda>_. False) now" "\<lambda>s. janitor_ready (map_of (bs_db s))"
    "\<lambda>s. map blockToModel (blocks_desc (map_of (bs_db s)))" "\<lambda>b s. \<forall>k. stump_key b k \<longrightarrow> map_of (bs_db s) k = None"
    "\<lambda>s. Max (insert 0 (active_heights (map_of (bs_db s))))" for sha256 L now
  by (rule pebble_block_pages [OF mem_ok mem_up uncancelled_never])

lemma blockToModel_hash [simp]: "bp_BlockHash (blockToModel b) = bk_BlockHash b"
  by (simp add: blockToModel_def)

text \<open>A stored block that is stamped processed and whose BUMP was built at least the retention ago.\<close>

definition expired :: "unix_ns \<Rightarrow> int \<Rightarrow> storedBlockProcessing \<Rightarrow> bool" where
  "expired now retention b \<longleftrightarrow> bk_ProcessedUnixNs b \<noteq> 0 \<and> bk_BUMPBuiltUnixNs b \<noteq> 0 \<and> retention \<le> now - bk_BUMPBuiltUnixNs b"

lemma prunable_row: "prunable now retention (blockToModel b) = expired now retention b"
  by (auto simp: prunable_def blockToModel_def time_of_def expired_def)

text \<open>Deleting the STUMPs of rows that may be pruned changes no other entry.\<close>

lemma pebble_spares:
  assumes "pebble_ok pb view" and "pebble_up pb" and "uncancelled ctx" and "set bs = stored_blocks m"
    and I: "\<forall>k. view (bs_db s) k = m k \<or> (\<exists>b \<in> stored_blocks m. prunable now retention (blockToModel b) \<and> stump_key (bk_BlockHash b) k)"
    and x: "x \<in> set (map blockToModel bs)" "prunable now retention x"
    and d: "cs_DeleteStumpsByBlockHash (pebble_chain pb sha256 L ctx clock) (bp_BlockHash x) s = (r, s')"
  shows "\<forall>k. view (bs_db s') k = m k \<or> (\<exists>b \<in> stored_blocks m. prunable now retention (blockToModel b) \<and> stump_key (bk_BlockHash b) k)"
proof
  fix k
  obtain b where b: "b \<in> stored_blocks m" "x = blockToModel b" using x(1) assms(4) by auto
  obtain d' where "DeleteStumpsByBlockHash pb ctx (bp_BlockHash x) (bs_db s) = (r, d')" "s' = s\<lparr>bs_db := d'\<rparr>"
    using d by (auto simp: pebble_chain_def writing_def split: prod.splits)
  then have "view (bs_db s') k = (if stump_key (bp_BlockHash x) k then None else view (bs_db s) k)"
    using DeleteStumps_view [OF assms(1-3)] by fastforce
  then show "view (bs_db s') k = m k \<or> (\<exists>b \<in> stored_blocks m. prunable now retention (blockToModel b) \<and> stump_key (bk_BlockHash b) k)"
    using I b x(2) by (cases "stump_key (bp_BlockHash x) k") auto
qed


text \<open>A processed block of height 7 whose BUMP is long built, with one STUMP left.\<close>

definition old_block :: storedBlockProcessing where
  "old_block = (new_block ''b'' 7)\<lparr>bk_ProcessedUnixNs := 2, bk_BUMPBuiltUnixNs := 1\<rparr>"

definition old_db :: "(bytes \<times> payload) list" where
  "old_db = (stumpKey ''b'' 0 [], PStump \<lparr>st_BlockHash = ''b'', st_SubtreeIndex = 0, st_StumpData = ''s'', st_ContentHash = []\<rparr>) # fold mem_op (block_ops None old_block) []"

definition old_world :: "((bytes \<times> payload) list, (string \<times> nat CompoundIndex) list, (string \<times> unix_ns) list) bump_store chain_world" where
  "old_world = \<lparr>cw_store = \<lparr>bs_db = old_db, bs_cache = newWithLimits [] [] 100\<rparr>, cw_tick = 0, cw_trace = []\<rparr>"

definition late_env :: chain_env where
  "late_env = \<lparr>ce_done = (\<lambda>_. False), ce_now = (\<lambda>_. 4000000000000), ce_height = (\<lambda>_ _. HeightAbsent), ce_publish = (\<lambda>_. True)\<rparr>"

definition plain_config :: build_config where
  "plain_config = \<lparr>bd_hasChainHeader = False, bd_AnchorGuardEnabled = False, bd_hasPublisher = False, bd_GraceWindowMs = 0, bd_HeaderWaitMs = 0,
     bd_DataHubMaxBlockBytes = 0, bd_StumpRetentionMinutes = 0, bd_RecencyDepth = 0\<rparr>"

lemma old_db_stored: "block_consistent (map_of old_db)" "stored_blocks (map_of old_db) = {old_block}"
proof -
  let ?d = "fold mem_op (block_ops None old_block) []"
  have w: "block_write (\<lambda>_ new. new = old_block) (map_of []) (map_of ?d)"
    unfolding mem_view block_write_def
    by (intro exI [of _ None] exI [of _ old_block] conjI refl) (simp_all add: old_block_def block_row_ok_def colon_free_def)
  have c: "block_consistent (map_of ?d)" by (rule block_write_consistent [OF _ w]) (simp add: empty_block_consistent)
  obtain new where new: "new = old_block" "\<forall>h. block_at (map_of ?d) h = (if h = bk_BlockHash new then Some new else block_at (map_of []) h)"
    using block_write_at [OF w] by metis
  have "block_at (map_of []) h = None" for h by (simp add: block_at_def)
  then have s: "stored_blocks (map_of ?d) = {old_block}" using new by (auto simp: stored_blocks_def split: if_splits)
  have "stump_key ''b'' (stumpKey ''b'' 0 [])" by (simp add: stump_key_def stumpKey_def stumpBlockPrefix_def)
  then have f: "map_of old_db k = map_of ?d k" if "\<not> stump_key ''b'' k" for k using that by (auto simp: old_db_def)
  show "block_consistent (map_of old_db)" "stored_blocks (map_of old_db) = {old_block}"
    using stump_frame [where b = "''b''" and m' = "map_of old_db" and m = "map_of ?d", OF f] c s by simp_all
qed


end
