(* ===== verification/Spec2Isabelle.thy ===== *)
theory Spec2Isabelle
  imports Models Chunking Dispatcher_Pipeline Bump_Parts Pebble_Retry Pebble_Hydration Pebble_Paging Pebble_Sub_Correct Pebble_Leases
    Pebble_Bump Finality Propagation_Reaper Builder_Promises Builder_Pebble
begin

text \<open>
  A verification library for arcade, the transaction-broadcast service under \<open>src/\<close>.

  The program. Clients hand transactions to the API server, which queues them on Kafka. The propagation service
  admits them to a dispatcher that holds a transaction back while one of its parents is in flight, registers each
  batch with merkle-service, submits it to the Teranode peers, and turns their answers into statuses; what gets no
  verdict is queued again, parked in the store, and rebroadcast by a reaper. When a block is processed the
  BUMP builder merges the subtree paths (STUMPs) merkle-service delivered into one compound BUMP, stores it and
  moves the block's transactions to MINED; a reconciler heals the transactions of blocks that lose their height.
  The store keeps transaction, block and submission rows under one status lattice, and serves each transaction
  its minimal merkle path through a cache of parsed compounds.

  Conventions. A Go \<open>string\<close> or \<open>[]byte\<close> is a \<open>char list\<close>, a struct a record whose
  fields carry a two-letter prefix, an instant the nanoseconds of \<open>UnixNano\<close> (\<open>None\<close> the zero time); \<open>uint64\<close>
  arithmetic is written with its wrap-around. An operation returns an error or a value, and the new state. Code that is
  not under \<open>src/\<close> is an argument: go-sdk is the record \<open>sdk\<close>, the Pebble engine the record
  \<open>pebble\<close> (with \<open>pebble_ok\<close>, \<open>pebble_up\<close> as its documented behaviour), simplelru the record
  \<open>lru\<close>, the peers a function from endpoints and batch to answers. A cancelled context, the clock, random
  bytes, lost replies and the iteration order of Go maps are arguments too, so a theorem holds for all of them. Log,
  metric and trace calls are left out throughout. The library functions used (hex, sort, heap, strings, the
  regular expressions of the failure parser) are written out in \<open>Go_Prelude\<close>, \<open>Go_Heap\<close> and where they are called.

  Theories and code.
  \<^item> \<open>Models\<close> (\<open>models/\<close>): the status lattice \<open>CanTransitionFrom\<close>, the orphaned-anchor history, hex bytes.
  \<^item> \<open>Offset_Tracker\<close>, \<open>Mark_Queue\<close>, \<open>Dispatcher\<close>, \<open>Dispatcher_Graph\<close>, \<open>Dispatcher_Loop\<close>, \<open>Dispatcher_Pipeline\<close>,
    \<open>Chunking\<close> (\<open>services/propagation/offset_tracker.go, mark_queue.go, dispatcher.go, chunking.go\<close>): the
    waiter graph, the select loop as an event handler, and a pipeline of dispatcher and batches in flight as a
    step relation. A rejection takes exactly the waiting descendants, an acceptance releases exactly the children
    with nothing else in flight, no transaction is lost or doubled, the commit watermark never passes an unfinished offset.
  \<^item> \<open>Propagation_Verdict\<close>, \<open>Propagation_Broadcast\<close>, \<open>Propagation_Sound\<close> (\<open>propagator.go\<close> from
    \<open>failureLinesForLog\<close> to \<open>makeRequeueResults\<close>) with \<open>Teranode_Client\<close> (\<open>teranode/client.go\<close>) and
    \<open>Arc_Errors\<close> (\<open>errors/errors.go, validator/errmap.go\<close>): parsing of failure lists, placing of lines,
    votes, narrowing. Truthful peers are never misquoted.
  \<^item> \<open>Propagation_Retry\<close>, \<open>Propagation_Retry_Correct\<close>, \<open>Propagation_Grounds\<close>, \<open>Propagation_Layers\<close>,
    \<open>Propagation_Reaper\<close> (\<open>propagator.go\<close> from \<open>applyTerminalStatuses\<close> to \<open>schedulePendingRetry\<close>,
    \<open>reaper.go\<close>): the store is a record of operations over an arbitrary state, so it may fail or be changed by
    others between calls. Each transaction of a batch ends settled or queued again, every verdict has grounds, the
    ancestor walk equals its recursive specification, layers respect dependencies.
  \<^item> \<open>Merkle_Path\<close>, \<open>Compound_Index\<close>, \<open>Bump\<close>, \<open>Merkle_Tree\<close>, \<open>Bump_Correct\<close>, \<open>Bump_Parts\<close>
    (\<open>bump/\<close>): compound BUMPs measured against the merkle tree of the block.
  \<^item> \<open>Pebble_Keys\<close>, \<open>Pebble_DB\<close>, \<open>Pebble_Status\<close>, \<open>Pebble_Rows\<close>, \<open>Pebble_Status_Correct\<close>, \<open>Pebble_Retry\<close>,
    \<open>Pebble_Blocks\<close>, \<open>Pebble_Block_Rows\<close>, \<open>Pebble_Block_Queries\<close>, \<open>Pebble_Submissions\<close>, \<open>Pebble_Sub_Correct\<close>,
    \<open>Pebble_Leases\<close>, \<open>Paging\<close>, \<open>Pebble_Paging\<close>, \<open>Tx_Tracker\<close>, \<open>Pebble_Hydration\<close> (\<open>store/pebble/, store/paging.go,
    store/submissions.go, store/tracker.go, store/trackerscan.go\<close>): rows, their index entries as instances of the
    locale \<open>indexed_table\<close>, the lattice as an instance of \<open>guarded_writes\<close>; each operation is exact on a working
    engine, and the invariants hold over all interleavings, failures included.
  \<^item> \<open>Bump_Cache\<close>, \<open>Bump_Cache_Correct\<close>, \<open>Pebble_Bump\<close> (\<open>store/bumpcache/\<close>): a cached index is that of the
    stored compound or its invalidation is still to run.
  \<^item> \<open>Datahub\<close> (\<open>bump/datahub.go\<close>), \<open>Chain_World\<close>, \<open>Builder\<close>, \<open>Builder_Correct\<close>, \<open>Builder_Promises\<close>,
    \<open>Builder_Janitor\<close>, \<open>Builder_Pebble\<close> (\<open>services/bump_builder/builder.go\<close>): a block fetched from a datahub is that of
    the first acceptable endpoint and its binary form parses back. The builder is a program of the state monad over the
    methods of \<open>store.Store\<close> it calls (the record \<open>chain_store\<close>), the observations of the chain, the clock and the
    publisher, and a trace of what was asked and done; \<open>triple\<close> is its Hoare logic. Every stamp, stored BUMP, mine,
    deletion and orphaning in a trace is grounded in what stands before it, and every anchored row is announced once. The
    janitor relies on the locale \<open>block_pages\<close>, which the embedded store, \<open>pebble_chain\<close>, provides: its walk ends,
    spares what is still needed and misses nothing in its window.
  \<^item> \<open>Finality\<close> (\<open>finality/\<close>): the lock-time rule and its snapshot of the chain.

  Fuel and bounds. \<open>layerByDependency\<close> runs on one unit more than there are messages and \<open>ancestor_walk\<close> on
  the source's own depth bound, \<open>prune_loop\<close> on two units more than the height of the active tip, since each page
  starts below the last row of the one before; that the fuel is enough is part of the theorems. Every other loop is a terminating function.

  Not modelled. The anchor reconciler and the watchdog (\<open>services/bump_builder/reconciler.go\<close>, \<open>services/watchdog/\<close>) are left
  out; the store operations they call are modelled. The Aerospike, MongoDB and Postgres backends decide their semantics in query languages; the
  API, SSE, webhook, p2p, chaintracks and Kafka layers are transport around library calls; construction, tickers
  and shutdown of the services, configuration, metrics and tests are left out. The interleaving of goroutines is modelled
  where the code's correctness rests on it (dispatcher pipeline, cache, store rows, leases), not inside a single batch.
\<close>

end
